(* ===== verification/Prelude.thy ===== *)
theory Prelude
  imports Main "HOL-Library.Word" "HOL-Library.Monad_Syntax"
begin

text \<open>
  Shared vocabulary of the development: the machine types of the sources, byte sequences
  and their conversion to words, bounds-checked access to C++ vectors and raw memory, and
  the lemmas on lists and words that the component theories use.

  Conventions.
  \<^item> A value of type \<^typ>\<open>'a option\<close> returned by a memory operation is \<^term>\<open>None\<close>
    when the C++ code would access memory outside the object it indexes (undefined
    behaviour). The \<open>do\<close> notation of \<open>HOL-Library.Monad_Syntax\<close> propagates it.
  \<^item> \<open>std::size_t\<close> quantities that only count bytes held in memory are \<^typ>\<open>nat\<close>;
    every integer whose width can matter is a word.
\<close>

unbundle bit_operations_syntax

type_synonym byte = "8 word"
type_synonym u16 = "16 word"
type_synonym u32 = "32 word"
type_synonym u64 = "64 word"
type_synonym bytes = "byte list"

text \<open>Simplification rules that evaluate and cancel the byte codecs.\<close>
named_theorems codec_simps

text \<open>Facts that unfold the operations of a component in proofs about its callers.\<close>
named_theorems op_defs

section \<open>Bounds-checked memory\<close>

text \<open>Reading one element, and a run of elements, of a contiguous buffer.\<close>

definition mem_at :: "'a list \<Rightarrow> nat \<Rightarrow> 'a option" where
  "mem_at xs i = (if i < length xs then Some (xs ! i) else None)"

definition mem_sub :: "'a list \<Rightarrow> nat \<Rightarrow> nat \<Rightarrow> 'a list option" where
  "mem_sub xs i n = (if i + n \<le> length xs then Some (take n (drop i xs)) else None)"

text \<open>The elements of an iterator range \<open>[a, b)\<close>.\<close>

definition mem_range :: "'a list \<Rightarrow> nat \<Rightarrow> nat \<Rightarrow> 'a list option" where
  "mem_range xs a b = (if a \<le> b then mem_sub xs a (b - a) else None)"

text \<open>Writing one element, and \<open>memcpy\<close> of a run of elements, into an existing buffer.\<close>

definition mem_put :: "'a list \<Rightarrow> nat \<Rightarrow> 'a \<Rightarrow> 'a list option" where
  "mem_put xs i v = (if i < length xs then Some (xs[i := v]) else None)"

definition mem_write :: "'a list \<Rightarrow> nat \<Rightarrow> 'a list \<Rightarrow> 'a list option" where
  "mem_write xs i ys =
     (if i + length ys \<le> length xs then Some (take i xs @ ys @ drop (i + length ys) xs)
      else None)"

text \<open>\<open>std::vector::resize\<close> with a fill value: truncates or pads at the end.\<close>

definition vec_resize :: "'a list \<Rightarrow> nat \<Rightarrow> 'a \<Rightarrow> 'a list" where
  "vec_resize xs n v = take n xs @ replicate (n - length xs) v"

lemma mem_at_Some [simp]: "i < length xs \<Longrightarrow> mem_at xs i = Some (xs ! i)"
  by (simp add: mem_at_def)

lemma mem_sub_Some [simp]: "i + n \<le> length xs \<Longrightarrow> mem_sub xs i n = Some (take n (drop i xs))"
  by (simp add: mem_sub_def)

lemma mem_put_Some [simp]: "i < length xs \<Longrightarrow> mem_put xs i v = Some (xs[i := v])"
  by (simp add: mem_put_def)

lemma mem_write_Some [simp]:
  "i + length ys \<le> length xs \<Longrightarrow>
     mem_write xs i ys = Some (take i xs @ ys @ drop (i + length ys) xs)"
  by (simp add: mem_write_def)

lemma mem_at_eq_None: "mem_at xs i = None \<longleftrightarrow> length xs \<le> i"
  by (auto simp: mem_at_def)

lemma mem_sub_eq_None: "mem_sub xs i n = None \<longleftrightarrow> length xs < i + n"
  by (auto simp: mem_sub_def)

lemma mem_put_length: "mem_put xs i v = Some ys \<Longrightarrow> length ys = length xs"
  by (auto simp: mem_put_def split: if_splits)

lemma mem_write_length: "mem_write xs i ys = Some zs \<Longrightarrow> length zs = length xs"
  by (auto simp: mem_write_def split: if_splits)

lemma mem_sub_length: "mem_sub xs i n = Some ys \<Longrightarrow> length ys = n"
  by (auto simp: mem_sub_def split: if_splits)

lemma length_vec_resize [simp]: "length (vec_resize xs n v) = n"
  by (simp add: vec_resize_def)

lemma vec_resize_grow: "length xs \<le> n \<Longrightarrow> vec_resize xs n v = xs @ replicate (n - length xs) v"
  by (simp add: vec_resize_def)

lemma mem_sub_append_left [simp]:
  "i + n \<le> length xs \<Longrightarrow> mem_sub (xs @ ys) i n = mem_sub xs i n"
  by (simp add: mem_sub_def)

lemma mem_sub_prefix: "mem_sub (xs @ ys) 0 (length xs) = Some xs"
  by (simp add: mem_sub_def)

lemma mem_sub_skip: "mem_sub (xs @ ys) (length xs + i) n = mem_sub ys i n"
  by (simp add: mem_sub_def)

lemma mem_write_append_left:
  "mem_write (xs @ ys @ zs) (length xs) ws =
     (if length ws \<le> length ys + length zs then Some (xs @ ws @ drop (length ws) (ys @ zs)) else None)"
  by (simp add: mem_write_def)

lemma mem_range_all: "i \<le> length xs \<Longrightarrow> mem_range xs i (length xs) = Some (drop i xs)"
  by (simp add: mem_range_def)

lemma mem_put_write: "mem_put xs i v = mem_write xs i [v]"
  by (auto simp: mem_put_def mem_write_def upd_conv_take_nth_drop)

text \<open>Reading back what was written.\<close>

lemma mem_sub_mem_write:
  "mem_write xs i ys = Some zs \<Longrightarrow> mem_sub zs i (length ys) = Some ys"
  by (auto simp: mem_write_def split: if_splits)

lemma mem_sub_mem_write_disjoint:
  assumes "mem_write xs i ys = Some zs" and "j + n \<le> i \<or> i + length ys \<le> j"
  shows "mem_sub zs j n = mem_sub xs j n"
proof -
  have len: "i + length ys \<le> length xs"
    and zs: "zs = take i xs @ ys @ drop (i + length ys) xs"
    using assms(1) by (auto simp: mem_write_def split: if_splits)
  have lz: "length zs = length xs" using len by (simp add: zs)
  have nth: "zs ! k = xs ! k" if "k < length xs" "k < i \<or> i + length ys \<le> k" for k
    using that len by (auto simp: zs nth_append)
  show ?thesis
  proof (cases "j + n \<le> length xs")
    case True
    have "take n (drop j zs) = take n (drop j xs)"
      using True lz assms(2) by (intro nth_equalityI) (auto intro!: nth)
    then show ?thesis using True lz by (simp add: mem_sub_def)
  next
    case False
    then show ?thesis using lz by (simp add: mem_sub_def)
  qed
qed

lemma mem_range_mem_write_disjoint:
  "mem_write xs i ys = Some zs \<Longrightarrow> b \<le> i \<or> i + length ys \<le> a \<Longrightarrow> mem_range zs a b = mem_range xs a b"
  by (auto simp: mem_range_def mem_sub_mem_write_disjoint)

lemma list_ge_4E:
  assumes "4 \<le> length xs"
  obtains b0 b1 b2 b3 rest where "xs = b0 # b1 # b2 # b3 # rest"
  using assms that by (auto simp: Suc_le_length_iff eval_nat_numeral)

text \<open>The first sixteen elements of a list, for code that reads a whole SOME/IP header.\<close>

lemma list_ge_16E:
  assumes "16 \<le> length xs"
  obtains b0 b1 b2 b3 b4 b5 b6 b7 b8 b9 b10 b11 b12 b13 b14 b15 rest where
    "xs = b0 # b1 # b2 # b3 # b4 # b5 # b6 # b7 # b8 # b9 # b10 # b11 # b12 # b13 # b14 # b15 # rest"
  using assms that by (auto simp: Suc_le_length_iff eval_nat_numeral)

lemma sorted_wrt_less_last: "sorted_wrt (<) xs \<Longrightarrow> x \<in> set xs \<Longrightarrow> x \<le> last xs" for x :: "'a::linorder"
  by (induction xs) (auto split: if_splits intro: less_imp_le last_in_set)

section \<open>Words as byte sequences\<close>

text \<open>
  \<open>le_bytes n w\<close> lists the \<open>n\<close> low bytes of \<open>w\<close>, least significant first;
  \<open>le_word\<close> is its inverse.
\<close>

fun le_bytes :: "nat \<Rightarrow> 'a::len word \<Rightarrow> bytes" where
  "le_bytes 0 w = []"
| "le_bytes (Suc n) w = ucast w # le_bytes n (drop_bit 8 w)"

fun le_word :: "bytes \<Rightarrow> 'a::len word" where
  "le_word [] = 0"
| "le_word (b # bs) = ucast b OR push_bit 8 (le_word bs)"

definition be_bytes :: "nat \<Rightarrow> 'a::len word \<Rightarrow> bytes" where
  "be_bytes n w = rev (le_bytes n w)"

definition be_word :: "bytes \<Rightarrow> 'a::len word" where
  "be_word bs = le_word (rev bs)"

lemma le_bytes_numeral [codec_simps]:
  "le_bytes (numeral k) w = ucast w # le_bytes (pred_numeral k) (drop_bit 8 w)"
  by (simp add: numeral_eq_Suc)

lemma length_le_bytes [simp]: "length (le_bytes n w) = n"
  by (induction n arbitrary: w) auto

lemma length_be_bytes [simp]: "length (be_bytes n w) = n"
  by (simp add: be_bytes_def)

lemma bit_le_word_le_bytes:
  "bit (le_word (le_bytes n w) :: 'a::len word) k \<longleftrightarrow> k < 8 * n \<and> bit w k"
  for w :: "'a::len word"
proof (induction n arbitrary: w k)
  case 0
  then show ?case by simp
next
  case (Suc n)
  have "bit (le_word (le_bytes (Suc n) w) :: 'a word) k \<longleftrightarrow>
      (k < LENGTH('a) \<and> k < 8 \<and> bit w k) \<or>
      (k < LENGTH('a) \<and> 8 \<le> k \<and> k - 8 < 8 * n \<and> bit w (8 + (k - 8)))"
    by (auto simp: bit_or_iff bit_push_bit_iff bit_unsigned_iff Suc bit_drop_bit_eq
        dest: bit_imp_le_length)
  also have "\<dots> \<longleftrightarrow> k < 8 * Suc n \<and> bit w k"
    by (auto dest: bit_imp_le_length simp: not_less)
  finally show ?case .
qed

lemma le_word_le_bytes:
  "LENGTH('a) \<le> 8 * n \<Longrightarrow> (le_word (le_bytes n w) :: 'a::len word) = w"
  by (rule bit_eqI) (use bit_imp_le_length in \<open>auto simp: bit_le_word_le_bytes\<close>)

lemma be_word_be_bytes:
  "LENGTH('a) \<le> 8 * n \<Longrightarrow> (be_word (be_bytes n w) :: 'a::len word) = w"
  by (simp add: be_word_def be_bytes_def le_word_le_bytes)

lemma le_bytes_eqI:
  "(\<And>k. k < 8 * n \<Longrightarrow> bit v k = bit w k) \<Longrightarrow> le_bytes n v = le_bytes n w"
  for v w :: "'a::len word"
proof (induction n arbitrary: v w)
  case 0
  then show ?case by simp
next
  case (Suc n)
  have "ucast v = (ucast w :: byte)"
    by (rule bit_eqI) (auto simp: bit_unsigned_iff Suc.prems)
  moreover have "le_bytes n (drop_bit 8 v) = le_bytes n (drop_bit 8 w)"
    by (rule Suc.IH) (simp add: bit_drop_bit_eq Suc.prems)
  ultimately show ?case by simp
qed

lemma le_bytes_le_word:
  "8 * length bs \<le> LENGTH('a) \<Longrightarrow> le_bytes (length bs) (le_word bs :: 'a::len word) = bs"
proof (induction bs)
  case Nil
  then show ?case by simp
next
  case (Cons b bs)
  have low: "ucast (le_word (b # bs) :: 'a word) = b"
    using Cons.prems
    by (intro bit_eqI) (auto simp: bit_or_iff bit_push_bit_iff bit_unsigned_iff dest: bit_imp_le_length)
  have "bit (drop_bit 8 (le_word (b # bs) :: 'a word)) k = bit (take_bit (LENGTH('a) - 8) (le_word bs :: 'a word)) k" for k
    by (auto simp: bit_or_iff bit_push_bit_iff bit_unsigned_iff bit_drop_bit_eq bit_take_bit_iff
        dest: bit_imp_le_length)
  then have high: "drop_bit 8 (le_word (b # bs) :: 'a word) = take_bit (LENGTH('a) - 8) (le_word bs)"
    by (rule bit_eqI)
  have "le_bytes (length bs) (take_bit (LENGTH('a) - 8) (le_word bs :: 'a word)) = le_bytes (length bs) (le_word bs :: 'a word)"
    using Cons.prems by (intro le_bytes_eqI) (auto simp: bit_take_bit_iff)
  with low high Cons show ?case by simp
qed

lemma le_bytes_of_word:
  "length bs = n \<Longrightarrow> 8 * n \<le> LENGTH('a) \<Longrightarrow> le_bytes n (le_word bs :: 'a::len word) = bs"
  using le_bytes_le_word by blast

lemma be_bytes_of_word:
  "length bs = n \<Longrightarrow> 8 * n \<le> LENGTH('a) \<Longrightarrow> be_bytes n (be_word bs :: 'a::len word) = bs"
  by (simp add: be_bytes_def be_word_def le_bytes_of_word)

lemma unat_ucast_up: "LENGTH('a) \<le> LENGTH('b) \<Longrightarrow> unat (ucast (w :: 'a::len word) :: 'b::len word) = unat w"
  by (rule bit_eqI) (auto simp: bit_simps dest: bit_imp_le_length)

end
