(* ===== verification/Bithelper.thy ===== *)
theory Bithelper
  imports Prelude
begin

text \<open>
  Model of \<open>utility/include/bithelper.hpp\<close>: reading and writing 16, 32 and 64 bit values
  in big- and little-endian order on a host whose own byte order is a parameter. The main
  result is that the host order never shows: every accessor equals the order-free
  \<open>read_be\<close>, \<open>read_le\<close>, \<open>write_be\<close> and \<open>write_le\<close>, which the other theories use.
\<close>

section \<open>Fixed-width codecs\<close>

text \<open>
  The contract of a value encoded on a fixed number of bytes: decoding inverts encoding and
  every string of the right length is the encoding of its decoding.
\<close>

locale fixed_codec =
  fixes enc :: "'v \<Rightarrow> bytes"
    and dec :: "bytes \<Rightarrow> 'v"
    and width :: nat
  assumes length_enc: "length (enc v) = width"
    and dec_enc: "dec (enc v) = v"
    and enc_dec: "length bs = width \<Longrightarrow> enc (dec bs) = bs"
begin

lemma enc_inject: "enc v = enc w \<longleftrightarrow> v = w"
  by (metis dec_enc)

lemma dec_inject: "length bs = width \<Longrightarrow> length cs = width \<Longrightarrow> dec bs = dec cs \<longleftrightarrow> bs = cs"
  by (metis enc_dec)

lemma read_after_write:
  "mem_write buf i (enc v) = Some buf' \<Longrightarrow> map_option dec (mem_sub buf' i width) = Some v"
  using mem_sub_mem_write [of buf i "enc v" buf'] by (simp add: length_enc dec_enc)

lemma read_other_after_write:
  "mem_write buf i (enc v) = Some buf' \<Longrightarrow> j + n \<le> i \<or> i + width \<le> j \<Longrightarrow>
     mem_sub buf' j n = mem_sub buf j n"
  by (rule mem_sub_mem_write_disjoint) (auto simp: length_enc)

lemma write_back:
  "mem_sub buf i width = Some bs \<Longrightarrow> mem_write buf i (enc (dec bs)) = Some buf"
  by (auto simp: mem_sub_def mem_write_def length_enc enc_dec split: if_splits)
     (metis add.commute append_take_drop_id drop_drop)

end

interpretation be16: fixed_codec "be_bytes 2 :: u16 \<Rightarrow> bytes" be_word 2
  by unfold_locales (simp_all add: be_word_be_bytes be_bytes_of_word)

interpretation be32: fixed_codec "be_bytes 4 :: u32 \<Rightarrow> bytes" be_word 4
  by unfold_locales (simp_all add: be_word_be_bytes be_bytes_of_word)

interpretation be64: fixed_codec "be_bytes 8 :: u64 \<Rightarrow> bytes" be_word 8
  by unfold_locales (simp_all add: be_word_be_bytes be_bytes_of_word)

interpretation le16: fixed_codec "le_bytes 2 :: u16 \<Rightarrow> bytes" le_word 2
  by unfold_locales (simp_all add: le_word_le_bytes le_bytes_of_word)

interpretation le32: fixed_codec "le_bytes 4 :: u32 \<Rightarrow> bytes" le_word 4
  by unfold_locales (simp_all add: le_word_le_bytes le_bytes_of_word)

interpretation le64: fixed_codec "le_bytes 8 :: u64 \<Rightarrow> bytes" le_word 8
  by unfold_locales (simp_all add: le_word_le_bytes le_bytes_of_word)

lemmas codec_cancel [simp, codec_simps] =
  be16.dec_enc be32.dec_enc be64.dec_enc le16.dec_enc le32.dec_enc le64.dec_enc

section \<open>The host's memory\<close>

text \<open>The byte order of the host; \<open>mem_of\<close> is the object representation of an integer.\<close>

datatype endianess_e = BE | LE

definition mem_of :: "endianess_e \<Rightarrow> 'a::len word \<Rightarrow> bytes" where
  "mem_of e w = (case e of LE \<Rightarrow> le_bytes (LENGTH('a) div 8) w | BE \<Rightarrow> be_bytes (LENGTH('a) div 8) w)"

definition of_mem :: "endianess_e \<Rightarrow> bytes \<Rightarrow> 'a::len word" where
  "of_mem e bs = (case e of LE \<Rightarrow> le_word bs | BE \<Rightarrow> be_word bs)"

text \<open>\<open>get_endianness\<close> looks at the first byte of the representation of 0x0102.\<close>

definition get_endianness :: "endianess_e \<Rightarrow> endianess_e" where
  "get_endianness e = (if hd (mem_of e (0x0102 :: u16)) = 1 then BE else LE)"

definition swap_endianness :: "endianess_e \<Rightarrow> 'a::len word \<Rightarrow> 'a word" where
  "swap_endianness e v = of_mem e (rev (mem_of e v))"

section \<open>Accessors\<close>

definition write_uint16_be :: "endianess_e \<Rightarrow> u16 \<Rightarrow> bytes \<Rightarrow> nat \<Rightarrow> bytes option" where
  "write_uint16_be e v buf i =
     (let v' = (if get_endianness e \<noteq> BE then swap_endianness e v else v) in mem_write buf i (mem_of e v'))"

definition write_uint16_le :: "endianess_e \<Rightarrow> u16 \<Rightarrow> bytes \<Rightarrow> nat \<Rightarrow> bytes option" where
  "write_uint16_le e v buf i =
     (let v' = (if get_endianness e \<noteq> LE then swap_endianness e v else v) in mem_write buf i (mem_of e v'))"

definition write_uint32_be :: "endianess_e \<Rightarrow> u32 \<Rightarrow> bytes \<Rightarrow> nat \<Rightarrow> bytes option" where
  "write_uint32_be e v buf i =
     (let v' = (if get_endianness e \<noteq> BE then swap_endianness e v else v) in mem_write buf i (mem_of e v'))"

definition write_uint32_le :: "endianess_e \<Rightarrow> u32 \<Rightarrow> bytes \<Rightarrow> nat \<Rightarrow> bytes option" where
  "write_uint32_le e v buf i =
     (let v' = (if get_endianness e \<noteq> LE then swap_endianness e v else v) in mem_write buf i (mem_of e v'))"

definition write_uint64_be :: "endianess_e \<Rightarrow> u64 \<Rightarrow> bytes \<Rightarrow> nat \<Rightarrow> bytes option" where
  "write_uint64_be e v buf i =
     (let v' = (if get_endianness e \<noteq> BE then swap_endianness e v else v) in mem_write buf i (mem_of e v'))"

definition write_uint64_le :: "endianess_e \<Rightarrow> u64 \<Rightarrow> bytes \<Rightarrow> nat \<Rightarrow> bytes option" where
  "write_uint64_le e v buf i =
     (let v' = (if get_endianness e \<noteq> LE then swap_endianness e v else v) in mem_write buf i (mem_of e v'))"

definition read_uint16_be :: "endianess_e \<Rightarrow> bytes \<Rightarrow> nat \<Rightarrow> u16 option" where
  "read_uint16_be e buf i = do {
     bs \<leftarrow> mem_sub buf i 2;
     let value = of_mem e bs;
     Some (if get_endianness e = BE then value else swap_endianness e value) }"

definition read_uint16_le :: "endianess_e \<Rightarrow> bytes \<Rightarrow> nat \<Rightarrow> u16 option" where
  "read_uint16_le e buf i = do {
     bs \<leftarrow> mem_sub buf i 2;
     let value = of_mem e bs;
     Some (if get_endianness e = LE then value else swap_endianness e value) }"

definition read_uint32_be :: "endianess_e \<Rightarrow> bytes \<Rightarrow> nat \<Rightarrow> u32 option" where
  "read_uint32_be e buf i = do {
     bs \<leftarrow> mem_sub buf i 4;
     let value = of_mem e bs;
     Some (if get_endianness e = BE then value else swap_endianness e value) }"

definition read_uint32_le :: "endianess_e \<Rightarrow> bytes \<Rightarrow> nat \<Rightarrow> u32 option" where
  "read_uint32_le e buf i = do {
     bs \<leftarrow> mem_sub buf i 4;
     let value = of_mem e bs;
     Some (if get_endianness e = LE then value else swap_endianness e value) }"

definition read_uint64_be :: "endianess_e \<Rightarrow> bytes \<Rightarrow> nat \<Rightarrow> u64 option" where
  "read_uint64_be e buf i = do {
     bs \<leftarrow> mem_sub buf i 8;
     let value = of_mem e bs;
     Some (if get_endianness e = BE then value else swap_endianness e value) }"

definition read_uint64_le :: "endianess_e \<Rightarrow> bytes \<Rightarrow> nat \<Rightarrow> u64 option" where
  "read_uint64_le e buf i = do {
     bs \<leftarrow> mem_sub buf i 8;
     let value = of_mem e bs;
     Some (if get_endianness e = LE then value else swap_endianness e value) }"

definition read_high_word :: "u32 \<Rightarrow> u16" where
  "read_high_word input = ucast (drop_bit 16 input AND 0xFFFF)"

definition read_low_word :: "u32 \<Rightarrow> u16" where
  "read_low_word input = ucast (input AND 0xFFFF)"

section \<open>The host order does not show\<close>

text \<open>Order-free accessors; the width is that of the result type.\<close>

definition read_be :: "bytes \<Rightarrow> nat \<Rightarrow> 'a::len word option" where
  "read_be buf i = map_option be_word (mem_sub buf i (LENGTH('a) div 8))"

definition read_le :: "bytes \<Rightarrow> nat \<Rightarrow> 'a::len word option" where
  "read_le buf i = map_option le_word (mem_sub buf i (LENGTH('a) div 8))"

definition write_be :: "'a::len word \<Rightarrow> bytes \<Rightarrow> nat \<Rightarrow> bytes option" where
  "write_be v buf i = mem_write buf i (be_bytes (LENGTH('a) div 8) v)"

definition write_le :: "'a::len word \<Rightarrow> bytes \<Rightarrow> nat \<Rightarrow> bytes option" where
  "write_le v buf i = mem_write buf i (le_bytes (LENGTH('a) div 8) v)"

lemma get_endianness_host [simp]: "get_endianness e = e"
  by (cases e) (simp_all add: get_endianness_def mem_of_def be_bytes_def le_bytes_numeral)

lemma of_mem_mem_of [simp, codec_simps]:
  "8 * (LENGTH('a) div 8) = LENGTH('a) \<Longrightarrow> of_mem e (mem_of e w) = (w :: 'a::len word)"
  by (cases e) (simp_all add: of_mem_def mem_of_def le_word_le_bytes be_word_be_bytes)

lemma length_mem_of [simp]: "length (mem_of e w) = LENGTH('a) div 8" for w :: "'a::len word"
  by (cases e) (simp_all add: mem_of_def)

lemma mem_of_of_mem [codec_simps]:
  "8 * length bs = LENGTH('a) \<Longrightarrow> mem_of e (of_mem e bs :: 'a::len word) = bs"
  by (cases e) (auto simp: mem_of_def of_mem_def le_bytes_of_word be_bytes_of_word)

lemma mem_of_swap:
  assumes "8 * (LENGTH('a) div 8) = LENGTH('a)"
  shows "mem_of e (swap_endianness e v) = rev (mem_of e (v :: 'a::len word))"
  using assms by (simp add: swap_endianness_def mem_of_of_mem)

lemma swap_of_mem:
  assumes "8 * length bs = LENGTH('a)"
  shows "swap_endianness e (of_mem e bs :: 'a::len word) = of_mem e (rev bs)"
  using assms by (simp add: swap_endianness_def mem_of_of_mem)

lemma mem_of_rev: "rev (mem_of LE w) = mem_of BE w" "rev (mem_of BE w) = mem_of LE w"
  by (simp_all add: mem_of_def be_bytes_def)

lemma of_mem_rev: "of_mem LE (rev bs) = of_mem BE bs" "of_mem BE (rev bs) = of_mem LE bs"
  by (simp_all add: of_mem_def be_word_def)

lemma mem_of_ordered_BE:
  assumes "8 * (LENGTH('a) div 8) = LENGTH('a)"
  shows "mem_of e (if e \<noteq> BE then swap_endianness e v else v) = be_bytes (LENGTH('a) div 8) (v :: 'a::len word)"
  using mem_of_swap [OF assms, of e v] by (cases e) (simp_all add: mem_of_rev, simp_all add: mem_of_def)

lemma mem_of_ordered_LE:
  assumes "8 * (LENGTH('a) div 8) = LENGTH('a)"
  shows "mem_of e (if e \<noteq> LE then swap_endianness e v else v) = le_bytes (LENGTH('a) div 8) (v :: 'a::len word)"
  using mem_of_swap [OF assms, of e v] by (cases e) (simp_all add: mem_of_rev, simp_all add: mem_of_def)

lemmas write_defs =
  write_uint16_be_def write_uint16_le_def write_uint32_be_def write_uint32_le_def
  write_uint64_be_def write_uint64_le_def

lemmas read_defs =
  read_uint16_be_def read_uint16_le_def read_uint32_be_def read_uint32_le_def
  read_uint64_be_def read_uint64_le_def

lemma write_host_independent:
  "write_uint16_be e v16 = write_be v16" "write_uint16_le e v16 = write_le v16"
  "write_uint32_be e v32 = write_be v32" "write_uint32_le e v32 = write_le v32"
  "write_uint64_be e v64 = write_be v64" "write_uint64_le e v64 = write_le v64"
  by (rule ext, rule ext,
      simp only: write_defs write_be_def write_le_def Let_def get_endianness_host,
      subst mem_of_ordered_BE mem_of_ordered_LE, simp, simp)+

lemma read_swap_BE:
  assumes "8 * n = LENGTH('a)"
  shows "do { bs \<leftarrow> mem_sub buf i n; Some (if e = BE then of_mem e bs else swap_endianness e (of_mem e bs)) }
     = map_option (be_word :: bytes \<Rightarrow> 'a::len word) (mem_sub buf i n)"
  using assms
  by (cases e; cases "mem_sub buf i n")
     (auto simp: swap_of_mem of_mem_rev dest!: mem_sub_length, auto simp: of_mem_def)

lemma read_swap_LE:
  assumes "8 * n = LENGTH('a)"
  shows "do { bs \<leftarrow> mem_sub buf i n; Some (if e = LE then of_mem e bs else swap_endianness e (of_mem e bs)) }
     = map_option (le_word :: bytes \<Rightarrow> 'a::len word) (mem_sub buf i n)"
  using assms
  by (cases e; cases "mem_sub buf i n")
     (auto simp: swap_of_mem of_mem_rev dest!: mem_sub_length, auto simp: of_mem_def)

lemma read_host_independent:
  "read_uint16_be e = read_be" "read_uint16_le e = read_le"
  "read_uint32_be e = read_be" "read_uint32_le e = read_le"
  "read_uint64_be e = read_be" "read_uint64_le e = read_le"
  by (rule ext, rule ext, simp add: read_defs Let_def read_swap_BE read_swap_LE read_be_def read_le_def)+

section \<open>Reading back what was written\<close>

lemma write_be_ok: "i + LENGTH('a) div 8 \<le> length buf \<Longrightarrow> \<exists>buf'. write_be (w :: 'a::len word) buf i = Some buf' \<and> length buf' = length buf"
  by (simp add: write_be_def)

lemma read_write_be: "write_be w buf i = Some buf' \<Longrightarrow> 8 dvd LENGTH('a) \<Longrightarrow> read_be buf' i = Some (w :: 'a::len word)"
  using mem_sub_mem_write [of buf i "be_bytes (LENGTH('a) div 8) w" buf']
  by (simp add: write_be_def read_be_def be_word_be_bytes)

lemma read_write_be_disjoint:
  "write_be (w :: 'a::len word) buf i = Some buf' \<Longrightarrow> j + LENGTH('b) div 8 \<le> i \<or> i + LENGTH('a) div 8 \<le> j \<Longrightarrow>
     read_be buf' j = (read_be buf j :: 'b::len word option)"
  using mem_sub_mem_write_disjoint [of buf i "be_bytes (LENGTH('a) div 8) w" buf' j "LENGTH('b) div 8"]
  by (simp add: write_be_def read_be_def)

lemma mem_at_write_be_disjoint:
  "write_be (w :: 'a::len word) buf i = Some buf' \<Longrightarrow> j < i \<or> i + LENGTH('a) div 8 \<le> j \<Longrightarrow> mem_at buf' j = mem_at buf j"
  by (auto simp: write_be_def mem_write_def mem_at_def nth_append split: if_splits)

lemma read_be_ok: "i + LENGTH('a) div 8 \<le> length buf \<Longrightarrow> \<exists>w. read_be buf i = Some (w :: 'a::len word)"
  by (simp add: read_be_def)

end
