(* ===== verification/Serializer.thy ===== *)
theory Serializer
  imports Bithelper
begin

text \<open>
  Model of \<open>message/src/serializer.cpp\<close> and \<open>message/src/deserializer.cpp\<close>: the byte
  buffer every SOME/IP and SOME/IP-SD object is written to, and the cursor every object is
  read from. Writers are state transformers returning the \<open>bool\<close> of the C++ functions;
  readers return \<^term>\<open>None\<close> on an access outside the buffer, and otherwise the value
  read (\<^term>\<open>None\<close> for a \<open>false\<close> result, which leaves the out-parameter alone)
  with the new cursor. Allocation failure of the standard containers is not modelled here.
\<close>

section \<open>Serializer\<close>

record serializer =
  ser_data :: bytes
  ser_shrink_count :: u32
  ser_buffer_shrink_threshold :: u32

type_synonym ser = "serializer \<Rightarrow> bool \<times> serializer"

definition serializer_new :: "u32 \<Rightarrow> serializer" where
  "serializer_new threshold =
     \<lparr>ser_data = [], ser_shrink_count = 0, ser_buffer_shrink_threshold = threshold\<rparr>"

definition serialize_u8 :: "byte \<Rightarrow> ser" where
  "serialize_u8 v s = (True, s\<lparr>ser_data := ser_data s @ [v]\<rparr>)"

definition serialize_u16 :: "u16 \<Rightarrow> ser" where
  "serialize_u16 v s =
     (let nvalue = le_bytes 2 v
      in (True, s\<lparr>ser_data := ser_data s @ [nvalue ! 1] @ [nvalue ! 0]\<rparr>))"

definition serialize_u32 :: "u32 \<Rightarrow> bool \<Rightarrow> ser" where
  "serialize_u32 v omit_last_byte s =
     (let nvalue = le_bytes 4 v
      in (True, s\<lparr>ser_data := ser_data s @ (if omit_last_byte then [] else [nvalue ! 3])
                @ [nvalue ! 2] @ [nvalue ! 1] @ [nvalue ! 0]\<rparr>))"

definition serialize_bytes :: "bytes \<Rightarrow> ser" where
  "serialize_bytes bs s = (True, s\<lparr>ser_data := ser_data s @ bs\<rparr>)"

definition serializer_get_size :: "serializer \<Rightarrow> u32" where
  "serializer_get_size s = of_nat (length (ser_data s))"

definition serializer_set_data :: "bytes \<Rightarrow> serializer \<Rightarrow> serializer" where
  "serializer_set_data bs s = s\<lparr>ser_data := bs\<rparr>"

text \<open>\<open>capacity\<close> is what \<open>data_.capacity()\<close> returns at the call.\<close>

definition serializer_reset :: "nat \<Rightarrow> serializer \<Rightarrow> serializer" where
  "serializer_reset capacity s =
     (let count = (if ser_buffer_shrink_threshold s \<noteq> 0
                   then (if length (ser_data s) < capacity div 2 then ser_shrink_count s + 1 else 0)
                   else ser_shrink_count s)
      in s\<lparr>ser_data := [],
           ser_shrink_count :=
             (if ser_buffer_shrink_threshold s \<noteq> 0 \<and> ser_buffer_shrink_threshold s < count
              then 0 else count)\<rparr>)"

text \<open>The short-circuit conjunction of writers.\<close>

definition ser_and :: "ser \<Rightarrow> ser \<Rightarrow> ser" where
  "ser_and m n s = (case m s of (ok, s') \<Rightarrow> if ok then n s' else (False, s'))"

fun ser_all :: "ser list \<Rightarrow> ser" where
  "ser_all [] s = (True, s)"
| "ser_all (m # ms) s = ser_and m (ser_all ms) s"

text \<open>\<open>emits m bs\<close>: the writer succeeds and appends exactly \<open>bs\<close>.\<close>

definition emits :: "ser \<Rightarrow> bytes \<Rightarrow> bool" where
  "emits m bs \<longleftrightarrow> (\<forall>s. m s = (True, s\<lparr>ser_data := ser_data s @ bs\<rparr>))"

named_theorems emit_intros

lemma emits_u8 [emit_intros]: "emits (serialize_u8 v) [v]"
  by (simp add: emits_def serialize_u8_def)

lemma emits_u16 [emit_intros]: "emits (serialize_u16 v) (be_bytes 2 v)"
  by (simp add: emits_def serialize_u16_def be_bytes_def le_bytes_numeral)

lemma emits_u32 [emit_intros]: "emits (serialize_u32 v False) (be_bytes 4 v)"
  by (simp add: emits_def serialize_u32_def be_bytes_def le_bytes_numeral)

lemma emits_u24 [emit_intros]: "emits (serialize_u32 v True) (be_bytes 3 v)"
  by (simp add: emits_def serialize_u32_def be_bytes_def le_bytes_numeral)

lemma emits_bytes [emit_intros]: "emits (serialize_bytes bs) bs"
  by (simp add: emits_def serialize_bytes_def)

lemma emits_and [emit_intros]: "emits m bs \<Longrightarrow> emits n cs \<Longrightarrow> emits (ser_and m n) (bs @ cs)"
  by (simp add: emits_def ser_and_def)

lemma emits_all_Nil [emit_intros]: "emits (ser_all []) []"
  by (simp add: emits_def)

lemma emits_all_Cons [emit_intros]:
  "emits m bs \<Longrightarrow> emits (ser_all ms) cs \<Longrightarrow> emits (ser_all (m # ms)) (bs @ cs)"
  by (simp add: emits_def ser_and_def)

lemma emits_all_map:
  "(\<And>x. x \<in> set xs \<Longrightarrow> emits (m x) (enc x)) \<Longrightarrow> emits (ser_all (map m xs)) (concat (map enc xs))"
  by (induction xs) (simp_all add: emits_all_Nil emits_all_Cons)

lemma emitsD: "emits m bs \<Longrightarrow> m s = (True, s\<lparr>ser_data := ser_data s @ bs\<rparr>)"
  by (simp add: emits_def)

section \<open>Deserializer\<close>

record deserializer =
  des_data :: bytes
  des_position :: nat
  des_remaining :: nat
  des_buffer_shrink_threshold :: u32
  des_shrink_count :: u32

type_synonym 'a des = "deserializer \<Rightarrow> ('a option \<times> deserializer) option"

definition deserializer_new :: "bytes \<Rightarrow> u32 \<Rightarrow> deserializer" where
  "deserializer_new bs threshold =
     \<lparr>des_data = bs, des_position = 0, des_remaining = length bs,
      des_buffer_shrink_threshold = threshold, des_shrink_count = 0\<rparr>"

definition get_available :: "deserializer \<Rightarrow> nat" where
  "get_available d = length (des_data d)"

definition get_remaining :: "deserializer \<Rightarrow> nat" where
  "get_remaining d = des_remaining d"

definition set_remaining :: "nat \<Rightarrow> deserializer \<Rightarrow> deserializer" where
  "set_remaining n d = d\<lparr>des_remaining := n\<rparr>"

definition deserialize_u8 :: "byte des" where
  "deserialize_u8 d =
     (if des_remaining d = 0 then Some (None, d)
      else do {
        v \<leftarrow> mem_at (des_data d) (des_position d);
        Some (Some v, d\<lparr>des_position := des_position d + 1, des_remaining := des_remaining d - 1\<rparr>) })"

definition deserialize_u16 :: "u16 des" where
  "deserialize_u16 d =
     (if des_remaining d < 2 then Some (None, d)
      else do {
        byte0 \<leftarrow> mem_at (des_data d) (des_position d);
        byte1 \<leftarrow> mem_at (des_data d) (des_position d + 1);
        Some (Some (be_word [byte0, byte1]),
              d\<lparr>des_position := des_position d + 2, des_remaining := des_remaining d - 2\<rparr>) })"

definition deserialize_u32 :: "bool \<Rightarrow> u32 des" where
  "deserialize_u32 omit_last_byte d =
     (if des_remaining d < 3 \<or> (\<not> omit_last_byte \<and> des_remaining d < 4) then Some (None, d)
      else do {
        (byte0, p, r) \<leftarrow> (if omit_last_byte then Some (0, des_position d, des_remaining d)
                         else do { b \<leftarrow> mem_at (des_data d) (des_position d);
                                   Some (b, des_position d + 1, des_remaining d - 1) });
        byte1 \<leftarrow> mem_at (des_data d) p;
        byte2 \<leftarrow> mem_at (des_data d) (p + 1);
        byte3 \<leftarrow> mem_at (des_data d) (p + 2);
        Some (Some (be_word [byte0, byte1, byte2, byte3]),
              d\<lparr>des_position := p + 3, des_remaining := r - 3\<rparr>) })"

definition deserialize_bytes :: "nat \<Rightarrow> bytes des" where
  "deserialize_bytes len d =
     (if des_remaining d < len then Some (None, d)
      else do {
        bs \<leftarrow> mem_sub (des_data d) (des_position d) len;
        Some (Some bs,
              d\<lparr>des_position := des_position d + len, des_remaining := des_remaining d - len\<rparr>) })"

text \<open>\<open>capacity\<close> is the capacity of the target string, respectively vector.\<close>

definition deserialize_string :: "nat \<Rightarrow> nat \<Rightarrow> bytes des" where
  "deserialize_string capacity len d =
     (if des_remaining d < len \<or> capacity < len then Some (None, d)
      else do {
        bs \<leftarrow> mem_sub (des_data d) (des_position d) len;
        Some (Some bs,
              d\<lparr>des_position := des_position d + len, des_remaining := des_remaining d - len\<rparr>) })"

definition deserialize_vector :: "nat \<Rightarrow> bytes des" where
  "deserialize_vector capacity d =
     (if des_remaining d < capacity then Some (None, d)
      else do {
        bs \<leftarrow> mem_sub (des_data d) (des_position d) capacity;
        Some (Some bs,
              d\<lparr>des_position := des_position d + capacity,
                des_remaining := des_remaining d - capacity\<rparr>) })"

text \<open>The \<open>look_ahead\<close> family does not move the cursor; the guards are those of the code.\<close>

definition look_ahead_u8 :: "nat \<Rightarrow> deserializer \<Rightarrow> byte option option" where
  "look_ahead_u8 index d =
     (if des_remaining d < index then Some None
      else map_option Some (mem_at (des_data d) (des_position d + index)))"

definition look_ahead_u16 :: "nat \<Rightarrow> deserializer \<Rightarrow> u16 option option" where
  "look_ahead_u16 index d =
     (if des_remaining d < index + 1 then Some None
      else map_option Some (read_be (des_data d) (des_position d + index)))"

definition look_ahead_u32 :: "nat \<Rightarrow> deserializer \<Rightarrow> u32 option option" where
  "look_ahead_u32 index d =
     (if des_remaining d < index + 3 then Some None
      else map_option Some (read_be (des_data d) (des_position d + index)))"

definition deserializer_set_data :: "bytes option \<Rightarrow> deserializer \<Rightarrow> deserializer" where
  "deserializer_set_data data d =
     (case data of
        Some bs \<Rightarrow> d\<lparr>des_data := bs, des_position := 0, des_remaining := length bs\<rparr>
      | None \<Rightarrow> d\<lparr>des_data := [], des_position := 0, des_remaining := 0\<rparr>)"

definition append_data :: "bytes \<Rightarrow> deserializer \<Rightarrow> deserializer" where
  "append_data bs d =
     d\<lparr>des_data := des_data d @ bs, des_remaining := des_remaining d + length bs\<rparr>"

definition drop_data :: "nat \<Rightarrow> deserializer \<Rightarrow> deserializer" where
  "drop_data len d =
     (if des_position d + len < length (des_data d)
      then d\<lparr>des_position := des_position d + len\<rparr>
      else d\<lparr>des_position := length (des_data d)\<rparr>)"

definition deserializer_reset :: "nat \<Rightarrow> deserializer \<Rightarrow> deserializer" where
  "deserializer_reset capacity d =
     (let count = (if des_buffer_shrink_threshold d \<noteq> 0
                   then (if length (des_data d) < capacity div 2 then des_shrink_count d + 1 else 0)
                   else des_shrink_count d)
      in d\<lparr>des_data := [], des_position := 0, des_remaining := 0,
           des_shrink_count :=
             (if des_buffer_shrink_threshold d \<noteq> 0 \<and> des_buffer_shrink_threshold d < count
              then 0 else count)\<rparr>)"

text \<open>Sequencing of readers: a \<open>false\<close> result ends the conjunction.\<close>

definition des_return :: "'a \<Rightarrow> 'a des" where
  "des_return x d = Some (Some x, d)"

definition des_fail :: "'a des" where
  "des_fail d = Some (None, d)"

definition des_bind :: "'a des \<Rightarrow> ('a \<Rightarrow> 'b des) \<Rightarrow> 'b des" where
  "des_bind m f d =
     (case m d of
        None \<Rightarrow> None
      | Some (None, d') \<Rightarrow> Some (None, d')
      | Some (Some x, d') \<Rightarrow> f x d')"

text \<open>A reader whose \<open>bool\<close> result the caller ignores.\<close>

definition des_try :: "'a des \<Rightarrow> 'a option des" where
  "des_try m d = (case m d of None \<Rightarrow> None | Some (r, d') \<Rightarrow> Some (Some r, d'))"

section \<open>The cursor invariant\<close>

text \<open>
  The bytes announced as remaining lie inside the buffer. \<open>des_input\<close> are these bytes, and
  \<open>advance\<close> is the effect of consuming some of them.
\<close>

definition des_ok :: "deserializer \<Rightarrow> bool" where
  "des_ok d \<longleftrightarrow> des_position d + des_remaining d \<le> length (des_data d)"

definition des_input :: "deserializer \<Rightarrow> bytes" where
  "des_input d = take (des_remaining d) (drop (des_position d) (des_data d))"

definition advance :: "nat \<Rightarrow> deserializer \<Rightarrow> deserializer" where
  "advance n d = d\<lparr>des_position := des_position d + n, des_remaining := des_remaining d - n\<rparr>"

lemma length_des_input: "des_ok d \<Longrightarrow> length (des_input d) = des_remaining d"
  by (simp add: des_ok_def des_input_def)

lemma des_ok_new [simp]: "des_ok (deserializer_new bs th)"
  by (simp add: des_ok_def deserializer_new_def)

lemma des_input_new [simp]: "des_input (deserializer_new bs th) = bs"
  by (simp add: des_input_def deserializer_new_def)

lemma des_ok_advance: "des_ok d \<Longrightarrow> n \<le> des_remaining d \<Longrightarrow> des_ok (advance n d)"
  by (simp add: des_ok_def advance_def)

lemma des_input_advance [simp]: "des_input (advance n d) = drop n (des_input d)"
  by (simp add: des_input_def advance_def drop_take add.commute)

lemma advance_0 [simp]: "advance 0 d = d"
  by (simp add: advance_def)

lemma advance_advance [simp]: "advance n (advance m d) = advance (m + n) d"
  by (simp add: advance_def add.assoc)

lemma advance_remaining [simp]: "des_remaining (advance n d) = des_remaining d - n"
  by (simp add: advance_def)

lemma advance_data [simp]: "des_data (advance n d) = des_data d"
  by (simp add: advance_def)

lemma advance_position [simp]: "des_position (advance n d) = des_position d + n"
  by (simp add: advance_def)

lemma mem_at_input:
  "des_ok d \<Longrightarrow> i < des_remaining d \<Longrightarrow> mem_at (des_data d) (des_position d + i) = Some (des_input d ! i)"
  by (simp add: des_ok_def des_input_def)

lemma mem_sub_input:
  "des_ok d \<Longrightarrow> n \<le> des_remaining d \<Longrightarrow>
     mem_sub (des_data d) (des_position d) n = Some (take n (des_input d))"
  by (simp add: des_ok_def des_input_def min_def)

text \<open>
  The contract of a reader of \<open>n\<close> bytes: it either decodes the next \<open>n\<close> bytes and
  consumes them, or reports \<open>false\<close> and leaves the cursor where it is.
\<close>

locale reader =
  fixes rd :: "'v des"
    and dec :: "bytes \<Rightarrow> 'v"
    and n :: nat
  assumes rd_enough: "des_ok d \<Longrightarrow> n \<le> des_remaining d \<Longrightarrow>
      rd d = Some (Some (dec (take n (des_input d))), advance n d)"
    and rd_short: "des_ok d \<Longrightarrow> des_remaining d < n \<Longrightarrow> rd d = Some (None, d)"
begin

lemma rd_cases:
  assumes "des_ok d"
  obtains (enough) "n \<le> des_remaining d" "rd d = Some (Some (dec (take n (des_input d))), advance n d)"
  | (short) "des_remaining d < n" "rd d = Some (None, d)"
  using rd_enough [OF assms] rd_short [OF assms] by (meson not_less)

lemma rd_defined: "des_ok d \<Longrightarrow> rd d \<noteq> None"
  by (rule rd_cases) auto

lemma rd_app:
  assumes "des_ok d" and "des_input d = bs @ rest" and "length bs = n"
  shows "rd d = Some (Some (dec bs), advance n d)"
proof -
  have "n \<le> des_remaining d"
    using assms length_des_input [of d] by simp
  with rd_enough assms show ?thesis by simp
qed

end

interpretation rd8: reader deserialize_u8 hd 1
proof (unfold_locales, goal_cases)
  case (1 d)
  then have "mem_at (des_data d) (des_position d) = Some (des_input d ! 0)"
    using mem_at_input [of d 0] by simp
  moreover have "des_input d \<noteq> []"
    using 1 length_des_input [of d] by auto
  ultimately show ?case
    using 1 by (simp add: deserialize_u8_def advance_def hd_conv_nth)
next
  case (2 d)
  then show ?case by (simp add: deserialize_u8_def)
qed

lemma take_2_nth: "2 \<le> length xs \<Longrightarrow> take 2 xs = [xs ! 0, xs ! 1]"
  by (cases xs; cases "tl xs") auto

lemma take_3_nth: "3 \<le> length xs \<Longrightarrow> take 3 xs = [xs ! 0, xs ! 1, xs ! 2]"
  by (rule nth_equalityI) (auto simp: less_Suc_eq numeral_3_eq_3 numeral_2_eq_2)

lemma take_4_nth: "4 \<le> length xs \<Longrightarrow> take 4 xs = [xs ! 0, xs ! 1, xs ! 2, xs ! 3]"
  by (rule nth_equalityI) (auto simp: less_Suc_eq eval_nat_numeral)

interpretation rd16: reader deserialize_u16 be_word 2
proof (unfold_locales, goal_cases)
  case (1 d)
  then have "mem_at (des_data d) (des_position d) = Some (des_input d ! 0)"
    "mem_at (des_data d) (des_position d + 1) = Some (des_input d ! 1)"
    using mem_at_input [of d 0] mem_at_input [of d 1] by simp_all
  then show ?case
    using 1 length_des_input [of d] by (simp add: deserialize_u16_def advance_def take_2_nth)
next
  case (2 d)
  then show ?case by (simp add: deserialize_u16_def)
qed

interpretation rd32: reader "deserialize_u32 False" be_word 4
proof (unfold_locales, goal_cases)
  case (1 d)
  then have "mem_at (des_data d) (des_position d) = Some (des_input d ! 0)"
    "mem_at (des_data d) (des_position d + 1) = Some (des_input d ! 1)"
    "mem_at (des_data d) (des_position d + 2) = Some (des_input d ! 2)"
    "mem_at (des_data d) (des_position d + 3) = Some (des_input d ! 3)"
    using mem_at_input [of d 0] mem_at_input [of d 1] mem_at_input [of d 2] mem_at_input [of d 3]
    by simp_all
  moreover have t: "take 4 (des_input d) = [des_input d ! 0, des_input d ! 1, des_input d ! 2, des_input d ! 3]"
    using 1 length_des_input [of d] by (simp add: take_4_nth)
  ultimately show ?case
    unfolding t using 1 by (simp add: deserialize_u32_def advance_def eval_nat_numeral)
next
  case (2 d)
  then show ?case by (simp add: deserialize_u32_def)
qed

text \<open>The 24 bit fields of service discovery: the most significant byte is omitted.\<close>

interpretation rd24: reader "deserialize_u32 True" be_word 3
proof (unfold_locales, goal_cases)
  case (1 d)
  then have "mem_at (des_data d) (des_position d) = Some (des_input d ! 0)"
    "mem_at (des_data d) (des_position d + 1) = Some (des_input d ! 1)"
    "mem_at (des_data d) (des_position d + 2) = Some (des_input d ! 2)"
    using mem_at_input [of d 0] mem_at_input [of d 1] mem_at_input [of d 2] by simp_all
  then show ?case
    using 1 length_des_input [of d]
    by (simp add: deserialize_u32_def advance_def take_3_nth be_word_def)
next
  case (2 d)
  then show ?case by (simp add: deserialize_u32_def)
qed

interpretation rdn: reader "deserialize_bytes k" id k for k
  by unfold_locales (simp_all add: deserialize_bytes_def mem_sub_input advance_def)

interpretation rdv: reader "deserialize_vector k" id k for k
  by unfold_locales (simp_all add: deserialize_vector_def mem_sub_input advance_def)

section \<open>Safety and exactness of composed readers\<close>

text \<open>
  A reader is safe when, started inside the buffer, it never reads outside it, keeps the
  buffer, only moves forward, and accounts for every byte it consumes.
\<close>

definition des_step :: "deserializer \<Rightarrow> deserializer \<Rightarrow> bool" where
  "des_step d d' \<longleftrightarrow> des_data d' = des_data d \<and> des_position d \<le> des_position d' \<and>
     des_position d' + des_remaining d' = des_position d + des_remaining d"

definition des_safe :: "'a des \<Rightarrow> bool" where
  "des_safe m \<longleftrightarrow> (\<forall>d. des_ok d \<longrightarrow> (\<exists>r d'. m d = Some (r, d') \<and> des_step d d'))"

named_theorems safe_intros

lemma des_step_refl [simp]: "des_step d d"
  by (simp add: des_step_def)

lemma des_step_trans: "des_step d d' \<Longrightarrow> des_step d' d'' \<Longrightarrow> des_step d d''"
  by (simp add: des_step_def)

lemma des_step_ok: "des_step d d' \<Longrightarrow> des_ok d \<Longrightarrow> des_ok d'"
  by (simp add: des_step_def des_ok_def)

lemma des_step_remaining: "des_step d d' \<Longrightarrow> des_remaining d' \<le> des_remaining d"
  by (simp add: des_step_def)

lemma des_step_advance: "n \<le> des_remaining d \<Longrightarrow> des_step d (advance n d)"
  by (simp add: des_step_def)

lemma des_safeD:
  assumes "des_safe m" and "des_ok d"
  obtains r d' where "m d = Some (r, d')" and "des_step d d'" and "des_ok d'"
  using assms des_step_ok unfolding des_safe_def by blast

context reader
begin

lemma rd_safe: "des_safe rd"
  unfolding des_safe_def by (blast elim: rd_cases intro: des_step_advance des_step_refl)

end

lemma des_safe_return [safe_intros]: "des_safe (des_return x)"
  by (simp add: des_safe_def des_return_def)

lemma des_safe_fail [safe_intros]: "des_safe des_fail"
  by (simp add: des_safe_def des_fail_def)

lemma des_safe_bind [safe_intros]:
  assumes "des_safe m" and "\<And>x. des_safe (f x)"
  shows "des_safe (des_bind m f)"
  unfolding des_safe_def
proof (intro allI impI)
  fix d assume "des_ok d"
  with assms(1) obtain r d' where m: "m d = Some (r, d')" "des_step d d'" "des_ok d'"
    by (rule des_safeD)
  show "\<exists>r d'. des_bind m f d = Some (r, d') \<and> des_step d d'"
  proof (cases r)
    case None
    with m show ?thesis by (simp add: des_bind_def)
  next
    case (Some x)
    from assms(2) m(3) obtain r' d'' where "f x d' = Some (r', d'')" "des_step d' d''"
      by (rule des_safeD)
    with m Some show ?thesis by (auto simp: des_bind_def intro: des_step_trans)
  qed
qed

lemma des_safe_try [safe_intros]: "des_safe m \<Longrightarrow> des_safe (des_try m)"
  unfolding des_safe_def des_try_def by fastforce

lemma des_safe_if [safe_intros]: "des_safe m \<Longrightarrow> des_safe n \<Longrightarrow> des_safe (if b then m else n)"
  by simp

lemma des_safe_let [safe_intros]: "des_safe (f x) \<Longrightarrow> des_safe (let y = x in f y)"
  by simp

text \<open>
  \<open>parses m bs v\<close>: wherever the input starts with \<open>bs\<close>, the reader returns \<open>v\<close> and
  consumes exactly \<open>bs\<close>.
\<close>

definition parses :: "'a des \<Rightarrow> bytes \<Rightarrow> 'a \<Rightarrow> bool" where
  "parses m bs v \<longleftrightarrow>
     (\<forall>d rest. des_ok d \<and> des_input d = bs @ rest \<longrightarrow> m d = Some (Some v, advance (length bs) d))"

named_theorems parse_intros

lemma parsesD:
  "parses m bs v \<Longrightarrow> des_ok d \<Longrightarrow> des_input d = bs @ rest \<Longrightarrow>
     m d = Some (Some v, advance (length bs) d)"
  by (simp add: parses_def)

lemma des_ok_advance_app: "des_ok d \<Longrightarrow> des_input d = bs @ rest \<Longrightarrow> des_ok (advance (length bs) d)"
  using length_des_input [of d] by (intro des_ok_advance) auto

lemma parses_return: "parses (des_return x) [] x"
  by (simp add: parses_def des_return_def)

lemma parses_returnI [parse_intros]: "x = y \<Longrightarrow> parses (des_return x) [] y"
  by (simp add: parses_return)

lemma parses_bind [parse_intros]:
  assumes "parses m bs x" and "parses (f x) cs y"
  shows "parses (des_bind m f) (bs @ cs) y"
  unfolding parses_def
proof (intro allI impI, elim conjE)
  fix d rest assume d: "des_ok d" "des_input d = (bs @ cs) @ rest"
  then have "m d = Some (Some x, advance (length bs) d)"
    using parsesD [OF assms(1)] by simp
  moreover have "f x (advance (length bs) d) = Some (Some y, advance (length cs) (advance (length bs) d))"
    using d des_ok_advance_app [of d bs "cs @ rest"] by (intro parsesD [OF assms(2)]) simp_all
  ultimately show "des_bind m f d = Some (Some y, advance (length (bs @ cs)) d)"
    by (simp add: des_bind_def)
qed

lemma parses_bind_return:
  "parses m bs x \<Longrightarrow> y = f x \<Longrightarrow> parses (des_bind m (\<lambda>x. des_return (f x))) bs y"
  using parses_bind [of m bs x "\<lambda>x. des_return (f x)" "[]"] by (simp add: parses_return)

lemma parses_try [parse_intros]: "parses m bs x \<Longrightarrow> parses (des_try m) bs (Some x)"
  by (simp add: parses_def des_try_def)

context reader
begin

lemma parses_rd: "length bs = n \<Longrightarrow> parses rd bs (dec bs)"
  unfolding parses_def using rd_app by blast

end

lemma parses_u8 [parse_intros]: "parses deserialize_u8 [v] v"
  using rd8.parses_rd [of "[v]"] by simp

lemma parses_u16 [parse_intros]: "parses deserialize_u16 (be_bytes 2 v) v"
  using rd16.parses_rd [of "be_bytes 2 v"] by simp

lemma parses_u32 [parse_intros]: "parses (deserialize_u32 False) (be_bytes 4 v) v"
  using rd32.parses_rd [of "be_bytes 4 v"] by simp

lemma parses_bytes [parse_intros]: "length bs = k \<Longrightarrow> parses (deserialize_bytes k) bs bs"
  using rdn.parses_rd [of bs k] by simp

lemma parses_vector [parse_intros]: "length bs = k \<Longrightarrow> parses (deserialize_vector k) bs bs"
  using rdv.parses_rd [of bs k] by simp

lemma be_word_be_bytes_3: "be_word (be_bytes 3 (v :: u32)) = take_bit 24 v"
  by (rule bit_eqI) (simp add: be_word_def be_bytes_def bit_le_word_le_bytes bit_take_bit_iff)

text \<open>A 24 bit field keeps the low 24 bits of the value.\<close>

lemma parses_u24 [parse_intros]: "parses (deserialize_u32 True) (be_bytes 3 v) (take_bit 24 v)"
  using rd24.parses_rd [of "be_bytes 3 v"] by (simp add: be_word_be_bytes_3)

lemmas readers_safe [safe_intros] = rd8.rd_safe rd16.rd_safe rd32.rd_safe rd24.rd_safe rdn.rd_safe rdv.rd_safe

text \<open>A reader of a fixed size: on success it has consumed exactly \<open>n\<close> bytes.\<close>

definition consumes :: "'a des \<Rightarrow> nat \<Rightarrow> bool" where
  "consumes m n \<longleftrightarrow> (\<forall>d x d'. m d = Some (Some x, d') \<longrightarrow> des_position d' = des_position d + n)"

named_theorems consume_intros

lemma consumesD: "consumes m n \<Longrightarrow> m d = Some (Some x, d') \<Longrightarrow> des_position d' = des_position d + n"
  by (auto simp: consumes_def)

lemma consumes_return [consume_intros]: "consumes (des_return x) 0"
  by (simp add: consumes_def des_return_def)

lemma consumes_bind [consume_intros]:
  "consumes m k \<Longrightarrow> (\<And>x. consumes (f x) l) \<Longrightarrow> consumes (des_bind m f) (k + l)"
  unfolding consumes_def des_bind_def by (fastforce split: option.splits prod.splits)

lemma consumes_u8 [consume_intros]: "consumes deserialize_u8 1"
  by (auto simp: consumes_def deserialize_u8_def bind_eq_Some_conv split: if_splits)

lemma consumes_u16 [consume_intros]: "consumes deserialize_u16 2"
  by (auto simp: consumes_def deserialize_u16_def bind_eq_Some_conv split: if_splits)

lemma consumes_u32 [consume_intros]: "consumes (deserialize_u32 False) 4"
  by (auto simp: consumes_def deserialize_u32_def bind_eq_Some_conv split: if_splits)

lemma consumes_u24 [consume_intros]: "consumes (deserialize_u32 True) 3"
  by (auto simp: consumes_def deserialize_u32_def bind_eq_Some_conv split: if_splits)

lemma consumes_bytes [consume_intros]: "consumes (deserialize_bytes n) n"
  by (auto simp: consumes_def deserialize_bytes_def bind_eq_Some_conv split: if_splits)

text \<open>A safe reader of a fixed size reports \<open>false\<close> when fewer bytes remain.\<close>

lemma consumes_short:
  assumes "des_safe m" and "consumes m n" and "des_ok d" and "des_remaining d < n"
  shows "\<exists>d'. m d = Some (None, d') \<and> des_step d d'"
proof -
  obtain r d' where r: "m d = Some (r, d')" "des_step d d'"
    using des_safeD [OF assms(1,3)] by metis
  have "r = None"
  proof (cases r)
    case (Some x)
    with r assms(2) have "des_position d' = des_position d + n" by (auto dest: consumesD)
    with r(2) assms(4) show ?thesis by (simp add: des_step_def)
  qed
  with r show ?thesis by simp
qed

end
