(* ===== verification/Message.thy ===== *)
theory Message
  imports Serializer
begin

text \<open>
  Model of the SOME/IP message objects: \<open>message/src/message_header_impl.cpp\<close>,
  \<open>message_base_impl.cpp\<close>, \<open>payload_impl.cpp\<close>, \<open>message_impl.cpp\<close>, the entry point
  \<open>deserializer::deserialize_message\<close> and the message factories of
  \<open>runtime/src/runtime_impl.cpp\<close>. Scoped enumerations with \<open>uint8_t\<close> representation
  can hold any byte (the code casts received bytes to them), so they are bytes with named
  values.
\<close>

section \<open>Data\<close>

type_synonym message_type_e = byte
type_synonym return_code_e = byte

abbreviation (input) MT_REQUEST :: message_type_e where "MT_REQUEST \<equiv> 0x00"
abbreviation (input) MT_REQUEST_NO_RETURN :: message_type_e where "MT_REQUEST_NO_RETURN \<equiv> 0x01"
abbreviation (input) MT_NOTIFICATION :: message_type_e where "MT_NOTIFICATION \<equiv> 0x02"
abbreviation (input) MT_REQUEST_ACK :: message_type_e where "MT_REQUEST_ACK \<equiv> 0x40"
abbreviation (input) MT_REQUEST_NO_RETURN_ACK :: message_type_e where "MT_REQUEST_NO_RETURN_ACK \<equiv> 0x41"
abbreviation (input) MT_NOTIFICATION_ACK :: message_type_e where "MT_NOTIFICATION_ACK \<equiv> 0x42"
abbreviation (input) MT_RESPONSE :: message_type_e where "MT_RESPONSE \<equiv> 0x80"
abbreviation (input) MT_ERROR :: message_type_e where "MT_ERROR \<equiv> 0x81"
abbreviation (input) MT_RESPONSE_ACK :: message_type_e where "MT_RESPONSE_ACK \<equiv> 0xC0"
abbreviation (input) MT_ERROR_ACK :: message_type_e where "MT_ERROR_ACK \<equiv> 0xC1"
abbreviation (input) MT_UNKNOWN :: message_type_e where "MT_UNKNOWN \<equiv> 0xFF"

abbreviation (input) E_OK :: return_code_e where "E_OK \<equiv> 0x00"
abbreviation (input) E_UNKNOWN :: return_code_e where "E_UNKNOWN \<equiv> 0xFF"

abbreviation (input) VSOMEIP_PROTOCOL_VERSION :: byte where "VSOMEIP_PROTOCOL_VERSION \<equiv> 0x1"
abbreviation (input) VSOMEIP_SOMEIP_HEADER_SIZE :: u32 where "VSOMEIP_SOMEIP_HEADER_SIZE \<equiv> 8"
abbreviation (input) VSOMEIP_FULL_HEADER_SIZE :: nat where "VSOMEIP_FULL_HEADER_SIZE \<equiv> 16"
abbreviation (input) DEFAULT_MAJOR :: byte where "DEFAULT_MAJOR \<equiv> 0x00"

record message_header_impl =
  hdr_service :: u16
  hdr_method :: u16
  hdr_length :: u32
  hdr_client :: u16
  hdr_session :: u16
  hdr_protocol_version :: byte
  hdr_interface_version :: byte
  hdr_type :: message_type_e
  hdr_code :: return_code_e
  hdr_instance :: u16

record vsomeip_sec_client_t =
  sec_user :: u32
  sec_group :: u32
  sec_host :: u32
  sec_port :: u16

record message_impl =
  msg_header :: message_header_impl
  msg_payload :: "bytes option"
  msg_check_result :: byte
  msg_sec_client :: vsomeip_sec_client_t
  msg_env :: string
  msg_is_reliable :: bool
  msg_is_initial :: bool

section \<open>Header\<close>

definition message_header_new :: message_header_impl where
  "message_header_new =
     \<lparr>hdr_service = 0, hdr_method = 0, hdr_length = 0, hdr_client = 0, hdr_session = 0,
      hdr_protocol_version = 1, hdr_interface_version = 0, hdr_type = MT_UNKNOWN,
      hdr_code = E_UNKNOWN, hdr_instance = 0\<rparr>"

text \<open>The length written is that of the owning message, not the stored one.\<close>

definition header_serialize :: "u32 \<Rightarrow> message_header_impl \<Rightarrow> ser" where
  "header_serialize owner_length h = ser_all
     [serialize_u16 (hdr_service h), serialize_u16 (hdr_method h),
      serialize_u32 owner_length False,
      serialize_u16 (hdr_client h), serialize_u16 (hdr_session h),
      serialize_u8 (hdr_protocol_version h), serialize_u8 (hdr_interface_version h),
      serialize_u8 (hdr_type h), serialize_u8 (hdr_code h)]"

definition header_deserialize :: "message_header_impl \<Rightarrow> message_header_impl des" where
  "header_deserialize h =
     des_bind deserialize_u16 (\<lambda>service.
     des_bind deserialize_u16 (\<lambda>method.
     des_bind (deserialize_u32 False) (\<lambda>len.
     des_bind deserialize_u16 (\<lambda>client.
     des_bind deserialize_u16 (\<lambda>session.
     des_bind deserialize_u8 (\<lambda>protocol_version.
     des_bind deserialize_u8 (\<lambda>interface_version.
     des_bind deserialize_u8 (\<lambda>tmp_message_type.
     des_bind deserialize_u8 (\<lambda>tmp_return_code.
       des_return (h\<lparr>hdr_service := service, hdr_method := method, hdr_length := len,
         hdr_client := client, hdr_session := session,
         hdr_protocol_version := protocol_version, hdr_interface_version := interface_version,
         hdr_type := tmp_message_type, hdr_code := tmp_return_code\<rparr>))))))))))"

section \<open>Messages\<close>

definition message_new :: message_impl where
  "message_new =
     \<lparr>msg_header = message_header_new, msg_payload = Some [], msg_check_result = 0,
      msg_sec_client = \<lparr>sec_user = 0xFFFFFFFF, sec_group = 0xFFFFFFFF, sec_host = 0, sec_port = 0\<rparr>,
      msg_env = [], msg_is_reliable = False, msg_is_initial = False\<rparr>"

text \<open>\<open>message_base_impl\<close>: the message and request identifiers as 32 bit values.\<close>

definition get_message :: "message_impl \<Rightarrow> u32" where
  "get_message m = be_word
     [ucast (drop_bit 8 (hdr_service (msg_header m) AND 0xFF00)), ucast (hdr_service (msg_header m) AND 0x00FF),
      ucast (drop_bit 8 (hdr_method (msg_header m) AND 0xFF00)), ucast (hdr_method (msg_header m) AND 0x00FF)]"

definition set_message :: "u32 \<Rightarrow> message_impl \<Rightarrow> message_impl" where
  "set_message v m = m\<lparr>msg_header := (msg_header m)
     \<lparr>hdr_service := read_high_word v, hdr_method := read_low_word v\<rparr>\<rparr>"

definition get_request :: "message_impl \<Rightarrow> u32" where
  "get_request m = be_word
     [ucast (drop_bit 8 (hdr_client (msg_header m) AND 0xFF00)), ucast (hdr_client (msg_header m) AND 0x00FF),
      ucast (drop_bit 8 (hdr_session (msg_header m) AND 0xFF00)), ucast (hdr_session (msg_header m) AND 0x00FF)]"

definition payload_get_length :: "bytes \<Rightarrow> u32" where
  "payload_get_length data = of_nat (length data)"

definition message_get_length :: "message_impl \<Rightarrow> u32" where
  "message_get_length m =
     VSOMEIP_SOMEIP_HEADER_SIZE + (case msg_payload m of Some p \<Rightarrow> payload_get_length p | None \<Rightarrow> 0)"

definition message_set_payload :: "bytes option \<Rightarrow> message_impl \<Rightarrow> message_impl" where
  "message_set_payload p m = m\<lparr>msg_payload := p\<rparr>"

definition is_valid_crc :: "message_impl \<Rightarrow> bool" where
  "is_valid_crc m \<longleftrightarrow> msg_check_result m = 0"

definition message_serialize :: "message_impl \<Rightarrow> ser" where
  "message_serialize m = ser_and (header_serialize (message_get_length m) (msg_header m))
     (case msg_payload m of Some p \<Rightarrow> serialize_bytes p | None \<Rightarrow> (\<lambda>s. (True, s)))"

text \<open>
  \<open>message_impl::deserialize\<close>. The fresh payload vector is asked to reserve the announced
  payload length and is then filled to its capacity. \<open>reserve n\<close> is the capacity an empty
  \<open>std::vector\<close> has after \<open>reserve(n)\<close>, \<^term>\<open>None\<close> when that call throws; the
  exception is the left alternative of the result.
\<close>

datatype std_exception = Std_exception

definition message_deserialize ::
    "(nat \<Rightarrow> nat option) \<Rightarrow> message_impl \<Rightarrow> deserializer \<Rightarrow> ((std_exception + message_impl option) \<times> deserializer) option" where
  "message_deserialize reserve m d = do {
     (h, d1) \<leftarrow> header_deserialize (msg_header m) d;
     (case h of
        None \<Rightarrow> Some (Inr None, d1)
      | Some hdr \<Rightarrow>
          (case reserve (unat (hdr_length hdr - VSOMEIP_SOMEIP_HEADER_SIZE)) of
             None \<Rightarrow> Some (Inl Std_exception, d1)
           | Some capacity \<Rightarrow> do {
               (p, d2) \<leftarrow> deserialize_vector capacity d1;
               Some (Inr (map_option (\<lambda>bs. m\<lparr>msg_header := hdr, msg_payload := Some bs\<rparr>) p), d2) })) }"

text \<open>\<open>deserializer::deserialize_message\<close>: a failure and an exception both give a null pointer.\<close>

definition deserialize_message ::
    "(nat \<Rightarrow> nat option) \<Rightarrow> deserializer \<Rightarrow> (message_impl option \<times> deserializer) option" where
  "deserialize_message reserve d = do {
     (r, d') \<leftarrow> message_deserialize reserve message_new d;
     Some (case r of Inl _ \<Rightarrow> None | Inr m \<Rightarrow> m, d') }"

section \<open>Factories\<close>

definition create_message :: "bool \<Rightarrow> message_impl" where
  "create_message reliable = message_new\<lparr>msg_is_reliable := reliable,
     msg_header := (msg_header message_new)\<lparr>hdr_protocol_version := VSOMEIP_PROTOCOL_VERSION,
       hdr_code := E_OK, hdr_interface_version := DEFAULT_MAJOR\<rparr>\<rparr>"

definition create_request :: "bool \<Rightarrow> message_impl" where
  "create_request reliable = message_new\<lparr>msg_is_reliable := reliable,
     msg_header := (msg_header message_new)\<lparr>hdr_protocol_version := VSOMEIP_PROTOCOL_VERSION,
       hdr_type := MT_REQUEST, hdr_code := E_OK, hdr_interface_version := DEFAULT_MAJOR\<rparr>\<rparr>"

definition create_response :: "message_impl \<Rightarrow> message_impl" where
  "create_response request = message_new\<lparr>msg_is_reliable := msg_is_reliable request,
     msg_header := (msg_header message_new)\<lparr>
       hdr_service := hdr_service (msg_header request),
       hdr_instance := hdr_instance (msg_header request),
       hdr_method := hdr_method (msg_header request),
       hdr_client := hdr_client (msg_header request),
       hdr_session := hdr_session (msg_header request),
       hdr_interface_version := hdr_interface_version (msg_header request),
       hdr_type := MT_RESPONSE, hdr_code := E_OK\<rparr>\<rparr>"

definition create_notification :: "bool \<Rightarrow> message_impl" where
  "create_notification reliable = message_new\<lparr>msg_is_reliable := reliable,
     msg_header := (msg_header message_new)\<lparr>hdr_protocol_version := VSOMEIP_PROTOCOL_VERSION,
       hdr_type := MT_NOTIFICATION, hdr_code := E_OK, hdr_interface_version := DEFAULT_MAJOR\<rparr>\<rparr>"

section \<open>Codec of the header\<close>

definition header_bytes :: "u32 \<Rightarrow> message_header_impl \<Rightarrow> bytes" where
  "header_bytes len h =
     be_bytes 2 (hdr_service h) @ be_bytes 2 (hdr_method h) @ be_bytes 4 len @
     be_bytes 2 (hdr_client h) @ be_bytes 2 (hdr_session h) @
     [hdr_protocol_version h] @ [hdr_interface_version h] @ [hdr_type h] @ [hdr_code h]"

lemma length_header_bytes [simp]: "length (header_bytes len h) = 16"
  by (simp add: header_bytes_def)

lemma emits_header [emit_intros]: "emits (header_serialize len h) (header_bytes len h)"
proof -
  have "emits (header_serialize len h) (header_bytes len h @ [])"
    unfolding header_serialize_def header_bytes_def append_assoc by (intro emit_intros)
  then show ?thesis by simp
qed

text \<open>The instance is not part of the wire format; it is kept from the target object.\<close>

definition header_of :: "u32 \<Rightarrow> message_header_impl \<Rightarrow> message_header_impl \<Rightarrow> message_header_impl" where
  "header_of len h h0 = h\<lparr>hdr_length := len, hdr_instance := hdr_instance h0\<rparr>"

lemma parses_header [parse_intros]:
  "parses (header_deserialize h0) (header_bytes len h) (header_of len h h0)"
proof -
  have "parses (header_deserialize h0) (header_bytes len h @ []) (header_of len h h0)"
    unfolding header_deserialize_def header_bytes_def append_assoc
    by ((rule parse_intros)+, simp add: header_of_def)
  then show ?thesis by simp
qed

lemma header_safe [safe_intros]: "des_safe (header_deserialize h)"
  unfolding header_deserialize_def by (intro safe_intros)

section \<open>Properties\<close>

definition message_bytes :: "message_impl \<Rightarrow> bytes" where
  "message_bytes m = header_bytes (message_get_length m) (msg_header m) @
     (case msg_payload m of Some p \<Rightarrow> p | None \<Rightarrow> [])"

lemma emits_message [emit_intros]: "emits (message_serialize m) (message_bytes m)"
  unfolding message_serialize_def message_bytes_def
  by (rule emits_and [OF emits_header], cases "msg_payload m") (auto simp: emits_def serialize_bytes_def)

lemma message_deserialize_payload:
  assumes hd: "header_deserialize (msg_header m) d = Some (Some h, advance 16 d)"
    and d: "des_ok d" "des_input d = hs @ p @ rest" "length hs = 16"
    and cap: "reserve (unat (hdr_length h - 8)) = Some (length p)"
  shows "message_deserialize reserve m d =
     Some (Inr (Some (m\<lparr>msg_header := h, msg_payload := Some p\<rparr>)), advance (16 + length p) d)"
proof -
  have ok: "des_ok (advance 16 d)" and inp: "des_input (advance 16 d) = p @ rest"
    using d des_ok_advance_app [of d hs "p @ rest"] by auto
  have "deserialize_vector (length p) (advance 16 d) = Some (Some p, advance (16 + length p) d)"
    using rdv.rd_app [OF ok inp refl] by simp
  then show ?thesis by (simp add: message_deserialize_def hd cap)
qed

lemma deserialize_message_bytes:
  assumes "msg_payload m = Some p" and "length p < 2 ^ 32 - 8"
    and reserve_exact: "reserve (length p) = Some (length p)"
    and d: "des_ok d" "des_input d = message_bytes m @ rest"
  shows "deserialize_message reserve d =
       Some (Some (message_new\<lparr>msg_header := header_of (message_get_length m) (msg_header m) message_header_new,
                               msg_payload := Some p\<rparr>),
             advance (16 + length p) d)"
proof -
  have inp: "des_input d = header_bytes (message_get_length m) (msg_header m) @ p @ rest"
    by (simp add: d(2) message_bytes_def assms(1))
  have h: "header_deserialize (msg_header message_new) d =
      Some (Some (header_of (message_get_length m) (msg_header m) message_header_new), advance 16 d)"
    using parsesD [OF parses_header d(1) inp] by (simp add: message_new_def)
  have len: "unat (message_get_length m - 8) = length p"
    using assms(1,2) by (simp add: message_get_length_def payload_get_length_def unat_of_nat)
  show ?thesis
    using message_deserialize_payload [OF h d(1) inp, of reserve] len reserve_exact
    by (simp add: deserialize_message_def header_of_def)
qed

lemma message_serialize_bytes: "\<exists>s. message_serialize m (serializer_new th) = (True, s) \<and> ser_data s = message_bytes m"
  using emitsD [OF emits_message, of m "serializer_new th"] by (simp add: serializer_new_def)

text \<open>
  C16. Serialising a message and deserialising the bytes gives the message back, for every
  message whose payload fits the 32 bit length field and every host vector that reserves
  exactly what it is asked for. The header gets the length field computed by
  \<open>get_length\<close>; the fields that are not on the wire keep their defaults; bytes that follow
  the message in the buffer stay unread.
\<close>

theorem message_roundtrip:
  assumes "msg_payload m = Some p" and "length p < 2 ^ 32 - 8"
    and reserve_exact: "reserve (length p) = Some (length p)"
  shows "\<exists>s. message_serialize m (serializer_new th) = (True, s) \<and>
     deserialize_message reserve (deserializer_new (ser_data s @ rest) th') =
       Some (Some (message_new\<lparr>msg_header := header_of (message_get_length m) (msg_header m) message_header_new,
                               msg_payload := Some p\<rparr>),
             advance (16 + length p) (deserializer_new (ser_data s @ rest) th'))"
  using message_serialize_bytes [of m th] deserialize_message_bytes [of m p reserve, OF assms des_ok_new] by auto

theorem message_roundtrip_witness:
  "\<exists>s. message_serialize (message_set_payload (Some [1, 2, 3]) (create_request True)) (serializer_new 5) = (True, s) \<and>
     deserialize_message Some (deserializer_new (ser_data s @ [9]) 5) =
       Some (Some (message_new\<lparr>msg_header := header_of 11 (msg_header (create_request True)) message_header_new,
                               msg_payload := Some [1, 2, 3]\<rparr>),
             advance 19 (deserializer_new (ser_data s @ [9]) 5))"
  using message_roundtrip [of "message_set_payload (Some [1, 2, 3]) (create_request True)" "[1, 2, 3]" Some 5 "[9]" 5]
  by (simp add: message_set_payload_def message_get_length_def payload_get_length_def create_request_def)

text \<open>
  Deserialising a message never reads outside the received buffer, whatever the bytes
  and whatever capacity the payload vector gets, and it keeps the cursor inside the buffer.
\<close>

lemma deserialize_message_safe:
  "\<exists>r d'. deserialize_message reserve (deserializer_new bs th) = Some (r, d') \<and> des_ok d' \<and> des_data d' = bs"
proof -
  let ?d = "deserializer_new bs th"
  obtain h d1 where h: "header_deserialize (msg_header message_new) ?d = Some (h, d1)"
    "des_step ?d d1" "des_ok d1"
    using des_safeD [OF header_safe des_ok_new] by metis
  have data: "des_data d1 = bs"
    using h(2) by (simp add: des_step_def deserializer_new_def)
  show ?thesis
  proof (cases "\<exists>hdr c. h = Some hdr \<and> reserve (unat (hdr_length hdr - 8)) = Some c")
    case True
    then obtain hdr c where hc: "h = Some hdr" "reserve (unat (hdr_length hdr - 8)) = Some c" by blast
    obtain p d2 where "deserialize_vector c d1 = Some (p, d2)" "des_step d1 d2" "des_ok d2"
      using des_safeD [OF rdv.rd_safe h(3)] by metis
    with h(1) hc data show ?thesis
      by (simp add: deserialize_message_def message_deserialize_def des_step_def)
  next
    case False
    with h(1,3) data show ?thesis
      by (auto simp: deserialize_message_def message_deserialize_def split: option.splits)
  qed
qed

text \<open>The header found in the first sixteen bytes of a buffer.\<close>

definition header_at :: "bytes \<Rightarrow> message_header_impl" where
  "header_at bs = message_header_new
     \<lparr>hdr_service := be_word (take 2 bs), hdr_method := be_word (take 2 (drop 2 bs)),
      hdr_length := be_word (take 4 (drop 4 bs)), hdr_client := be_word (take 2 (drop 8 bs)),
      hdr_session := be_word (take 2 (drop 10 bs)), hdr_protocol_version := bs ! 12,
      hdr_interface_version := bs ! 13, hdr_type := bs ! 14, hdr_code := bs ! 15\<rparr>"

lemma header_bytes_header_at:
  assumes "length bs = 16"
  shows "header_bytes (hdr_length (header_at bs)) (header_at bs) = bs"
proof -
  from assms obtain b0 b1 b2 b3 b4 b5 b6 b7 b8 b9 b10 b11 b12 b13 b14 b15 where
    "bs = [b0, b1, b2, b3, b4, b5, b6, b7, b8, b9, b10, b11, b12, b13, b14, b15]"
    by (auto simp: length_Suc_conv eval_nat_numeral)
  then show ?thesis
    by (simp add: header_bytes_def header_at_def be16.enc_dec be32.enc_dec)
qed

lemma header_at_take: "16 \<le> length bs \<Longrightarrow> header_at (take 16 bs) = header_at bs"
  by (simp add: header_at_def drop_take min_def)

lemma header_deserialize_at:
  assumes "16 \<le> length bs"
  shows "header_deserialize message_header_new (deserializer_new bs th) =
     Some (Some (header_at bs), advance 16 (deserializer_new bs th))"
proof -
  have "des_input (deserializer_new bs th) =
      header_bytes (hdr_length (header_at bs)) (header_at (take 16 bs)) @ drop 16 bs"
    using assms header_bytes_header_at [of "take 16 bs"] by (simp add: header_at_take)
  from parsesD [OF parses_header des_ok_new this, of message_header_new] assms
  show ?thesis by (simp add: header_of_def header_at_take) (simp add: header_at_def message_header_new_def)
qed

lemma header_consumes [consume_intros]: "consumes (header_deserialize h) 16"
proof -
  have "consumes (header_deserialize h) (2 + (2 + (4 + (2 + (2 + (1 + (1 + (1 + (1 + 0)))))))))"
    unfolding header_deserialize_def by (intro consume_intros)
  then show ?thesis by simp
qed

text \<open>
  C17. What \<open>deserialize_message\<close> accepts, and what it returns. With a vector that reserves
  exactly what it is asked for, a buffer is accepted exactly when it holds the sixteen header
  bytes and as many payload bytes as the length field announces beyond the eight header bytes
  it counts (32 bit arithmetic: a length field below eight announces almost four gigabytes).
  The message returned is the one read from those slices of the buffer, and the cursor then
  stands behind the payload.
\<close>

theorem deserialize_message_spec:
  "\<exists>d'. deserialize_message Some (deserializer_new bs th) =
     Some (if 16 \<le> length bs \<and> 16 + unat (hdr_length (header_at bs) - 8) \<le> length bs
           then Some (message_new\<lparr>msg_header := header_at bs,
                  msg_payload := Some (take (unat (hdr_length (header_at bs) - 8)) (drop 16 bs))\<rparr>)
           else None, d') \<and>
     (16 \<le> length bs \<and> 16 + unat (hdr_length (header_at bs) - 8) \<le> length bs \<longrightarrow>
        d' = advance (16 + unat (hdr_length (header_at bs) - 8)) (deserializer_new bs th))"
proof (cases "16 \<le> length bs")
  case False
  then obtain d' where "header_deserialize message_header_new (deserializer_new bs th) = Some (None, d')"
    using consumes_short [OF header_safe header_consumes des_ok_new, of bs th]
    by (auto simp: deserializer_new_def)
  with False show ?thesis
    by (simp add: deserialize_message_def message_deserialize_def message_new_def)
next
  case True
  let ?d = "deserializer_new bs th" and ?n = "unat (hdr_length (header_at bs) - 8)"
  have ok: "des_ok (advance 16 ?d)"
    using True by (simp add: des_ok_def deserializer_new_def)
  have rem: "des_remaining (advance 16 ?d) = length bs - 16"
    by (simp add: deserializer_new_def)
  show ?thesis
  proof (cases "16 + ?n \<le> length bs")
    case enough: True
    have "deserialize_vector ?n (advance 16 ?d) = Some (Some (take ?n (drop 16 bs)), advance (16 + ?n) ?d)"
      using rdv.rd_enough [OF ok, of ?n] enough rem by simp
    with True enough show ?thesis
      by (simp add: deserialize_message_def message_deserialize_def header_deserialize_at message_new_def)
  next
    case short: False
    have "deserialize_vector ?n (advance 16 ?d) = Some (None, advance 16 ?d)"
      using rdv.rd_short [OF ok, of ?n] short rem True by simp
    with True short show ?thesis
      by (simp add: deserialize_message_def message_deserialize_def header_deserialize_at message_new_def)
  qed
qed

theorem deserialize_message_spec_witness:
  "\<exists>d'. deserialize_message Some (deserializer_new [0,1, 0,2, 0,0,0,9, 0,3, 0,4, 1,0,0,0, 42, 77] 0) =
     Some (Some (message_new\<lparr>msg_header := header_at [0,1, 0,2, 0,0,0,9, 0,3, 0,4, 1,0,0,0, 42, 77],
                  msg_payload := Some [42]\<rparr>), d') \<and>
     d' = advance 17 (deserializer_new [0,1, 0,2, 0,0,0,9, 0,3, 0,4, 1,0,0,0, 42, 77] 0)"
  using deserialize_message_spec [of "[0,1, 0,2, 0,0,0,9, 0,3, 0,4, 1,0,0,0, 42, 77]" 0]
  by (simp add: header_at_def be_word_def)

lemma bytes_of_u16:
  "[ucast (drop_bit 8 (x AND 0xFF00)), ucast (x AND 0x00FF)] = be_bytes 2 x" for x :: u16
proof -
  have m: "(0xFF :: u16) = mask 8" "(0xFF00 :: u16) = push_bit 8 (mask 8)"
    by (simp_all add: mask_eq_exp_minus_1)
  have "ucast (drop_bit 8 (x AND 0xFF00)) = (ucast (drop_bit 8 x) :: byte)"
    unfolding m by (rule bit_eqI) (auto simp: bit_unsigned_iff bit_drop_bit_eq bit_and_iff bit_push_bit_iff bit_mask_iff)
  moreover have "ucast (x AND 0xFF) = (ucast x :: byte)"
    unfolding m by (rule bit_eqI) (auto simp: bit_unsigned_iff bit_and_iff bit_mask_iff)
  ultimately show ?thesis by (simp add: be_bytes_def le_bytes_numeral)
qed

lemma bytes_of_halves: "be_bytes 2 (read_high_word v) @ be_bytes 2 (read_low_word v) = be_bytes 4 v"
proof -
  have m: "(0xFFFF :: u32) = mask 16"
    by (simp add: mask_eq_exp_minus_1)
  show ?thesis
    unfolding read_high_word_def read_low_word_def m be_bytes_def
    by (simp add: le_bytes_numeral)
       (intro conjI bit_eqI; auto simp: bit_unsigned_iff bit_drop_bit_eq bit_and_iff bit_mask_iff)
qed

lemma get_message_bytes:
  "get_message m = be_word (be_bytes 2 (hdr_service (msg_header m)) @ be_bytes 2 (hdr_method (msg_header m)))"
  "get_request m = be_word (be_bytes 2 (hdr_client (msg_header m)) @ be_bytes 2 (hdr_session (msg_header m)))"
  unfolding get_message_def get_request_def bytes_of_u16 [symmetric] by simp_all

text \<open>
  The 32 bit message identifier of a message is its service and its method: reading back
  an identifier that was set gives the identifier, and setting the identifier a message
  already has changes nothing.
\<close>

lemma message_id_roundtrip:
  "get_message (set_message v m) = v \<and> set_message (get_message m) m = m"
proof
  show id: "get_message (set_message v m) = v" for v
    by (simp add: get_message_bytes set_message_def bytes_of_halves)
  let ?h = "msg_header m" and ?h' = "msg_header (set_message (get_message m) m)"
  have "get_message (set_message (get_message m) m) = get_message m"
    by (rule id)
  then have "be_bytes 2 (hdr_service ?h') @ be_bytes 2 (hdr_method ?h') =
      be_bytes 2 (hdr_service ?h) @ be_bytes 2 (hdr_method ?h)"
    unfolding get_message_bytes by (subst (asm) be32.dec_inject) simp_all
  then have "hdr_service ?h' = hdr_service ?h" "hdr_method ?h' = hdr_method ?h"
    by (simp_all add: be16.enc_inject)
  then show "set_message (get_message m) m = m"
    by (simp add: set_message_def)
qed

end
