(* ===== verification/Tp.thy ===== *)
theory Tp
  imports Message
begin

text \<open>
  Model of \<open>endpoints/include/tp.hpp\<close> and \<open>endpoints/src/tp.cpp\<close>: the SOME/IP-TP header
  and the segmentation of a message that does not fit a UDP datagram. The segmentation loop
  is a partial function: with a segment length of zero it never ends.
\<close>

section \<open>The TP header\<close>

abbreviation (input) TP_FLAG :: byte where "TP_FLAG \<equiv> 0x20"
abbreviation (input) VSOMEIP_MAX_UDP_MESSAGE_SIZE :: nat where "VSOMEIP_MAX_UDP_MESSAGE_SIZE \<equiv> 1416"
abbreviation (input) VSOMEIP_MESSAGE_TYPE_POS :: nat where "VSOMEIP_MESSAGE_TYPE_POS \<equiv> 14"
abbreviation (input) VSOMEIP_RETURN_CODE_POS :: nat where "VSOMEIP_RETURN_CODE_POS \<equiv> 15"
abbreviation (input) VSOMEIP_LENGTH_POS_MIN :: nat where "VSOMEIP_LENGTH_POS_MIN \<equiv> 4"
abbreviation (input) VSOMEIP_TP_HEADER_POS_MIN :: nat where "VSOMEIP_TP_HEADER_POS_MIN \<equiv> 16"
abbreviation (input) VSOMEIP_TP_PAYLOAD_POS :: nat where "VSOMEIP_TP_PAYLOAD_POS \<equiv> 20"
abbreviation (input) tp_max_segment_length :: u32 where "tp_max_segment_length \<equiv> 1392"

definition get_offset :: "u32 \<Rightarrow> u32" where
  "get_offset tp_header = tp_header AND 0xfffffff0"

definition more_segments :: "u32 \<Rightarrow> bool" where
  "more_segments tp_header \<longleftrightarrow> tp_header AND 0x1 \<noteq> 0"

definition tp_flag_is_set :: "byte \<Rightarrow> bool" where
  "tp_flag_is_set msg_type \<longleftrightarrow> msg_type AND TP_FLAG \<noteq> 0"

definition tp_flag_set :: "message_type_e \<Rightarrow> byte" where
  "tp_flag_set msg_type = msg_type OR TP_FLAG"

definition tp_flag_unset :: "byte \<Rightarrow> message_type_e" where
  "tp_flag_unset msg_type = msg_type AND NOT TP_FLAG"

section \<open>Segmentation\<close>

text \<open>
  One turn of the loop: the segment that carries the bytes from \<open>off\<close> up to \<open>seg_end\<close>.
  \<open>htonl\<close> followed by a copy of the representation writes the big-endian bytes.
\<close>

definition tp_segment :: "bytes \<Rightarrow> nat \<Rightarrow> nat \<Rightarrow> bool \<Rightarrow> bytes option" where
  "tp_segment data off seg_end is_last_segment = do {
     hdr \<leftarrow> mem_sub data 0 VSOMEIP_FULL_HEADER_SIZE;
     ty \<leftarrow> mem_at hdr VSOMEIP_MESSAGE_TYPE_POS;
     let msg = hdr[VSOMEIP_MESSAGE_TYPE_POS := ty OR 0x20];
     let header = ((of_nat (off - VSOMEIP_FULL_HEADER_SIZE) :: u32) OR (if is_last_segment then 0 else 1));
     let msg = msg @ be_bytes 4 header;
     payload \<leftarrow> mem_sub data off (seg_end - off);
     let msg = msg @ payload;
     write_be (of_nat (length msg) - VSOMEIP_SOMEIP_HEADER_SIZE :: u32) msg VSOMEIP_LENGTH_POS_MIN }"

text \<open>The result is \<^term>\<open>None\<close> when the loop does not end (or reads outside the data).\<close>

partial_function (option) tp_split_loop :: "bytes \<Rightarrow> nat \<Rightarrow> nat \<Rightarrow> bytes list \<Rightarrow> bytes list option" where
  "tp_split_loop data max_segment_length off acc =
     (if off < length data then
        (let segment_end = off + max_segment_length; is_last_segment = (segment_end \<ge> length data);
             seg_end = (if is_last_segment then length data else segment_end)
         in Option.bind (tp_segment data off seg_end is_last_segment)
              (\<lambda>msg. tp_split_loop data max_segment_length
                 (if is_last_segment then length data else off + max_segment_length) (acc @ [msg])))
      else Some acc)"

definition tp_split_message :: "bytes \<Rightarrow> u16 \<Rightarrow> bytes list option" where
  "tp_split_message data max_segment_length =
     (if length data < VSOMEIP_MAX_UDP_MESSAGE_SIZE then Some []
      else tp_split_loop data (unat max_segment_length) VSOMEIP_FULL_HEADER_SIZE [])"

section \<open>Shape of the segments\<close>

text \<open>The segment with number \<open>i\<close> of a message, with segments of \<open>k\<close> payload bytes.\<close>

definition seg_start :: "nat \<Rightarrow> nat \<Rightarrow> nat" where
  "seg_start k i = i * k"

definition seg_stop :: "nat \<Rightarrow> nat \<Rightarrow> nat \<Rightarrow> nat" where
  "seg_stop k n i = min (Suc i * k) n"

definition seg_count :: "nat \<Rightarrow> nat \<Rightarrow> nat" where
  "seg_count k n = (n + k - 1) div k"

definition seg_header :: "bytes \<Rightarrow> nat \<Rightarrow> bytes" where
  "seg_header data len = take 4 data @ be_bytes 4 (12 + of_nat len :: u32) @ take 6 (drop 8 data) @
     [data ! 14 OR 0x20] @ [data ! 15]"

definition nth_segment :: "bytes \<Rightarrow> nat \<Rightarrow> nat \<Rightarrow> bytes" where
  "nth_segment data k i =
     (let n = length data - 16; len = seg_stop k n i - seg_start k i
      in seg_header data len @
         be_bytes 4 ((of_nat (seg_start k i) :: u32) OR (if n \<le> Suc i * k then 0 else 1)) @
         take len (drop (16 + seg_start k i) data))"

lemma length_seg_header [simp]: "16 \<le> length data \<Longrightarrow> length (seg_header data len) = 16"
  by (simp add: seg_header_def)

lemma tp_segment_eq:
  assumes "16 \<le> off" and "off \<le> e" and "e \<le> length data"
  shows "tp_segment data off e is_last = Some (seg_header data (e - off) @
     be_bytes 4 ((of_nat (off - 16) :: u32) OR (if is_last then 0 else 1)) @ take (e - off) (drop off data))"
proof -
  have "16 \<le> length data" using assms by simp
  then obtain b0 b1 b2 b3 b4 b5 b6 b7 b8 b9 b10 b11 b12 b13 b14 b15 rest where
    d: "data = b0 # b1 # b2 # b3 # b4 # b5 # b6 # b7 # b8 # b9 # b10 # b11 # b12 # b13 # b14 # b15 # rest"
    by (rule list_ge_16E)
  have p: "mem_sub data off (e - off) = Some (take (e - off) (drop off data))"
    using assms by simp
  have h: "mem_sub data 0 16 = Some (take 16 data)"
    using assms by simp
  show ?thesis
    unfolding tp_segment_def p h
    using assms by (simp add: d write_be_def seg_header_def)
qed

lemma seg_count_iff: "0 < k \<Longrightarrow> i < seg_count k n \<longleftrightarrow> i * k < n"
  unfolding seg_count_def
  by (subst less_eq_Suc_le, subst less_eq_div_iff_mult_less_eq) auto

lemma seg_count_bounds:
  assumes "0 < k"
  shows "n \<le> seg_count k n * k" "seg_count k n * k < n + k"
proof -
  show "n \<le> seg_count k n * k"
    using seg_count_iff [OF assms, of "seg_count k n" n] by simp
  show "seg_count k n * k < n + k"
    using div_times_less_eq_dividend [of "n + k - 1" k] assms unfolding seg_count_def by linarith
qed

lemma nth_segment_eq:
  assumes "0 < k" and "i < seg_count k (length data - 16)"
  shows "tp_segment data (16 + i * k) (if length data \<le> 16 + i * k + k then length data else 16 + i * k + k)
           (length data \<le> 16 + i * k + k) = Some (nth_segment data k i)"
proof -
  let ?n = "length data - 16" and ?e = "if length data \<le> 16 + i * k + k then length data else 16 + i * k + k"
  have lt: "i * k < ?n" using assms by (simp add: seg_count_iff)
  have e: "?e - (16 + i * k) = seg_stop k ?n i - seg_start k i"
    using lt by (auto simp: seg_stop_def seg_start_def)
  have "tp_segment data (16 + i * k) ?e (length data \<le> 16 + i * k + k) =
      Some (seg_header data (?e - (16 + i * k)) @
        be_bytes 4 ((of_nat (i * k) :: u32) OR (if length data \<le> 16 + i * k + k then 0 else 1)) @
        take (?e - (16 + i * k)) (drop (16 + i * k) data))"
    using lt by (subst tp_segment_eq) auto
  moreover have "(length data \<le> 16 + i * k + k) = (?n \<le> Suc i * k)"
    using lt by auto
  ultimately show ?thesis
    unfolding e by (simp add: nth_segment_def Let_def seg_start_def)
qed

lemma tp_split_loop_segments:
  assumes "0 < k"
  shows "tp_split_loop data k (16 + i * k) acc =
     Some (acc @ map (nth_segment data k) [i..<seg_count k (length data - 16)])"
proof (induction "seg_count k (length data - 16) - i" arbitrary: i acc)
  case 0
  then have "\<not> 16 + i * k < length data"
    using seg_count_iff [OF assms, of i "length data - 16"] by auto
  then show ?case using 0 by (subst tp_split_loop.simps) simp
next
  case (Suc m)
  then have i: "i < seg_count k (length data - 16)" by simp
  then have lt: "16 + i * k < length data"
    using seg_count_iff [OF assms, of i "length data - 16"] by auto
  have upt: "[i..<seg_count k (length data - 16)] = i # [Suc i..<seg_count k (length data - 16)]"
    using i by (simp add: upt_conv_Cons)
  show ?case
  proof (cases "length data \<le> 16 + i * k + k")
    case True
    then have "\<not> Suc i < seg_count k (length data - 16)"
      using seg_count_iff [OF assms, of "Suc i" "length data - 16"] by auto
    then have "[Suc i..<seg_count k (length data - 16)] = []" by simp
    moreover have "tp_split_loop data k (length data) xs = Some xs" for xs
      by (subst tp_split_loop.simps) simp
    ultimately show ?thesis
      using lt True nth_segment_eq [OF assms i] upt
      by (subst tp_split_loop.simps) (simp add: Let_def)
  next
    case False
    have "tp_split_loop data k (16 + i * k + k) (acc @ [nth_segment data k i]) =
        Some ((acc @ [nth_segment data k i]) @ map (nth_segment data k) [Suc i..<seg_count k (length data - 16)])"
      using Suc.hyps(1) [of "Suc i" "acc @ [nth_segment data k i]"] Suc.hyps(2) by (simp add: ac_simps)
    then show ?thesis
      using lt False nth_segment_eq [OF assms i] upt
      by (subst tp_split_loop.simps) (simp add: Let_def)
  qed
qed

lemma tp_split_message_eq:
  assumes "0 < max_segment_length" and "1416 \<le> length data"
  shows "tp_split_message data max_segment_length =
     Some (map (nth_segment data (unat max_segment_length))
            [0..<seg_count (unat max_segment_length) (length data - 16)])"
proof -
  have "0 < unat max_segment_length"
    using assms(1) by (simp add: unat_gt_0 word_greater_zero_iff)
  from tp_split_loop_segments [OF this, of data 0 "[]"] assms(2)
  show ?thesis by (simp add: tp_split_message_def)
qed

text \<open>
  C27. Segmentation of a message that is too big for UDP ends for every positive segment length
  and gives the segments of the SOME/IP-TP format in order: all of them carry the message's
  header with the TP flag set and their own length field, the offset of their payload, the
  more-segments flag except for the last one, and together exactly the payload.
\<close>

theorem tp_split_message_segments:
  assumes "0 < max_segment_length" and "1416 \<le> length data"
  shows "tp_split_message data max_segment_length =
     Some (map (nth_segment data (unat max_segment_length))
            [0..<seg_count (unat max_segment_length) (length data - 16)])"
  using tp_split_message_eq [OF assms] .

theorem tp_split_message_segments_witness:
  "tp_split_message (replicate 1416 0) 1392 =
     Some [nth_segment (replicate 1416 0) 1392 0, nth_segment (replicate 1416 0) 1392 1]"
  using tp_split_message_segments [of 1392 "replicate 1416 0"] by (simp add: seg_count_def upt_rec)

lemma concat_segment_payloads:
  "m * k \<le> length xs + k \<Longrightarrow> 0 < k \<Longrightarrow>
     concat (map (\<lambda>i. take (min (Suc i * k) (length xs) - i * k) (drop (i * k) xs)) [0..<m]) = take (m * k) xs"
proof (induction m)
  case 0
  then show ?case by simp
next
  case (Suc m)
  then have le: "m * k \<le> length xs" by simp
  have "take (min (Suc m * k) (length xs) - m * k) (drop (m * k) xs) = take k (drop (m * k) xs)"
    by (auto simp: min_def)
  then show ?case
    using Suc le take_add [of "m * k" k xs] by (simp add: add.commute)
qed

text \<open>
  The payloads of the segments, joined in order, are the payload of the message: nothing is
  lost, repeated or reordered.
\<close>

lemma tp_split_payload:
  assumes "tp_split_message data max_segment_length = Some segs" and "1416 \<le> length data"
    and "0 < max_segment_length"
  shows "concat (map (drop 20) segs) = drop 16 data"
proof -
  let ?k = "unat max_segment_length" and ?n = "length data - 16"
  have k: "0 < ?k" using assms(3) by (simp add: unat_gt_0 word_greater_zero_iff)
  have segs: "segs = map (nth_segment data ?k) [0..<seg_count ?k ?n]"
    using tp_split_message_eq assms by simp
  have pl: "drop 20 (nth_segment data ?k i) =
      take (min (Suc i * ?k) (length (drop 16 data)) - i * ?k) (drop (i * ?k) (drop 16 data))" for i
    using assms(2) by (simp add: nth_segment_def Let_def seg_stop_def seg_start_def add.commute)
  note bound = seg_count_bounds [OF k, of ?n]
  have "concat (map (drop 20) segs) = take (seg_count ?k ?n * ?k) (drop 16 data)"
    unfolding segs map_map comp_def pl
    using bound concat_segment_payloads [OF _ k, of "seg_count ?k ?n" "drop 16 data"] by simp
  then show ?thesis using bound(1) by simp
qed

lemma tp_split_payload_witness:
  "\<exists>segs. tp_split_message (replicate 1416 0) 1392 = Some segs \<and> concat (map (drop 20) segs) = replicate 1400 0"
  using tp_split_payload [of "replicate 1416 0" 1392] tp_split_message_eq [of 1392 "replicate 1416 0"] by simp

lemma tp_split_loop_zero:
  assumes "tp_split_loop data 0 off acc = Some r"
  shows "length data \<le> off"
proof -
  have "k = 0 \<longrightarrow> length data \<le> off" if "tp_split_loop data k off acc = Some r" for k
  proof (rule tp_split_loop.raw_induct [where P = "\<lambda>data k off acc r. k = 0 \<longrightarrow> length data \<le> off", OF _ that])
    fix f data k off acc r
    assume IH: "\<And>data k off acc r. f data k off acc = Some r \<Longrightarrow> k = 0 \<longrightarrow> length data \<le> off"
      and eq: "(if off < length data
         then let segment_end = off + k; is_last_segment = (segment_end \<ge> length data);
                  seg_end = (if is_last_segment then length data else segment_end)
              in Option.bind (tp_segment data off seg_end is_last_segment)
                   (\<lambda>msg. f data k (if is_last_segment then length data else off + k) (acc @ [msg]))
         else Some acc) = Some r"
    show "k = 0 \<longrightarrow> length data \<le> off"
    proof (rule impI, rule ccontr)
      assume "k = 0" and "\<not> length data \<le> off"
      with eq obtain msg where "f data k off (acc @ [msg]) = Some r"
        by (auto simp: Let_def bind_eq_Some_conv)
      from IH [OF this] \<open>k = 0\<close> \<open>\<not> length data \<le> off\<close> show False by simp
    qed
  qed
  with assms show ?thesis by simp
qed

text \<open>
  With a segment length of zero, which the configuration produces for every configured value
  below sixteen, the segmentation loop never ends.
\<close>

lemma tp_split_message_zero: "1416 \<le> length data \<Longrightarrow> tp_split_message data 0 = None"
  using tp_split_loop_zero [of data 16 "[]"]
  by (cases "tp_split_loop data 0 16 []") (auto simp: tp_split_message_def)

lemma tp_split_message_zero_witness: "tp_split_message (replicate 1500 7) 0 = None"
  using tp_split_message_zero [of "replicate 1500 7"] by simp

end
