(* ===== verification/Tp_Message.thy ===== *)
theory Tp_Message
  imports Tp
begin

text \<open>
  Model of \<open>endpoints/src/tp_message.cpp\<close>: the reassembly buffer of one segmented message.
  The \<open>std::set\<close> of received segments is the list of its elements in iteration order;
  \<open>emplace\<close> is undefined when the comparison \<open>segment_t::operator<\<close> is not consistent
  on the elements involved, as the standard has it. Ranges handed to \<open>insert\<close> and
  \<open>memcpy\<close> are checked against the received data and the reassembly buffer, and
  \<^term>\<open>None\<close> stands for undefined behaviour throughout. Offsets and sizes are
  \<open>std::uint32_t\<close> and wrap.
\<close>

section \<open>State\<close>

type_synonym segment_t = "u32 \<times> u32"

record tp_message =
  tpm_creation :: nat
  tpm_max_message_size :: u32
  tpm_current_message_size :: u32
  tpm_last_segment_received :: bool
  tpm_segments :: "segment_t list"
  tpm_message :: bytes

definition segment_less :: "segment_t \<Rightarrow> segment_t \<Rightarrow> bool" where
  "segment_less a b \<longleftrightarrow> fst a < fst b \<or> (fst b \<le> fst a \<and> snd a < snd b)"

text \<open>
  \<open>emplace\<close>: the elements before and after the new one, or \<^term>\<open>None\<close> inside when an
  equivalent element is present.
\<close>

definition segment_emplace :: "segment_t \<Rightarrow> segment_t list \<Rightarrow> (segment_t list \<times> segment_t list) option option" where
  "segment_emplace s segs =
     (if \<exists>t \<in> set segs. segment_less s t \<and> segment_less t s then None
      else if \<exists>t \<in> set segs. \<not> segment_less s t \<and> \<not> segment_less t s then Some None
      else Some (Some (takeWhile (\<lambda>t. segment_less t s) segs, dropWhile (\<lambda>t. segment_less t s) segs)))"

text \<open>\<open>emplace\<close> where the result is not used.\<close>

definition segment_insert :: "segment_t \<Rightarrow> segment_t list \<Rightarrow> segment_t list option" where
  "segment_insert s segs = do {
     emplaced \<leftarrow> segment_emplace s segs;
     Some (case emplaced of None \<Rightarrow> segs | Some (before, after) \<Rightarrow> before @ s # after) }"

section \<open>Operations\<close>

definition check_lengths :: "tp_message \<Rightarrow> bytes \<Rightarrow> u32 \<Rightarrow> bool \<Rightarrow> bool option" where
  "check_lengths t data segment_size more_fragments = do {
     its_length \<leftarrow> read_be data VSOMEIP_LENGTH_POS_MIN;
     its_tp_header \<leftarrow> read_be data VSOMEIP_TP_HEADER_POS_MIN;
     ty \<leftarrow> mem_at data VSOMEIP_MESSAGE_TYPE_POS;
     Some (if \<not> tp_flag_is_set ty then False
       else if (of_nat (length data) :: u32) \<noteq> its_length + 8 then False
       else if segment_size \<noteq> its_length - 4 - (16 - 8) then False
       else if tp_max_segment_length < segment_size then False
       else if more_fragments \<and> 0 < segment_size mod 16 then False
       else if tpm_max_message_size t < tpm_current_message_size t + segment_size
            \<or> tpm_current_message_size t + segment_size < segment_size then False
       else if tpm_max_message_size t < get_offset its_tp_header + segment_size
            \<or> get_offset its_tp_header + segment_size < segment_size then False
       else True) }"

definition tp_message_new :: "nat \<Rightarrow> bytes \<Rightarrow> u32 \<Rightarrow> tp_message option" where
  "tp_message_new now data max_message_size =
     (let t = \<lparr>tpm_creation = now, tpm_max_message_size = max_message_size, tpm_current_message_size = 0,
               tpm_last_segment_received = False, tpm_segments = [], tpm_message = []\<rparr>
      in if (of_nat (length data) :: u32) < 16 + 4 then Some t
         else do {
           header \<leftarrow> mem_sub data 0 VSOMEIP_FULL_HEADER_SIZE;
           ty \<leftarrow> mem_at header VSOMEIP_MESSAGE_TYPE_POS;
           let t = t\<lparr>tpm_message := header[VSOMEIP_MESSAGE_TYPE_POS := tp_flag_unset ty]\<rparr>;
           let its_segment_size = (of_nat (length data) :: u32) - 16 - 4;
           its_tp_header \<leftarrow> read_be data VSOMEIP_TP_HEADER_POS_MIN;
           ok \<leftarrow> check_lengths t data its_segment_size (more_segments its_tp_header);
           if ok then do {
             let its_offset = get_offset its_tp_header;
             let t = t\<lparr>tpm_segments := [(its_offset, its_offset + its_segment_size - 1)]\<rparr>;
             let t = (if its_offset \<noteq> 0
                      then t\<lparr>tpm_message := vec_resize (tpm_message t) (unat (16 + its_offset)) 0,
                             tpm_last_segment_received := \<not> more_segments its_tp_header\<rparr>
                      else t);
             payload \<leftarrow> mem_sub data VSOMEIP_TP_PAYLOAD_POS (unat its_segment_size);
             Some (t\<lparr>tpm_message := tpm_message t @ payload,
                     tpm_current_message_size := tpm_current_message_size t + (16 + its_segment_size)\<rparr>) }
           else Some t })"

text \<open>
  The ways a new segment is placed, by its neighbours in the set: alone, behind all others
  (\<open>before\<close> not empty), or in front of another one. A shortened segment is erased and
  emplaced again.
\<close>

definition place_alone :: "tp_message \<Rightarrow> bytes \<Rightarrow> segment_t \<Rightarrow> u32 \<Rightarrow> bool \<Rightarrow> tp_message option" where
  "place_alone t data s sz mf = do {
     let t = (if fst s \<noteq> 0
              then t\<lparr>tpm_message := vec_resize (tpm_message t) (unat (16 + fst s)) 0,
                     tpm_last_segment_received := (\<not> mf \<or> tpm_last_segment_received t)\<rparr>
              else t);
     payload \<leftarrow> mem_range data 20 (20 + unat sz);
     Some (t\<lparr>tpm_message := tpm_message t @ payload, tpm_segments := [s],
             tpm_current_message_size := tpm_current_message_size t + sz\<rparr>) }"

definition place_last :: "tp_message \<Rightarrow> bytes \<Rightarrow> segment_t \<Rightarrow> u32 \<Rightarrow> segment_t list \<Rightarrow> tp_message option" where
  "place_last t data s sz before =
     (let prev = last before in
      if snd prev < fst s then do {
        let t = (if snd prev + 1 = fst s then t
                 else t\<lparr>tpm_message := vec_resize (tpm_message t) (unat (16 + fst s)) 0\<rparr>);
        payload \<leftarrow> mem_range data 20 (20 + unat sz);
        Some (t\<lparr>tpm_message := tpm_message t @ payload, tpm_segments := before @ [s],
                tpm_current_message_size := tpm_current_message_size t + sz\<rparr>) }
      else do {
        payload \<leftarrow> mem_range data (20 + unat (snd prev + 1 - fst s)) (20 + unat sz);
        segs \<leftarrow> segment_insert (snd prev + 1, snd s) before;
        Some (t\<lparr>tpm_message := tpm_message t @ payload, tpm_segments := segs,
                tpm_current_message_size := tpm_current_message_size t + (snd s - snd prev)\<rparr>) })"

text \<open>\<open>memcpy\<close> of \<open>n\<close> received bytes, from the payload byte for \<open>dst\<close> on, into the buffer at \<open>dst\<close>.\<close>

definition copy_payload :: "bytes \<Rightarrow> bytes \<Rightarrow> u32 \<Rightarrow> u32 \<Rightarrow> u32 \<Rightarrow> bytes option" where
  "copy_payload msg data off dst n =
     (if 20 + unat dst < unat off then None
      else do {
        bs \<leftarrow> mem_sub data (20 + unat dst - unat off) (unat n);
        mem_write msg (unat (16 + dst)) bs })"

definition place_before ::
    "tp_message \<Rightarrow> bytes \<Rightarrow> segment_t \<Rightarrow> u32 \<Rightarrow> segment_t list \<Rightarrow> segment_t list \<Rightarrow> tp_message option" where
  "place_before t data s sz before after =
     (let nxt = hd after; prev = last before; off = fst s; corrected = snd prev + 1 in
      if (before \<noteq> [] \<and> snd prev < fst s) \<or> before = [] then
        (if snd s < fst nxt then do {
           m \<leftarrow> copy_payload (tpm_message t) data off off sz;
           Some (t\<lparr>tpm_message := m, tpm_segments := before @ s # after,
                   tpm_current_message_size := tpm_current_message_size t + sz\<rparr>) }
         else do {
           m \<leftarrow> copy_payload (tpm_message t) data off off (fst nxt - off);
           segs \<leftarrow> segment_insert (fst s, fst nxt - 1) (before @ after);
           Some (t\<lparr>tpm_message := m, tpm_segments := segs,
                   tpm_current_message_size := tpm_current_message_size t + (fst nxt - fst s)\<rparr>) })
      else if snd s < fst nxt then do {
        m \<leftarrow> copy_payload (tpm_message t) data off corrected (fst nxt - corrected);
        segs \<leftarrow> segment_insert (snd prev + 1, snd s) (before @ after);
        Some (t\<lparr>tpm_message := m, tpm_segments := segs,
                tpm_current_message_size := tpm_current_message_size t + (snd s - snd prev)\<rparr>) }
      else do {
        m \<leftarrow> copy_payload (tpm_message t) data off corrected (fst nxt - corrected);
        segs \<leftarrow> segment_insert (snd prev + 1, fst nxt - 1) (before @ after);
        Some (t\<lparr>tpm_message := m, tpm_segments := segs,
                tpm_current_message_size := tpm_current_message_size t + (fst nxt - (snd prev + 1))\<rparr>) })"

definition place_segment ::
    "tp_message \<Rightarrow> bytes \<Rightarrow> segment_t \<Rightarrow> u32 \<Rightarrow> bool \<Rightarrow> segment_t list \<Rightarrow> segment_t list \<Rightarrow> tp_message option" where
  "place_segment t data s sz mf before after =
     (if after = [] then
        (if before = [] then place_alone t data s sz mf else place_last t data s sz before)
      else place_before t data s sz before after)"

text \<open>The completeness check: consecutive segments from offset zero on.\<close>

fun segments_complete :: "u32 \<Rightarrow> segment_t list \<Rightarrow> bool" where
  "segments_complete last_end [] = True"
| "segments_complete last_end (s # segs) =
     (if last_end + 1 \<noteq> fst s then False else segments_complete (snd s) segs)"

definition finish_message :: "tp_message \<Rightarrow> bytes \<Rightarrow> tp_message option" where
  "finish_message t data = do {
     m \<leftarrow> write_be (of_nat (length (tpm_message t)) - 8 :: u32) (tpm_message t) VSOMEIP_LENGTH_POS_MIN;
     code \<leftarrow> mem_at data VSOMEIP_RETURN_CODE_POS;
     m \<leftarrow> mem_put m VSOMEIP_RETURN_CODE_POS code;
     Some (t\<lparr>tpm_message := m\<rparr>) }"

definition add_segment :: "tp_message \<Rightarrow> bytes \<Rightarrow> (bool \<times> tp_message) option" where
  "add_segment t data =
     (if (of_nat (length data) :: u32) < 16 + 4 then Some (False, t)
      else do {
        let its_segment_size = (of_nat (length data) :: u32) - 16 - 4;
        its_tp_header \<leftarrow> read_be data VSOMEIP_TP_HEADER_POS_MIN;
        ok \<leftarrow> check_lengths t data its_segment_size (more_segments its_tp_header);
        if \<not> ok then Some (False, t)
        else do {
          let its_offset = get_offset its_tp_header;
          let s = (its_offset, its_offset + its_segment_size - 1);
          emplaced \<leftarrow> segment_emplace s (tpm_segments t);
          (case emplaced of
             None \<Rightarrow> Some (False, t)
           | Some (before, after) \<Rightarrow> do {
               t \<leftarrow> place_segment t data s its_segment_size (more_segments its_tp_header) before after;
               let t = (if more_segments its_tp_header then t else t\<lparr>tpm_last_segment_received := True\<rparr>);
               if tpm_last_segment_received t \<and> segments_complete (- 1) (tpm_segments t)
               then do { t \<leftarrow> finish_message t data; Some (True, t) }
               else Some (False, t) }) } })"

end
