(* ===== verification/Tp_Reassembly.thy ===== *)
theory Tp_Reassembly
  imports Tp_Message
begin

text \<open>
  Correctness of reassembly: an invariant that relates the reassembly buffer of
  \<^typ>\<open>tp_message\<close> to the set of received segments, its preservation by
  \<^const>\<open>add_segment\<close>, and the theorem that segmentation and reassembly are inverse for
  every order of arrival.
\<close>

section \<open>Reassembly of the segments of a message\<close>

text \<open>What is required of a message and a segment length for segmentation and reassembly.\<close>

definition segmentable :: "bytes \<Rightarrow> nat \<Rightarrow> u32 \<Rightarrow> bool" where
  "segmentable data k mx \<longleftrightarrow> 16 dvd k \<and> 0 < k \<and> k \<le> 1392 \<and> 1416 \<le> length data \<and> length data \<le> unat mx \<and>
     \<not> tp_flag_is_set (data ! 14) \<and> take 4 (drop 4 data) = be_bytes 4 (of_nat (length data) - 8 :: u32)"

definition seg_len :: "nat \<Rightarrow> nat \<Rightarrow> nat \<Rightarrow> nat" where
  "seg_len k n i = seg_stop k n i - seg_start k i"

definition seg_of :: "nat \<Rightarrow> nat \<Rightarrow> nat \<Rightarrow> segment_t" where
  "seg_of k n i = (of_nat (seg_start k i), of_nat (seg_stop k n i - 1))"

lemma bit_fffffff0: "bit (0xfffffff0 :: u32) j \<longleftrightarrow> 4 \<le> j \<and> j < 32"
proof -
  have "(0xfffffff0 :: u32) = NOT (mask 4)" by (simp add: mask_eq_exp_minus_1)
  then show ?thesis by (simp only: bit_not_iff bit_mask_iff) auto
qed

lemma bit_of_nat_16:
  assumes "16 dvd a" and "j < 4"
  shows "\<not> bit (of_nat a :: u32) j"
proof -
  obtain c where a: "a = 16 * c" using assms(1) by (auto simp: dvd_def)
  have "(of_nat a :: u32) = push_bit 4 (of_nat c)" by (simp add: a push_bit_eq_mult mult.commute)
  then show ?thesis using assms(2) by (simp add: bit_push_bit_iff)
qed

lemma get_offset_or:
  assumes "16 dvd a"
  shows "get_offset ((of_nat a :: u32) OR (if b then 0 else 1)) = of_nat a"
proof (rule bit_eqI)
  fix j :: nat
  assume "possible_bit TYPE(u32) j"
  then have "j < 32" by simp
  moreover have "bit (if b then 0 else 1 :: u32) j \<longrightarrow> j = 0" by (simp add: bit_1_iff)
  ultimately show "bit (get_offset ((of_nat a :: u32) OR (if b then 0 else 1))) j = bit (of_nat a :: u32) j"
    unfolding get_offset_def bit_and_iff bit_or_iff bit_fffffff0
    using bit_of_nat_16 [OF assms, of j] by (cases "j < 4") auto
qed

lemma more_segments_or:
  assumes "16 dvd a"
  shows "more_segments ((of_nat a :: u32) OR (if b then 0 else 1)) \<longleftrightarrow> \<not> b"
proof -
  have "even (of_nat a :: u32)" using bit_of_nat_16 [OF assms, of 0] by (simp add: bit_0)
  then show ?thesis by (auto simp: more_segments_def and_one_eq mod_2_eq_odd even_or_iff)
qed

lemma tp_flag_is_set_or: "tp_flag_is_set (b OR 0x20)"
proof -
  have "bit ((b OR 0x20) AND 0x20) 5" by (simp add: bit_and_iff bit_or_iff bit_numeral_rec)
  then show ?thesis unfolding tp_flag_is_set_def by (metis bit_0_eq bot_apply bot_bool_def)
qed

lemma bit_20: "bit (0x20 :: byte) j \<longleftrightarrow> j = 5"
proof -
  have "(0x20 :: byte) = 2 ^ 5" by simp
  then show ?thesis by (simp only: bit_exp_iff) auto
qed

lemma tp_flag_unset_or:
  assumes "\<not> tp_flag_is_set b"
  shows "tp_flag_unset (b OR 0x20) = b"
proof -
  have "\<not> bit b 5"
  proof
    assume "bit b 5"
    then have "bit (b AND 0x20) 5" by (simp add: bit_and_iff bit_20)
    with assms show False by (simp add: tp_flag_is_set_def)
  qed
  then show ?thesis unfolding tp_flag_unset_def
    by (intro bit_eqI) (simp only: bit_and_iff bit_or_iff bit_not_iff bit_20, auto)
qed

text \<open>What the receiver reads from segment \<open>i\<close>.\<close>

lemma seg_stop_le: "seg_stop k n i \<le> n"
  by (simp add: seg_stop_def)

lemma seg_start_less: "0 < k \<Longrightarrow> i < seg_count k n \<Longrightarrow> seg_start k i < seg_stop k n i"
  by (simp add: seg_start_def seg_stop_def seg_count_iff)

lemma seg_len_bounds:
  "0 < k \<Longrightarrow> i < seg_count k n \<Longrightarrow> 0 < seg_len k n i"
  "seg_len k n i \<le> k"
  "0 < k \<Longrightarrow> i < seg_count k n \<Longrightarrow> seg_start k i + seg_len k n i = seg_stop k n i"
  using seg_start_less [of k i n] by (auto simp: seg_len_def seg_start_def seg_stop_def)

lemma seg_len_inner: "0 < k \<Longrightarrow> Suc i < seg_count k n \<Longrightarrow> seg_len k n i = k"
  using seg_count_iff [of k "Suc i" n] by (simp add: seg_len_def seg_start_def seg_stop_def)

lemma seg_stop_inner: "0 < k \<Longrightarrow> Suc i < seg_count k n \<Longrightarrow> seg_stop k n i = seg_start k (Suc i)"
  using seg_count_iff [of k "Suc i" n] by (simp add: seg_start_def seg_stop_def)

lemma seg_stop_last:
  assumes "0 < k" and "Suc i = seg_count k n"
  shows "seg_stop k n i = n"
  using seg_count_iff [OF assms(1), of "Suc i" n] assms(2) by (simp add: seg_stop_def)

lemma seg_stop_le_start: "i < j \<Longrightarrow> seg_stop k n i \<le> seg_start k j"
proof -
  assume "i < j"
  then have "Suc i * k \<le> j * k" by (intro mult_le_mono1) simp
  then show ?thesis by (simp add: seg_stop_def seg_start_def)
qed

lemma segmentableD:
  assumes "segmentable data k mx"
  shows "16 dvd k" "0 < k" "k \<le> 1392" "1416 \<le> length data" "length data \<le> unat mx"
    "\<not> tp_flag_is_set (data ! 14)" "take 4 (drop 4 data) = be_bytes 4 (of_nat (length data) - 8 :: u32)"
    "length data < 2 ^ 32"
  using assms order_le_less_trans [OF _ unsigned_less, of "length data" mx] by (auto simp: segmentable_def)

lemma nth_segment_reads:
  assumes "segmentable data k mx" and "i < seg_count k (length data - 16)"
  defines "n \<equiv> length data - 16" and "g \<equiv> nth_segment data k i"
  shows "length g = 20 + seg_len k n i"
    and "read_be g 4 = Some (12 + of_nat (seg_len k n i) :: u32)"
    and "mem_at g 14 = Some (data ! 14 OR 0x20)" and "mem_at g 15 = Some (data ! 15)"
    and "mem_sub g 0 16 = Some (seg_header data (seg_len k n i))"
    and "mem_sub g 20 (seg_len k n i) = Some (take (seg_len k n i) (drop (seg_start k i) (drop 16 data)))"
    and "\<exists>h. read_be g 16 = Some h \<and> get_offset h = of_nat (seg_start k i) \<and>
           (more_segments h \<longleftrightarrow> Suc i < seg_count k n)"
proof -
  note D = segmentableD [OF assms(1)]
  let ?h = "seg_header data (seg_len k n i)"
  let ?w = "(of_nat (seg_start k i) :: u32) OR (if n \<le> Suc i * k then 0 else 1)"
  let ?p = "take (seg_len k n i) (drop (16 + seg_start k i) data)"
  have g: "g = ?h @ be_bytes 4 ?w @ ?p"
    by (simp add: g_def nth_segment_def Let_def n_def seg_len_def)
  have h: "length ?h = 16" using D by simp
  have i: "i < seg_count k n" using assms(2) by (simp add: n_def)
  have pl: "length ?p = seg_len k n i"
    using seg_len_bounds(3) [OF D(2) i] seg_stop_le [of k n i] D(4) by (simp add: n_def)
  have h4: "mem_sub ?h 4 4 = Some (be_bytes 4 (12 + of_nat (seg_len k n i) :: u32))"
    using D(4) by (simp add: seg_header_def)
  show "length g = 20 + seg_len k n i" using h pl by (simp add: g)
  show "mem_sub g 0 16 = Some ?h" using h by (simp add: g)
  show "mem_at g 14 = Some (data ! 14 OR 0x20)" "mem_at g 15 = Some (data ! 15)"
    using D(4) by (simp_all add: g seg_header_def nth_append)
  show "read_be g 4 = Some (12 + of_nat (seg_len k n i) :: u32)"
    using h h4 by (simp add: read_be_def g be_word_be_bytes)
  show "mem_sub g 20 (seg_len k n i) = Some (take (seg_len k n i) (drop (seg_start k i) (drop 16 data)))"
    using h pl by (simp add: g add.commute)
  have "16 dvd seg_start k i" using D(1) by (simp add: seg_start_def)
  moreover have "n \<le> Suc i * k \<longleftrightarrow> \<not> Suc i < seg_count k n"
    using seg_count_iff [OF D(2), of "Suc i" n] by auto
  ultimately have "get_offset ?w = of_nat (seg_start k i) \<and> (more_segments ?w \<longleftrightarrow> Suc i < seg_count k n)"
    using get_offset_or more_segments_or by simp
  moreover have "read_be g 16 = Some ?w"
    using h by (simp add: read_be_def g be_word_be_bytes)
  ultimately show "\<exists>h. read_be g 16 = Some h \<and> get_offset h = of_nat (seg_start k i) \<and>
      (more_segments h \<longleftrightarrow> Suc i < seg_count k n)" by blast
qed

text \<open>Such a segment passes the length checks while the announced sizes fit.\<close>

lemma check_lengths_segment:
  assumes "segmentable data k mx" and "i < seg_count k (length data - 16)"
    and "tpm_max_message_size t = mx" and "tpm_current_message_size t = of_nat c"
    and "c + seg_len k (length data - 16) i \<le> length data"
    and "mf = (Suc i < seg_count k (length data - 16))"
  shows "check_lengths t (nth_segment data k i) (of_nat (seg_len k (length data - 16) i)) mf = Some True"
proof -
  note D = segmentableD [OF assms(1)] and R = nth_segment_reads [OF assms(1,2)]
  define n where "n = length data - 16"
  let ?l = "seg_len k n i"
  obtain h where h: "read_be (nth_segment data k i) 16 = Some h" "get_offset h = of_nat (seg_start k i)"
    using R(7) by auto
  have i: "i < seg_count k n" using assms(2) by (simp add: n_def)
  have lk: "?l \<le> k" "seg_start k i + ?l \<le> n"
    using seg_len_bounds(3) [OF D(2) i] seg_len_bounds(2) seg_stop_le [of k n i] by auto
  have l1392: "\<not> (1392 :: u32) < of_nat ?l"
    using lk D(3) by (simp add: word_less_nat_alt unat_of_nat)
  have m16: "mf \<Longrightarrow> (of_nat ?l :: u32) mod 16 = 0"
  proof -
    assume mf
    then have "?l = k" using seg_len_inner [OF D(2)] assms(6) by (simp add: n_def)
    moreover have "(of_nat k :: u32) mod 16 = 0"
      using D(1,3) by (simp add: word_arith_nat_mod unat_of_nat)
    ultimately show ?thesis by simp
  qed
  have fit: "\<not> mx < of_nat c' + of_nat ?l \<and> \<not> of_nat c' + of_nat ?l < (of_nat ?l :: u32)"
    if "c' + ?l \<le> length data" for c'
  proof -
    have "c' + ?l < 2 ^ 32" using that D(8) by simp
    then have "unat (of_nat (c' + ?l) :: u32) = c' + ?l" "unat (of_nat ?l :: u32) = ?l"
      by (simp_all add: unat_of_nat del: of_nat_add)
    then show ?thesis using that D(5) by (simp add: word_less_nat_alt)
  qed
  have "seg_start k i + ?l \<le> length data" using lk by (simp add: n_def)
  from fit [OF this] fit [of c] assms(5)
  show ?thesis
    using R h l1392 m16 assms(3,4) by (simp add: check_lengths_def n_def [symmetric] tp_flag_is_set_or)
qed

subsection \<open>The received part of a message\<close>

text \<open>
  The payload bytes below \<open>N\<close> when the segments in \<open>I\<close> have been received: the missing ones
  are still zero.
\<close>

definition received_body :: "bytes \<Rightarrow> nat \<Rightarrow> nat set \<Rightarrow> nat \<Rightarrow> bytes" where
  "received_body data k I N = map (\<lambda>j. if j div k \<in> I then data ! (16 + j) else 0) [0..<N]"

definition seg_payload :: "bytes \<Rightarrow> nat \<Rightarrow> nat \<Rightarrow> bytes" where
  "seg_payload data k i = take (seg_len k (length data - 16) i) (drop (seg_start k i) (drop 16 data))"

lemma length_received_body [simp]: "length (received_body data k I N) = N"
  by (simp add: received_body_def)

lemma length_seg_payload:
  "0 < k \<Longrightarrow> i < seg_count k (length data - 16) \<Longrightarrow> length (seg_payload data k i) = seg_len k (length data - 16) i"
  using seg_len_bounds(3) [of k i "length data - 16"] seg_stop_le [of k "length data - 16" i]
  by (simp add: seg_payload_def)

lemma div_eq_iff_seg:
  assumes "0 < k" and "j < n"
  shows "j div k = i \<longleftrightarrow> seg_start k i \<le> j \<and> j < seg_stop k n i"
proof -
  have "j div k = i \<longleftrightarrow> i * k \<le> j \<and> j < Suc i * k"
    by (metis assms(1) div_nat_eqI div_mult_mod_eq dividend_less_times_div le_add1 mult.commute mult_Suc_right add.commute)
  then show ?thesis using assms(2) by (auto simp: seg_start_def seg_stop_def)
qed

lemma received_body_append:
  assumes "0 < k" and "i < seg_count k (length data - 16)" and "N \<le> seg_start k i"
    and "\<And>a j. a \<in> I \<Longrightarrow> N \<le> j \<Longrightarrow> j < seg_stop k (length data - 16) i \<Longrightarrow> j div k \<noteq> a"
  shows "received_body data k I N @ replicate (seg_start k i - N) 0 @ seg_payload data k i =
     received_body data k (insert i I) (seg_stop k (length data - 16) i)"
proof (rule nth_equalityI)
  let ?n = "length data - 16"
  note L = length_seg_payload [OF assms(1,2)] seg_len_bounds(3) [OF assms(1,2)] seg_stop_le [of k ?n i]
  show "length (received_body data k I N @ replicate (seg_start k i - N) 0 @ seg_payload data k i) =
     length (received_body data k (insert i I) (seg_stop k ?n i))"
    using L assms(3) by simp
  fix j
  assume "j < length (received_body data k I N @ replicate (seg_start k i - N) 0 @ seg_payload data k i)"
  then have j: "j < seg_stop k ?n i" using L assms(3) by simp
  have "j div k = i \<longleftrightarrow> seg_start k i \<le> j"
    using div_eq_iff_seg [OF assms(1), of j ?n i] j L(3) by simp
  then show "(received_body data k I N @ replicate (seg_start k i - N) 0 @ seg_payload data k i) ! j =
      received_body data k (insert i I) (seg_stop k ?n i) ! j"
    using j assms(3) assms(4) [of "j div k" j] L
    by (auto simp: nth_append received_body_def seg_payload_def)
qed

lemma received_body_write:
  assumes "0 < k" and "i < seg_count k (length data - 16)" and "seg_stop k (length data - 16) i \<le> N"
    and "N \<le> length data - 16" and "length hd16 = 16"
  shows "mem_write (hd16 @ received_body data k I N) (16 + seg_start k i) (seg_payload data k i) =
     Some (hd16 @ received_body data k (insert i I) N)"
proof -
  let ?n = "length data - 16"
  note L = length_seg_payload [OF assms(1,2)] seg_len_bounds(3) [OF assms(1,2)]
  have *: "take (seg_start k i) (received_body data k I N) @ seg_payload data k i @
      drop (seg_stop k ?n i) (received_body data k I N) = received_body data k (insert i I) N"
  proof (rule nth_equalityI)
    show "length (take (seg_start k i) (received_body data k I N) @ seg_payload data k i @
      drop (seg_stop k ?n i) (received_body data k I N)) = length (received_body data k (insert i I) N)"
      using L assms(3) by simp
    fix j
    assume "j < length (take (seg_start k i) (received_body data k I N) @ seg_payload data k i @
      drop (seg_stop k ?n i) (received_body data k I N))"
    then have j: "j < N" using L assms(3) by simp
    have "j div k = i \<longleftrightarrow> seg_start k i \<le> j \<and> j < seg_stop k ?n i"
      using div_eq_iff_seg [OF assms(1), of j ?n i] j assms(4) by simp
    then show "(take (seg_start k i) (received_body data k I N) @ seg_payload data k i @
      drop (seg_stop k ?n i) (received_body data k I N)) ! j = received_body data k (insert i I) N ! j"
      using j L assms(3,4)
      by (auto simp: nth_append received_body_def seg_payload_def)
  qed
  show ?thesis
    using * L assms(3,5) by (simp add: mem_write_def add.assoc)
qed

subsection \<open>The set of segments\<close>

lemma unat_seg_of:
  assumes "0 < k" and "i < seg_count k n" and "n < 2 ^ 32"
  shows "unat (fst (seg_of k n i)) = seg_start k i" "unat (snd (seg_of k n i)) = seg_stop k n i - 1"
  unfolding seg_of_def fst_conv snd_conv unat_of_nat
  using seg_start_less [OF assms(1,2)] seg_stop_le [of k n i] assms(3) by simp_all

lemma segment_less_seg_of:
  assumes "0 < k" and "i < seg_count k n" and "j < seg_count k n" and "n < 2 ^ 32"
  shows "segment_less (seg_of k n i) (seg_of k n j) \<longleftrightarrow> i < j"
  using seg_start_less [OF assms(1,2)] seg_start_less [OF assms(1,3)]
    seg_stop_le_start [of i j k n] seg_stop_le_start [of j i k n]
  unfolding segment_less_def word_less_nat_alt word_le_nat_alt
    unat_seg_of [OF assms(1,2,4)] unat_seg_of [OF assms(1,3,4)]
  by (cases i j rule: linorder_cases) auto

lemma takeWhile_split:
  "(\<forall>x \<in> set as. P x) \<Longrightarrow> (\<forall>x \<in> set bs. \<not> P x) \<Longrightarrow>
     takeWhile P (as @ bs) = as \<and> dropWhile P (as @ bs) = bs"
  by (cases bs) (auto simp: takeWhile_append2 dropWhile_append2)

lemma segment_emplace_dup:
  assumes "0 < k" and "n < 2 ^ 32" and "i \<in> set xs" and "set xs \<subseteq> {..<seg_count k n}"
  shows "segment_emplace (seg_of k n i) (map (seg_of k n) xs) = Some None"
proof -
  have "segment_less (seg_of k n i) (seg_of k n x) \<longleftrightarrow> i < x"
      "segment_less (seg_of k n x) (seg_of k n i) \<longleftrightarrow> x < i" if "x \<in> set xs" for x
    using that assms(3,4) segment_less_seg_of [OF assms(1) _ _ assms(2)] by auto
  then show ?thesis using assms(3) by (auto simp: segment_emplace_def)
qed

lemma segment_emplace_new:
  assumes "0 < k" and "n < 2 ^ 32" and "i < seg_count k n" and "set (as @ bs) \<subseteq> {..<seg_count k n}"
    and "\<forall>x \<in> set as. x < i" and "\<forall>x \<in> set bs. i < x"
  shows "segment_emplace (seg_of k n i) (map (seg_of k n) (as @ bs)) =
     Some (Some (map (seg_of k n) as, map (seg_of k n) bs))"
proof -
  have less: "segment_less (seg_of k n i) (seg_of k n x) \<longleftrightarrow> i < x"
      "segment_less (seg_of k n x) (seg_of k n i) \<longleftrightarrow> x < i" if "x \<in> set (as @ bs)" for x
    using that assms(3,4) segment_less_seg_of [OF assms(1) _ _ assms(2)] by auto
  have "takeWhile (\<lambda>t. segment_less t (seg_of k n i)) (map (seg_of k n) as @ map (seg_of k n) bs) = map (seg_of k n) as \<and>
      dropWhile (\<lambda>t. segment_less t (seg_of k n i)) (map (seg_of k n) as @ map (seg_of k n) bs) = map (seg_of k n) bs"
    using less assms(5,6) by (intro takeWhile_split) (auto dest: less_asym)
  then show ?thesis
    using less assms(5,6) by (auto simp: segment_emplace_def dest: less_asym)
qed

lemma segments_complete_iff:
  assumes "0 < k" and "n < 2 ^ 32" and "sorted_wrt (<) xs" and "set xs \<subseteq> {a..<seg_count k n}"
    and "e + 1 = of_nat (min (seg_start k a) n)"
  shows "segments_complete e (map (seg_of k n) xs) \<longleftrightarrow> xs = [a..<a + length xs]"
  using assms(3-)
proof (induction xs arbitrary: a e)
  case Nil
  then show ?case by simp
next
  case (Cons x xs)
  then have x: "a \<le> x" "x < seg_count k n" "a < seg_count k n" by auto
  then have lt: "seg_start k x < n" "seg_start k a < n"
    using seg_count_iff [OF assms(1), of x n] seg_count_iff [OF assms(1), of a n] by (simp_all add: seg_start_def)
  then have "e + 1 = fst (seg_of k n x) \<longleftrightarrow> seg_start k a = seg_start k x"
    using assms(2) Cons.prems(3) by (simp add: seg_of_def word_of_nat_eq_iff take_bit_nat_eq_self)
  then have eq: "e + 1 = fst (seg_of k n x) \<longleftrightarrow> a = x"
    using assms(1) by (simp add: seg_start_def)
  have "snd (seg_of k n x) + 1 = of_nat (min (seg_start k (Suc x)) n)"
    using seg_start_less [OF assms(1) x(2)] by (simp add: seg_of_def seg_stop_def seg_start_def)
  then have "segments_complete (snd (seg_of k n x)) (map (seg_of k n) xs) \<longleftrightarrow> xs = [Suc x..<Suc x + length xs]"
    using Cons.prems(1,2) by (intro Cons.IH) (auto simp: subset_iff Suc_le_eq)
  moreover have "[a..<a + length (x # xs)] = a # [Suc a..<Suc a + length xs]"
    by (simp add: upt_conv_Cons del: upt_Suc)
  ultimately show ?case using eq by auto
qed

subsection \<open>The invariant\<close>

text \<open>
  \<open>received\<close> relates the buffer to the numbers \<open>xs\<close> of the segments received so far, in
  increasing order. The four bytes of the length field are those of the first segment received.
\<close>

definition received :: "bytes \<Rightarrow> nat \<Rightarrow> u32 \<Rightarrow> nat list \<Rightarrow> tp_message \<Rightarrow> bool" where
  "received data k mx xs t \<longleftrightarrow>
     (let n = length data - 16 in
      xs \<noteq> [] \<and> sorted_wrt (<) xs \<and> set xs \<subseteq> {..<seg_count k n} \<and>
      tpm_max_message_size t = mx \<and>
      tpm_current_message_size t = of_nat (16 + sum_list (map (seg_len k n) xs)) \<and>
      tpm_segments t = map (seg_of k n) xs \<and>
      (\<exists>lf. length lf = 4 \<and> tpm_message t =
         (take 4 data @ lf @ take 8 (drop 8 data)) @ received_body data k (set xs) (seg_stop k n (last xs))))"

lemma mem_range_segment:
  assumes "segmentable data k mx" and "i < seg_count k (length data - 16)"
  shows "mem_range (nth_segment data k i) 20 (20 + unat (of_nat (seg_len k (length data - 16) i) :: u32)) =
     Some (seg_payload data k i)"
proof -
  have "seg_len k (length data - 16) i \<le> 1392"
    using seg_len_bounds(2) [of k "length data - 16" i] segmentableD(3) [OF assms(1)] by simp
  then show ?thesis
    using nth_segment_reads(6) [OF assms]
    by (simp add: mem_range_def unat_of_nat seg_payload_def)
qed

lemma unat_buffer_position:
  assumes "segmentable data k mx" and "i < seg_count k (length data - 16)"
  shows "unat (16 + fst (seg_of k (length data - 16) i)) = 16 + seg_start k i"
proof -
  have "16 + seg_start k i < 2 ^ 32"
    using seg_start_less [OF segmentableD(2) [OF assms(1)] assms(2)] seg_stop_le [of k "length data - 16" i]
      segmentableD(4,8) [OF assms(1)] by linarith
  then have "unat (of_nat (16 + seg_start k i) :: u32) = 16 + seg_start k i"
    unfolding unat_of_nat by simp
  then show ?thesis by (simp add: seg_of_def)
qed

lemma seg_gap:
  assumes "0 < k" and "a < i" and "i < seg_count k n" and "seg_stop k n a \<le> j"
  shows "j div k \<noteq> a"
proof
  assume "j div k = a"
  then have "j < Suc a * k" by (metis assms(1) dividend_less_div_times mult.commute mult_Suc_right add.commute mult_Suc)
  moreover have "seg_stop k n a = Suc a * k"
    using seg_stop_inner [OF assms(1), of a n] assms(2,3) by (simp add: seg_start_def)
  ultimately show False using assms(4) by simp
qed

lemma place_last_received:
  assumes "segmentable data k mx" and "i < seg_count k (length data - 16)"
    and "received data k mx xs t" and "\<forall>x \<in> set xs. x < i"
  defines "n \<equiv> length data - 16"
  shows "\<exists>t'. place_last t (nth_segment data k i) (seg_of k n i) (of_nat (seg_len k n i)) (map (seg_of k n) xs) = Some t' \<and>
     received data k mx (xs @ [i]) t' \<and> tpm_last_segment_received t' = tpm_last_segment_received t"
proof -
  note D = segmentableD [OF assms(1)]
  have i: "i < seg_count k n" and n32: "n < 2 ^ 32" using assms(2) D by (auto simp: n_def)
  obtain lf where r: "xs \<noteq> []" "sorted_wrt (<) xs" "set xs \<subseteq> {..<seg_count k n}" "tpm_max_message_size t = mx"
      "tpm_current_message_size t = of_nat (16 + sum_list (map (seg_len k n) xs))"
      "tpm_segments t = map (seg_of k n) xs" "length lf = 4"
      and msg: "tpm_message t = (take 4 data @ lf @ take 8 (drop 8 data)) @ received_body data k (set xs) (seg_stop k n (last xs))"
    using assms(3) by (auto simp: received_def Let_def n_def)
  define p where "p = last xs"
  have p: "p \<in> set xs" "p < i" "p < seg_count k n" using r(1,3) assms(4) i by (auto simp: p_def subset_iff)
  have le: "seg_stop k n p \<le> seg_start k i" using seg_stop_le_start [OF p(2)] .
  note un = unat_seg_of [OF D(2) i n32] unat_seg_of [OF D(2) p(3) n32]
  have less: "snd (seg_of k n p) < fst (seg_of k n i)"
    using le seg_start_less [OF D(2) p(3)] by (simp add: word_less_nat_alt un)
  have direct: "seg_start k i = seg_stop k n p" if "snd (seg_of k n p) + 1 = fst (seg_of k n i)"
  proof -
    have "seg_start k i < 2 ^ 32" "seg_stop k n p < 2 ^ 32" "0 < seg_stop k n p"
      using seg_start_less [OF D(2) i] seg_start_less [OF D(2) p(3)] seg_stop_le [of k n i] seg_stop_le [of k n p] n32 by auto
    then show ?thesis using that
      by (simp add: seg_of_def word_of_nat_eq_iff take_bit_nat_eq_self)
  qed
  have max: "j div k \<noteq> a" if "a \<in> set xs" "seg_stop k n p \<le> j" for a j
  proof (rule seg_gap [OF D(2) _ i])
    show "a < i" using that(1) assms(4) by simp
    have "a \<le> p" using that(1) r(2) sorted_wrt_less_last by (simp add: p_def)
    then show "seg_stop k n a \<le> j"
      using that(2) seg_stop_le_start [of a p k n] seg_start_less [OF D(2) p(3)] by (cases "a = p") auto
  qed
  have app: "received_body data k (set xs) (seg_stop k n p) @ replicate (seg_start k i - seg_stop k n p) 0 @
      seg_payload data k i = received_body data k (insert i (set xs)) (seg_stop k n i)"
    using received_body_append [OF D(2) assms(2)] le max by (simp add: n_def)
  define hd16 where "hd16 = take 4 data @ lf @ take 8 (drop 8 data)"
  let ?t = "t\<lparr>tpm_message := hd16 @ received_body data k (insert i (set xs)) (seg_stop k n i),
      tpm_segments := map (seg_of k n) (xs @ [i]),
      tpm_current_message_size := tpm_current_message_size t + of_nat (seg_len k n i)\<rparr>"
  have hd: "length hd16 = 16" using r(7) D(4) by (simp add: hd16_def)
  have "place_last t (nth_segment data k i) (seg_of k n i) (of_nat (seg_len k n i)) (map (seg_of k n) xs) = Some ?t"
    using less direct app mem_range_segment [OF assms(1,2)] unat_buffer_position [OF assms(1,2)] le hd r(1) msg
    by (auto simp: place_last_def Let_def last_map p_def [symmetric] n_def [symmetric] hd16_def [symmetric] vec_resize_grow)
  moreover have "received data k mx (xs @ [i]) ?t"
    using r assms(4) i by (auto simp: received_def Let_def sorted_wrt_append n_def [symmetric] hd16_def)
  ultimately show ?thesis by auto
qed

lemma copy_payload_segment:
  assumes "segmentable data k mx" and "i < seg_count k (length data - 16)"
    and "seg_stop k (length data - 16) i \<le> N" and "N \<le> length data - 16" and "length hd16 = 16"
  shows "copy_payload (hd16 @ received_body data k I N) (nth_segment data k i) (fst (seg_of k (length data - 16) i))
      (fst (seg_of k (length data - 16) i)) (of_nat (seg_len k (length data - 16) i)) =
     Some (hd16 @ received_body data k (insert i I) N)"
proof -
  have "seg_len k (length data - 16) i \<le> 1392"
    using seg_len_bounds(2) [of k "length data - 16" i] segmentableD(3) [OF assms(1)] by simp
  then have "mem_sub (nth_segment data k i) 20 (unat (of_nat (seg_len k (length data - 16) i) :: u32)) =
      Some (seg_payload data k i)"
    using nth_segment_reads(6) [OF assms(1,2)] by (simp add: unat_of_nat seg_payload_def)
  then show ?thesis
    using received_body_write [OF segmentableD(2) [OF assms(1)] assms(2-5)] unat_buffer_position [OF assms(1,2)]
    by (simp add: copy_payload_def)
qed

lemma place_before_received:
  assumes "segmentable data k mx" and "i < seg_count k (length data - 16)"
    and "received data k mx (as @ bs) t" and "\<forall>x \<in> set as. x < i" and "\<forall>x \<in> set bs. i < x" and "bs \<noteq> []"
  defines "n \<equiv> length data - 16"
  shows "\<exists>t'. place_before t (nth_segment data k i) (seg_of k n i) (of_nat (seg_len k n i))
        (map (seg_of k n) as) (map (seg_of k n) bs) = Some t' \<and>
     received data k mx (as @ i # bs) t' \<and> tpm_last_segment_received t' = tpm_last_segment_received t"
proof -
  note D = segmentableD [OF assms(1)]
  have i: "i < seg_count k n" and n32: "n < 2 ^ 32" using assms(2) D by (auto simp: n_def)
  obtain lf where r: "sorted_wrt (<) (as @ bs)" "set (as @ bs) \<subseteq> {..<seg_count k n}" "tpm_max_message_size t = mx"
      "tpm_current_message_size t = of_nat (16 + sum_list (map (seg_len k n) (as @ bs)))"
      "tpm_segments t = map (seg_of k n) (as @ bs)" "length lf = 4"
      and msg: "tpm_message t = (take 4 data @ lf @ take 8 (drop 8 data)) @
        received_body data k (set (as @ bs)) (seg_stop k n (last (as @ bs)))"
    using assms(3) by (auto simp: received_def Let_def n_def)
  have less: "snd (seg_of k n a) < fst (seg_of k n b)" if "a < b" "b < seg_count k n" for a b
    using seg_stop_le_start [OF that(1), of k n] seg_start_less [OF D(2), of a n] that
      unat_seg_of [OF D(2) _ n32, of a] unat_seg_of [OF D(2) that(2) n32]
    by (simp add: word_less_nat_alt)
  have prev: "as \<noteq> [] \<Longrightarrow> snd (last (map (seg_of k n) as)) < fst (seg_of k n i)"
    using less [of "last as" i] assms(4) i by (simp add: last_map)
  have "hd bs < seg_count k n" using r(2) assms(6) by (auto simp: subset_iff)
  then have nxt: "snd (seg_of k n i) < fst (hd (map (seg_of k n) bs))"
    using less [of i "hd bs"] assms(5,6) by (simp add: hd_map)
  define hd16 where "hd16 = take 4 data @ lf @ take 8 (drop 8 data)"
  have hd: "length hd16 = 16" using r(6) D(4) by (simp add: hd16_def)
  have stop: "seg_stop k n i \<le> seg_stop k n (last bs)"
    using assms(5,6) seg_stop_le_start [of i "last bs" k n] seg_start_less [OF D(2), of "last bs" n] r(2)
    by (auto simp: subset_iff intro: order_trans less_imp_le)
  let ?t = "t\<lparr>tpm_message := hd16 @ received_body data k (insert i (set (as @ bs))) (seg_stop k n (last bs)),
      tpm_segments := map (seg_of k n) (as @ i # bs),
      tpm_current_message_size := tpm_current_message_size t + of_nat (seg_len k n i)\<rparr>"
  have cp: "copy_payload (tpm_message t) (nth_segment data k i) (fst (seg_of k n i)) (fst (seg_of k n i)) (of_nat (seg_len k n i)) =
      Some (hd16 @ received_body data k (insert i (set (as @ bs))) (seg_stop k n (last bs)))"
    using copy_payload_segment [OF assms(1,2) _ _ hd, of "seg_stop k n (last bs)" "set (as @ bs)"]
      stop seg_stop_le [of k n "last bs"] msg assms(6) by (simp add: n_def [symmetric] hd16_def)
  have "place_before t (nth_segment data k i) (seg_of k n i) (of_nat (seg_len k n i))
      (map (seg_of k n) as) (map (seg_of k n) bs) = Some ?t"
    using prev nxt cp by (auto simp: place_before_def Let_def)
  moreover have "received data k mx (as @ i # bs) ?t"
    using r assms(4-6) i by (auto simp: received_def Let_def sorted_wrt_append n_def [symmetric] hd16_def)
  ultimately show ?thesis by auto
qed

lemma sum_seg_len:
  assumes "0 < k" and "sorted_wrt (<) xs" and "set xs \<subseteq> {..<seg_count k n}"
  shows "sum_list (map (seg_len k n) xs) \<le> n"
proof -
  have all: "(\<Sum>i\<in>{..<j}. seg_len k n i) = min (j * k) n" if "j \<le> seg_count k n" for j
    using that
  proof (induction j)
    case (Suc j)
    then have "j * k < n" using seg_count_iff [OF assms(1), of j n] by simp
    then show ?case using Suc by (simp add: seg_len_def seg_start_def seg_stop_def)
  qed simp
  have "distinct xs" using assms(2) strict_sorted_iff by auto
  then have "sum_list (map (seg_len k n) xs) = (\<Sum>i\<in>set xs. seg_len k n i)"
    by (simp add: sum_list_distinct_conv_sum_set)
  also have "\<dots> \<le> (\<Sum>i\<in>{..<seg_count k n}. seg_len k n i)"
    using assms(3) by (intro sum_mono2) auto
  also have "\<dots> \<le> n" using all [of "seg_count k n"] by simp
  finally show ?thesis .
qed

lemma seg_count_ge_2:
  assumes "segmentable data k mx"
  shows "1 < seg_count k (length data - 16)"
  using seg_count_iff [OF segmentableD(2) [OF assms], of 1 "length data - 16"] segmentableD(3,4) [OF assms] by simp

lemma segment_word:
  assumes "segmentable data k mx" and "i < seg_count k (length data - 16)"
  defines "n \<equiv> length data - 16"
  shows "(of_nat (seg_start k i), of_nat (seg_start k i) + of_nat (seg_len k n i) - 1) = seg_of k n i"
    and "\<not> (of_nat (20 + seg_len k n i) :: u32) < 20"
    and "(of_nat (20 + seg_len k n i) :: u32) - 16 - 4 = of_nat (seg_len k n i)"
proof -
  note D = segmentableD [OF assms(1)]
  have l: "0 < seg_len k n i" "seg_start k i + seg_len k n i = seg_stop k n i"
    using seg_len_bounds(1,3) [OF D(2) assms(2)] by (simp_all add: n_def)
  then show "(of_nat (seg_start k i), of_nat (seg_start k i) + of_nat (seg_len k n i) - 1) = seg_of k n i"
    by (simp add: seg_of_def flip: l(2))
  have "20 + seg_len k n i < 2 ^ 32" using seg_len_bounds(2) [of k n i] D(3) by simp
  then have "unat (of_nat (20 + seg_len k n i) :: u32) = 20 + seg_len k n i"
    unfolding unat_of_nat by simp
  then show "\<not> (of_nat (20 + seg_len k n i) :: u32) < 20" by (simp add: word_less_nat_alt)
  show "(of_nat (20 + seg_len k n i) :: u32) - 16 - 4 = of_nat (seg_len k n i)" by simp
qed

lemma seg_header_unset:
  assumes "segmentable data k mx"
  shows "(seg_header data l)[14 := tp_flag_unset (seg_header data l ! 14)] =
     take 4 data @ be_bytes 4 (12 + of_nat l :: u32) @ take 8 (drop 8 data)"
proof -
  note D = segmentableD [OF assms]
  have "16 \<le> length data" using D by simp
  then obtain b0 b1 b2 b3 b4 b5 b6 b7 b8 b9 b10 b11 b12 b13 b14 b15 rest where
    d: "data = b0 # b1 # b2 # b3 # b4 # b5 # b6 # b7 # b8 # b9 # b10 # b11 # b12 # b13 # b14 # b15 # rest"
    by (rule list_ge_16E)
  show ?thesis using tp_flag_unset_or [OF D(6)]
    by (simp add: d seg_header_def nth_append list_update_append)
qed

lemma tp_message_new_received:
  assumes "segmentable data k mx" and "i < seg_count k (length data - 16)"
  shows "\<exists>t. tp_message_new now (nth_segment data k i) mx = Some t \<and> received data k mx [i] t \<and>
     tpm_last_segment_received t = (Suc i = seg_count k (length data - 16)) \<and> tpm_creation t = now"
proof -
  note D = segmentableD [OF assms(1)] and R = nth_segment_reads [OF assms] and W = segment_word [OF assms]
  define n where "n = length data - 16"
  obtain h where h: "read_be (nth_segment data k i) 16 = Some h" "get_offset h = of_nat (seg_start k i)"
      "more_segments h = (Suc i < seg_count k n)"
    using R(7) by (auto simp: n_def)
  define hd16 where "hd16 = take 4 data @ be_bytes 4 (12 + of_nat (seg_len k n i) :: u32) @ take 8 (drop 8 data)"
  have hd: "length hd16 = 16" using D(4) by (simp add: hd16_def)
  have hdr: "(seg_header data (seg_len k n i))[14 := tp_flag_unset (seg_header data (seg_len k n i) ! 14)] = hd16"
    using seg_header_unset [OF assms(1)] by (simp add: hd16_def)
  have l16: "length (seg_header data (seg_len k n i)) = 16" using D(4) by simp
  have body: "replicate (seg_start k i) 0 @ seg_payload data k i = received_body data k {i} (seg_stop k n i)"
    using received_body_append [OF D(2) assms(2), of 0 "{}"] by (simp add: n_def received_body_def)
  have z: "(of_nat (seg_start k i) :: u32) = 0 \<longleftrightarrow> seg_start k i = 0"
    using unat_seg_of(1) [OF D(2) assms(2)] D(8) by (simp add: seg_of_def unat_eq_0 [symmetric])
  have i: "Suc i < seg_count k n \<or> (Suc i = seg_count k n \<and> seg_start k i \<noteq> 0)"
    using assms(2) seg_count_ge_2 [OF assms(1)] D(2) by (auto simp: n_def seg_start_def)
  let ?t = "\<lparr>tpm_creation = now, tpm_max_message_size = mx, tpm_current_message_size = 16 + of_nat (seg_len k n i),
      tpm_last_segment_received = (Suc i = seg_count k n), tpm_segments = [seg_of k n i],
      tpm_message = hd16 @ received_body data k {i} (seg_stop k n i)\<rparr>"
  have fits: "0 + seg_len k (length data - 16) i \<le> length data"
    using seg_len_bounds(2) [of k n i] D(3,4) by (simp add: n_def)
  have pay: "mem_sub (nth_segment data k i) 20 (unat (of_nat (seg_len k n i) :: u32)) = Some (seg_payload data k i)"
    using mem_range_segment [OF assms] by (simp add: mem_range_def n_def)
  have "tp_message_new now (nth_segment data k i) mx = Some ?t"
    using R W h hdr l16 hd pay i unat_buffer_position [OF assms] check_lengths_segment [OF assms _ _ fits, where mf = "Suc i < seg_count k n"]
    by (auto simp: tp_message_new_def n_def [symmetric] z seg_of_def vec_resize_grow Let_def body [symmetric])
  moreover have "received data k mx [i] ?t"
    using assms(2) by (auto simp: received_def Let_def n_def [symmetric] hd16_def)
  ultimately show ?thesis by (auto simp: n_def)
qed

subsection \<open>Adding a segment\<close>

text \<open>
  The invariant with the flag for the last segment, as it holds between calls.
\<close>

definition reassembling :: "bytes \<Rightarrow> nat \<Rightarrow> u32 \<Rightarrow> nat list \<Rightarrow> tp_message \<Rightarrow> bool" where
  "reassembling data k mx xs t \<longleftrightarrow> received data k mx xs t \<and>
     (tpm_last_segment_received t \<longleftrightarrow> seg_count k (length data - 16) - 1 \<in> set xs)"

lemma receivedD:
  assumes "received data k mx xs t"
  shows "xs \<noteq> []" "sorted_wrt (<) xs" "set xs \<subseteq> {..<seg_count k (length data - 16)}" "tpm_max_message_size t = mx"
    "tpm_current_message_size t = of_nat (16 + sum_list (map (seg_len k (length data - 16)) xs))"
    "tpm_segments t = map (seg_of k (length data - 16)) xs"
  using assms by (auto simp: received_def Let_def)

lemma add_segment_duplicate:
  assumes "segmentable data k mx" and "received data k mx xs t" and "i \<in> set xs"
  shows "add_segment t (nth_segment data k i) = Some (False, t)"
proof -
  note D = segmentableD [OF assms(1)] and r = receivedD [OF assms(2)]
  have i: "i < seg_count k (length data - 16)" using r(3) assms(3) by auto
  note R = nth_segment_reads [OF assms(1) i] and W = segment_word [OF assms(1) i]
  define n where "n = length data - 16"
  obtain h where h: "read_be (nth_segment data k i) 16 = Some h" "get_offset h = of_nat (seg_start k i)"
    using R(7) by auto
  obtain ok where ok: "check_lengths t (nth_segment data k i) (of_nat (seg_len k n i)) (more_segments h) = Some ok"
    using R h by (simp add: check_lengths_def n_def)
  have "segment_emplace (seg_of k n i) (tpm_segments t) = Some None"
    using segment_emplace_dup [OF D(2) _ assms(3), of n] r(3,6) D(8) by (simp add: n_def)
  then show ?thesis
    using R h W ok by (simp add: add_segment_def n_def [symmetric] Let_def)
qed

lemma finish_message_received:
  assumes "segmentable data k mx" and "received data k mx [0..<seg_count k (length data - 16)] t"
    and "i < seg_count k (length data - 16)"
  shows "\<exists>t'. finish_message t (nth_segment data k i) = Some t' \<and> tpm_message t' = data"
proof -
  note D = segmentableD [OF assms(1)] and R = nth_segment_reads [OF assms(1,3)]
  define n m where nm: "n = length data - 16" "m = seg_count k n"
  have m: "1 < m" using seg_count_ge_2 [OF assms(1)] by (simp add: nm)
  then have "seg_stop k n (last [0..<m]) = n"
    using seg_stop_last [OF D(2), of "m - 1" n] by (simp add: nm)
  then obtain lf where lf: "length lf = 4" and
      msg: "tpm_message t = (take 4 data @ lf @ take 8 (drop 8 data)) @ received_body data k {0..<m} n"
    using assms(2) by (auto simp: received_def Let_def nm)
  have "j div k < m" if "j < n" for j
    using that seg_count_iff [OF D(2), of "j div k" n] order_le_less_trans [OF div_times_less_eq_dividend that]
    by (simp add: nm)
  then have body: "received_body data k {0..<m} n = drop 16 data"
    by (intro nth_equalityI) (auto simp: received_body_def nm)
  have "16 \<le> length data" using D by simp
  then obtain b0 b1 b2 b3 b4 b5 b6 b7 b8 b9 b10 b11 b12 b13 b14 b15 rest where
    d: "data = b0 # b1 # b2 # b3 # b4 # b5 # b6 # b7 # b8 # b9 # b10 # b11 # b12 # b13 # b14 # b15 # rest"
    by (rule list_ge_16E)
  have len: "length (tpm_message t) = length data" using D(4) lf by (simp add: msg body)
  have "write_be (of_nat (length (tpm_message t)) - 8 :: u32) (tpm_message t) 4 = Some data"
    using lf D(4) D(7) [symmetric] unfolding len by (simp add: write_be_def msg body) (simp add: d)
  then show ?thesis
    using R(4) D(4) by (simp add: finish_message_def)
qed

lemma place_segment_received:
  assumes "segmentable data k mx" and "received data k mx (as @ bs) t"
    and "i < seg_count k (length data - 16)" and "\<forall>x \<in> set as. x < i" and "\<forall>x \<in> set bs. i < x"
  defines "n \<equiv> length data - 16"
  shows "\<exists>t'. place_segment t (nth_segment data k i) (seg_of k n i) (of_nat (seg_len k n i)) mf
       (map (seg_of k n) as) (map (seg_of k n) bs) = Some t' \<and>
     received data k mx (as @ i # bs) t' \<and> tpm_last_segment_received t' = tpm_last_segment_received t"
  using place_last_received [OF assms(1,3), of as t] place_before_received [OF assms(1,3,2,4,5)]
    assms(2,4) receivedD(1) [OF assms(2)] by (cases "bs = []") (auto simp: n_def place_segment_def)

lemma check_lengths_received:
  assumes "segmentable data k mx" and "received data k mx (as @ bs) t"
    and "i < seg_count k (length data - 16)" and "\<forall>x \<in> set as. x < i" and "\<forall>x \<in> set bs. i < x"
  shows "check_lengths t (nth_segment data k i) (of_nat (seg_len k (length data - 16) i))
     (Suc i < seg_count k (length data - 16)) = Some True"
proof -
  note r = receivedD [OF assms(2)]
  have "sorted_wrt (<) (as @ i # bs)" "set (as @ i # bs) \<subseteq> {..<seg_count k (length data - 16)}"
    using r(2,3) assms(3-5) by (auto simp: sorted_wrt_append)
  then have "sum_list (map (seg_len k (length data - 16)) (as @ i # bs)) \<le> length data - 16"
    using sum_seg_len segmentableD(2) [OF assms(1)] by blast
  then have "16 + sum_list (map (seg_len k (length data - 16)) (as @ bs)) + seg_len k (length data - 16) i \<le> length data"
    using segmentableD(4) [OF assms(1)] by simp
  then show ?thesis using check_lengths_segment [OF assms(1,3) r(4,5)] by simp
qed

lemma reassembling_complete:
  assumes "segmentable data k mx" and "reassembling data k mx xs t"
  shows "tpm_last_segment_received t \<and> segments_complete (- 1) (tpm_segments t) \<longleftrightarrow>
     xs = [0..<seg_count k (length data - 16)]"
proof -
  define n m where nm: "n = length data - 16" "m = seg_count k n"
  have r: "sorted_wrt (<) xs" "set xs \<subseteq> {..<m}" "tpm_segments t = map (seg_of k n) xs"
      "tpm_last_segment_received t \<longleftrightarrow> m - 1 \<in> set xs"
    using assms(2) receivedD [of data k mx xs t] by (simp_all add: reassembling_def nm)
  note D = segmentableD [OF assms(1)]
  have m: "1 < m" using seg_count_ge_2 [OF assms(1)] by (simp add: nm)
  have "segments_complete (- 1) (map (seg_of k n) xs) \<longleftrightarrow> xs = [0..<0 + length xs]"
    using r(1,2) D by (intro segments_complete_iff) (auto simp: nm seg_start_def)
  moreover have "length xs = m" if "xs = [0..<length xs]" "m - 1 \<in> set xs"
  proof -
    have "set xs = {0..<length xs}" by (subst that(1)) simp
    moreover from this have "length xs - 1 \<in> set xs" using that(2) by auto
    ultimately show ?thesis using that(2) r(2) m by (auto simp: subset_iff)
  qed
  ultimately show ?thesis
    unfolding r(3,4) nm [symmetric] using m by auto
qed

lemma add_segment_new:
  assumes "segmentable data k mx" and "reassembling data k mx (as @ bs) t"
    and "i < seg_count k (length data - 16)" and "\<forall>x \<in> set as. x < i" and "\<forall>x \<in> set bs. i < x"
  shows "\<exists>t'. add_segment t (nth_segment data k i) = Some (as @ i # bs = [0..<seg_count k (length data - 16)], t') \<and>
     (if as @ i # bs = [0..<seg_count k (length data - 16)] then tpm_message t' = data
      else reassembling data k mx (as @ i # bs) t')"
proof -
  define n m where nm: "n = length data - 16" "m = seg_count k n"
  have rec: "received data k mx (as @ bs) t" and flag: "tpm_last_segment_received t \<longleftrightarrow> m - 1 \<in> set (as @ bs)"
    using assms(2) by (auto simp: reassembling_def nm)
  note D = segmentableD [OF assms(1)] and r = receivedD [OF rec]
  note R = nth_segment_reads [OF assms(1,3)] and W = segment_word [OF assms(1,3)]
  obtain h where h: "read_be (nth_segment data k i) 16 = Some h" "get_offset h = of_nat (seg_start k i)"
      "more_segments h = (Suc i < m)"
    using R(7) by (auto simp: nm)
  let ?ys = "as @ i # bs"
  have ok: "check_lengths t (nth_segment data k i) (of_nat (seg_len k n i)) (Suc i < m) = Some True"
    using check_lengths_received [OF assms(1) rec assms(3-5)] by (simp add: nm)
  have emp: "segment_emplace (seg_of k n i) (tpm_segments t) = Some (Some (map (seg_of k n) as, map (seg_of k n) bs))"
    using segment_emplace_new [OF D(2), of n i as bs] assms(3-5) r(3,6) D by (simp add: nm)
  obtain t1 where t1: "place_segment t (nth_segment data k i) (seg_of k n i) (of_nat (seg_len k n i)) (Suc i < m)
       (map (seg_of k n) as) (map (seg_of k n) bs) = Some t1"
      "received data k mx ?ys t1" "tpm_last_segment_received t1 = tpm_last_segment_received t"
    using place_segment_received [OF assms(1) rec assms(3-5)] by (auto simp: nm)
  define t2 where "t2 = (if Suc i < m then t1 else t1\<lparr>tpm_last_segment_received := True\<rparr>)"
  have t2: "reassembling data k mx ?ys t2"
    using t1(2,3) flag assms(3) by (auto simp: t2_def reassembling_def received_def Let_def nm)
  have "add_segment t (nth_segment data k i) =
      (if ?ys = [0..<m] then do { t \<leftarrow> finish_message t2 (nth_segment data k i); Some (True, t) } else Some (False, t2))"
    using R h W ok emp t1(1) reassembling_complete [OF assms(1) t2]
    by (simp add: add_segment_def nm(1) [symmetric] nm(2) [symmetric] Let_def t2_def [symmetric])
  then show ?thesis
    using t2 finish_message_received [OF assms(1) _ assms(3), of t2]
    by (auto simp: reassembling_def nm)
qed

subsection \<open>Every order of arrival\<close>

text \<open>Feeding segments one after the other; the results of the calls are collected.\<close>

fun add_segments :: "tp_message \<Rightarrow> bytes list \<Rightarrow> (bool list \<times> tp_message) option" where
  "add_segments t [] = Some ([], t)"
| "add_segments t (d # ds) = do {
     (r, t) \<leftarrow> add_segment t d;
     (rs, t) \<leftarrow> add_segments t ds;
     Some (r # rs, t) }"

lemma sorted_split:
  assumes "sorted_wrt (<) xs" and "(i :: nat) \<notin> set xs"
  obtains as bs where "xs = as @ bs" "\<forall>x \<in> set as. x < i" "\<forall>x \<in> set bs. i < x"
proof
  show "xs = filter (\<lambda>x. x < i) xs @ filter (\<lambda>x. i < x) xs"
    using assms
  proof (induction xs)
    case (Cons a xs)
    show ?case
    proof (cases "i < a")
      case True
      then have "\<forall>x \<in> set xs. i < x" using Cons.prems(1) by (auto intro: less_trans)
      then have "filter (\<lambda>x. i < x) xs = xs" "filter (\<lambda>x. x < i) xs = []"
        by (auto simp: filter_id_conv filter_empty_conv)
      then show ?thesis using True by simp
    qed (use Cons in auto)
  qed simp
qed auto

lemma add_segments_reassembling:
  assumes "segmentable data k mx" and "reassembling data k mx xs t" and "x \<notin> set xs \<union> set is"
    and "set xs \<union> set is \<union> {x} = {..<seg_count k (length data - 16)}"
  shows "\<exists>t'. add_segments t (map (nth_segment data k) (is @ [x])) = Some (replicate (length is) False @ [True], t') \<and>
     tpm_message t' = data"
  using assms(2-)
proof (induction "is" arbitrary: xs t)
  case Nil
  have "x \<in> {..<seg_count k (length data - 16)}" using Nil(3) by blast
  then have r: "sorted_wrt (<) xs" "x \<notin> set xs" "x < seg_count k (length data - 16)"
    using Nil(1,2) receivedD(2) [of data k mx xs t] by (simp_all add: reassembling_def)
  obtain as bs where s: "xs = as @ bs" "\<forall>a \<in> set as. a < x" "\<forall>b \<in> set bs. x < b"
    by (rule sorted_split [OF r(1,2)])
  have "as @ x # bs = [0..<seg_count k (length data - 16)]"
  proof (rule sorted_distinct_set_unique)
    have "sorted_wrt (<) (as @ x # bs)" using r(1) s by (auto simp: sorted_wrt_append)
    then show "sorted (as @ x # bs)" "distinct (as @ x # bs)" using strict_sorted_iff by blast+
    have "set (as @ x # bs) = set xs \<union> set [] \<union> {x}" by (auto simp: s(1))
    then show "set (as @ x # bs) = set [0..<seg_count k (length data - 16)]" using Nil(3) by (simp add: lessThan_atLeast0)
  qed auto
  with add_segment_new [OF assms(1) Nil(1) [unfolded s(1)] r(3) s(2,3)]
  obtain t' where "add_segment t (nth_segment data k x) = Some (True, t')" "tpm_message t' = data"
    by (simp del: upt_Suc) blast
  then show ?case by simp
next
  case (Cons i "is")
  have "i \<in> {..<seg_count k (length data - 16)}" using Cons.prems(3) by (metis UnI1 UnI2 list.set_intros(1))
  then have i: "i < seg_count k (length data - 16)" by simp
  have r: "sorted_wrt (<) xs" "received data k mx xs t"
    using Cons.prems(1) receivedD(2) [of data k mx xs t] by (simp_all add: reassembling_def)
  show ?case
  proof (cases "i \<in> set xs")
    case True
    have x: "x \<notin> set xs \<union> set is" using Cons.prems(2) by simp
    note add = add_segment_duplicate [OF assms(1) r(2) True]
    have "set xs \<union> set is \<union> {x} = set xs \<union> set (i # is) \<union> {x}" using True by auto
    also note Cons.prems(3)
    finally obtain t'' where "add_segments t (map (nth_segment data k) (is @ [x])) = Some (replicate (length is) False @ [True], t'')"
        "tpm_message t'' = data"
      using Cons.IH [OF Cons.prems(1) x] by blast
    then show ?thesis using add by simp
  next
    case False
    obtain as bs where s: "xs = as @ bs" "\<forall>a \<in> set as. a < i" "\<forall>b \<in> set bs. i < b"
      by (rule sorted_split [OF r(1) False])
    have "x \<in> set xs \<union> set (i # is) \<union> {x}" by simp
    then have "x \<in> set [0..<seg_count k (length data - 16)]" unfolding Cons.prems(3) by simp
    moreover have "x \<notin> set (as @ i # bs)" using Cons.prems(2) s(1) by simp
    ultimately have "set (as @ i # bs) \<noteq> set [0..<seg_count k (length data - 16)]" by metis
    then have "as @ i # bs \<noteq> [0..<seg_count k (length data - 16)]" by (rule contrapos_nn) (rule arg_cong)
    with add_segment_new [OF assms(1) Cons.prems(1) [unfolded s(1)] i s(2,3)]
    obtain t' where t': "add_segment t (nth_segment data k i) = Some (False, t')" "reassembling data k mx (as @ i # bs) t'"
      by (simp del: upt_Suc) blast
    have "set (as @ i # bs) \<union> set is \<union> {x} = set xs \<union> set (i # is) \<union> {x}" using s(1) by auto
    also note Cons.prems(3)
    finally have "set (as @ i # bs) \<union> set is \<union> {x} = {..<seg_count k (length data - 16)}" .
    moreover have "x \<notin> set (as @ i # bs) \<union> set is" using Cons.prems(2) s(1) by auto
    ultimately obtain t'' where "add_segments t' (map (nth_segment data k) (is @ [x])) = Some (replicate (length is) False @ [True], t'')"
        "tpm_message t'' = data"
      using Cons.IH [OF t'(2)] by blast
    then show ?thesis using t'(1) by simp
  qed
qed

lemma tp_reassembly_ex:
  assumes "segmentable data (unat max_segment_length) max_message_size"
    and "tp_split_message data max_segment_length = Some segs"
    and "final \<notin> set (first # others)" and "set (first # others) \<union> {final} = {..<length segs}"
  shows "\<exists>t t'. tp_message_new now (segs ! first) max_message_size = Some t \<and>
     add_segments t (map ((!) segs) (others @ [final])) = Some (replicate (length others) False @ [True], t') \<and>
     tpm_message t' = data"
proof -
  let ?k = "unat max_segment_length" and ?m = "seg_count (unat max_segment_length) (length data - 16)"
  have "0 < max_segment_length"
    using segmentableD(2) [OF assms(1)] by (simp add: word_greater_zero_iff unat_gt_0)
  then have segs: "segs = map (nth_segment data ?k) [0..<?m]"
    using assms(2) tp_split_message_eq segmentableD(4) [OF assms(1)] by simp
  have m: "length segs = ?m" by (simp add: segs)
  have in_m: "j < ?m" if "j \<in> set (first # others) \<union> {final}" for j
    using that unfolding assms(4) m by simp
  have first: "first < ?m" using in_m by simp
  obtain t where t: "tp_message_new now (nth_segment data ?k first) max_message_size = Some t"
      "reassembling data ?k max_message_size [first] t"
    using tp_message_new_received [OF assms(1) first, of now] first by (auto simp: reassembling_def)
  have nth: "segs ! j = nth_segment data ?k j" if "j \<in> set (first # others) \<union> {final}" for j
    using in_m [OF that] by (simp add: segs)
  then have seq: "map ((!) segs) (others @ [final]) = map (nth_segment data ?k) (others @ [final])" by simp
  have "final \<notin> set [first] \<union> set others" "set [first] \<union> set others \<union> {final} = {..<?m}"
    using assms(3,4) unfolding m by auto
  then obtain t' where "add_segments t (map ((!) segs) (others @ [final])) = Some (replicate (length others) False @ [True], t')"
      "tpm_message t' = data"
    using add_segments_reassembling [OF assms(1) t(2)] unfolding seq by blast
  moreover have "tp_message_new now (segs ! first) max_message_size = Some t"
    using t(1) nth [of first] by simp
  ultimately show ?thesis by blast
qed

text \<open>
  C3. Segmentation and reassembly are inverse for every order of arrival, with any number of
  duplicates. Let \<open>segs\<close> be the segments of a message (of consistent length field, TP flag not
  set, not longer than the receiver's maximum; segment length a multiple of 16 up to 1392). When
  segment \<open>first\<close> creates the reassembly buffer, the segments \<open>others\<close> follow in any order and
  with repetitions, and segment \<open>final\<close> is the one still missing, then every call returns
  \<open>false\<close> except the one for \<open>final\<close>, which returns \<open>true\<close>, and the buffer then holds exactly
  the original message. No access is out of bounds on the way.
\<close>

theorem tp_reassembly:
  assumes "segmentable data (unat max_segment_length) max_message_size"
    and "tp_split_message data max_segment_length = Some segs"
    and "final \<notin> set (first # others)" and "set (first # others) \<union> {final} = {..<length segs}"
  shows "\<exists>t t'. tp_message_new now (segs ! first) max_message_size = Some t \<and>
     add_segments t (map ((!) segs) (others @ [final])) = Some (replicate (length others) False @ [True], t') \<and>
     tpm_message t' = data"
  using tp_reassembly_ex [OF assms] .

lemma segmentable_example:
  "segmentable ([0, 0, 0, 0, 0, 0, 5, 0x80] @ replicate 1408 7) (unat (1392 :: u16)) 5000"
  by (simp add: segmentable_def tp_flag_is_set_def be_bytes_def codec_simps nth_append)

theorem tp_reassembly_witness:
  "\<exists>segs t t'. tp_split_message ([0, 0, 0, 0, 0, 0, 5, 0x80] @ replicate 1408 7) 1392 = Some segs \<and>
     tp_message_new 0 (segs ! 1) 5000 = Some t \<and>
     add_segments t (map ((!) segs) [1, 1, 0]) = Some ([False, False, True], t') \<and>
     tpm_message t' = [0, 0, 0, 0, 0, 0, 5, 0x80] @ replicate 1408 7"
proof -
  let ?d = "[0, 0, 0, 0, 0, 0, 5, 0x80] @ replicate 1408 7 :: bytes"
  obtain segs where segs: "tp_split_message ?d 1392 = Some segs" "length segs = 2"
    using tp_split_message_eq [of 1392 ?d] by (simp add: seg_count_def)
  have "set [1, 1, 1] \<union> {0 :: nat} = {..<length segs}" "(0 :: nat) \<notin> set [1, 1, 1]"
    using segs(2) by (auto simp: less_2_cases_iff)
  from tp_reassembly [OF segmentable_example segs(1) this(2,1), of 0] segs(1)
  show ?thesis by auto
qed

end
