(* ===== verification/Alists.thy ===== *)
theory Alists
  imports Prelude "HOL-Library.AList"
begin

text \<open>
  Maps of the C++ library as association lists with distinct keys. \<open>table P\<close> says that the keys are distinct
  and every value satisfies \<open>P\<close>; nested maps are tables of tables.
\<close>

lemma ran_map_upd: "x \<in> ran (m(k \<mapsto> v)) \<Longrightarrow> x = v \<or> x \<in> ran m"
  by (auto simp: ran_def split: if_splits)

lemma ran_map_drop: "x \<in> ran (m(k := None)) \<Longrightarrow> x \<in> ran m"
  by (auto simp: ran_def split: if_splits)

lemmas alist_simps = AList.update_conv' AList.delete_conv' AList.distinct_update AList.distinct_delete

lemma update_nonempty [simp]: "AList.update k v al \<noteq> []"
  by (induction al) auto

lemma delete_Nil_map_of: "AList.delete k al = [] \<Longrightarrow> k' \<noteq> k \<Longrightarrow> map_of al k' = None"
  by (metis AList.delete_conv' fun_upd_other map_of.simps(1))

definition table :: "('v \<Rightarrow> bool) \<Rightarrow> ('k \<times> 'v) list \<Rightarrow> bool" where
  "table P al \<longleftrightarrow> distinct (map fst al) \<and> (\<forall>v \<in> ran (map_of al). P v)"

text \<open>A map whose owner removes it as soon as it is empty.\<close>

definition table1 :: "('v \<Rightarrow> bool) \<Rightarrow> ('k \<times> 'v) list \<Rightarrow> bool" where
  "table1 P al \<longleftrightarrow> table P al \<and> al \<noteq> []"

lemma table_Nil [simp]: "table P []"
  by (simp add: table_def)

lemma table_update [intro]: "table P al \<Longrightarrow> P v \<Longrightarrow> table P (AList.update k v al)"
  by (auto simp: table_def alist_simps dest!: ran_map_upd)

lemma table_delete [intro]: "table P al \<Longrightarrow> table P (AList.delete k al)"
  by (auto simp: table_def alist_simps dest!: ran_map_drop)

lemma table_lookup: "table P al \<Longrightarrow> map_of al k = Some v \<Longrightarrow> P v"
  unfolding table_def by (blast intro: ranI)

lemma table_Cons: "table P al \<Longrightarrow> map_of al k = None \<Longrightarrow> P v \<Longrightarrow> table P ((k, v) # al)"
  by (auto simp: table_def map_of_eq_None_iff dest!: ran_map_upd)

lemma table1_update [intro]: "table P al \<Longrightarrow> P v \<Longrightarrow> table1 P (AList.update k v al)"
  by (auto simp: table1_def)

lemma table1_delete [intro]: "table P al \<Longrightarrow> AList.delete k al \<noteq> [] \<Longrightarrow> table1 P (AList.delete k al)"
  by (auto simp: table1_def)

lemma table1_table [dest]: "table1 P al \<Longrightarrow> table P al"
  by (simp add: table1_def)

end
