(* ===== verification/Tp_Reassembler.thy ===== *)
theory Tp_Reassembler
  imports Tp_Reassembly Alists
begin

text \<open>
  Model of \<open>endpoints/src/tp_reassembler.cpp\<close>: the table of messages under reassembly, by
  sender address, port and message id, and its cleanup timer. The nested \<open>std::map\<close>s are
  association lists; the address type of the network library is a type parameter. Times are
  nanoseconds of the steady clock. \<^term>\<open>None\<close> is undefined behaviour in the segment
  handling, see \<open>Tp_Message\<close>.
\<close>

section \<open>State\<close>

type_synonym tp_entry = "u16 \<times> tp_message"
type_synonym 'a tp_messages = "('a \<times> (u16 \<times> (u64 \<times> tp_entry) list) list) list"

text \<open>\<open>rea_timer\<close> is the expiry time of the pending wait on \<open>cleanup_timer_\<close>, if any.\<close>

record 'a tp_reassembler =
  rea_max_message_size :: u32
  rea_cleanup_timer_running :: bool
  rea_timer :: "nat option"
  rea_tp_messages :: "'a tp_messages"

definition tp_reassembler_new :: "u32 \<Rightarrow> 'a tp_reassembler" where
  "tp_reassembler_new max_message_size =
     \<lparr>rea_max_message_size = max_message_size, rea_cleanup_timer_running = False, rea_timer = None, rea_tp_messages = []\<rparr>"

section \<open>Operations\<close>

definition cleanup_timer_start_unlocked :: "nat \<Rightarrow> bool \<Rightarrow> 'a tp_reassembler \<Rightarrow> 'a tp_reassembler" where
  "cleanup_timer_start_unlocked now force r =
     (if \<not> rea_cleanup_timer_running r \<or> force
      then r\<lparr>rea_timer := Some (now + 5 * 10 ^ 9), rea_cleanup_timer_running := True\<rparr>
      else r)"

definition tp_message_id :: "bytes \<Rightarrow> u64 option" where
  "tp_message_id data = do {
     its_service \<leftarrow> read_be data 0;
     its_method \<leftarrow> read_be data 2;
     its_client \<leftarrow> read_be data 8;
     its_interface_version \<leftarrow> mem_at data 13;
     ty \<leftarrow> mem_at data VSOMEIP_MESSAGE_TYPE_POS;
     Some (push_bit 48 (ucast (its_service :: u16)) OR push_bit 32 (ucast (its_method :: u16)) OR
           push_bit 16 (ucast (its_client :: u16)) OR push_bit 8 (ucast its_interface_version) OR
           ucast (tp_flag_unset ty)) }"

text \<open>The part of \<open>process_tp_message\<close> that holds the lock of the table.\<close>

definition process_locked ::
    "nat \<Rightarrow> u32 \<Rightarrow> bytes \<Rightarrow> 'a \<Rightarrow> u16 \<Rightarrow> u64 \<Rightarrow> u16 \<Rightarrow> 'a tp_messages \<Rightarrow> ((bool \<times> bytes) \<times> 'a tp_messages) option" where
  "process_locked now mx data addr port its_id its_session ms =
     (case map_of ms addr of
        Some ports \<Rightarrow>
          (case map_of ports port of
             Some ids \<Rightarrow>
               (case map_of ids its_id of
                  Some (session, msg) \<Rightarrow>
                    if session = its_session then do {
                      (done, msg) \<leftarrow> add_segment msg data;
                      if done then
                        (let ids = AList.delete its_id ids in
                         if ids = [] then
                           (let ports = AList.delete port ports in
                            if ports = [] then Some ((True, tpm_message msg), AList.delete addr ms)
                            else Some ((True, tpm_message msg), AList.update addr ports ms))
                         else Some ((True, tpm_message msg), AList.update addr (AList.update port ids ports) ms))
                      else Some ((False, []), AList.update addr (AList.update port (AList.update its_id (session, msg) ids) ports) ms) }
                    else do {
                      msg \<leftarrow> tp_message_new now data mx;
                      Some ((False, []), AList.update addr (AList.update port (AList.update its_id (its_session, msg) ids) ports) ms) }
                | None \<Rightarrow> do {
                    msg \<leftarrow> tp_message_new now data mx;
                    Some ((False, []), AList.update addr (AList.update port (AList.update its_id (its_session, msg) ids) ports) ms) })
           | None \<Rightarrow> do {
               msg \<leftarrow> tp_message_new now data mx;
               Some ((False, []), AList.update addr (AList.update port [(its_id, its_session, msg)] ports) ms) })
      | None \<Rightarrow> do {
          msg \<leftarrow> tp_message_new now data mx;
          Some ((False, []), AList.update addr [(port, [(its_id, its_session, msg)])] ms) })"

definition process_tp_message ::
    "nat \<Rightarrow> bytes \<Rightarrow> 'a \<Rightarrow> u16 \<Rightarrow> 'a tp_reassembler \<Rightarrow> ((bool \<times> bytes) \<times> 'a tp_reassembler) option" where
  "process_tp_message now data addr port r =
     (if (of_nat (length data) :: u32) < 16 then Some ((False, []), r)
      else do {
        let r = cleanup_timer_start_unlocked now False r;
        its_session \<leftarrow> read_be data 10;
        its_id \<leftarrow> tp_message_id data;
        (ret, ms) \<leftarrow> process_locked now (rea_max_message_size r) data addr port its_id its_session (rea_tp_messages r);
        Some (ret, r\<lparr>rea_tp_messages := ms\<rparr>) })"

text \<open>The three nested loops of \<open>cleanup_unfinished_messages\<close>, innermost first.\<close>

definition tp_expired :: "nat \<Rightarrow> tp_entry \<Rightarrow> bool" where
  "tp_expired now e \<longleftrightarrow> (now - tpm_creation (snd e)) div 10 ^ 6 > 5000"

fun cleanup_ids :: "nat \<Rightarrow> (u64 \<times> tp_entry) list \<Rightarrow> (u64 \<times> tp_entry) list" where
  "cleanup_ids now [] = []"
| "cleanup_ids now ((i, e) # ids) = (if tp_expired now e then cleanup_ids now ids else (i, e) # cleanup_ids now ids)"

fun cleanup_ports :: "nat \<Rightarrow> (u16 \<times> (u64 \<times> tp_entry) list) list \<Rightarrow> (u16 \<times> (u64 \<times> tp_entry) list) list" where
  "cleanup_ports now [] = []"
| "cleanup_ports now ((p, ids) # ports) =
     (let ids = cleanup_ids now ids in if ids = [] then cleanup_ports now ports else (p, ids) # cleanup_ports now ports)"

fun cleanup_ips :: "nat \<Rightarrow> 'a tp_messages \<Rightarrow> 'a tp_messages" where
  "cleanup_ips now [] = []"
| "cleanup_ips now ((a, ports) # ms) =
     (let ports = cleanup_ports now ports in if ports = [] then cleanup_ips now ms else (a, ports) # cleanup_ips now ms)"

definition cleanup_unfinished_messages :: "nat \<Rightarrow> 'a tp_reassembler \<Rightarrow> bool \<times> 'a tp_reassembler" where
  "cleanup_unfinished_messages now r =
     (let ms = cleanup_ips now (rea_tp_messages r) in (ms \<noteq> [], r\<lparr>rea_tp_messages := ms\<rparr>))"

definition reassembler_stop :: "'a tp_reassembler \<Rightarrow> 'a tp_reassembler" where
  "reassembler_stop r = r\<lparr>rea_timer := None\<rparr>"

text \<open>\<open>error\<close> is set when the wait was cancelled. The wait that calls back is no longer pending.\<close>

definition cleanup_timer_cbk :: "nat \<Rightarrow> bool \<Rightarrow> 'a tp_reassembler \<Rightarrow> 'a tp_reassembler" where
  "cleanup_timer_cbk now err r =
     (if \<not> err then
        (case cleanup_unfinished_messages now (r\<lparr>rea_timer := None\<rparr>) of (left, r) \<Rightarrow>
           if left then cleanup_timer_start_unlocked now True r
           else r\<lparr>rea_cleanup_timer_running := False\<rparr>)
      else r)"

section \<open>The table as an interface\<close>

text \<open>
  What \<open>process_tp_message\<close> needs of the table: a finite map from sender and message id to
  entries. \<open>deliver\<close> is the handling of one segment over any such table.
\<close>

type_synonym 'a tp_key = "'a \<times> u16 \<times> u64"

definition deliver_entry ::
    "nat \<Rightarrow> u32 \<Rightarrow> bytes \<Rightarrow> u16 \<Rightarrow> tp_entry option \<Rightarrow> ((bool \<times> bytes) \<times> tp_entry option) option" where
  "deliver_entry now mx data its_session e =
     (case e of
        Some (session, msg) \<Rightarrow>
          if session = its_session then do {
            (done, msg) \<leftarrow> add_segment msg data;
            Some (if done then ((True, tpm_message msg), None) else ((False, []), Some (session, msg))) }
          else do { msg \<leftarrow> tp_message_new now data mx; Some ((False, []), Some (its_session, msg)) }
      | None \<Rightarrow> do { msg \<leftarrow> tp_message_new now data mx; Some ((False, []), Some (its_session, msg)) })"

definition deliver ::
    "('t \<Rightarrow> 'k \<Rightarrow> tp_entry option) \<Rightarrow> ('k \<Rightarrow> tp_entry \<Rightarrow> 't \<Rightarrow> 't) \<Rightarrow> ('k \<Rightarrow> 't \<Rightarrow> 't) \<Rightarrow>
       nat \<Rightarrow> u32 \<Rightarrow> bytes \<Rightarrow> 'k \<Rightarrow> u16 \<Rightarrow> 't \<Rightarrow> ((bool \<times> bytes) \<times> 't) option" where
  "deliver lookup put del now mx data k its_session t = do {
     (r, e) \<leftarrow> deliver_entry now mx data its_session (lookup t k);
     Some (r, case e of None \<Rightarrow> del k t | Some v \<Rightarrow> put k v t) }"

abbreviation map_put :: "'k \<Rightarrow> 'v \<Rightarrow> ('k \<Rightarrow> 'v option) \<Rightarrow> ('k \<Rightarrow> 'v option)" where
  "map_put k v m \<equiv> m(k \<mapsto> v)"

abbreviation map_drop :: "'k \<Rightarrow> ('k \<Rightarrow> 'v option) \<Rightarrow> ('k \<Rightarrow> 'v option)" where
  "map_drop k m \<equiv> m(k := None)"

text \<open>The abstract table: a partial function.\<close>

abbreviation deliver_map ::
    "nat \<Rightarrow> u32 \<Rightarrow> bytes \<Rightarrow> 'k \<Rightarrow> u16 \<Rightarrow> ('k \<Rightarrow> tp_entry option) \<Rightarrow> ((bool \<times> bytes) \<times> ('k \<Rightarrow> tp_entry option)) option" where
  "deliver_map \<equiv> deliver (\<lambda>m. m) map_put map_drop"

locale message_table =
  fixes lookup :: "'t \<Rightarrow> 'k \<Rightarrow> tp_entry option"
    and put :: "'k \<Rightarrow> tp_entry \<Rightarrow> 't \<Rightarrow> 't"
    and del :: "'k \<Rightarrow> 't \<Rightarrow> 't"
    and wf :: "'t \<Rightarrow> bool"
  assumes lookup_put: "wf t \<Longrightarrow> lookup (put k v t) = map_put k v (lookup t)"
    and lookup_drop: "wf t \<Longrightarrow> lookup (del k t) = map_drop k (lookup t)"
    and wf_put: "wf t \<Longrightarrow> wf (put k v t)"
    and wf_drop: "wf t \<Longrightarrow> wf (del k t)"
begin

lemma deliver_refines:
  "wf t \<Longrightarrow> map_option (\<lambda>(r, t). (r, lookup t)) (deliver lookup put del now mx data k s t) =
     deliver_map now mx data k s (lookup t)"
  by (auto simp: deliver_def lookup_put lookup_drop split: option.splits bind_splits)

lemma deliver_wf:
  "wf t \<Longrightarrow> deliver lookup put del now mx data k s t = Some (r, t') \<Longrightarrow> wf t'"
  by (auto simp: deliver_def wf_put wf_drop bind_eq_Some_conv split: option.splits prod.splits if_splits)

lemma deliver_frame:
  "wf t \<Longrightarrow> deliver lookup put del now mx data k s t = Some (r, t') \<Longrightarrow> k' \<noteq> k \<Longrightarrow> lookup t' k' = lookup t k'"
  by (auto simp: deliver_def lookup_put lookup_drop bind_eq_Some_conv split: option.splits prod.splits if_splits)

end

section \<open>The nested maps implement the interface\<close>

definition entry :: "'a tp_messages \<Rightarrow> 'a tp_key \<Rightarrow> tp_entry option" where
  "entry ms = (\<lambda>(a, p, i). do { ports \<leftarrow> map_of ms a; ids \<leftarrow> map_of ports p; map_of ids i })"

definition put_entry :: "'a tp_key \<Rightarrow> tp_entry \<Rightarrow> 'a tp_messages \<Rightarrow> 'a tp_messages" where
  "put_entry = (\<lambda>(a, p, i) e ms.
     (let ports = (case map_of ms a of None \<Rightarrow> [] | Some ports \<Rightarrow> ports);
          ids = (case map_of ports p of None \<Rightarrow> [] | Some ids \<Rightarrow> ids)
      in AList.update a (AList.update p (AList.update i e ids) ports) ms))"

definition drop_entry :: "'a tp_key \<Rightarrow> 'a tp_messages \<Rightarrow> 'a tp_messages" where
  "drop_entry = (\<lambda>(a, p, i) ms.
     (case map_of ms a of None \<Rightarrow> ms
      | Some ports \<Rightarrow> (case map_of ports p of None \<Rightarrow> ms
        | Some ids \<Rightarrow>
            (let ids = AList.delete i ids in
             if ids = [] then
               (let ports = AList.delete p ports in
                if ports = [] then AList.delete a ms else AList.update a ports ms)
             else AList.update a (AList.update p ids ports) ms))))"

text \<open>Keys are unique and no inner map is empty.\<close>

definition wf_ids :: "(u64 \<times> tp_entry) list \<Rightarrow> bool" where
  "wf_ids ids \<longleftrightarrow> ids \<noteq> [] \<and> distinct (map fst ids)"

definition wf_ports :: "(u16 \<times> (u64 \<times> tp_entry) list) list \<Rightarrow> bool" where
  "wf_ports ports \<longleftrightarrow> ports \<noteq> [] \<and> distinct (map fst ports) \<and> (\<forall>ids \<in> ran (map_of ports). wf_ids ids)"

definition wf_messages :: "'a tp_messages \<Rightarrow> bool" where
  "wf_messages ms \<longleftrightarrow> distinct (map fst ms) \<and> (\<forall>ports \<in> ran (map_of ms). wf_ports ports)"

lemma wf_idsI: "wf_ids ids \<or> ids = [] \<Longrightarrow> wf_ids (AList.update i e ids)"
  by (auto simp: wf_ids_def alist_simps)

lemma wf_portsI: "wf_ports ports \<or> ports = [] \<Longrightarrow> wf_ids ids \<Longrightarrow> wf_ports (AList.update p ids ports)"
  by (auto simp: wf_ports_def alist_simps dest!: ran_map_upd)

lemma wf_singleton [simp]: "wf_ids [x]" "wf_ports [(p, [x])]"
  by (auto simp: wf_ids_def wf_ports_def ran_def split: if_splits)

lemma wf_messagesI: "wf_messages ms \<Longrightarrow> wf_ports ports \<Longrightarrow> wf_messages (AList.update a ports ms)"
  by (auto simp: wf_messages_def alist_simps dest!: ran_map_upd)

lemma wf_delete:
  "wf_ids ids \<Longrightarrow> AList.delete i ids \<noteq> [] \<Longrightarrow> wf_ids (AList.delete i ids)"
  "wf_ports ports \<Longrightarrow> AList.delete p ports \<noteq> [] \<Longrightarrow> wf_ports (AList.delete p ports)"
  "wf_messages ms \<Longrightarrow> wf_messages (AList.delete a ms)"
  by (auto simp: wf_ids_def wf_ports_def wf_messages_def alist_simps dest!: ran_map_drop)

lemma wf_lookup:
  "wf_messages ms \<Longrightarrow> map_of ms a = Some ports \<Longrightarrow> wf_ports ports"
  "wf_ports ports \<Longrightarrow> map_of ports p = Some ids \<Longrightarrow> wf_ids ids"
  unfolding wf_messages_def wf_ports_def by (blast intro: ranI)+

interpretation nested: message_table entry put_entry drop_entry wf_messages
proof
  fix t :: "'a tp_messages" and k :: "'a tp_key" and v
  assume wf: "wf_messages t"
  obtain a p i where k: "k = (a, p, i)" by (cases k)
  show "entry (put_entry k v t) = map_put k v (entry t)"
    by (auto simp: fun_eq_iff entry_def put_entry_def k alist_simps Let_def split: option.splits bind_splits)
  show "entry (drop_entry k t) = map_drop k (entry t)"
    by (auto simp: fun_eq_iff entry_def drop_entry_def k alist_simps Let_def delete_Nil_map_of split: option.splits bind_splits)
      (metis delete_Nil_map_of option.inject option.distinct(1))
  show "wf_messages (put_entry k v t)"
    using wf by (auto simp: put_entry_def k Let_def split: option.splits intro!: wf_messagesI wf_portsI wf_idsI dest: wf_lookup)
  show "wf_messages (drop_entry k t)"
    using wf by (auto simp: drop_entry_def k Let_def split: option.splits intro!: wf_messagesI wf_portsI wf_delete dest: wf_lookup)
qed

lemma process_locked_deliver:
  "process_locked now mx data addr port i s ms = deliver entry put_entry drop_entry now mx data (addr, port, i) s ms"
  by (auto simp: process_locked_def deliver_def deliver_entry_def entry_def put_entry_def drop_entry_def Let_def
      split: option.splits prod.splits bind_splits)


lemma process_locked_wf:
  "wf_messages ms \<Longrightarrow> process_locked now mx data addr port i s ms = Some (r, ms') \<Longrightarrow> wf_messages ms'"
  unfolding process_locked_deliver by (rule nested.deliver_wf)

text \<open>
  C7. The nested maps of the reassembler implement one flat map from sender address, port and
  message id: handling a segment is the abstract step on that map, for every table the code can
  build, and the result is such a table again (keys unique, no empty inner map).
\<close>

theorem process_locked_refines:
  assumes "wf_messages ms"
  shows "map_option (\<lambda>(r, ms). (r, entry ms)) (process_locked now mx data addr port i s ms) =
       deliver_map now mx data (addr, port, i) s (entry ms) \<and>
     (\<forall>r ms'. process_locked now mx data addr port i s ms = Some (r, ms') \<longrightarrow> wf_messages ms')"
  using assms nested.deliver_refines [of ms now mx data "(addr, port, i)" s]
  by (auto simp: process_locked_deliver dest: nested.deliver_wf)

theorem process_locked_refines_witness:
  "\<exists>ms'. process_locked 0 100 [] (1 :: nat) 2 3 4 [] = Some ((False, []), ms') \<and> wf_messages ms'"
proof -
  have wf: "wf_messages ([] :: nat tp_messages)" by (simp add: wf_messages_def)
  obtain ms' where "process_locked 0 100 [] (1 :: nat) 2 3 4 [] = Some ((False, []), ms')"
    by (simp add: process_locked_def tp_message_new_def Let_def)
  with process_locked_refines [OF wf, of 0 100 "[]" 1 2 3 4] show ?thesis by blast
qed

section \<open>Interleaved senders\<close>

text \<open>A received datagram: time, data, address and port of the sender.\<close>

type_synonym 'a datagram = "nat \<times> bytes \<times> 'a \<times> u16"

fun process_all :: "'a datagram list \<Rightarrow> 'a tp_reassembler \<Rightarrow> ((bool \<times> bytes) list \<times> 'a tp_reassembler) option" where
  "process_all [] r = Some ([], r)"
| "process_all ((now, data, addr, port) # dgs) r = do {
     (ret, r) \<leftarrow> process_tp_message now data addr port r;
     (rets, r) \<leftarrow> process_all dgs r;
     Some (ret # rets, r) }"

definition dg_key :: "'a datagram \<Rightarrow> 'a tp_key option" where
  "dg_key = (\<lambda>(now, data, addr, port).
     if (of_nat (length data) :: u32) < 16 then None
     else map_option (\<lambda>i. (addr, port, i)) (tp_message_id data))"

text \<open>The part of a sequence of results that belongs to the datagrams of one message.\<close>

definition results_for :: "'a tp_key \<Rightarrow> 'a datagram list \<Rightarrow> 'b list \<Rightarrow> 'b list" where
  "results_for k dgs rs = map snd (filter (\<lambda>(dg, r). dg_key dg = Some k) (zip dgs rs))"

text \<open>The table restricted to one key.\<close>

fun run_key :: "u32 \<Rightarrow> 'a datagram list \<Rightarrow> tp_entry option \<Rightarrow> ((bool \<times> bytes) list \<times> tp_entry option) option" where
  "run_key mx [] e = Some ([], e)"
| "run_key mx ((now, data, addr, port) # dgs) e = do {
     s \<leftarrow> read_be data 10;
     (ret, e) \<leftarrow> deliver_entry now mx data s e;
     (rets, e) \<leftarrow> run_key mx dgs e;
     Some (ret # rets, e) }"

lemma deliver_map_eq:
  "deliver_map now mx data k s m = do { (r, e) \<leftarrow> deliver_entry now mx data s (m k); Some (r, m(k := e)) }"
  unfolding deliver_def by (intro arg_cong2 [where f = Option.bind] refl ext) (auto split: option.splits)

lemma deliver_map_at:
  "deliver_map now mx data k s m = Some (r, m') \<Longrightarrow>
     deliver_entry now mx data s (m k) = Some (r, m' k) \<and> (\<forall>k'. k' \<noteq> k \<longrightarrow> m' k' = m k')"
  by (auto simp: deliver_map_eq bind_eq_Some_conv)

lemma process_tp_message_key:
  assumes "process_tp_message now data addr port r = Some (ret, r')" and "wf_messages (rea_tp_messages r)"
  shows "wf_messages (rea_tp_messages r')" "rea_max_message_size r' = rea_max_message_size r"
    "dg_key (now, data, addr, port) \<noteq> Some k \<Longrightarrow> entry (rea_tp_messages r') k = entry (rea_tp_messages r) k"
    "dg_key (now, data, addr, port) = Some k \<Longrightarrow>
       \<exists>s. read_be data 10 = Some s \<and>
         deliver_entry now (rea_max_message_size r) data s (entry (rea_tp_messages r) k) =
           Some (ret, entry (rea_tp_messages r') k)"
proof -
  have "wf_messages (rea_tp_messages r') \<and> rea_max_message_size r' = rea_max_message_size r \<and>
    (dg_key (now, data, addr, port) \<noteq> Some k \<longrightarrow> entry (rea_tp_messages r') k = entry (rea_tp_messages r) k) \<and>
    (dg_key (now, data, addr, port) = Some k \<longrightarrow>
       (\<exists>s. read_be data 10 = Some s \<and>
         deliver_entry now (rea_max_message_size r) data s (entry (rea_tp_messages r) k) =
           Some (ret, entry (rea_tp_messages r') k)))"
  proof (cases "(of_nat (length data) :: u32) < 16")
    case True
    then show ?thesis using assms by (simp add: process_tp_message_def dg_key_def)
  next
    case False
    have r0: "rea_tp_messages (cleanup_timer_start_unlocked now False r) = rea_tp_messages r"
        "rea_max_message_size (cleanup_timer_start_unlocked now False r) = rea_max_message_size r"
      by (simp_all add: cleanup_timer_start_unlocked_def)
    obtain s i ms where s: "read_be data 10 = Some s" and i: "tp_message_id data = Some i"
        and step: "process_locked now (rea_max_message_size r) data addr port i s (rea_tp_messages r) = Some (ret, ms)"
        and r': "rea_tp_messages r' = ms" "rea_max_message_size r' = rea_max_message_size r"
      using assms(1) False by (auto simp: process_tp_message_def bind_eq_Some_conv r0 Let_def)
    have flat: "deliver_map now (rea_max_message_size r) data (addr, port, i) s (entry (rea_tp_messages r)) = Some (ret, entry ms)"
      using nested.deliver_refines [OF assms(2), of now "rea_max_message_size r" data "(addr, port, i)" s] step
      by (simp add: process_locked_deliver)
    show ?thesis
      using process_locked_wf [OF assms(2) step] deliver_map_at [OF flat] s i r' False
      by (cases k) (auto simp: dg_key_def)
  qed
  then show "wf_messages (rea_tp_messages r')" "rea_max_message_size r' = rea_max_message_size r"
    "dg_key (now, data, addr, port) \<noteq> Some k \<Longrightarrow> entry (rea_tp_messages r') k = entry (rea_tp_messages r) k"
    "dg_key (now, data, addr, port) = Some k \<Longrightarrow>
       \<exists>s. read_be data 10 = Some s \<and>
         deliver_entry now (rea_max_message_size r) data s (entry (rea_tp_messages r) k) =
           Some (ret, entry (rea_tp_messages r') k)" by blast+
qed

lemma process_all_key:
  "process_all dgs r = Some (rets, r') \<Longrightarrow> wf_messages (rea_tp_messages r) \<Longrightarrow>
     length rets = length dgs \<and>
     run_key (rea_max_message_size r) (filter (\<lambda>dg. dg_key dg = Some k) dgs) (entry (rea_tp_messages r) k) =
       Some (results_for k dgs rets, entry (rea_tp_messages r') k)"
proof (induction dgs arbitrary: r rets)
  case Nil
  then show ?case by (simp add: results_for_def)
next
  case (Cons dg dgs)
  obtain now data addr port where dg: "dg = (now, data, addr, port)" by (cases dg)
  obtain ret r1 rets1 where p: "process_tp_message now data addr port r = Some (ret, r1)"
      and q: "process_all dgs r1 = Some (rets1, r')" and rets: "rets = ret # rets1"
    using Cons.prems(1) by (auto simp: dg bind_eq_Some_conv)
  note key = process_tp_message_key [OF p Cons.prems(2)]
  from Cons.IH [OF q key(1)] key(2) have IH: "length rets1 = length dgs"
      "run_key (rea_max_message_size r) (filter (\<lambda>dg. dg_key dg = Some k) dgs) (entry (rea_tp_messages r1) k) =
       Some (results_for k dgs rets1, entry (rea_tp_messages r') k)" by simp_all
  show ?case
  proof (cases "dg_key dg = Some k")
    case True
    then obtain s where "read_be data 10 = Some s"
        "deliver_entry now (rea_max_message_size r) data s (entry (rea_tp_messages r) k) = Some (ret, entry (rea_tp_messages r1) k)"
      using key(4) [of k] by (auto simp: dg)
    then show ?thesis using IH True by (simp add: dg rets results_for_def)
  next
    case False
    then show ?thesis using IH key(3) [of k] by (simp add: dg rets results_for_def)
  qed
qed

lemma run_key_segments:
  assumes "add_segments t (map (\<lambda>dg. fst (snd dg)) dgs) = Some (replicate n False @ [True], t')"
    and "\<forall>dg \<in> set dgs. read_be (fst (snd dg)) 10 = Some s"
  shows "run_key mx dgs (Some (s, t)) = Some (replicate n (False, []) @ [(True, tpm_message t')], None)"
  using assms
proof (induction dgs arbitrary: t n)
  case Nil
  then show ?case by simp
next
  case (Cons dg dgs)
  obtain now data addr port where dg: "dg = (now, data, addr, port)" by (cases dg)
  obtain b t1 bs where add: "add_segment t data = Some (b, t1)" "add_segments t1 (map (\<lambda>dg. fst (snd dg)) dgs) = Some (bs, t')"
      "b # bs = replicate n False @ [True]"
    using Cons.prems(1) by (auto simp: dg bind_eq_Some_conv)
  have s: "read_be data 10 = Some s" using Cons.prems(2) by (simp add: dg)
  show ?case
  proof (cases n)
    case 0
    then have "b" "bs = []" using add(3) by auto
    moreover have "length bs = length dgs" if "add_segments t1 (map (\<lambda>dg. fst (snd dg)) dgs) = Some (bs, t')" for bs t1 t' and dgs :: "'a datagram list"
      using that by (induction dgs arbitrary: t1 bs) (auto simp: bind_eq_Some_conv)
    ultimately have "dgs = []" "t' = t1" using add(2) by fastforce+
    then show ?thesis using add s \<open>b\<close> 0 by (simp add: dg deliver_entry_def)
  next
    case (Suc m)
    then have "\<not> b" "bs = replicate m False @ [True]" using add(3) by auto
    then show ?thesis using Cons.IH [of t1 m] Cons.prems(2) add s Suc by (simp add: dg deliver_entry_def)
  qed
qed

lemma segment_ids:
  assumes "segmentable data k mx" and "i < seg_count k (length data - 16)"
  shows "tp_message_id (nth_segment data k i) = tp_message_id data"
    and "read_be (nth_segment data k i) 10 = (read_be data 10 :: u16 option)"
    and "\<not> (of_nat (length (nth_segment data k i)) :: u32) < 16"
proof -
  note D = segmentableD [OF assms(1)]
  have "16 \<le> length data" using D by simp
  then obtain b0 b1 b2 b3 b4 b5 b6 b7 b8 b9 b10 b11 b12 b13 b14 b15 rest where
    d: "data = b0 # b1 # b2 # b3 # b4 # b5 # b6 # b7 # b8 # b9 # b10 # b11 # b12 # b13 # b14 # b15 # rest"
    by (rule list_ge_16E)
  have g: "\<exists>tl. nth_segment data k i = seg_header data (seg_len k (length data - 16) i) @ tl"
    by (auto simp: nth_segment_def Let_def seg_len_def)
  have flag: "tp_flag_unset (b14 OR 0x20) = tp_flag_unset b14"
    unfolding tp_flag_unset_def
    by (intro bit_eqI) (simp only: bit_and_iff bit_or_iff bit_not_iff bit_20, auto)
  show "tp_message_id (nth_segment data k i) = tp_message_id data"
    "read_be (nth_segment data k i) 10 = (read_be data 10 :: u16 option)"
    using g flag by (auto simp: d seg_header_def tp_message_id_def read_be_def mem_sub_def mem_at_def nth_append)
  show "\<not> (of_nat (length (nth_segment data k i)) :: u32) < 16"
    using segment_word(2) [OF assms] nth_segment_reads(1) [OF assms]
      less_trans [of "of_nat (length (nth_segment data k i))" 16 "20 :: u32"] by auto
qed

text \<open>
  C4. A segmented message within the limits gets through although datagrams of other senders and with other message ids
  arrive in between. Let the datagrams that carry the sender and message id of a message be its segments, in any
  order and with repetitions before the last missing one (a segment of another session with the same sender and
  message id makes the reassembler drop what it has), and let datagrams with another sender or message id be interleaved,
  as long as handling those does not run into undefined behaviour. Then the reassembler answers with nothing
  for all of these datagrams except the last, for which it returns exactly the message, and the
  entry is gone from its table.
\<close>

theorem reassembler_interleaved:
  assumes "process_all dgs r = Some (rets, r')" and "wf_messages (rea_tp_messages r)"
    and "segmentable data (unat max_segment_length) (rea_max_message_size r)"
    and "tp_split_message data max_segment_length = Some segs"
    and "tp_message_id data = Some i" and "entry (rea_tp_messages r) (addr, port, i) = None"
    and "final \<notin> set (first # others)" and "set (first # others) \<union> {final} = {..<length segs}"
    and "map (\<lambda>dg. fst (snd dg)) (filter (\<lambda>dg. dg_key dg = Some (addr, port, i)) dgs) =
      map ((!) segs) (first # others @ [final])"
  shows "results_for (addr, port, i) dgs rets = replicate (Suc (length others)) (False, []) @ [(True, data)] \<and>
     entry (rea_tp_messages r') (addr, port, i) = None"
proof -
  let ?k = "unat max_segment_length" and ?m = "seg_count (unat max_segment_length) (length data - 16)"
  let ?mine = "filter (\<lambda>dg. dg_key dg = Some (addr, port, i)) dgs"
  have "0 < max_segment_length"
    using segmentableD(2) [OF assms(3)] by (simp add: word_greater_zero_iff unat_gt_0)
  then have segs: "segs = map (nth_segment data ?k) [0..<?m]"
    using assms(4) tp_split_message_eq segmentableD(4) [OF assms(3)] by simp
  obtain s where s: "read_be data 10 = Some (s :: u16)"
    using segmentableD(4) [OF assms(3)] by (simp add: read_be_def)
  have sess: "read_be (fst (snd dg)) 10 = Some s" if "dg \<in> set ?mine" for dg
  proof -
    have "fst (snd dg) \<in> set (map ((!) segs) (first # others @ [final]))"
      using that assms(9) by (metis (no_types, lifting) image_eqI list.set_map)
    then obtain j where "j \<in> set (first # others) \<union> {final}" "fst (snd dg) = segs ! j" by auto
    then have "j < ?m" "fst (snd dg) = nth_segment data ?k j" unfolding assms(8) by (simp_all add: segs)
    then show ?thesis using segment_ids(2) [OF assms(3)] s by simp
  qed
  obtain dg rest where mine: "?mine = dg # rest" using assms(9) by (cases ?mine) auto
  obtain now d a p where dg: "dg = (now, d, a, p)" by (cases dg)
  have d: "d = segs ! first" and rest: "map (\<lambda>dg. fst (snd dg)) rest = map ((!) segs) (others @ [final])"
    using assms(9) unfolding mine by (simp_all add: dg)
  obtain t t' where t: "tp_message_new now (segs ! first) (rea_max_message_size r) = Some t"
      "add_segments t (map ((!) segs) (others @ [final])) = Some (replicate (length others) False @ [True], t')"
      "tpm_message t' = data"
    using tp_reassembly_ex [OF assms(3,4,7,8), of now] by blast
  have run: "run_key (rea_max_message_size r) ?mine None =
      Some (replicate (Suc (length others)) (False, []) @ [(True, data)], None)"
    using t run_key_segments [of t rest "length others" t' s] sess [of dg] sess rest
    unfolding mine by (simp add: dg deliver_entry_def d)
  then show ?thesis
    using process_all_key [OF assms(1,2), of "(addr, port, i)"] assms(6) by simp
qed

theorem reassembler_interleaved_witness:
  "\<exists>segs rets r' i.
     tp_split_message ([0, 0, 0, 0, 0, 0, 5, 0x80] @ replicate 1408 7) 1392 = Some segs \<and>
     process_all [(0, segs ! 1, 1 :: nat, 30490), (1, [9, 9], 2, 7), (2, segs ! 0, 1, 30490)] (tp_reassembler_new 5000) =
       Some (rets, r') \<and>
     results_for (1, 30490, i) [(0, segs ! 1, 1 :: nat, 30490), (1, [9, 9], 2, 7), (2, segs ! 0, 1, 30490)] rets =
       [(False, []), (True, [0, 0, 0, 0, 0, 0, 5, 0x80] @ replicate 1408 7)]"
proof -
  define d :: bytes where "d = [0, 0, 0, 0, 0, 0, 5, 0x80] @ replicate 1408 7"
  have seg: "segmentable d (unat (1392 :: u16)) 5000" unfolding d_def by (rule segmentable_example)
  obtain segs where segs: "tp_split_message d 1392 = Some segs"
      "segs = map (nth_segment d (unat (1392 :: u16))) [0..<seg_count (unat (1392 :: u16)) (length d - 16)]"
    using tp_split_message_eq [of 1392 d] by (simp add: d_def)
  have m: "seg_count (unat (1392 :: u16)) (length d - 16) = 2" by (simp add: d_def seg_count_def)
  have len: "length segs = 2" unfolding segs m by simp
  obtain s where s: "read_be d 10 = Some (s :: u16)" by (simp add: d_def read_be_def)
  obtain i where i: "tp_message_id d = Some i" by (simp add: d_def tp_message_id_def read_be_def)
  have ids: "tp_message_id (segs ! j) = Some i" "read_be (segs ! j) 10 = Some s"
      "\<not> (of_nat (length (segs ! j)) :: u32) < 16" if "j < 2" for j
    using segment_ids [OF seg, of j] that s i unfolding segs m by simp_all
  let ?dgs = "[(0, segs ! 1, 1 :: nat, 30490), (1, [9, 9], 2, 7), (2, segs ! 0, 1, 30490)] :: nat datagram list"
  have split: "(0 :: nat) \<notin> set [1]" "set [1] \<union> {0 :: nat} = {..<length segs}"
    by (auto simp: len less_2_cases_iff)
  obtain t t' where t: "tp_message_new 0 (segs ! 1) 5000 = Some t" "add_segment t (segs ! 0) = Some (True, t')"
    using tp_reassembly_ex [OF seg segs(1) split, of 0] by (auto simp: bind_eq_Some_conv)
  have "\<exists>rets r'. process_all ?dgs (tp_reassembler_new 5000) = Some (rets, r')"
    using t ids [of 0] ids [of 1]
    by (simp add: process_tp_message_def process_locked_def cleanup_timer_start_unlocked_def tp_reassembler_new_def)
  then obtain rets r' where p: "process_all ?dgs (tp_reassembler_new 5000) = Some (rets, r')" by blast
  have mine: "map (\<lambda>dg. fst (snd dg)) (filter (\<lambda>dg. dg_key dg = Some (1, 30490, i)) ?dgs) = map ((!) segs) (1 # [] @ [0])"
    using ids [of 0] ids [of 1] by (simp add: dg_key_def)
  have "wf_messages (rea_tp_messages (tp_reassembler_new 5000 :: nat tp_reassembler))"
      "entry (rea_tp_messages (tp_reassembler_new 5000 :: nat tp_reassembler)) (1, 30490, i) = None"
      "segmentable d (unat (1392 :: u16)) (rea_max_message_size (tp_reassembler_new 5000 :: nat tp_reassembler))"
    using seg by (simp_all add: tp_reassembler_new_def wf_messages_def entry_def)
  from reassembler_interleaved [OF p this(1,3) segs(1) i this(2) split mine]
  show ?thesis using segs(1) p unfolding d_def by auto
qed

section \<open>Cleanup\<close>

text \<open>The three loops have one shape: values are updated or erased in place.\<close>

fun retain :: "('v \<Rightarrow> 'w option) \<Rightarrow> ('k \<times> 'v) list \<Rightarrow> ('k \<times> 'w) list" where
  "retain g [] = []"
| "retain g ((k, v) # al) = (case g v of None \<Rightarrow> retain g al | Some w \<Rightarrow> (k, w) # retain g al)"

lemma fst_retain: "fst ` set (retain g al) \<subseteq> fst ` set al"
  by (induction g al rule: retain.induct) (auto split: option.splits)

lemma distinct_retain: "distinct (map fst al) \<Longrightarrow> distinct (map fst (retain g al))"
proof (induction g al rule: retain.induct)
  case (2 g k v al)
  then show ?case using fst_retain [of g al] by (auto split: option.splits)
qed simp

lemma map_of_retain: "distinct (map fst al) \<Longrightarrow> map_of (retain g al) k = Option.bind (map_of al k) g"
proof (induction g al rule: retain.induct)
  case (2 g k' v al)
  have "k' \<notin> fst ` set (retain g al)" using 2(3) fst_retain [of g al] by auto
  then have "map_of (retain g al) k' = None" by (simp add: map_of_eq_None_iff)
  then show ?case using 2 by (auto split: option.splits)
qed simp

definition keep_nonempty :: "'a list \<Rightarrow> 'a list option" where
  "keep_nonempty xs = (if xs = [] then None else Some xs)"

lemma cleanup_retain:
  "cleanup_ids now ids = retain (\<lambda>e. if tp_expired now e then None else Some e) ids"
  "cleanup_ports now ports = retain (\<lambda>ids. keep_nonempty (cleanup_ids now ids)) ports"
  "cleanup_ips now ms = retain (\<lambda>ports. keep_nonempty (cleanup_ports now ports)) ms"
proof -
  show "cleanup_ids now ids = retain (\<lambda>e. if tp_expired now e then None else Some e) ids"
    by (induction now ids rule: cleanup_ids.induct) auto
  show "cleanup_ports now ports = retain (\<lambda>ids. keep_nonempty (cleanup_ids now ids)) ports"
    by (induction now ports rule: cleanup_ports.induct) (auto simp: keep_nonempty_def Let_def)
  show "cleanup_ips now ms = retain (\<lambda>ports. keep_nonempty (cleanup_ports now ports)) ms"
    by (induction now ms rule: cleanup_ips.induct) (auto simp: keep_nonempty_def Let_def)
qed

lemma ran_retain:
  "w \<in> ran (map_of (retain g al)) \<Longrightarrow> distinct (map fst al) \<Longrightarrow> \<exists>v \<in> ran (map_of al). g v = Some w"
  by (auto simp: map_of_retain ran_def bind_eq_Some_conv)

lemma wf_cleanup:
  "wf_ids ids \<Longrightarrow> cleanup_ids now ids \<noteq> [] \<Longrightarrow> wf_ids (cleanup_ids now ids)"
  "wf_ports ports \<Longrightarrow> cleanup_ports now ports \<noteq> [] \<Longrightarrow> wf_ports (cleanup_ports now ports)"
  "wf_messages ms \<Longrightarrow> wf_messages (cleanup_ips now ms)"
proof -
  show ids: "wf_ids (cleanup_ids now ids)" if "wf_ids ids" "cleanup_ids now ids \<noteq> []" for ids
    using that by (simp add: wf_ids_def cleanup_retain(1) distinct_retain)
  show ports: "wf_ports (cleanup_ports now ports)" if "wf_ports ports" "cleanup_ports now ports \<noteq> []" for ports
    using that ids unfolding wf_ports_def cleanup_retain(2)
    by (auto simp: distinct_retain keep_nonempty_def dest!: ran_retain split: if_splits)
  show "wf_messages (cleanup_ips now ms)" if "wf_messages ms"
    using that ports unfolding wf_messages_def cleanup_retain(3)
    by (auto simp: distinct_retain keep_nonempty_def dest!: ran_retain split: if_splits)
qed

lemma entry_cleanup:
  assumes "wf_messages ms"
  shows "entry (cleanup_ips now ms) k = (case entry ms k of None \<Rightarrow> None | Some e \<Rightarrow> if tp_expired now e then None else Some e)"
proof -
  obtain a p i where k: "k = (a, p, i)" by (cases k)
  have nil: "map_of ps x = None" if "retain g ps = []" "distinct (map fst ps)" "map_of ps x \<bind> g = Some y" for g ps x y
    using that map_of_retain [of ps g x] by simp
  show ?thesis
  proof (cases "map_of ms a")
    case None
    then show ?thesis using assms by (simp add: k entry_def cleanup_retain(3) map_of_retain wf_messages_def)
  next
    case (Some ports)
    then have P: "wf_ports ports" using wf_lookup(1) [OF assms] by simp
    have ms: "map_of (cleanup_ips now ms) a = keep_nonempty (cleanup_ports now ports)"
      using assms Some by (simp add: cleanup_retain(3) map_of_retain wf_messages_def)
    have ports: "map_of (cleanup_ports now ports) p = Option.bind (map_of ports p) (\<lambda>ids. keep_nonempty (cleanup_ids now ids))"
      using P by (simp add: cleanup_retain(2) map_of_retain wf_ports_def)
    show ?thesis
    proof (cases "map_of ports p")
      case None
      then show ?thesis using ms ports Some by (simp add: k entry_def keep_nonempty_def)
    next
      case (Some ids)
      then have I: "wf_ids ids" using wf_lookup(2) [OF P] by simp
      have "map_of (cleanup_ids now ids) i = Option.bind (map_of ids i) (\<lambda>e. if tp_expired now e then None else Some e)"
        using I by (simp add: cleanup_retain(1) map_of_retain wf_ids_def)
      then show ?thesis
        using ms ports Some \<open>map_of ms a = Some ports\<close>
        by (auto simp: k entry_def keep_nonempty_def split: option.splits if_splits)
    qed
  qed
qed

lemma map_of_hd: "al \<noteq> [] \<Longrightarrow> map_of al (fst (hd al)) = Some (snd (hd al))"
  by (cases al) auto

lemma wf_messages_nonempty:
  assumes "wf_messages ms"
  shows "ms \<noteq> [] \<longleftrightarrow> (\<exists>k e. entry ms k = Some e)"
proof
  assume "ms \<noteq> []"
  then obtain a ports where a: "map_of ms a = Some ports" using map_of_hd by blast
  then have P: "wf_ports ports" using wf_lookup(1) [OF assms] by simp
  then have "ports \<noteq> []" by (simp add: wf_ports_def)
  then obtain p ids where p: "map_of ports p = Some ids" using map_of_hd by blast
  then have "wf_ids ids" using wf_lookup(2) [OF P] by simp
  then have "ids \<noteq> []" by (simp add: wf_ids_def)
  then obtain i e where "map_of ids i = Some e" using map_of_hd by blast
  then have "entry ms (a, p, i) = Some e" using a p by (simp add: entry_def)
  then show "\<exists>k e. entry ms k = Some e" by blast
qed (auto simp: entry_def)

text \<open>
  C26. Cleanup removes exactly the messages older than five seconds, keeps the table well formed,
  and reports whether any message is left.
\<close>

theorem cleanup_spec:
  assumes "wf_messages (rea_tp_messages r)" and "cleanup_unfinished_messages now r = (left, r')"
  shows "wf_messages (rea_tp_messages r') \<and>
     (\<forall>k. entry (rea_tp_messages r') k =
        (case entry (rea_tp_messages r) k of None \<Rightarrow> None
         | Some e \<Rightarrow> if (now - tpm_creation (snd e)) div 10 ^ 6 > 5000 then None else Some e)) \<and>
     (left \<longleftrightarrow> (\<exists>k e. entry (rea_tp_messages r') k = Some e))"
proof -
  have r': "rea_tp_messages r' = cleanup_ips now (rea_tp_messages r)" and l: "left \<longleftrightarrow> rea_tp_messages r' \<noteq> []"
    using assms(2) by (auto simp: cleanup_unfinished_messages_def Let_def)
  show ?thesis
    using wf_messages_nonempty [of "rea_tp_messages r'"] wf_cleanup(3) [OF assms(1), of now] entry_cleanup [OF assms(1), of now]
    unfolding tp_expired_def by (simp add: r' [symmetric] l)
qed


theorem cleanup_spec_witness:
  "\<exists>left r'. cleanup_unfinished_messages (6 * 10 ^ 9) (tp_reassembler_new 5000
       \<lparr>rea_tp_messages := [(1 :: nat, [(2, [(3, 4, \<lparr>tpm_creation = 0, tpm_max_message_size = 0, tpm_current_message_size = 0,
          tpm_last_segment_received = False, tpm_segments = [], tpm_message = []\<rparr>)])])]\<rparr>) = (left, r') \<and>
     \<not> left \<and> entry (rea_tp_messages r') (1, 2, 3) = None"
proof -
  let ?m = "\<lparr>tpm_creation = 0, tpm_max_message_size = 0, tpm_current_message_size = 0,
          tpm_last_segment_received = False, tpm_segments = [], tpm_message = []\<rparr>"
  let ?r = "tp_reassembler_new 5000\<lparr>rea_tp_messages := [(1 :: nat, [(2, [(3, 4, ?m)])])]\<rparr>"
  have wf: "wf_messages (rea_tp_messages ?r)" by (simp add: wf_messages_def ran_def)
  obtain left r' where c: "cleanup_unfinished_messages (6 * 10 ^ 9) ?r = (left, r')" by fastforce
  have e: "entry (rea_tp_messages ?r) k = (if k = (1, 2, 3) then Some (4, ?m) else None)" for k
    by (cases k) (auto simp: entry_def)
  have none: "entry (rea_tp_messages r') k = None" for k
  proof -
    have "entry (rea_tp_messages r') k = (case entry (rea_tp_messages ?r) k of None \<Rightarrow> None
         | Some e \<Rightarrow> if (6 * 10 ^ 9 - tpm_creation (snd e)) div 10 ^ 6 > 5000 then None else Some e)"
      using cleanup_spec [OF wf c] by blast
    then show ?thesis unfolding e by simp
  qed
  then have "\<not> left" using cleanup_spec [OF wf c] by simp
  with c none show ?thesis by blast
qed

section \<open>The cleanup timer\<close>

text \<open>
  The steps of the threads that use a reassembler: a receiving thread starts the timer under the
  timer's lock and later handles the segment under the table's lock (\<open>inflight\<close> lists the
  datagrams between the two); the timer's callback holds the timer's lock from the cleanup to the
  decision about the timer (\<open>callback\<close> is then the result of the cleanup), and takes the table's
  lock only for the cleanup.
\<close>

record 'a rea_threads =
  th_reassembler :: "'a tp_reassembler"
  th_inflight :: "'a datagram list"
  th_callback :: "bool option"

inductive rea_step :: "'a rea_threads \<Rightarrow> 'a rea_threads \<Rightarrow> bool" where
  receive: "th_callback st = None \<Longrightarrow> dg = (now, data, addr, port) \<Longrightarrow> dg_key dg \<noteq> None \<Longrightarrow>
     rea_step st (st\<lparr>th_reassembler := cleanup_timer_start_unlocked now False (th_reassembler st),
       th_inflight := th_inflight st @ [dg]\<rparr>)"
| handle: "(now, data, addr, port) \<in> set (th_inflight st) \<Longrightarrow> read_be data 10 = Some s \<Longrightarrow> tp_message_id data = Some i \<Longrightarrow>
     process_locked now' (rea_max_message_size (th_reassembler st)) data addr port i s (rea_tp_messages (th_reassembler st)) = Some (ret, ms) \<Longrightarrow>
     rea_step st (st\<lparr>th_reassembler := (th_reassembler st)\<lparr>rea_tp_messages := ms\<rparr>,
       th_inflight := remove1 (now, data, addr, port) (th_inflight st)\<rparr>)"
| expire: "th_callback st = None \<Longrightarrow> rea_timer (th_reassembler st) = Some e \<Longrightarrow> e \<le> now \<Longrightarrow>
     cleanup_unfinished_messages now ((th_reassembler st)\<lparr>rea_timer := None\<rparr>) = (left, r) \<Longrightarrow>
     rea_step st (st\<lparr>th_reassembler := r, th_callback := Some left\<rparr>)"
| decide: "th_callback st = Some left \<Longrightarrow>
     rea_step st (st\<lparr>th_reassembler := (if left then cleanup_timer_start_unlocked now True (th_reassembler st)
         else (th_reassembler st)\<lparr>rea_cleanup_timer_running := False\<rparr>), th_callback := None\<rparr>)"

definition rea_init :: "u32 \<Rightarrow> 'a rea_threads" where
  "rea_init mx = \<lparr>th_reassembler = tp_reassembler_new mx, th_inflight = [], th_callback = None\<rparr>"

lemma cleanup_frame:
  "cleanup_unfinished_messages now r = (left, r') \<Longrightarrow>
     rea_timer r' = rea_timer r \<and> rea_cleanup_timer_running r' = rea_cleanup_timer_running r \<and>
     (wf_messages (rea_tp_messages r) \<longrightarrow> wf_messages (rea_tp_messages r'))"
  using wf_cleanup(3) [of "rea_tp_messages r" now] by (auto simp: cleanup_unfinished_messages_def Let_def)

text \<open>
  C25. In every interleaving of receiving threads and timer callbacks the table stays well formed
  and \<open>cleanup_timer_running_\<close> is accurate: it is set exactly while a wait is pending or a
  callback is at work, and never both is the case. So the next segment that arrives finds the flag cleared whenever the timer
  has died, and starts it again.
\<close>

theorem cleanup_timer_flag:
  assumes "rea_step\<^sup>*\<^sup>* (rea_init mx) st"
  shows "wf_messages (rea_tp_messages (th_reassembler st)) \<and>
    (rea_cleanup_timer_running (th_reassembler st) \<longleftrightarrow>
       rea_timer (th_reassembler st) \<noteq> None \<or> th_callback st \<noteq> None) \<and>
    (rea_timer (th_reassembler st) = None \<or> th_callback st = None)"
  using assms
proof (induction rule: rtranclp_induct)
  case base
  then show ?case by (simp add: rea_init_def tp_reassembler_new_def wf_messages_def)
next
  case (step st st')
  from step.hyps(2) step.IH show ?case
  proof cases
    case receive
    then show ?thesis using step.IH by (auto simp: cleanup_timer_start_unlocked_def)
  next
    case handle
    then show ?thesis using step.IH process_locked_wf [OF _ handle(5)] by simp
  next
    case (expire e now left r)
    then show ?thesis using step.IH cleanup_frame [OF expire(5)] by simp
  next
    case decide
    then show ?thesis using step.IH by (auto simp: cleanup_timer_start_unlocked_def)
  qed
qed

lemma read_zeros:
  "read_be (replicate 16 0) 10 = Some (0 :: u16)" "tp_message_id (replicate 16 0) = Some 0"
  by (simp_all add: tp_message_id_def read_be_def be_word_def tp_flag_unset_def numeral_2_eq_2)

lemma receive_zeros:
  "rea_step (rea_init 5000) \<lparr>th_reassembler = cleanup_timer_start_unlocked 0 False (tp_reassembler_new 5000),
     th_inflight = [(0, replicate 16 0, (1 :: nat), 2)], th_callback = None\<rparr>"
  using rea_step.receive [of "rea_init 5000" "(0, replicate 16 0, 1 :: nat, 2)" 0 "replicate 16 0" 1 2]
  by (simp add: rea_init_def dg_key_def read_zeros)

theorem cleanup_timer_flag_witness:
  "\<exists>st :: nat rea_threads. rea_step\<^sup>*\<^sup>* (rea_init 5000) st \<and> th_inflight st \<noteq> [] \<and>
     rea_timer (th_reassembler st) \<noteq> None \<and> rea_cleanup_timer_running (th_reassembler st)"
proof (intro exI conjI)
  let ?st = "\<lparr>th_reassembler = cleanup_timer_start_unlocked 0 False (tp_reassembler_new 5000),
     th_inflight = [(0, replicate 16 0, (1 :: nat), 2)], th_callback = None\<rparr>"
  show st: "rea_step\<^sup>*\<^sup>* (rea_init 5000) ?st" using receive_zeros by (rule r_into_rtranclp)
  show "th_inflight ?st \<noteq> []" by simp
  show timer: "rea_timer (th_reassembler ?st) \<noteq> None"
    by (simp add: cleanup_timer_start_unlocked_def tp_reassembler_new_def)
  show "rea_cleanup_timer_running (th_reassembler ?st)" using cleanup_timer_flag [OF st] timer by blast
qed

text \<open>
  C38. The timer can expire between the two halves of \<open>process_tp_message\<close>: the callback then
  finds no message and stops the timer, and the segment is stored afterwards. The table is not
  empty and no cleanup is scheduled, so that an unfinished message stays until another segment
  arrives.
\<close>

theorem cleanup_timer_race:
  "\<exists>st :: nat rea_threads. rea_step\<^sup>*\<^sup>* (rea_init 5000) st \<and> th_inflight st = [] \<and> th_callback st = None \<and>
     rea_tp_messages (th_reassembler st) \<noteq> [] \<and> rea_timer (th_reassembler st) = None \<and>
     \<not> rea_cleanup_timer_running (th_reassembler st)"
proof -
  let ?dg = "(0, replicate 16 0, 1 :: nat, 2)"
  let ?s1 = "\<lparr>th_reassembler = cleanup_timer_start_unlocked 0 False (tp_reassembler_new 5000), th_inflight = [?dg], th_callback = None\<rparr>"
  let ?s2 = "\<lparr>th_reassembler = (tp_reassembler_new 5000)\<lparr>rea_cleanup_timer_running := True\<rparr>,
    th_inflight = [?dg], th_callback = Some False\<rparr>"
  let ?s3 = "\<lparr>th_reassembler = tp_reassembler_new 5000, th_inflight = [?dg], th_callback = None\<rparr>"
  have s2: "rea_step ?s1 ?s2"
    using rea_step.expire [of ?s1 "5 * 10 ^ 9" "5 * 10 ^ 9" False "(tp_reassembler_new 5000)\<lparr>rea_cleanup_timer_running := True\<rparr>"]
    by (simp add: cleanup_timer_start_unlocked_def tp_reassembler_new_def cleanup_unfinished_messages_def)
  have s3: "rea_step ?s2 ?s3"
    using rea_step.decide [of ?s2 False 0] by (simp add: tp_reassembler_new_def)
  obtain t where "tp_message_new 0 (replicate 16 0) 5000 = Some t"
    by (simp add: tp_message_new_def Let_def)
  then have p: "process_locked 0 5000 (replicate 16 0) (1 :: nat) 2 0 0 [] = Some ((False, []), [(1, [(2, [(0, 0, t)])])])"
    by (simp add: process_locked_def)
  have s4: "rea_step ?s3 \<lparr>th_reassembler = (tp_reassembler_new 5000)\<lparr>rea_tp_messages := [(1, [(2, [(0, 0, t)])])]\<rparr>,
      th_inflight = [], th_callback = None\<rparr>"
    using rea_step.handle [of 0 "replicate 16 0" 1 2 ?s3 0 0 0 "(False, [])" "[(1, [(2, [(0, 0, t)])])]"] p
    by (simp add: read_zeros tp_reassembler_new_def)
  have "rea_step\<^sup>*\<^sup>* (rea_init 5000) ?s1" using receive_zeros by (rule r_into_rtranclp)
  then have "rea_step\<^sup>*\<^sup>* (rea_init 5000) ?s2" using s2 by (rule rtranclp.rtrancl_into_rtrancl)
  then have "rea_step\<^sup>*\<^sup>* (rea_init 5000) ?s3" using s3 by (rule rtranclp.rtrancl_into_rtrancl)
  from rtranclp.rtrancl_into_rtrancl [OF this s4]
  show ?thesis by (intro exI conjI) (auto simp: tp_reassembler_new_def)
qed

lemma process_keeps_stopped:
  assumes "process_tp_message now data addr port r = Some (ret, r')" and "rea_cleanup_timer_running r" and "rea_timer r = None"
  shows "rea_cleanup_timer_running r' \<and> rea_timer r' = None"
  using assms
  by (auto simp: process_tp_message_def cleanup_timer_start_unlocked_def bind_eq_Some_conv split: if_splits)

lemma process_all_keeps_stopped:
  "process_all dgs r = Some (rets, r') \<Longrightarrow> rea_cleanup_timer_running r \<Longrightarrow> rea_timer r = None \<Longrightarrow> rea_timer r' = None"
proof (induction dgs arbitrary: r rets)
  case (Cons dg dgs)
  obtain now data addr port where dg: "dg = (now, data, addr, port)" by (cases dg)
  obtain ret r1 rets1 where "process_tp_message now data addr port r = Some (ret, r1)" "process_all dgs r1 = Some (rets1, r')"
    using Cons.prems(1) by (auto simp: dg bind_eq_Some_conv)
  then show ?case using Cons.IH [of r1 rets1] process_keeps_stopped [of now data addr port r ret r1] Cons.prems(2,3) by simp
qed simp

text \<open>
  C39. After \<open>stop\<close>, which the UDP server endpoint also calls when it restarts, a timer that was
  running is never started again: the flag stays set, so no segment received later schedules a
  cleanup.
\<close>

theorem stop_disables_cleanup:
  assumes "rea_cleanup_timer_running r" and "process_all dgs (reassembler_stop r) = Some (rets, r')"
  shows "rea_timer r' = None"
  using process_all_keeps_stopped [OF assms(2)] assms(1) by (simp add: reassembler_stop_def)

theorem stop_disables_cleanup_witness:
  "\<exists>rets r'. process_all [(7, replicate 16 0, 1 :: nat, 2)]
       (reassembler_stop (cleanup_timer_start_unlocked 0 False (tp_reassembler_new 5000))) = Some (rets, r') \<and>
     rea_tp_messages r' \<noteq> [] \<and> rea_timer r' = None"
proof -
  let ?r = "cleanup_timer_start_unlocked 0 False (tp_reassembler_new 5000)"
  obtain rets r' where p: "process_all [(7, replicate 16 0, 1 :: nat, 2)] (reassembler_stop ?r) = Some (rets, r')"
      "rea_tp_messages r' \<noteq> []"
    by (simp add: process_tp_message_def read_zeros process_locked_def tp_message_new_def Let_def
        cleanup_timer_start_unlocked_def tp_reassembler_new_def reassembler_stop_def)
  have "rea_cleanup_timer_running ?r" by (simp add: cleanup_timer_start_unlocked_def tp_reassembler_new_def)
  from stop_disables_cleanup [OF this p(1)] p show ?thesis by blast
qed

end
