(* ===== verification/Crc.thy ===== *)
theory Crc
  imports Bithelper
begin

text \<open>
  Model of \<open>e2e_protection/src/crc/crc.cpp\<close>: the table-driven checksums of the E2E
  profiles. The tables are those of the source. The checksums are shown equal to the bitwise
  division they stand for, to chain over the parts of a message, and to detect every change
  of a single byte.
\<close>

section \<open>Tables and checksums\<close>

definition lookup_table_profile_01 :: "byte list" where
  "lookup_table_profile_01 = [
     0x00, 0x1d, 0x3a, 0x27, 0x74, 0x69, 0x4e, 0x53, 0xe8, 0xf5, 0xd2, 0xcf, 0x9c, 0x81, 0xa6, 0xbb,
     0xcd, 0xd0, 0xf7, 0xea, 0xb9, 0xa4, 0x83, 0x9e, 0x25, 0x38, 0x1f, 0x02, 0x51, 0x4c, 0x6b, 0x76,
     0x87, 0x9a, 0xbd, 0xa0, 0xf3, 0xee, 0xc9, 0xd4, 0x6f, 0x72, 0x55, 0x48, 0x1b, 0x06, 0x21, 0x3c,
     0x4a, 0x57, 0x70, 0x6d, 0x3e, 0x23, 0x04, 0x19, 0xa2, 0xbf, 0x98, 0x85, 0xd6, 0xcb, 0xec, 0xf1,
     0x13, 0x0e, 0x29, 0x34, 0x67, 0x7a, 0x5d, 0x40, 0xfb, 0xe6, 0xc1, 0xdc, 0x8f, 0x92, 0xb5, 0xa8,
     0xde, 0xc3, 0xe4, 0xf9, 0xaa, 0xb7, 0x90, 0x8d, 0x36, 0x2b, 0x0c, 0x11, 0x42, 0x5f, 0x78, 0x65,
     0x94, 0x89, 0xae, 0xb3, 0xe0, 0xfd, 0xda, 0xc7, 0x7c, 0x61, 0x46, 0x5b, 0x08, 0x15, 0x32, 0x2f,
     0x59, 0x44, 0x63, 0x7e, 0x2d, 0x30, 0x17, 0x0a, 0xb1, 0xac, 0x8b, 0x96, 0xc5, 0xd8, 0xff, 0xe2,
     0x26, 0x3b, 0x1c, 0x01, 0x52, 0x4f, 0x68, 0x75, 0xce, 0xd3, 0xf4, 0xe9, 0xba, 0xa7, 0x80, 0x9d,
     0xeb, 0xf6, 0xd1, 0xcc, 0x9f, 0x82, 0xa5, 0xb8, 0x03, 0x1e, 0x39, 0x24, 0x77, 0x6a, 0x4d, 0x50,
     0xa1, 0xbc, 0x9b, 0x86, 0xd5, 0xc8, 0xef, 0xf2, 0x49, 0x54, 0x73, 0x6e, 0x3d, 0x20, 0x07, 0x1a,
     0x6c, 0x71, 0x56, 0x4b, 0x18, 0x05, 0x22, 0x3f, 0x84, 0x99, 0xbe, 0xa3, 0xf0, 0xed, 0xca, 0xd7,
     0x35, 0x28, 0x0f, 0x12, 0x41, 0x5c, 0x7b, 0x66, 0xdd, 0xc0, 0xe7, 0xfa, 0xa9, 0xb4, 0x93, 0x8e,
     0xf8, 0xe5, 0xc2, 0xdf, 0x8c, 0x91, 0xb6, 0xab, 0x10, 0x0d, 0x2a, 0x37, 0x64, 0x79, 0x5e, 0x43,
     0xb2, 0xaf, 0x88, 0x95, 0xc6, 0xdb, 0xfc, 0xe1, 0x5a, 0x47, 0x60, 0x7d, 0x2e, 0x33, 0x14, 0x09,
     0x7f, 0x62, 0x45, 0x58, 0x0b, 0x16, 0x31, 0x2c, 0x97, 0x8a, 0xad, 0xb0, 0xe3, 0xfe, 0xd9, 0xc4]"

definition lookup_table_profile_04 :: "u32 list" where
  "lookup_table_profile_04 = [
     0x00000000, 0x30850ff5, 0x610a1fea, 0x518f101f, 0xc2143fd4, 0xf2913021, 0xa31e203e, 0x939b2fcb,
     0x159615f7, 0x25131a02, 0x749c0a1d, 0x441905e8, 0xd7822a23, 0xe70725d6, 0xb68835c9, 0x860d3a3c,
     0x2b2c2bee, 0x1ba9241b, 0x4a263404, 0x7aa33bf1, 0xe938143a, 0xd9bd1bcf, 0x88320bd0, 0xb8b70425,
     0x3eba3e19, 0x0e3f31ec, 0x5fb021f3, 0x6f352e06, 0xfcae01cd, 0xcc2b0e38, 0x9da41e27, 0xad2111d2,
     0x565857dc, 0x66dd5829, 0x37524836, 0x07d747c3, 0x944c6808, 0xa4c967fd, 0xf54677e2, 0xc5c37817,
     0x43ce422b, 0x734b4dde, 0x22c45dc1, 0x12415234, 0x81da7dff, 0xb15f720a, 0xe0d06215, 0xd0556de0,
     0x7d747c32, 0x4df173c7, 0x1c7e63d8, 0x2cfb6c2d, 0xbf6043e6, 0x8fe54c13, 0xde6a5c0c, 0xeeef53f9,
     0x68e269c5, 0x58676630, 0x09e8762f, 0x396d79da, 0xaaf65611, 0x9a7359e4, 0xcbfc49fb, 0xfb79460e,
     0xacb0afb8, 0x9c35a04d, 0xcdbab052, 0xfd3fbfa7, 0x6ea4906c, 0x5e219f99, 0x0fae8f86, 0x3f2b8073,
     0xb926ba4f, 0x89a3b5ba, 0xd82ca5a5, 0xe8a9aa50, 0x7b32859b, 0x4bb78a6e, 0x1a389a71, 0x2abd9584,
     0x879c8456, 0xb7198ba3, 0xe6969bbc, 0xd6139449, 0x4588bb82, 0x750db477, 0x2482a468, 0x1407ab9d,
     0x920a91a1, 0xa28f9e54, 0xf3008e4b, 0xc38581be, 0x501eae75, 0x609ba180, 0x3114b19f, 0x0191be6a,
     0xfae8f864, 0xca6df791, 0x9be2e78e, 0xab67e87b, 0x38fcc7b0, 0x0879c845, 0x59f6d85a, 0x6973d7af,
     0xef7eed93, 0xdffbe266, 0x8e74f279, 0xbef1fd8c, 0x2d6ad247, 0x1defddb2, 0x4c60cdad, 0x7ce5c258,
     0xd1c4d38a, 0xe141dc7f, 0xb0cecc60, 0x804bc395, 0x13d0ec5e, 0x2355e3ab, 0x72daf3b4, 0x425ffc41,
     0xc452c67d, 0xf4d7c988, 0xa558d997, 0x95ddd662, 0x0646f9a9, 0x36c3f65c, 0x674ce643, 0x57c9e9b6,
     0xc8df352f, 0xf85a3ada, 0xa9d52ac5, 0x99502530, 0x0acb0afb, 0x3a4e050e, 0x6bc11511, 0x5b441ae4,
     0xdd4920d8, 0xedcc2f2d, 0xbc433f32, 0x8cc630c7, 0x1f5d1f0c, 0x2fd810f9, 0x7e5700e6, 0x4ed20f13,
     0xe3f31ec1, 0xd3761134, 0x82f9012b, 0xb27c0ede, 0x21e72115, 0x11622ee0, 0x40ed3eff, 0x7068310a,
     0xf6650b36, 0xc6e004c3, 0x976f14dc, 0xa7ea1b29, 0x347134e2, 0x04f43b17, 0x557b2b08, 0x65fe24fd,
     0x9e8762f3, 0xae026d06, 0xff8d7d19, 0xcf0872ec, 0x5c935d27, 0x6c1652d2, 0x3d9942cd, 0x0d1c4d38,
     0x8b117704, 0xbb9478f1, 0xea1b68ee, 0xda9e671b, 0x490548d0, 0x79804725, 0x280f573a, 0x188a58cf,
     0xb5ab491d, 0x852e46e8, 0xd4a156f7, 0xe4245902, 0x77bf76c9, 0x473a793c, 0x16b56923, 0x263066d6,
     0xa03d5cea, 0x90b8531f, 0xc1374300, 0xf1b24cf5, 0x6229633e, 0x52ac6ccb, 0x03237cd4, 0x33a67321,
     0x646f9a97, 0x54ea9562, 0x0565857d, 0x35e08a88, 0xa67ba543, 0x96feaab6, 0xc771baa9, 0xf7f4b55c,
     0x71f98f60, 0x417c8095, 0x10f3908a, 0x20769f7f, 0xb3edb0b4, 0x8368bf41, 0xd2e7af5e, 0xe262a0ab,
     0x4f43b179, 0x7fc6be8c, 0x2e49ae93, 0x1ecca166, 0x8d578ead, 0xbdd28158, 0xec5d9147, 0xdcd89eb2,
     0x5ad5a48e, 0x6a50ab7b, 0x3bdfbb64, 0x0b5ab491, 0x98c19b5a, 0xa84494af, 0xf9cb84b0, 0xc94e8b45,
     0x3237cd4b, 0x02b2c2be, 0x533dd2a1, 0x63b8dd54, 0xf023f29f, 0xc0a6fd6a, 0x9129ed75, 0xa1ace280,
     0x27a1d8bc, 0x1724d749, 0x46abc756, 0x762ec8a3, 0xe5b5e768, 0xd530e89d, 0x84bff882, 0xb43af777,
     0x191be6a5, 0x299ee950, 0x7811f94f, 0x4894f6ba, 0xdb0fd971, 0xeb8ad684, 0xba05c69b, 0x8a80c96e,
     0x0c8df352, 0x3c08fca7, 0x6d87ecb8, 0x5d02e34d, 0xce99cc86, 0xfe1cc373, 0xaf93d36c, 0x9f16dc99]"

definition lookup_table_profile_05 :: "u16 list" where
  "lookup_table_profile_05 = [
     0x0000, 0x1021, 0x2042, 0x3063, 0x4084, 0x50a5, 0x60c6, 0x70e7,
     0x8108, 0x9129, 0xa14a, 0xb16b, 0xc18c, 0xd1ad, 0xe1ce, 0xf1ef,
     0x1231, 0x0210, 0x3273, 0x2252, 0x52b5, 0x4294, 0x72f7, 0x62d6,
     0x9339, 0x8318, 0xb37b, 0xa35a, 0xd3bd, 0xc39c, 0xf3ff, 0xe3de,
     0x2462, 0x3443, 0x0420, 0x1401, 0x64e6, 0x74c7, 0x44a4, 0x5485,
     0xa56a, 0xb54b, 0x8528, 0x9509, 0xe5ee, 0xf5cf, 0xc5ac, 0xd58d,
     0x3653, 0x2672, 0x1611, 0x0630, 0x76d7, 0x66f6, 0x5695, 0x46b4,
     0xb75b, 0xa77a, 0x9719, 0x8738, 0xf7df, 0xe7fe, 0xd79d, 0xc7bc,
     0x48c4, 0x58e5, 0x6886, 0x78a7, 0x0840, 0x1861, 0x2802, 0x3823,
     0xc9cc, 0xd9ed, 0xe98e, 0xf9af, 0x8948, 0x9969, 0xa90a, 0xb92b,
     0x5af5, 0x4ad4, 0x7ab7, 0x6a96, 0x1a71, 0x0a50, 0x3a33, 0x2a12,
     0xdbfd, 0xcbdc, 0xfbbf, 0xeb9e, 0x9b79, 0x8b58, 0xbb3b, 0xab1a,
     0x6ca6, 0x7c87, 0x4ce4, 0x5cc5, 0x2c22, 0x3c03, 0x0c60, 0x1c41,
     0xedae, 0xfd8f, 0xcdec, 0xddcd, 0xad2a, 0xbd0b, 0x8d68, 0x9d49,
     0x7e97, 0x6eb6, 0x5ed5, 0x4ef4, 0x3e13, 0x2e32, 0x1e51, 0x0e70,
     0xff9f, 0xefbe, 0xdfdd, 0xcffc, 0xbf1b, 0xaf3a, 0x9f59, 0x8f78,
     0x9188, 0x81a9, 0xb1ca, 0xa1eb, 0xd10c, 0xc12d, 0xf14e, 0xe16f,
     0x1080, 0x00a1, 0x30c2, 0x20e3, 0x5004, 0x4025, 0x7046, 0x6067,
     0x83b9, 0x9398, 0xa3fb, 0xb3da, 0xc33d, 0xd31c, 0xe37f, 0xf35e,
     0x02b1, 0x1290, 0x22f3, 0x32d2, 0x4235, 0x5214, 0x6277, 0x7256,
     0xb5ea, 0xa5cb, 0x95a8, 0x8589, 0xf56e, 0xe54f, 0xd52c, 0xc50d,
     0x34e2, 0x24c3, 0x14a0, 0x0481, 0x7466, 0x6447, 0x5424, 0x4405,
     0xa7db, 0xb7fa, 0x8799, 0x97b8, 0xe75f, 0xf77e, 0xc71d, 0xd73c,
     0x26d3, 0x36f2, 0x0691, 0x16b0, 0x6657, 0x7676, 0x4615, 0x5634,
     0xd94c, 0xc96d, 0xf90e, 0xe92f, 0x99c8, 0x89e9, 0xb98a, 0xa9ab,
     0x5844, 0x4865, 0x7806, 0x6827, 0x18c0, 0x08e1, 0x3882, 0x28a3,
     0xcb7d, 0xdb5c, 0xeb3f, 0xfb1e, 0x8bf9, 0x9bd8, 0xabbb, 0xbb9a,
     0x4a75, 0x5a54, 0x6a37, 0x7a16, 0x0af1, 0x1ad0, 0x2ab3, 0x3a92,
     0xfd2e, 0xed0f, 0xdd6c, 0xcd4d, 0xbdaa, 0xad8b, 0x9de8, 0x8dc9,
     0x7c26, 0x6c07, 0x5c64, 0x4c45, 0x3ca2, 0x2c83, 0x1ce0, 0x0cc1,
     0xef1f, 0xff3e, 0xcf5d, 0xdf7c, 0xaf9b, 0xbfba, 0x8fd9, 0x9ff8,
     0x6e17, 0x7e36, 0x4e55, 0x5e74, 0x2e93, 0x3eb2, 0x0ed1, 0x1ef0]"

definition lookup_table_profile_custom :: "u32 list" where
  "lookup_table_profile_custom = [
     0x00000000, 0x77073096, 0xee0e612c, 0x990951ba, 0x076dc419, 0x706af48f, 0xe963a535, 0x9e6495a3,
     0x0edb8832, 0x79dcb8a4, 0xe0d5e91e, 0x97d2d988, 0x09b64c2b, 0x7eb17cbd, 0xe7b82d07, 0x90bf1d91,
     0x1db71064, 0x6ab020f2, 0xf3b97148, 0x84be41de, 0x1adad47d, 0x6ddde4eb, 0xf4d4b551, 0x83d385c7,
     0x136c9856, 0x646ba8c0, 0xfd62f97a, 0x8a65c9ec, 0x14015c4f, 0x63066cd9, 0xfa0f3d63, 0x8d080df5,
     0x3b6e20c8, 0x4c69105e, 0xd56041e4, 0xa2677172, 0x3c03e4d1, 0x4b04d447, 0xd20d85fd, 0xa50ab56b,
     0x35b5a8fa, 0x42b2986c, 0xdbbbc9d6, 0xacbcf940, 0x32d86ce3, 0x45df5c75, 0xdcd60dcf, 0xabd13d59,
     0x26d930ac, 0x51de003a, 0xc8d75180, 0xbfd06116, 0x21b4f4b5, 0x56b3c423, 0xcfba9599, 0xb8bda50f,
     0x2802b89e, 0x5f058808, 0xc60cd9b2, 0xb10be924, 0x2f6f7c87, 0x58684c11, 0xc1611dab, 0xb6662d3d,
     0x76dc4190, 0x01db7106, 0x98d220bc, 0xefd5102a, 0x71b18589, 0x06b6b51f, 0x9fbfe4a5, 0xe8b8d433,
     0x7807c9a2, 0x0f00f934, 0x9609a88e, 0xe10e9818, 0x7f6a0dbb, 0x086d3d2d, 0x91646c97, 0xe6635c01,
     0x6b6b51f4, 0x1c6c6162, 0x856530d8, 0xf262004e, 0x6c0695ed, 0x1b01a57b, 0x8208f4c1, 0xf50fc457,
     0x65b0d9c6, 0x12b7e950, 0x8bbeb8ea, 0xfcb9887c, 0x62dd1ddf, 0x15da2d49, 0x8cd37cf3, 0xfbd44c65,
     0x4db26158, 0x3ab551ce, 0xa3bc0074, 0xd4bb30e2, 0x4adfa541, 0x3dd895d7, 0xa4d1c46d, 0xd3d6f4fb,
     0x4369e96a, 0x346ed9fc, 0xad678846, 0xda60b8d0, 0x44042d73, 0x33031de5, 0xaa0a4c5f, 0xdd0d7cc9,
     0x5005713c, 0x270241aa, 0xbe0b1010, 0xc90c2086, 0x5768b525, 0x206f85b3, 0xb966d409, 0xce61e49f,
     0x5edef90e, 0x29d9c998, 0xb0d09822, 0xc7d7a8b4, 0x59b33d17, 0x2eb40d81, 0xb7bd5c3b, 0xc0ba6cad,
     0xedb88320, 0x9abfb3b6, 0x03b6e20c, 0x74b1d29a, 0xead54739, 0x9dd277af, 0x04db2615, 0x73dc1683,
     0xe3630b12, 0x94643b84, 0x0d6d6a3e, 0x7a6a5aa8, 0xe40ecf0b, 0x9309ff9d, 0x0a00ae27, 0x7d079eb1,
     0xf00f9344, 0x8708a3d2, 0x1e01f268, 0x6906c2fe, 0xf762575d, 0x806567cb, 0x196c3671, 0x6e6b06e7,
     0xfed41b76, 0x89d32be0, 0x10da7a5a, 0x67dd4acc, 0xf9b9df6f, 0x8ebeeff9, 0x17b7be43, 0x60b08ed5,
     0xd6d6a3e8, 0xa1d1937e, 0x38d8c2c4, 0x4fdff252, 0xd1bb67f1, 0xa6bc5767, 0x3fb506dd, 0x48b2364b,
     0xd80d2bda, 0xaf0a1b4c, 0x36034af6, 0x41047a60, 0xdf60efc3, 0xa867df55, 0x316e8eef, 0x4669be79,
     0xcb61b38c, 0xbc66831a, 0x256fd2a0, 0x5268e236, 0xcc0c7795, 0xbb0b4703, 0x220216b9, 0x5505262f,
     0xc5ba3bbe, 0xb2bd0b28, 0x2bb45a92, 0x5cb36a04, 0xc2d7ffa7, 0xb5d0cf31, 0x2cd99e8b, 0x5bdeae1d,
     0x9b64c2b0, 0xec63f226, 0x756aa39c, 0x026d930a, 0x9c0906a9, 0xeb0e363f, 0x72076785, 0x05005713,
     0x95bf4a82, 0xe2b87a14, 0x7bb12bae, 0x0cb61b38, 0x92d28e9b, 0xe5d5be0d, 0x7cdcefb7, 0x0bdbdf21,
     0x86d3d2d4, 0xf1d4e242, 0x68ddb3f8, 0x1fda836e, 0x81be16cd, 0xf6b9265b, 0x6fb077e1, 0x18b74777,
     0x88085ae6, 0xff0f6a70, 0x66063bca, 0x11010b5c, 0x8f659eff, 0xf862ae69, 0x616bffd3, 0x166ccf45,
     0xa00ae278, 0xd70dd2ee, 0x4e048354, 0x3903b3c2, 0xa7672661, 0xd06016f7, 0x4969474d, 0x3e6e77db,
     0xaed16a4a, 0xd9d65adc, 0x40df0b66, 0x37d83bf0, 0xa9bcae53, 0xdebb9ec5, 0x47b2cf7f, 0x30b5ffe9,
     0xbdbdf21c, 0xcabac28a, 0x53b39330, 0x24b4a3a6, 0xbad03605, 0xcdd70693, 0x54de5729, 0x23d967bf,
     0xb3667a2e, 0xc4614ab8, 0x5d681b02, 0x2a6f2b94, 0xb40bbe37, 0xc30c8ea1, 0x5a05df1b, 0x2d02ef8d]"

definition lookup_table_profile_07 :: "u64 list" where
  "lookup_table_profile_07 = [
     0x0000000000000000, 0xb32e4cbe03a75f6f, 0xf4843657a840a05b, 0x47aa7ae9abe7ff34,
     0x7bd0c384ff8f5e33, 0xc8fe8f3afc28015c, 0x8f54f5d357cffe68, 0x3c7ab96d5468a107,
     0xf7a18709ff1ebc66, 0x448fcbb7fcb9e309, 0x0325b15e575e1c3d, 0xb00bfde054f94352,
     0x8c71448d0091e255, 0x3f5f08330336bd3a, 0x78f572daa8d1420e, 0xcbdb3e64ab761d61,
     0x7d9ba13851336649, 0xceb5ed8652943926, 0x891f976ff973c612, 0x3a31dbd1fad4997d,
     0x064b62bcaebc387a, 0xb5652e02ad1b6715, 0xf2cf54eb06fc9821, 0x41e11855055bc74e,
     0x8a3a2631ae2dda2f, 0x39146a8fad8a8540, 0x7ebe1066066d7a74, 0xcd905cd805ca251b,
     0xf1eae5b551a2841c, 0x42c4a90b5205db73, 0x056ed3e2f9e22447, 0xb6409f5cfa457b28,
     0xfb374270a266cc92, 0x48190ecea1c193fd, 0x0fb374270a266cc9, 0xbc9d3899098133a6,
     0x80e781f45de992a1, 0x33c9cd4a5e4ecdce, 0x7463b7a3f5a932fa, 0xc74dfb1df60e6d95,
     0x0c96c5795d7870f4, 0xbfb889c75edf2f9b, 0xf812f32ef538d0af, 0x4b3cbf90f69f8fc0,
     0x774606fda2f72ec7, 0xc4684a43a15071a8, 0x83c230aa0ab78e9c, 0x30ec7c140910d1f3,
     0x86ace348f355aadb, 0x3582aff6f0f2f5b4, 0x7228d51f5b150a80, 0xc10699a158b255ef,
     0xfd7c20cc0cdaf4e8, 0x4e526c720f7dab87, 0x09f8169ba49a54b3, 0xbad65a25a73d0bdc,
     0x710d64410c4b16bd, 0xc22328ff0fec49d2, 0x85895216a40bb6e6, 0x36a71ea8a7ace989,
     0x0adda7c5f3c4488e, 0xb9f3eb7bf06317e1, 0xfe5991925b84e8d5, 0x4d77dd2c5823b7ba,
     0x64b62bcaebc387a1, 0xd7986774e864d8ce, 0x90321d9d438327fa, 0x231c512340247895,
     0x1f66e84e144cd992, 0xac48a4f017eb86fd, 0xebe2de19bc0c79c9, 0x58cc92a7bfab26a6,
     0x9317acc314dd3bc7, 0x2039e07d177a64a8, 0x67939a94bc9d9b9c, 0xd4bdd62abf3ac4f3,
     0xe8c76f47eb5265f4, 0x5be923f9e8f53a9b, 0x1c4359104312c5af, 0xaf6d15ae40b59ac0,
     0x192d8af2baf0e1e8, 0xaa03c64cb957be87, 0xeda9bca512b041b3, 0x5e87f01b11171edc,
     0x62fd4976457fbfdb, 0xd1d305c846d8e0b4, 0x96797f21ed3f1f80, 0x2557339fee9840ef,
     0xee8c0dfb45ee5d8e, 0x5da24145464902e1, 0x1a083bacedaefdd5, 0xa9267712ee09a2ba,
     0x955cce7fba6103bd, 0x267282c1b9c65cd2, 0x61d8f8281221a3e6, 0xd2f6b4961186fc89,
     0x9f8169ba49a54b33, 0x2caf25044a02145c, 0x6b055fede1e5eb68, 0xd82b1353e242b407,
     0xe451aa3eb62a1500, 0x577fe680b58d4a6f, 0x10d59c691e6ab55b, 0xa3fbd0d71dcdea34,
     0x6820eeb3b6bbf755, 0xdb0ea20db51ca83a, 0x9ca4d8e41efb570e, 0x2f8a945a1d5c0861,
     0x13f02d374934a966, 0xa0de61894a93f609, 0xe7741b60e174093d, 0x545a57dee2d35652,
     0xe21ac88218962d7a, 0x5134843c1b317215, 0x169efed5b0d68d21, 0xa5b0b26bb371d24e,
     0x99ca0b06e7197349, 0x2ae447b8e4be2c26, 0x6d4e3d514f59d312, 0xde6071ef4cfe8c7d,
     0x15bb4f8be788911c, 0xa6950335e42fce73, 0xe13f79dc4fc83147, 0x521135624c6f6e28,
     0x6e6b8c0f1807cf2f, 0xdd45c0b11ba09040, 0x9aefba58b0476f74, 0x29c1f6e6b3e0301b,
     0xc96c5795d7870f42, 0x7a421b2bd420502d, 0x3de861c27fc7af19, 0x8ec62d7c7c60f076,
     0xb2bc941128085171, 0x0192d8af2baf0e1e, 0x4638a2468048f12a, 0xf516eef883efae45,
     0x3ecdd09c2899b324, 0x8de39c222b3eec4b, 0xca49e6cb80d9137f, 0x7967aa75837e4c10,
     0x451d1318d716ed17, 0xf6335fa6d4b1b278, 0xb199254f7f564d4c, 0x02b769f17cf11223,
     0xb4f7f6ad86b4690b, 0x07d9ba1385133664, 0x4073c0fa2ef4c950, 0xf35d8c442d53963f,
     0xcf273529793b3738, 0x7c0979977a9c6857, 0x3ba3037ed17b9763, 0x888d4fc0d2dcc80c,
     0x435671a479aad56d, 0xf0783d1a7a0d8a02, 0xb7d247f3d1ea7536, 0x04fc0b4dd24d2a59,
     0x3886b22086258b5e, 0x8ba8fe9e8582d431, 0xcc0284772e652b05, 0x7f2cc8c92dc2746a,
     0x325b15e575e1c3d0, 0x8175595b76469cbf, 0xc6df23b2dda1638b, 0x75f16f0cde063ce4,
     0x498bd6618a6e9de3, 0xfaa59adf89c9c28c, 0xbd0fe036222e3db8, 0x0e21ac88218962d7,
     0xc5fa92ec8aff7fb6, 0x76d4de52895820d9, 0x317ea4bb22bfdfed, 0x8250e80521188082,
     0xbe2a516875702185, 0x0d041dd676d77eea, 0x4aae673fdd3081de, 0xf9802b81de97deb1,
     0x4fc0b4dd24d2a599, 0xfceef8632775faf6, 0xbb44828a8c9205c2, 0x086ace348f355aad,
     0x34107759db5dfbaa, 0x873e3be7d8faa4c5, 0xc094410e731d5bf1, 0x73ba0db070ba049e,
     0xb86133d4dbcc19ff, 0x0b4f7f6ad86b4690, 0x4ce50583738cb9a4, 0xffcb493d702be6cb,
     0xc3b1f050244347cc, 0x709fbcee27e418a3, 0x3735c6078c03e797, 0x841b8ab98fa4b8f8,
     0xadda7c5f3c4488e3, 0x1ef430e13fe3d78c, 0x595e4a08940428b8, 0xea7006b697a377d7,
     0xd60abfdbc3cbd6d0, 0x6524f365c06c89bf, 0x228e898c6b8b768b, 0x91a0c532682c29e4,
     0x5a7bfb56c35a3485, 0xe955b7e8c0fd6bea, 0xaeffcd016b1a94de, 0x1dd181bf68bdcbb1,
     0x21ab38d23cd56ab6, 0x9285746c3f7235d9, 0xd52f0e859495caed, 0x6601423b97329582,
     0xd041dd676d77eeaa, 0x636f91d96ed0b1c5, 0x24c5eb30c5374ef1, 0x97eba78ec690119e,
     0xab911ee392f8b099, 0x18bf525d915feff6, 0x5f1528b43ab810c2, 0xec3b640a391f4fad,
     0x27e05a6e926952cc, 0x94ce16d091ce0da3, 0xd3646c393a29f297, 0x604a2087398eadf8,
     0x5c3099ea6de60cff, 0xef1ed5546e415390, 0xa8b4afbdc5a6aca4, 0x1b9ae303c601f3cb,
     0x56ed3e2f9e224471, 0xe5c372919d851b1e, 0xa26908783662e42a, 0x114744c635c5bb45,
     0x2d3dfdab61ad1a42, 0x9e13b115620a452d, 0xd9b9cbfcc9edba19, 0x6a978742ca4ae576,
     0xa14cb926613cf817, 0x1262f598629ba778, 0x55c88f71c97c584c, 0xe6e6c3cfcadb0723,
     0xda9c7aa29eb3a624, 0x69b2361c9d14f94b, 0x2e184cf536f3067f, 0x9d36004b35545910,
     0x2b769f17cf112238, 0x9858d3a9ccb67d57, 0xdff2a94067518263, 0x6cdce5fe64f6dd0c,
     0x50a65c93309e7c0b, 0xe388102d33392364, 0xa4226ac498dedc50, 0x170c267a9b79833f,
     0xdcd7181e300f9e5e, 0x6ff954a033a8c131, 0x28532e49984f3e05, 0x9b7d62f79be8616a,
     0xa707db9acf80c06d, 0x14299724cc279f02, 0x5383edcd67c06036, 0xe0ada17364673f59]"

definition step_profile_01 :: "byte \<Rightarrow> byte \<Rightarrow> byte" where
  "step_profile_01 crc b = lookup_table_profile_01 ! unat (b XOR crc)"

definition calculate_profile_01 :: "bytes \<Rightarrow> byte \<Rightarrow> byte" where
  "calculate_profile_01 view start_value = foldl step_profile_01 (start_value XOR 0xFF) view XOR 0xFF"

definition step_profile_04 :: "u32 \<Rightarrow> byte \<Rightarrow> u32" where
  "step_profile_04 crc b = lookup_table_profile_04 ! unat (ucast (ucast b XOR crc) :: byte) XOR drop_bit 8 crc"

definition calculate_profile_04 :: "bytes \<Rightarrow> u32 \<Rightarrow> u32" where
  "calculate_profile_04 view start_value = foldl step_profile_04 (start_value XOR 0xFFFFFFFF) view XOR 0xFFFFFFFF"

definition step_profile_05 :: "u16 \<Rightarrow> byte \<Rightarrow> u16" where
  "step_profile_05 crc b = lookup_table_profile_05 ! unat ((ucast (drop_bit 8 crc) :: byte) XOR b) XOR push_bit 8 crc"

definition calculate_profile_05 :: "bytes \<Rightarrow> u16 \<Rightarrow> u16" where
  "calculate_profile_05 view start_value = foldl step_profile_05 start_value view"

definition step_profile_custom :: "u32 \<Rightarrow> byte \<Rightarrow> u32" where
  "step_profile_custom crc b = lookup_table_profile_custom ! unat (ucast (ucast b XOR crc) :: byte) XOR drop_bit 8 crc"

definition calculate_profile_custom :: "bytes \<Rightarrow> u32" where
  "calculate_profile_custom view = foldl step_profile_custom 0xFFFFFFFF view XOR 0xFFFFFFFF"

definition step_profile_07 :: "u64 \<Rightarrow> byte \<Rightarrow> u64" where
  "step_profile_07 crc b = lookup_table_profile_07 ! unat (ucast (ucast b XOR crc) :: byte) XOR drop_bit 8 crc"

definition calculate_profile_07 :: "bytes \<Rightarrow> u64 \<Rightarrow> u64" where
  "calculate_profile_07 view start_value =
     foldl step_profile_07 (start_value XOR 0xFFFFFFFFFFFFFFFF) view XOR 0xFFFFFFFFFFFFFFFF"

section \<open>Bitwise division\<close>

text \<open>One bit of the division by the polynomial, least and most significant bit first.\<close>

definition crc_bit_lsb :: "'a::len word \<Rightarrow> 'a word \<Rightarrow> 'a word" where
  "crc_bit_lsb poly c = drop_bit 1 c XOR (if bit c 0 then poly else 0)"

definition crc_bit_msb :: "'a::len word \<Rightarrow> 'a word \<Rightarrow> 'a word" where
  "crc_bit_msb poly c = push_bit 1 c XOR (if bit c (LENGTH('a) - 1) then poly else 0)"

definition crc_byte_lsb :: "'a::len word \<Rightarrow> 'a word \<Rightarrow> byte \<Rightarrow> 'a word" where
  "crc_byte_lsb poly c b = (crc_bit_lsb poly ^^ 8) (c XOR ucast b)"

definition crc_byte_msb :: "'a::len word \<Rightarrow> 'a word \<Rightarrow> byte \<Rightarrow> 'a word" where
  "crc_byte_msb poly c b = (crc_bit_msb poly ^^ 8) (c XOR push_bit (LENGTH('a) - 8) (ucast b))"

subsection \<open>Linearity and injectivity\<close>

lemma crc_bit_lsb_xor: "crc_bit_lsb p (x XOR y) = crc_bit_lsb p x XOR crc_bit_lsb p y"
  by (rule bit_eqI) (auto simp: crc_bit_lsb_def bit_simps)

lemma crc_bit_msb_xor: "crc_bit_msb p (x XOR y) = crc_bit_msb p x XOR crc_bit_msb p y"
  by (rule bit_eqI) (auto simp: crc_bit_msb_def bit_simps)

lemma funpow_xor:
  fixes f :: "'a::len word \<Rightarrow> 'a word"
  shows "(\<And>x y. f (x XOR y) = f x XOR f y) \<Longrightarrow> (f ^^ n) (x XOR y) = (f ^^ n) x XOR (f ^^ n) y"
  by (induction n) simp_all

lemmas crc_lsb_xor = funpow_xor [of "crc_bit_lsb p" for p, OF crc_bit_lsb_xor]
lemmas crc_msb_xor = funpow_xor [of "crc_bit_msb p" for p, OF crc_bit_msb_xor]

lemma xor_inj:
  fixes f :: "'a::len word \<Rightarrow> 'b::len word"
  assumes "\<And>x y. f (x XOR y) = f x XOR f y" and "\<And>z. f z = 0 \<Longrightarrow> z = 0" and "f x = f y"
  shows "x = y"
proof -
  have "f (x XOR y) = 0" using assms(1,3) by simp
  then have "x XOR y = 0" by (rule assms(2))
  then show ?thesis by (metis xor.assoc xor_self_eq xor.left_neutral)
qed

lemma crc_bit_lsb_zero:
  assumes "bit p (LENGTH('a) - 1)" and "crc_bit_lsb p (z :: 'a::len word) = 0"
  shows "z = 0"
proof (rule bit_eqI)
  have low: "\<not> bit z 0"
  proof
    assume "bit z 0"
    then have "bit (crc_bit_lsb p z) (LENGTH('a) - 1)"
      using assms(1) bit_imp_le_length [of z "LENGTH('a)"]
      by (auto simp: crc_bit_lsb_def bit_xor_iff bit_drop_bit_eq)
    then show False using assms(2) by simp
  qed
  then have "drop_bit 1 z = 0" using assms(2) by (simp add: crc_bit_lsb_def)
  then have "\<not> bit z (Suc n)" for n by (metis bit_0_eq bit_drop_bit_eq bot_apply bot_bool_def comp_apply plus_1_eq_Suc)
  then show "bit z n = bit 0 n" for n using low by (cases n) auto
qed

lemma crc_bit_msb_zero:
  assumes "bit p 0" and "crc_bit_msb p (z :: 'a::len word) = 0"
  shows "z = 0"
proof (rule bit_eqI)
  have high: "\<not> bit z (LENGTH('a) - 1)"
  proof
    assume "bit z (LENGTH('a) - 1)"
    then have "bit (crc_bit_msb p z) 0"
      using assms(1) unfolding crc_bit_msb_def bit_xor_iff bit_push_bit_iff by simp
    then show False using assms(2) by simp
  qed
  then have push: "push_bit 1 z = 0" using assms(2) by (simp add: crc_bit_msb_def)
  show "bit z n = bit 0 n" for n
  proof (cases "Suc n < LENGTH('a)")
    case True
    have "bit (push_bit 1 z) (Suc n) = bit z n" unfolding bit_push_bit_iff using True by simp
    then show ?thesis using push by simp
  next
    case False
    then have "LENGTH('a) \<le> n \<or> n = LENGTH('a) - 1" by auto
    then show ?thesis using high bit_imp_le_length [of z n] by auto
  qed
qed

lemma funpow_zero:
  fixes f :: "'a::len word \<Rightarrow> 'a word"
  shows "(\<And>z. f z = 0 \<Longrightarrow> z = 0) \<Longrightarrow> (f ^^ n) z = 0 \<Longrightarrow> z = 0"
  by (induction n) auto

subsection \<open>The tables\<close>

text \<open>A linear table is determined by its values at the powers of two, highest first.\<close>

primrec xor_table :: "'a::len word list \<Rightarrow> 'a word list" where
  "xor_table [] = [0]"
| "xor_table (t # ts) = xor_table ts @ map (\<lambda>x. x XOR t) (xor_table ts)"

lemma of_nat_xor_exp:
  assumes "i < 2 ^ k"
  shows "(of_nat (2 ^ k + i) :: 'a::len word) = of_nat i XOR 2 ^ k"
proof -
  have "\<not> bit i k" using assms by (simp add: bit_iff_odd)
  then have "i AND 2 ^ k = 0" by (simp add: and_exp_eq_0_iff_not_bit)
  then have "2 ^ k + i = i XOR 2 ^ k" by (simp add: disjunctive_add_eq_xor add.commute)
  then show ?thesis by (simp add: of_nat_xor_eq)
qed

lemma xor_table_linear:
  fixes f :: "'a::len word \<Rightarrow> 'b::len word"
  assumes "\<And>x y. f (x XOR y) = f x XOR f y"
  shows "xor_table (map (\<lambda>j. f (2 ^ j)) (rev [0..<k])) = map (\<lambda>i. f (of_nat i)) [0..<2 ^ k]"
proof (induction k)
  case 0
  have "f 0 = 0" using assms [of 0 0] by simp
  then show ?case by simp
next
  case (Suc k)
  have "[0..<2 ^ Suc k] = [0..<2 ^ k] @ map (\<lambda>i. 2 ^ k + i) [0..<2 ^ k]"
    using upt_add_eq_append [of 0 "2 ^ k" "2 ^ k"] map_add_upt [of "2 ^ k" "2 ^ k"]
    by (simp add: mult_2 add.commute)
  moreover have "f (2 ^ k + of_nat i) = f (of_nat i) XOR f (2 ^ k)" if "i < 2 ^ k" for i
    using of_nat_xor_exp [OF that, where 'a = 'a] assms by simp
  ultimately show ?case using Suc by simp
qed

lemma nth_xor_table:
  fixes f :: "'a::len word \<Rightarrow> 'b::len word"
  assumes "\<And>x y. f (x XOR y) = f x XOR f y" and "t = xor_table (map (\<lambda>j. f (2 ^ j)) [7, 6, 5, 4, 3, 2, 1, 0])"
  shows "t ! unat (b :: byte) = f (ucast b)"
proof -
  have rev: "[7, 6, 5, 4, 3, 2, 1, 0] = rev [0..<8]" by (simp add: upt_rec)
  have "t = map (\<lambda>i. f (of_nat i)) [0..<2 ^ 8]"
    unfolding assms(2) rev by (rule xor_table_linear [OF assms(1)])
  moreover have "unat b < 2 ^ 8" using unsigned_less [of b] by simp
  ultimately show ?thesis by simp
qed

lemma funpow_8: "(f ^^ 8) x = f (f (f (f (f (f (f (f x)))))))"
  by (simp add: numeral_eq_Suc)

lemma table_profile_01: "lookup_table_profile_01 ! unat (b :: byte) = (crc_bit_msb 0x1D ^^ 8) b"
proof -
  have "lookup_table_profile_01 = xor_table [0x26, 0x13, 0x87, 0xcd, 0xe8, 0x74, 0x3a, 0x1d]"
    by (simp add: lookup_table_profile_01_def)
  also have "\<dots> = xor_table (map (\<lambda>j. (crc_bit_msb 0x1D ^^ 8) (2 ^ j :: byte)) [7, 6, 5, 4, 3, 2, 1, 0])"
    by (simp add: funpow_8 crc_bit_msb_def)
  finally have "lookup_table_profile_01 ! unat b = (crc_bit_msb 0x1D ^^ 8) (ucast b)"
    by (rule nth_xor_table [of "crc_bit_msb 0x1D ^^ 8", OF crc_msb_xor])
  then show ?thesis by simp
qed

lemma table_profile_05: "lookup_table_profile_05 ! unat (b :: byte) = (crc_bit_msb 0x1021 ^^ 8) (push_bit 8 (ucast b))"
proof -
  have lin: "(crc_bit_msb 0x1021 ^^ 8) (push_bit 8 (x XOR y)) =
      (crc_bit_msb 0x1021 ^^ 8) (push_bit 8 x) XOR (crc_bit_msb 0x1021 ^^ 8) (push_bit 8 (y :: u16))" for x y
    by (simp only: push_bit_xor crc_msb_xor)
  have "lookup_table_profile_05 = xor_table [0x9188, 0x48c4, 0x2462, 0x1231, 0x8108, 0x4084, 0x2042, 0x1021]"
    by (simp add: lookup_table_profile_05_def)
  also have "\<dots> = xor_table (map (\<lambda>j. (crc_bit_msb 0x1021 ^^ 8) (push_bit 8 (2 ^ j :: u16))) [7, 6, 5, 4, 3, 2, 1, 0])"
    by (simp add: funpow_8 crc_bit_msb_def)
  finally show ?thesis by (rule nth_xor_table [of "\<lambda>x. (crc_bit_msb 0x1021 ^^ 8) (push_bit 8 x)", OF lin])
qed

lemma table_profile_04: "lookup_table_profile_04 ! unat (b :: byte) = (crc_bit_lsb 0xC8DF352F ^^ 8) (ucast b)"
proof -
  have "lookup_table_profile_04 = xor_table [0xc8df352f, 0xacb0afb8, 0x565857dc, 0x2b2c2bee, 0x159615f7, 0xc2143fd4, 0x610a1fea, 0x30850ff5]"
    by (simp add: lookup_table_profile_04_def)
  also have "\<dots> = xor_table (map (\<lambda>j. (crc_bit_lsb 0xC8DF352F ^^ 8) (2 ^ j :: u32)) [7, 6, 5, 4, 3, 2, 1, 0])"
    by (simp add: funpow_8 crc_bit_lsb_def)
  finally show ?thesis by (rule nth_xor_table [of "crc_bit_lsb 0xC8DF352F ^^ 8", OF crc_lsb_xor])
qed

lemma table_profile_custom: "lookup_table_profile_custom ! unat (b :: byte) = (crc_bit_lsb 0xEDB88320 ^^ 8) (ucast b)"
proof -
  have "lookup_table_profile_custom = xor_table [0xedb88320, 0x76dc4190, 0x3b6e20c8, 0x1db71064, 0xedb8832, 0x76dc419, 0xee0e612c, 0x77073096]"
    by (simp add: lookup_table_profile_custom_def)
  also have "\<dots> = xor_table (map (\<lambda>j. (crc_bit_lsb 0xEDB88320 ^^ 8) (2 ^ j :: u32)) [7, 6, 5, 4, 3, 2, 1, 0])"
    by (simp add: funpow_8 crc_bit_lsb_def)
  finally show ?thesis by (rule nth_xor_table [of "crc_bit_lsb 0xEDB88320 ^^ 8", OF crc_lsb_xor])
qed

lemma table_profile_07: "lookup_table_profile_07 ! unat (b :: byte) = (crc_bit_lsb 0xC96C5795D7870F42 ^^ 8) (ucast b)"
proof -
  have "lookup_table_profile_07 = xor_table [0xc96c5795d7870f42, 0x64b62bcaebc387a1, 0xfb374270a266cc92, 0x7d9ba13851336649, 0xf7a18709ff1ebc66, 0x7bd0c384ff8f5e33, 0xf4843657a840a05b, 0xb32e4cbe03a75f6f]"
    by (simp add: lookup_table_profile_07_def)
  also have "\<dots> = xor_table (map (\<lambda>j. (crc_bit_lsb 0xC96C5795D7870F42 ^^ 8) (2 ^ j :: u64)) [7, 6, 5, 4, 3, 2, 1, 0])"
    by (simp add: funpow_8 crc_bit_lsb_def)
  finally show ?thesis by (rule nth_xor_table [of "crc_bit_lsb 0xC96C5795D7870F42 ^^ 8", OF crc_lsb_xor])
qed

subsection \<open>The checksums divide\<close>

lemma crc_lsb_shift: "take_bit n x = 0 \<Longrightarrow> (crc_bit_lsb p ^^ n) x = drop_bit n x"
proof (induction n arbitrary: x)
  case (Suc n)
  have even: "\<not> bit x 0" using Suc.prems by (metis bit_0_eq bit_take_bit_iff bot_apply bot_bool_def zero_less_Suc)
  have "take_bit n (drop_bit 1 x) = 0"
    using arg_cong [OF Suc.prems, of "drop_bit 1"] by (simp add: drop_bit_take_bit)
  then have "(crc_bit_lsb p ^^ n) (drop_bit 1 x) = drop_bit n (drop_bit 1 x)" by (rule Suc.IH)
  moreover have "crc_bit_lsb p x = drop_bit 1 x" using even by (simp add: crc_bit_lsb_def)
  ultimately show ?case by (simp add: funpow_Suc_right del: funpow.simps)
qed simp

lemma crc_msb_shift:
  fixes x :: "'a::len word"
  shows "(\<And>j. LENGTH('a) \<le> j + n \<Longrightarrow> \<not> bit x j) \<Longrightarrow> (crc_bit_msb p ^^ n) x = push_bit n x"
proof (induction n arbitrary: x)
  case (Suc n)
  have "\<not> bit x (LENGTH('a) - 1)" by (rule Suc.prems) simp
  then have one: "crc_bit_msb p x = push_bit 1 x" by (simp only: crc_bit_msb_def if_False xor.right_neutral)
  have "(crc_bit_msb p ^^ n) (push_bit 1 x) = push_bit n (push_bit 1 x)"
    by (rule Suc.IH) (use Suc.prems in \<open>auto simp only: bit_push_bit_iff\<close>)
  then show ?case by (simp only: funpow_Suc_right comp_apply one push_bit_push_bit) simp
qed simp

lemma crc_byte_lsb_table:
  fixes c :: "'a::len word"
  assumes "\<And>b. t ! unat (b :: byte) = (crc_bit_lsb p ^^ 8) (ucast b)"
  shows "t ! unat (ucast (ucast b XOR c) :: byte) XOR drop_bit 8 c = crc_byte_lsb p c b"
proof -
  have "c XOR ucast b = ucast (ucast (ucast b XOR c) :: byte) XOR (c AND NOT (mask 8))"
    by (rule bit_eqI) (auto simp: bit_simps dest: bit_imp_le_length)
  moreover have "(crc_bit_lsb p ^^ 8) (c AND NOT (mask 8)) = drop_bit 8 (c AND NOT (mask 8))"
    by (rule crc_lsb_shift) (rule bit_eqI, auto simp: bit_simps)
  moreover have "drop_bit 8 (c AND NOT (mask 8)) = drop_bit 8 c"
    by (rule bit_eqI) (auto simp: bit_simps dest: bit_imp_le_length)
  ultimately show ?thesis unfolding crc_byte_lsb_def assms by (simp only: crc_lsb_xor)
qed

lemma crc_byte_msb_16:
  fixes c :: u16
  shows "(crc_bit_msb p ^^ 8) (push_bit 8 (ucast ((ucast (drop_bit 8 c) :: byte) XOR b))) XOR push_bit 8 c = crc_byte_msb p c b"
proof -
  have split: "c XOR push_bit 8 (ucast b) = push_bit 8 (ucast ((ucast (drop_bit 8 c) :: byte) XOR b)) XOR (c AND mask 8)"
    by (rule bit_eqI) (auto simp: bit_simps dest: bit_imp_le_length)
  have "(crc_bit_msb p ^^ 8) (c AND mask 8) = push_bit 8 (c AND mask 8)"
    by (rule crc_msb_shift) (auto simp: bit_simps)
  also have "\<dots> = push_bit 8 c"
    by (rule bit_eqI) (auto simp: bit_simps)
  finally have low: "(crc_bit_msb p ^^ 8) (c AND mask 8) = push_bit 8 c" .
  have "crc_byte_msb p c b = (crc_bit_msb p ^^ 8) (c XOR push_bit 8 (ucast b))" by (simp add: crc_byte_msb_def)
  then show ?thesis by (simp only: split crc_msb_xor low)
qed

lemma step_profile_eq:
  "step_profile_01 = crc_byte_msb 0x1D" "step_profile_04 = crc_byte_lsb 0xC8DF352F"
  "step_profile_05 = crc_byte_msb 0x1021" "step_profile_custom = crc_byte_lsb 0xEDB88320"
  "step_profile_07 = crc_byte_lsb 0xC96C5795D7870F42"
proof -
  show "step_profile_01 = crc_byte_msb 0x1D"
    by (intro ext) (simp add: step_profile_01_def crc_byte_msb_def table_profile_01 xor.commute)
  show "step_profile_04 = crc_byte_lsb 0xC8DF352F"
    by (intro ext) (simp only: step_profile_04_def crc_byte_lsb_table [OF table_profile_04])
  show "step_profile_05 = crc_byte_msb 0x1021"
    by (intro ext) (simp only: step_profile_05_def table_profile_05 crc_byte_msb_16)
  show "step_profile_custom = crc_byte_lsb 0xEDB88320"
    by (intro ext) (simp only: step_profile_custom_def crc_byte_lsb_table [OF table_profile_custom])
  show "step_profile_07 = crc_byte_lsb 0xC96C5795D7870F42"
    by (intro ext) (simp only: step_profile_07_def crc_byte_lsb_table [OF table_profile_07])
qed

text \<open>
  C18. The five table-driven checksums are the bitwise divisions with the polynomials their
  comments name (0xF4ACFB13, 0x4C11DB7 and 0x42F0E1EBA9EA3693 appear reflected, as 0xC8DF352F,
  0xEDB88320 and 0xC96C5795D7870F42), initial value and final XOR included. In particular all
  1280 table entries are right.
\<close>

theorem crc_bitwise:
  "calculate_profile_01 view s8 = foldl (crc_byte_msb 0x1D) (NOT s8) view XOR 0xFF \<and>
   calculate_profile_04 view s32 = foldl (crc_byte_lsb 0xC8DF352F) (NOT s32) view XOR 0xFFFFFFFF \<and>
   calculate_profile_05 view s16 = foldl (crc_byte_msb 0x1021) s16 view \<and>
   calculate_profile_07 view s64 = foldl (crc_byte_lsb 0xC96C5795D7870F42) (NOT s64) view XOR 0xFFFFFFFFFFFFFFFF \<and>
   calculate_profile_custom view = foldl (crc_byte_lsb 0xEDB88320) 0xFFFFFFFF view XOR 0xFFFFFFFF"
proof -
  have "(0xFF :: byte) = - 1" "(0xFFFFFFFF :: u32) = - 1" "(0xFFFFFFFFFFFFFFFF :: u64) = - 1" by simp_all
  then have "s8 XOR 0xFF = NOT s8" "s32 XOR 0xFFFFFFFF = NOT s32" "s64 XOR 0xFFFFFFFFFFFFFFFF = NOT s64"
    by (simp_all only: bit.xor_one_right)
  then show ?thesis
    by (simp only: calculate_profile_01_def calculate_profile_04_def calculate_profile_05_def
        calculate_profile_07_def calculate_profile_custom_def step_profile_eq)
qed

text \<open>
  The checksum of a message can be computed in parts: with the checksum of the first part as
  start value, the second part gives the checksum of the whole. The E2E profiles use this to skip
  the bytes of the checksum itself.
\<close>

lemma crc_chain:
  "calculate_profile_01 (xs @ ys) s8 = calculate_profile_01 ys (calculate_profile_01 xs s8) \<and>
   calculate_profile_04 (xs @ ys) s32 = calculate_profile_04 ys (calculate_profile_04 xs s32) \<and>
   calculate_profile_05 (xs @ ys) s16 = calculate_profile_05 ys (calculate_profile_05 xs s16) \<and>
   calculate_profile_07 (xs @ ys) s64 = calculate_profile_07 ys (calculate_profile_07 xs s64)"
  by (simp add: calculate_profile_01_def calculate_profile_04_def calculate_profile_05_def
      calculate_profile_07_def xor.assoc)

section \<open>Error detection\<close>

text \<open>A checksum step that loses nothing of the state and nothing of the byte.\<close>

locale crc_engine =
  fixes step :: "'w \<Rightarrow> byte \<Rightarrow> 'w"
  assumes state_inj: "step c b = step d b \<Longrightarrow> c = d"
    and byte_inj: "step c a = step c b \<Longrightarrow> a = b"
begin

lemma foldl_inj: "foldl step c bs = foldl step d bs \<Longrightarrow> c = d"
  by (induction bs arbitrary: c d) (auto dest: state_inj)

lemma detects_byte: "a \<noteq> b \<Longrightarrow> foldl step c (xs @ a # ys) \<noteq> foldl step c (xs @ b # ys)"
  using foldl_inj byte_inj by (metis foldl_Cons foldl_append)

end

lemma crc_lsb_inj:
  "bit p (LENGTH('a) - 1) \<Longrightarrow> (crc_bit_lsb p ^^ n) x = (crc_bit_lsb p ^^ n) (y :: 'a::len word) \<Longrightarrow> x = y"
  using xor_inj [of "crc_bit_lsb p ^^ n", OF crc_lsb_xor] funpow_zero [of "crc_bit_lsb p"] crc_bit_lsb_zero by blast

lemma crc_msb_inj:
  "bit p 0 \<Longrightarrow> (crc_bit_msb p ^^ n) x = (crc_bit_msb p ^^ n) (y :: 'a::len word) \<Longrightarrow> x = y"
  using xor_inj [of "crc_bit_msb p ^^ n", OF crc_msb_xor] funpow_zero [of "crc_bit_msb p"] crc_bit_msb_zero by blast

lemma xor_cancel: "c XOR x = d XOR x \<longleftrightarrow> c = d" "x XOR c = x XOR d \<longleftrightarrow> c = d" for c d x :: "'a::len word"
  by (metis xor.assoc xor_self_eq xor.right_neutral xor.commute)+

lemma ucast_byte_inj:
  assumes "(ucast (a :: byte) :: 'a::len word) = ucast b" and "8 \<le> LENGTH('a)"
  shows "a = b"
proof (rule bit_eqI)
  fix n
  assume "possible_bit TYPE(byte) n"
  then have "n < LENGTH('a)" using assms(2) by simp
  then show "bit a n = bit b n"
    using arg_cong [OF assms(1), of "\<lambda>w. bit w n"] by (simp add: bit_unsigned_iff)
qed

lemma crc_engine_lsb:
  assumes "bit p (LENGTH('a::len) - 1)" and "8 \<le> LENGTH('a)"
  shows "crc_engine (crc_byte_lsb (p :: 'a word))"
proof
  fix c d :: "'a word" and a b :: byte
  show "c = d" if "crc_byte_lsb p c b = crc_byte_lsb p d b"
    using crc_lsb_inj [OF assms(1) that [unfolded crc_byte_lsb_def]] by (simp add: xor_cancel)
  show "a = b" if "crc_byte_lsb p c a = crc_byte_lsb p c b"
    using crc_lsb_inj [OF assms(1) that [unfolded crc_byte_lsb_def]] ucast_byte_inj [OF _ assms(2)]
    by (simp add: xor_cancel)
qed

lemma crc_engine_msb:
  assumes "bit p 0" and "8 \<le> LENGTH('a::len)"
  shows "crc_engine (crc_byte_msb (p :: 'a word))"
proof
  fix c d :: "'a word" and a b :: byte
  show "c = d" if "crc_byte_msb p c b = crc_byte_msb p d b"
    using crc_msb_inj [OF assms(1) that [unfolded crc_byte_msb_def]] by (simp add: xor_cancel)
  show "a = b" if "crc_byte_msb p c a = crc_byte_msb p c b"
  proof (rule bit_eqI)
    fix n
    assume "possible_bit TYPE(byte) n"
    then have n: "n < 8" by simp
    have "push_bit (LENGTH('a) - 8) (ucast a :: 'a word) = push_bit (LENGTH('a) - 8) (ucast b)"
      using crc_msb_inj [OF assms(1) that [unfolded crc_byte_msb_def]] by (simp add: xor_cancel)
    moreover have top: "bit (push_bit (LENGTH('a) - 8) (ucast x :: 'a word)) (n + (LENGTH('a) - 8)) = bit x n" for x :: byte
      using n assms(2) by (auto simp: bit_push_bit_iff bit_unsigned_iff)
    ultimately show "bit a n = bit b n" by metis
  qed
qed

interpretation crc01: crc_engine step_profile_01
  unfolding step_profile_eq by (rule crc_engine_msb) (simp_all add: bit_numeral_rec)
interpretation crc04: crc_engine step_profile_04
  unfolding step_profile_eq by (rule crc_engine_lsb) (simp_all add: bit_numeral_rec)
interpretation crc05: crc_engine step_profile_05
  unfolding step_profile_eq by (rule crc_engine_msb) (simp_all add: bit_numeral_rec)
interpretation crc_custom: crc_engine step_profile_custom
  unfolding step_profile_eq by (rule crc_engine_lsb) (simp_all add: bit_numeral_rec)
interpretation crc07: crc_engine step_profile_07
  unfolding step_profile_eq by (rule crc_engine_lsb) (simp_all add: bit_numeral_rec)

text \<open>
  C33. Every change of a single byte of a message, at any place, changes each of the five
  checksums.
\<close>

theorem crc_detects_byte_error:
  assumes "a \<noteq> b"
  shows "calculate_profile_01 (xs @ a # ys) s8 \<noteq> calculate_profile_01 (xs @ b # ys) s8 \<and>
    calculate_profile_04 (xs @ a # ys) s32 \<noteq> calculate_profile_04 (xs @ b # ys) s32 \<and>
    calculate_profile_05 (xs @ a # ys) s16 \<noteq> calculate_profile_05 (xs @ b # ys) s16 \<and>
    calculate_profile_07 (xs @ a # ys) s64 \<noteq> calculate_profile_07 (xs @ b # ys) s64 \<and>
    calculate_profile_custom (xs @ a # ys) \<noteq> calculate_profile_custom (xs @ b # ys)"
  unfolding calculate_profile_01_def calculate_profile_04_def calculate_profile_05_def
    calculate_profile_07_def calculate_profile_custom_def xor_cancel
  by (intro conjI crc01.detects_byte crc04.detects_byte crc05.detects_byte crc07.detects_byte crc_custom.detects_byte assms)

theorem crc_detects_byte_error_witness:
  "calculate_profile_04 [1, 2, 3] 0 \<noteq> calculate_profile_04 [1, 7, 3] 0"
  using crc_detects_byte_error [of 2 7 "[1]" "[3]" 0 0] by simp

end
