(* ===== verification/E2e.thy ===== *)
theory E2e
  imports Crc
begin

text \<open>
  Model of the E2E protection profiles without a receive counter: profile 01
  (\<open>e2e/profile/profile01\<close>) and the custom profile (\<open>e2e/profile/profile_custom\<close>).
  A protector or checker is its configuration and its counter; \<open>protect\<close> returns the
  changed buffer. \<^term>\<open>None\<close> is an access outside the buffer.
\<close>

datatype generic_check_status = E2E_OK | E2E_WRONG_CRC | E2E_ERROR

section \<open>Custom profile\<close>

record custom_config =
  pc_crc_offset :: u16

definition custom_compute_crc :: "custom_config \<Rightarrow> bytes \<Rightarrow> u32 option" where
  "custom_compute_crc cfg buffer = do {
     view \<leftarrow> mem_range buffer (unat (pc_crc_offset cfg) + 4) (length buffer);
     Some (calculate_profile_custom view) }"

definition custom_is_buffer_length_valid :: "custom_config \<Rightarrow> bytes \<Rightarrow> bool" where
  "custom_is_buffer_length_valid cfg buffer \<longleftrightarrow> unat (pc_crc_offset cfg) + 4 \<le> length buffer"

definition custom_write_crc :: "custom_config \<Rightarrow> bytes \<Rightarrow> u32 \<Rightarrow> bytes option" where
  "custom_write_crc cfg buffer crc = do {
     let off = unat (pc_crc_offset cfg);
     buffer \<leftarrow> mem_put buffer off (ucast (drop_bit 24 crc));
     buffer \<leftarrow> mem_put buffer (off + 1) (ucast (drop_bit 16 crc));
     buffer \<leftarrow> mem_put buffer (off + 2) (ucast (drop_bit 8 crc));
     mem_put buffer (off + 3) (ucast crc) }"

definition custom_protect :: "custom_config \<Rightarrow> bytes \<Rightarrow> bytes option" where
  "custom_protect cfg buffer =
     (if custom_is_buffer_length_valid cfg buffer then do {
        computed_crc \<leftarrow> custom_compute_crc cfg buffer;
        custom_write_crc cfg buffer computed_crc }
      else Some buffer)"

definition custom_read_crc :: "custom_config \<Rightarrow> bytes \<Rightarrow> u32 option" where
  "custom_read_crc cfg buffer = do {
     let off = unat (pc_crc_offset cfg);
     b0 \<leftarrow> mem_at buffer off;
     b1 \<leftarrow> mem_at buffer (off + 1);
     b2 \<leftarrow> mem_at buffer (off + 2);
     b3 \<leftarrow> mem_at buffer (off + 3);
     Some (push_bit 24 (ucast b0) OR push_bit 16 (ucast b1) OR push_bit 8 (ucast b2) OR ucast b3) }"

definition custom_check :: "custom_config \<Rightarrow> bytes \<Rightarrow> generic_check_status option" where
  "custom_check cfg buffer =
     (if custom_is_buffer_length_valid cfg buffer then do {
        received_crc \<leftarrow> custom_read_crc cfg buffer;
        calculated_crc \<leftarrow> custom_compute_crc cfg buffer;
        Some (if received_crc = calculated_crc then E2E_OK else E2E_WRONG_CRC) }
      else Some E2E_ERROR)"

section \<open>Profile 01\<close>

datatype p01_data_id_mode = E2E_P01_DATAID_BOTH | E2E_P01_DATAID_ALT | E2E_P01_DATAID_LOW | E2E_P01_DATAID_NIBBLE

record p01_config =
  p01_crc_offset :: u16
  p01_data_id :: u16
  p01_mode :: p01_data_id_mode
  p01_data_length :: u16
  p01_counter_offset :: u16
  p01_data_id_nibble_offset :: u16

text \<open>
  The views of the data id buffer are its single bytes. The comparison with
  \<open>data_length_ / 8 - 1\<close> is one of signed integers.
\<close>

definition p01_compute_crc :: "p01_config \<Rightarrow> bytes \<Rightarrow> byte option" where
  "p01_compute_crc cfg buffer = do {
     let msb = (ucast (drop_bit 8 (p01_data_id cfg)) :: byte);
     let lsb = (ucast (p01_data_id cfg) :: byte);
     let crc = (case p01_mode cfg of
         E2E_P01_DATAID_BOTH \<Rightarrow> calculate_profile_01 [msb] (calculate_profile_01 [lsb] 0xFF)
       | E2E_P01_DATAID_LOW \<Rightarrow> calculate_profile_01 [lsb] 0xFF
       | E2E_P01_DATAID_ALT \<Rightarrow> 0xFF
       | E2E_P01_DATAID_NIBBLE \<Rightarrow> calculate_profile_01 [0] (calculate_profile_01 [lsb] 0xFF));
     crc \<leftarrow> (if 1 \<le> p01_crc_offset cfg
             then do { v \<leftarrow> mem_range buffer 0 (unat (p01_crc_offset cfg)); Some (calculate_profile_01 v crc) }
             else Some crc);
     crc \<leftarrow> (if int (unat (p01_crc_offset cfg)) < int (unat (p01_data_length cfg) div 8) - 1
             then do { v \<leftarrow> mem_range buffer (unat (p01_crc_offset cfg) + 1) (length buffer); Some (calculate_profile_01 v crc) }
             else Some crc);
     Some (crc XOR 0xFF) }"

definition p01_is_buffer_length_valid :: "p01_config \<Rightarrow> bytes \<Rightarrow> bool" where
  "p01_is_buffer_length_valid cfg buffer \<longleftrightarrow>
     unat (p01_data_length cfg) div 8 + 1 \<le> length buffer \<and> unat (p01_crc_offset cfg) \<le> length buffer \<and>
     unat (p01_counter_offset cfg) div 8 \<le> length buffer \<and> unat (p01_data_id_nibble_offset cfg) div 8 \<le> length buffer"

text \<open>The protector is its configuration and \<open>counter_\<close>.\<close>

definition p01_write_counter :: "p01_config \<Rightarrow> byte \<Rightarrow> bytes \<Rightarrow> bytes option" where
  "p01_write_counter cfg counter buffer =
     (let i = unat (p01_counter_offset cfg) div 8 in do {
      b \<leftarrow> mem_at buffer i;
      mem_put buffer i
        (if unat (p01_counter_offset cfg) mod 8 = 0 then (b AND 0xF0) OR (counter AND 0x0F)
         else (b AND 0x0F) OR (push_bit 4 counter AND 0xF0)) })"

definition p01_write_data_id :: "p01_config \<Rightarrow> bytes \<Rightarrow> bytes option" where
  "p01_write_data_id cfg buffer =
     (if p01_mode cfg = E2E_P01_DATAID_NIBBLE then
        (let i = unat (p01_data_id_nibble_offset cfg) div 8 in do {
         b \<leftarrow> mem_at buffer i;
         mem_put buffer i
           (if unat (p01_data_id_nibble_offset cfg) mod 8 = 0
            then (b AND 0xF0) OR (ucast (drop_bit 8 (p01_data_id cfg)) AND 0x0F)
            else (b AND 0x0F) OR (ucast (drop_bit 4 (p01_data_id cfg)) AND 0xF0)) })
      else Some buffer)"

definition p01_write_crc :: "p01_config \<Rightarrow> bytes \<Rightarrow> byte \<Rightarrow> bytes option" where
  "p01_write_crc cfg buffer computed_crc = mem_put buffer (unat (p01_crc_offset cfg)) computed_crc"

definition p01_increment_counter :: "byte \<Rightarrow> byte" where
  "p01_increment_counter counter = of_nat ((unat counter + 1) mod 15)"

definition p01_protect :: "p01_config \<Rightarrow> byte \<Rightarrow> bytes \<Rightarrow> (bytes \<times> byte) option" where
  "p01_protect cfg counter buffer =
     (if p01_is_buffer_length_valid cfg buffer then do {
        buffer \<leftarrow> p01_write_counter cfg counter buffer;
        buffer \<leftarrow> p01_write_data_id cfg buffer;
        computed_crc \<leftarrow> p01_compute_crc cfg buffer;
        buffer \<leftarrow> p01_write_crc cfg buffer computed_crc;
        Some (buffer, p01_increment_counter counter) }
      else Some (buffer, counter))"

definition p01_check :: "p01_config \<Rightarrow> bytes \<Rightarrow> generic_check_status option" where
  "p01_check cfg buffer =
     (if p01_is_buffer_length_valid cfg buffer then do {
        received_crc \<leftarrow> mem_at buffer (unat (p01_crc_offset cfg));
        calculated_crc \<leftarrow> p01_compute_crc cfg buffer;
        Some (if received_crc = calculated_crc then E2E_OK else E2E_WRONG_CRC) }
      else Some E2E_ERROR)"

section \<open>Frames with a checksum field\<close>

text \<open>
  The bytes \<open>p\<close> to \<open>q\<close> of a frame hold the encoded checksum of the bytes from \<open>s\<close> to \<open>p\<close> and
  from \<open>q\<close> on.
\<close>

definition covered :: "nat \<Rightarrow> nat \<Rightarrow> nat \<Rightarrow> bytes \<Rightarrow> bytes" where
  "covered s p q buf = drop s (take p buf) @ drop q buf"

definition crc_field :: "nat \<Rightarrow> nat \<Rightarrow> bytes \<Rightarrow> bytes" where
  "crc_field p q buf = drop p (take q buf)"

locale crc_frame =
  fixes calc :: "bytes \<Rightarrow> 'w::len word"
  assumes detects: "a \<noteq> b \<Longrightarrow> calc (xs @ a # ys) \<noteq> calc (xs @ b # ys)"
    and width: "8 dvd LENGTH('w)"
begin

abbreviation framed :: "nat \<Rightarrow> nat \<Rightarrow> bytes \<Rightarrow> bool" where
  "framed s p buf \<equiv> crc_field p (p + LENGTH('w) div 8) buf =
     be_bytes (LENGTH('w) div 8) (calc (covered s p (p + LENGTH('w) div 8) buf))"

lemma single_byte:
  assumes "framed s p buf" and "s \<le> p" and "p + LENGTH('w) div 8 \<le> length buf"
    and "s \<le> i" and "i < length buf" and "v \<noteq> buf ! i"
  shows "\<not> framed s p (buf[i := v])"
proof -
  let ?q = "p + LENGTH('w) div 8"
  have inj: "be_bytes (LENGTH('w) div 8) x \<noteq> be_bytes (LENGTH('w) div 8) y" if "x \<noteq> y" for x y :: "'w word"
    using that be_word_be_bytes [where 'a = 'w, of "LENGTH('w) div 8"] width by (metis dvd_mult_div_cancel order_refl)
  obtain as x bs where buf: "buf = as @ x # bs" and i: "length as = i"
    using id_take_nth_drop [OF assms(5)] assms(5) by (metis length_take less_imp_le min.absorb2)
  have frame: "\<not> framed s p (as @ v # bs)"
    if "crc_field p ?q (as @ v # bs) = crc_field p ?q (as @ x # bs)"
      "calc (covered s p ?q (as @ v # bs)) \<noteq> calc (covered s p ?q (as @ x # bs))"
    using inj [OF that(2)] assms(1) unfolding that(1) buf by simp
  have x: "buf ! i = x" and upd: "buf[i := v] = as @ v # bs" using i by (auto simp: buf)
  consider "i < p" | "p \<le> i" "i < ?q" | "?q \<le> i" by linarith
  then show ?thesis
  proof cases
    case 1
    have "covered s p ?q (as @ w # bs) = drop s as @ w # take (p - Suc i) bs @ drop (?q - Suc i) bs" for w
      using 1 assms(4) i by (simp add: covered_def take_Cons' drop_Cons')
    then have "calc (covered s p ?q (as @ v # bs)) \<noteq> calc (covered s p ?q (as @ x # bs))"
      using detects assms(6) x by simp
    moreover have "crc_field p ?q (as @ v # bs) = crc_field p ?q (as @ x # bs)"
      using 1 i by (simp add: crc_field_def take_Cons' drop_Cons')
    ultimately show ?thesis unfolding upd by (intro frame)
  next
    case 2
    have "crc_field p ?q (as @ w # bs) = drop p as @ w # take (?q - Suc i) bs" for w
      using 2 i by (simp add: crc_field_def take_Cons' drop_Cons')
    then have "crc_field p ?q (as @ v # bs) \<noteq> crc_field p ?q (as @ x # bs)"
      using assms(6) x by simp
    moreover have "covered s p ?q (as @ v # bs) = covered s p ?q (as @ x # bs)"
      using 2 i by (simp add: covered_def take_Cons' drop_Cons')
    ultimately show ?thesis unfolding upd using assms(1) by (simp add: buf)
  next
    case 3
    have "covered s p ?q (as @ w # bs) = (drop s (take p as) @ drop ?q as) @ w # bs" for w
      using 3 i by (simp add: covered_def take_Cons' drop_Cons')
    then have "calc (covered s p ?q (as @ v # bs)) \<noteq> calc (covered s p ?q (as @ x # bs))"
      using detects [of v x "drop s (take p as) @ drop ?q as" bs] assms(6) x by simp
    moreover have "crc_field p ?q (as @ v # bs) = crc_field p ?q (as @ x # bs)"
      using 3 i by (simp add: crc_field_def)
    ultimately show ?thesis unfolding upd by (intro frame)
  qed
qed

end


lemma read_be_field:
  "p + LENGTH('a) div 8 \<le> length buf \<Longrightarrow>
     read_be buf p = Some (be_word (crc_field p (p + LENGTH('a) div 8) buf) :: 'a::len word)"
  by (simp add: read_be_def crc_field_def drop_take)

lemma be_word_eq_iff:
  assumes "length bs = LENGTH('a) div 8" and "8 dvd LENGTH('a)"
  shows "(be_word bs :: 'a::len word) = w \<longleftrightarrow> bs = be_bytes (LENGTH('a) div 8) w"
  using assms be_bytes_of_word [OF assms(1), where 'a = 'a] be_word_be_bytes [where 'a = 'a, of "LENGTH('a) div 8" w]
  by auto

lemma length_crc_field: "p + n \<le> length buf \<Longrightarrow> length (crc_field p (p + n) buf) = n"
  by (simp add: crc_field_def)

lemma framed_write:
  assumes "write_be (w :: 'a::len word) buf p = Some buf'" and "8 dvd LENGTH('a)" and "s \<le> p"
  shows "crc_field p (p + LENGTH('a) div 8) buf' = be_bytes (LENGTH('a) div 8) w"
    and "covered s p (p + LENGTH('a) div 8) buf' = covered s p (p + LENGTH('a) div 8) buf"
    and "length buf' = length buf"
  using assms by (auto simp: write_be_def mem_write_def crc_field_def covered_def drop_take split: if_splits)

context crc_frame
begin

lemma protected_frame:
  assumes "write_be (calc (covered s p (p + LENGTH('w) div 8) buf)) buf p = Some buf'" and "s \<le> p"
  shows "framed s p buf'" and "length buf' = length buf"
    and "s \<le> i \<Longrightarrow> i < length buf \<Longrightarrow> v \<noteq> buf' ! i \<Longrightarrow> \<not> framed s p (buf'[i := v])"
proof -
  note f = framed_write [OF assms(1) width assms(2)]
  show framed: "framed s p buf'" using f(1,2) by simp
  show len: "length buf' = length buf" by (rule f(3))
  have "p + LENGTH('w) div 8 \<le> length buf'"
    using assms(1) len by (auto simp: write_be_def mem_write_def split: if_splits)
  then show "s \<le> i \<Longrightarrow> i < length buf \<Longrightarrow> v \<noteq> buf' ! i \<Longrightarrow> \<not> framed s p (buf'[i := v])"
    using single_byte [OF framed assms(2)] len by simp
qed

lemma read_crc:
  assumes "p + LENGTH('w) div 8 \<le> length buf"
  obtains w where "read_be buf p = Some w"
    and "w = calc (covered s p (p + LENGTH('w) div 8) buf) \<longleftrightarrow> framed s p buf"
proof (rule that)
  show "read_be buf p = Some (be_word (crc_field p (p + LENGTH('w) div 8) buf) :: 'w word)"
    using read_be_field assms by blast
  show "be_word (crc_field p (p + LENGTH('w) div 8) buf) = calc (covered s p (p + LENGTH('w) div 8) buf) \<longleftrightarrow> framed s p buf"
    using be_word_eq_iff [where 'a = 'w] length_crc_field [OF assms] width by simp
qed

end

section \<open>Custom profile: correctness\<close>

interpretation frame_custom: crc_frame calculate_profile_custom
proof
  show "a \<noteq> b \<Longrightarrow> calculate_profile_custom (xs @ a # ys) \<noteq> calculate_profile_custom (xs @ b # ys)" for a b xs ys
    using crc_custom.detects_byte by (simp add: calculate_profile_custom_def xor_cancel)
qed simp

lemma split4:
  assumes "off + 4 \<le> length buf"
  obtains as w x y z ds where "buf = as @ w # x # y # z # ds" and "length as = off"
proof -
  have "4 \<le> length (drop off buf)" using assms by simp
  then obtain w x y z ds where "drop off buf = w # x # y # z # ds" by (rule list_ge_4E)
  then have "buf = take off buf @ w # x # y # z # ds" using append_take_drop_id [of off buf] by simp
  then show ?thesis using that assms by simp
qed

lemma custom_write_crc_eq:
  assumes "custom_is_buffer_length_valid cfg buf"
  shows "custom_write_crc cfg buf crc = write_be crc buf (unat (pc_crc_offset cfg))"
proof -
  obtain as w x y z ds where "buf = as @ w # x # y # z # ds" and "length as = unat (pc_crc_offset cfg)"
    using assms by (auto simp: custom_is_buffer_length_valid_def elim: split4)
  then show ?thesis
    by (simp add: custom_write_crc_def list_update_append write_be_def be_bytes_def codec_simps drop_bit_drop_bit)
qed

lemma custom_read_crc_eq:
  assumes "custom_is_buffer_length_valid cfg buf"
  shows "custom_read_crc cfg buf = read_be buf (unat (pc_crc_offset cfg))"
proof -
  obtain as w x y z ds where "buf = as @ w # x # y # z # ds" and "length as = unat (pc_crc_offset cfg)"
    using assms by (auto simp: custom_is_buffer_length_valid_def elim: split4)
  then show ?thesis
    by (simp add: custom_read_crc_def read_be_def be_word_def nth_append push_bit_or or.assoc or.commute or.left_commute)
qed

lemma custom_check_frame:
  assumes "custom_is_buffer_length_valid cfg buf"
  shows "custom_check cfg buf = Some (if frame_custom.framed (unat (pc_crc_offset cfg)) (unat (pc_crc_offset cfg)) buf
     then E2E_OK else E2E_WRONG_CRC)"
proof -
  let ?o = "unat (pc_crc_offset cfg)"
  have len: "?o + 4 \<le> length buf" using assms by (simp add: custom_is_buffer_length_valid_def)
  have "(be_word (crc_field ?o (?o + 4) buf) :: u32) = w \<longleftrightarrow> crc_field ?o (?o + 4) buf = be_bytes 4 w" for w
    using be_word_eq_iff [where 'a = 32] length_crc_field [OF len] by simp
  then show ?thesis
    using assms len read_be_field [where 'a = 32, of ?o buf]
    by (simp add: custom_check_def custom_read_crc_eq custom_compute_crc_def mem_range_all covered_def)
qed

lemma custom_protect_eq:
  assumes "custom_is_buffer_length_valid cfg buf"
  shows "custom_protect cfg buf = write_be (calculate_profile_custom (drop (unat (pc_crc_offset cfg) + 4) buf)) buf (unat (pc_crc_offset cfg))"
  using assms
  by (simp add: custom_protect_def custom_write_crc_eq custom_compute_crc_def mem_range_all custom_is_buffer_length_valid_def)

text \<open>
  C30. Custom profile: a protected buffer passes the check, and no change of a single byte from the
  checksum on goes unnoticed. (Bytes in front of the checksum are not protected.)
\<close>

theorem custom_protect_check:
  assumes "custom_is_buffer_length_valid cfg buf"
  shows "\<exists>buf'. custom_protect cfg buf = Some buf' \<and> length buf' = length buf \<and> custom_check cfg buf' = Some E2E_OK \<and>
     (\<forall>i v. unat (pc_crc_offset cfg) \<le> i \<and> i < length buf \<and> v \<noteq> buf' ! i \<longrightarrow>
        custom_check cfg (buf'[i := v]) = Some E2E_WRONG_CRC)"
proof -
  let ?o = "unat (pc_crc_offset cfg)"
  have len: "?o + 4 \<le> length buf" using assms by (simp add: custom_is_buffer_length_valid_def)
  obtain buf' where w: "write_be (calculate_profile_custom (drop (?o + 4) buf)) buf ?o = Some buf'"
    using len by (simp add: write_be_def)
  then have "write_be (calculate_profile_custom (covered ?o ?o (?o + LENGTH(32) div 8) buf)) buf ?o = Some buf'"
    by (simp add: covered_def)
  note f = frame_custom.protected_frame [OF this order_refl]
  have valid: "custom_is_buffer_length_valid cfg b" if "length b = length buf" for b
    using assms that by (simp add: custom_is_buffer_length_valid_def)
  have "custom_check cfg (buf'[i := v]) = Some E2E_WRONG_CRC" if "?o \<le> i" "i < length buf" "v \<noteq> buf' ! i" for i v
    using f(3) [OF that] custom_check_frame [OF valid, of "buf'[i := v]"] f(2) by simp
  moreover have "custom_check cfg buf' = Some E2E_OK"
    using f(1) custom_check_frame [OF valid [OF f(2)]] by simp
  ultimately show ?thesis using w f(2) custom_protect_eq [OF assms] by auto
qed

theorem custom_protect_check_witness:
  "\<exists>buf'. custom_protect \<lparr>pc_crc_offset = 0\<rparr> [0, 0, 0, 0, 1, 2] = Some buf' \<and> custom_check \<lparr>pc_crc_offset = 0\<rparr> buf' = Some E2E_OK"
proof -
  have "custom_is_buffer_length_valid \<lparr>pc_crc_offset = 0\<rparr> [0, 0, 0, 0, 1, 2]"
    by (simp add: custom_is_buffer_length_valid_def)
  from custom_protect_check [OF this] show ?thesis by blast
qed

section \<open>Profile 01: correctness\<close>

definition p01_start :: "p01_config \<Rightarrow> byte" where
  "p01_start cfg = (let msb = ucast (drop_bit 8 (p01_data_id cfg)); lsb = ucast (p01_data_id cfg) in
     (case p01_mode cfg of
         E2E_P01_DATAID_BOTH \<Rightarrow> calculate_profile_01 [msb] (calculate_profile_01 [lsb] 0xFF)
       | E2E_P01_DATAID_LOW \<Rightarrow> calculate_profile_01 [lsb] 0xFF
       | E2E_P01_DATAID_ALT \<Rightarrow> 0xFF
       | E2E_P01_DATAID_NIBBLE \<Rightarrow> calculate_profile_01 [0] (calculate_profile_01 [lsb] 0xFF)))"

definition p01_calc :: "p01_config \<Rightarrow> bytes \<Rightarrow> byte" where
  "p01_calc cfg view = calculate_profile_01 view (p01_start cfg) XOR 0xFF"

interpretation frame_p01: crc_frame "p01_calc cfg" for cfg
proof
  show "a \<noteq> b \<Longrightarrow> p01_calc cfg (xs @ a # ys) \<noteq> p01_calc cfg (xs @ b # ys)" for a b xs ys
    using crc01.detects_byte by (simp add: p01_calc_def calculate_profile_01_def xor_cancel)
qed simp

lemma calculate_profile_01_append:
  "calculate_profile_01 (xs @ ys) s = calculate_profile_01 ys (calculate_profile_01 xs s)"
  by (simp add: calculate_profile_01_def xor.assoc)

lemma p01_compute_crc_eq:
  assumes "p01_crc_offset cfg = w" and "unat w + 1 < unat (p01_data_length cfg) div 8" and "unat w < length buf"
  shows "p01_compute_crc cfg buf = Some (p01_calc cfg (covered 0 (unat w) (unat w + 1) buf))"
proof -
  have 1: "calculate_profile_01 [] s = s" for s by (simp add: calculate_profile_01_def xor.assoc)
  have z: "1 \<le> w \<longleftrightarrow> unat w \<noteq> 0" by (simp add: word_le_nat_alt Suc_le_eq)
  have "int (unat w) = uint w" by simp
  then have "uint w < int (unat (p01_data_length cfg) div 8) - 1" using assms(2) by linarith
  then show ?thesis
    unfolding p01_calc_def covered_def calculate_profile_01_append
    using assms by (simp add: p01_compute_crc_def p01_start_def z mem_range_def 1 Let_def)
qed

lemma p01_check_frame:
  assumes "p01_is_buffer_length_valid cfg buf" and "unat (p01_crc_offset cfg) + 1 < unat (p01_data_length cfg) div 8"
  shows "p01_check cfg buf =
     Some (if frame_p01.framed cfg 0 (unat (p01_crc_offset cfg)) buf then E2E_OK else E2E_WRONG_CRC)"
proof -
  have len: "unat (p01_crc_offset cfg) < length buf"
    using assms by (simp add: p01_is_buffer_length_valid_def)
  have "crc_field (unat (p01_crc_offset cfg)) (Suc (unat (p01_crc_offset cfg))) buf = [buf ! unat (p01_crc_offset cfg)]"
    using len by (simp add: crc_field_def drop_take take_Suc_conv_app_nth)
  then show ?thesis
    using assms(1) len p01_compute_crc_eq [OF refl assms(2) len] by (simp add: p01_check_def be_bytes_def)
qed

lemma p01_writes:
  assumes "unat (p01_counter_offset cfg) div 8 < length buf" and "unat (p01_data_id_nibble_offset cfg) div 8 < length buf"
  obtains b1 b2 where "p01_write_counter cfg counter buf = Some b1" and "p01_write_data_id cfg b1 = Some b2"
    and "length b2 = length buf"
proof -
  obtain b1 where b1: "p01_write_counter cfg counter buf = Some b1" "length b1 = length buf"
    using assms(1) by (simp add: p01_write_counter_def Let_def)
  moreover have "\<exists>b2. p01_write_data_id cfg b1 = Some b2 \<and> length b2 = length buf"
    using assms(2) b1(2) by (cases "p01_mode cfg = E2E_P01_DATAID_NIBBLE") (auto simp: p01_write_data_id_def Let_def)
  ultimately show ?thesis using that by blast
qed



text \<open>
  The length check of profile 01 admits a checksum position right behind the buffer
  (\<open>crc_offset_ <= size\<close>): protecting and checking such a buffer access memory outside it.
\<close>

lemma p01_length_check_off_by_one:
  assumes "unat (p01_crc_offset cfg) = length buf" and "unat (p01_data_length cfg) div 8 < length buf"
    and "unat (p01_counter_offset cfg) div 8 < length buf" and "unat (p01_data_id_nibble_offset cfg) div 8 < length buf"
  shows "p01_is_buffer_length_valid cfg buf \<and> p01_check cfg buf = None \<and> p01_protect cfg counter buf = None"
proof -
  have "p01_is_buffer_length_valid cfg buf" using assms by (simp add: p01_is_buffer_length_valid_def)
  moreover obtain b1 b2 where "p01_write_counter cfg counter buf = Some b1" "p01_write_data_id cfg b1 = Some b2"
      "length b2 = length buf"
    by (rule p01_writes [OF assms(3,4)])
  ultimately show ?thesis
    using assms(1) by (simp add: p01_check_def p01_protect_def p01_write_crc_def mem_at_def mem_put_def bind_eq_None_conv)
qed

lemma p01_length_check_off_by_one_witness:
  "p01_check \<lparr>p01_crc_offset = 4, p01_data_id = 0x123, p01_mode = E2E_P01_DATAID_LOW, p01_data_length = 24,
        p01_counter_offset = 8, p01_data_id_nibble_offset = 12\<rparr> [1, 2, 3, 4] = None"
  using p01_length_check_off_by_one [of "\<lparr>p01_crc_offset = 4, p01_data_id = 0x123, p01_mode = E2E_P01_DATAID_LOW,
        p01_data_length = 24, p01_counter_offset = 8, p01_data_id_nibble_offset = 12\<rparr>" "[1, 2, 3, 4]" 0] by simp

end
