(* ===== verification/E2e_Counter.thy ===== *)
theory E2e_Counter
  imports E2e
begin

text \<open>
  Model of the E2E profiles 04, 05 and 07 (\<open>e2e/profile/profile04\<close>, \<open>profile05\<close>,
  \<open>profile07\<close>): checksum, data id, length and a counter per service instance. The
  \<open>std::map\<close>s of counters are maps from instances. \<^term>\<open>None\<close> is an access outside
  the buffer.
\<close>

section \<open>Profile 04\<close>

record p04_config =
  p04_data_id :: u32
  p04_offset :: nat
  p04_min_data_length :: nat
  p04_max_data_length :: nat
  p04_max_delta_counter :: u16

type_synonym p04_counters = "u16 \<Rightarrow> u16 option"

definition p04_compute_crc :: "p04_config \<Rightarrow> bytes \<Rightarrow> u32 option" where
  "p04_compute_crc cfg buffer = do {
     its_before \<leftarrow> mem_sub buffer 0 (p04_offset cfg + 8);
     let computed_crc = calculate_profile_04 its_before 0;
     if p04_offset cfg + 12 < length buffer then do {
       its_after \<leftarrow> mem_range buffer (p04_offset cfg + 12) (length buffer);
       Some (calculate_profile_04 its_after computed_crc) }
     else Some computed_crc }"

definition p04_verify_input :: "p04_config \<Rightarrow> bytes \<Rightarrow> bool" where
  "p04_verify_input cfg buffer \<longleftrightarrow>
     p04_min_data_length cfg \<le> length buffer \<and> length buffer \<le> p04_max_data_length cfg"

definition p04_get_counter :: "u16 \<Rightarrow> p04_counters \<Rightarrow> u16" where
  "p04_get_counter inst counters = (case counters inst of None \<Rightarrow> 0 | Some c \<Rightarrow> c)"

definition p04_increment_counter :: "u16 \<Rightarrow> p04_counters \<Rightarrow> p04_counters" where
  "p04_increment_counter inst counters =
     (case counters inst of None \<Rightarrow> counters(inst \<mapsto> 1) | Some c \<Rightarrow> counters(inst \<mapsto> c + 1))"

definition p04_protect :: "p04_config \<Rightarrow> u16 \<Rightarrow> p04_counters \<Rightarrow> bytes \<Rightarrow> (bytes \<times> p04_counters) option" where
  "p04_protect cfg inst counters buffer =
     (if 0xff < inst then Some (buffer, counters)
      else if p04_verify_input cfg buffer then do {
        buffer \<leftarrow> write_be (of_nat (length buffer) :: u16) buffer (p04_offset cfg);
        buffer \<leftarrow> write_be (p04_get_counter inst counters) buffer (p04_offset cfg + 2);
        let its_data_id = push_bit 24 (ucast inst :: u32) OR p04_data_id cfg;
        buffer \<leftarrow> write_be its_data_id buffer (p04_offset cfg + 4);
        its_crc \<leftarrow> p04_compute_crc cfg buffer;
        buffer \<leftarrow> write_be its_crc buffer (p04_offset cfg + 8);
        Some (buffer, p04_increment_counter inst counters) }
      else Some (buffer, counters))"

definition p04_verify_counter :: "p04_config \<Rightarrow> u16 \<Rightarrow> u16 \<Rightarrow> p04_counters \<Rightarrow> bool \<times> p04_counters" where
  "p04_verify_counter cfg inst received_counter counters =
     (case counters inst of
        Some its_counter \<Rightarrow>
          (let its_delta = (if its_counter < received_counter then received_counter - its_counter
                            else 0xffff - its_counter + received_counter)
           in (its_delta \<le> p04_max_delta_counter cfg, counters))
      | None \<Rightarrow> (0 \<le> p04_max_delta_counter cfg, counters(inst \<mapsto> received_counter)))"

definition p04_check :: "p04_config \<Rightarrow> u16 \<Rightarrow> p04_counters \<Rightarrow> bytes \<Rightarrow> (generic_check_status \<times> p04_counters) option" where
  "p04_check cfg inst counters buffer =
     (if 0xff < inst then Some (E2E_ERROR, counters)
      else if p04_verify_input cfg buffer then do {
        its_received_length \<leftarrow> read_be buffer (p04_offset cfg);
        its_received_counter \<leftarrow> read_be buffer (p04_offset cfg + 2);
        its_received_data_id \<leftarrow> read_be buffer (p04_offset cfg + 4);
        its_received_crc \<leftarrow> read_be buffer (p04_offset cfg + 8);
        its_crc \<leftarrow> p04_compute_crc cfg buffer;
        if its_received_crc \<noteq> its_crc then Some (E2E_WRONG_CRC, counters)
        else if its_received_data_id = push_bit 24 (ucast inst :: u32) OR p04_data_id cfg \<and>
            unat (its_received_length :: u16) = length buffer
        then (case p04_verify_counter cfg inst its_received_counter counters of
                (ok, counters) \<Rightarrow> Some (if ok then E2E_OK else E2E_ERROR, counters))
        else Some (E2E_ERROR, counters) }
      else Some (E2E_ERROR, counters))"

section \<open>Profile 05\<close>

record p05_config =
  p05_data_id :: u32
  p05_data_length :: u16
  p05_offset :: nat
  p05_max_delta_counter :: u16

type_synonym p05_counters = "u16 \<Rightarrow> byte option"

definition p05_compute_crc :: "p05_config \<Rightarrow> bytes \<Rightarrow> u16 option" where
  "p05_compute_crc cfg buffer = do {
     its_before \<leftarrow> mem_sub buffer 0 (p05_offset cfg);
     let computed_crc = calculate_profile_05 its_before 0xFFFF;
     computed_crc \<leftarrow> (if p05_offset cfg + 2 < length buffer then do {
         its_after \<leftarrow> mem_range buffer (p05_offset cfg + 2) (length buffer);
         Some (calculate_profile_05 its_after computed_crc) }
       else Some computed_crc);
     let dataId = [ucast (p05_data_id cfg AND 0xFF), ucast (drop_bit 8 (p05_data_id cfg) AND 0xFF)];
     Some (calculate_profile_05 dataId computed_crc) }"

definition p05_is_buffer_length_valid :: "p05_config \<Rightarrow> bytes \<Rightarrow> bool" where
  "p05_is_buffer_length_valid cfg buffer \<longleftrightarrow> unat (p05_data_length cfg) div 8 + 1 \<le> length buffer"

definition p05_write_counter :: "p05_config \<Rightarrow> bytes \<Rightarrow> byte \<Rightarrow> bytes option" where
  "p05_write_counter cfg buffer data = mem_put buffer (p05_offset cfg + 2) data"

definition p05_get_counter :: "u16 \<Rightarrow> p05_counters \<Rightarrow> byte" where
  "p05_get_counter inst counters = (case counters inst of None \<Rightarrow> 0 | Some c \<Rightarrow> c)"

definition p05_increment_counter :: "u16 \<Rightarrow> p05_counters \<Rightarrow> p05_counters" where
  "p05_increment_counter inst counters =
     (case counters inst of None \<Rightarrow> counters(inst \<mapsto> 1) | Some c \<Rightarrow> counters(inst \<mapsto> c + 1))"

definition p05_protect :: "p05_config \<Rightarrow> u16 \<Rightarrow> p05_counters \<Rightarrow> bytes \<Rightarrow> (bytes \<times> p05_counters) option" where
  "p05_protect cfg inst counters buffer =
     (if 0xff < inst then Some (buffer, counters)
      else if p05_is_buffer_length_valid cfg buffer then do {
        buffer \<leftarrow> p05_write_counter cfg buffer (p05_get_counter inst counters);
        its_crc \<leftarrow> p05_compute_crc cfg buffer;
        buffer \<leftarrow> write_be its_crc buffer (p05_offset cfg);
        Some (buffer, p05_increment_counter inst counters) }
      else Some (buffer, counters))"

text \<open>The delta has eight bits, the configured maximum sixteen.\<close>

definition p05_verify_counter :: "p05_config \<Rightarrow> u16 \<Rightarrow> byte \<Rightarrow> p05_counters \<Rightarrow> bool \<times> p05_counters" where
  "p05_verify_counter cfg inst received_counter counters =
     (case counters inst of
        Some its_counter \<Rightarrow>
          (let its_delta = (if its_counter < received_counter then received_counter - its_counter
                            else 0xff - its_counter + received_counter)
           in (ucast its_delta \<le> p05_max_delta_counter cfg, counters))
      | None \<Rightarrow> (0 \<le> p05_max_delta_counter cfg, counters(inst \<mapsto> received_counter)))"

definition p05_check :: "p05_config \<Rightarrow> u16 \<Rightarrow> p05_counters \<Rightarrow> bytes \<Rightarrow> (generic_check_status \<times> p05_counters) option" where
  "p05_check cfg inst counters buffer =
     (if 0xff < inst then Some (E2E_ERROR, counters)
      else if p05_is_buffer_length_valid cfg buffer then do {
        its_received_counter \<leftarrow> mem_at buffer (p05_offset cfg + 2);
        its_received_crc \<leftarrow> read_be buffer (p05_offset cfg);
        its_crc \<leftarrow> p05_compute_crc cfg buffer;
        if its_received_crc \<noteq> its_crc then Some (E2E_WRONG_CRC, counters)
        else (case p05_verify_counter cfg inst its_received_counter counters of
                (ok, counters) \<Rightarrow> Some (if ok then E2E_OK else E2E_ERROR, counters)) }
      else Some (E2E_ERROR, counters))"

section \<open>Profile 07\<close>

record p07_config =
  p07_data_id :: u32
  p07_offset :: nat
  p07_min_data_length :: nat
  p07_max_data_length :: nat
  p07_max_delta_counter :: u32

type_synonym p07_counters = "u16 \<Rightarrow> u32 option"

abbreviation (input) PROFILE_07_SIZE_OFFSET :: nat where "PROFILE_07_SIZE_OFFSET \<equiv> 8"
abbreviation (input) PROFILE_07_COUNTER_OFFSET :: nat where "PROFILE_07_COUNTER_OFFSET \<equiv> 12"
abbreviation (input) PROFILE_07_DATAID_OFFSET :: nat where "PROFILE_07_DATAID_OFFSET \<equiv> 16"
abbreviation (input) PROFILE_07_CRC_OFFSET :: nat where "PROFILE_07_CRC_OFFSET \<equiv> 0"

definition p07_compute_crc :: "p07_config \<Rightarrow> bytes \<Rightarrow> u64 option" where
  "p07_compute_crc cfg buffer = do {
     its_before \<leftarrow> mem_sub buffer 0 (p07_offset cfg);
     let computed_crc = calculate_profile_07 its_before 0;
     if p07_offset cfg + 8 < length buffer then do {
       its_after \<leftarrow> mem_range buffer (p07_offset cfg + 8) (length buffer);
       Some (calculate_profile_07 its_after computed_crc) }
     else Some computed_crc }"

definition p07_verify_input :: "p07_config \<Rightarrow> bytes \<Rightarrow> bool" where
  "p07_verify_input cfg buffer \<longleftrightarrow>
     p07_min_data_length cfg \<le> length buffer \<and> length buffer \<le> p07_max_data_length cfg"

definition p07_get_counter :: "u16 \<Rightarrow> p07_counters \<Rightarrow> u32" where
  "p07_get_counter inst counters = (case counters inst of None \<Rightarrow> 0 | Some c \<Rightarrow> c)"

definition p07_increment_counter :: "u16 \<Rightarrow> p07_counters \<Rightarrow> p07_counters" where
  "p07_increment_counter inst counters =
     (case counters inst of None \<Rightarrow> counters(inst \<mapsto> 1) | Some c \<Rightarrow> counters(inst \<mapsto> c + 1))"

text \<open>The length is cut to sixteen bits before it is written as a 32 bit value.\<close>

definition p07_protect :: "p07_config \<Rightarrow> u16 \<Rightarrow> p07_counters \<Rightarrow> bytes \<Rightarrow> (bytes \<times> p07_counters) option" where
  "p07_protect cfg inst counters buffer =
     (if p07_verify_input cfg buffer then do {
        buffer \<leftarrow> write_be (ucast (of_nat (length buffer) :: u16) :: u32) buffer (p07_offset cfg + PROFILE_07_SIZE_OFFSET);
        buffer \<leftarrow> write_be (p07_get_counter inst counters) buffer (p07_offset cfg + PROFILE_07_COUNTER_OFFSET);
        buffer \<leftarrow> write_be (p07_data_id cfg) buffer (p07_offset cfg + PROFILE_07_DATAID_OFFSET);
        its_crc \<leftarrow> p07_compute_crc cfg buffer;
        buffer \<leftarrow> write_be its_crc buffer (p07_offset cfg + PROFILE_07_CRC_OFFSET);
        Some (buffer, p07_increment_counter inst counters) }
      else Some (buffer, counters))"

definition p07_verify_counter :: "p07_config \<Rightarrow> u16 \<Rightarrow> u32 \<Rightarrow> p07_counters \<Rightarrow> bool \<times> p07_counters" where
  "p07_verify_counter cfg inst received_counter counters =
     (case counters inst of
        Some its_counter \<Rightarrow>
          (let its_delta = (if its_counter < received_counter then received_counter - its_counter
                            else 0xffffffff - its_counter + received_counter)
           in (its_delta \<le> p07_max_delta_counter cfg, counters))
      | None \<Rightarrow> (0 \<le> p07_max_delta_counter cfg, counters(inst \<mapsto> received_counter)))"

definition p07_check :: "p07_config \<Rightarrow> u16 \<Rightarrow> p07_counters \<Rightarrow> bytes \<Rightarrow> (generic_check_status \<times> p07_counters) option" where
  "p07_check cfg inst counters buffer =
     (if p07_verify_input cfg buffer then do {
        its_received_length \<leftarrow> read_be buffer (p07_offset cfg + PROFILE_07_SIZE_OFFSET);
        its_received_counter \<leftarrow> read_be buffer (p07_offset cfg + PROFILE_07_COUNTER_OFFSET);
        its_received_data_id \<leftarrow> read_be buffer (p07_offset cfg + PROFILE_07_DATAID_OFFSET);
        its_received_crc \<leftarrow> read_be buffer (p07_offset cfg + PROFILE_07_CRC_OFFSET);
        its_crc \<leftarrow> p07_compute_crc cfg buffer;
        if its_received_crc \<noteq> its_crc then Some (E2E_WRONG_CRC, counters)
        else if its_received_data_id = p07_data_id cfg \<and> unat (its_received_length :: u32) = length buffer
        then (case p07_verify_counter cfg inst its_received_counter counters of
                (ok, counters) \<Rightarrow> Some (if ok then E2E_OK else E2E_ERROR, counters))
        else Some (E2E_ERROR, counters) }
      else Some (E2E_ERROR, counters))"

end
