(* ===== verification/E2e_Stream.thy ===== *)
theory E2e_Stream
  imports E2e_Counter
begin

text \<open>
  Correctness of the E2E profiles 04, 05 and 07: what a receiver reports for a stream of protected
  messages, and that a change of any single byte of a protected message is reported.
\<close>

section \<open>Streams of protected messages\<close>

text \<open>
  A sender protects messages one after the other, the receiver checks them in that order; the
  results of the checks are collected.
\<close>

fun exchange_all ::
    "('p \<Rightarrow> bytes \<Rightarrow> (bytes \<times> 'p) option) \<Rightarrow> ('c \<Rightarrow> bytes \<Rightarrow> (generic_check_status \<times> 'c) option) \<Rightarrow>
       'p \<Rightarrow> 'c \<Rightarrow> bytes list \<Rightarrow> generic_check_status list option" where
  "exchange_all protect check p c [] = Some []"
| "exchange_all protect check p c (b # bs) = do {
     (b, p) \<leftarrow> protect p b;
     (status, c) \<leftarrow> check c b;
     rest \<leftarrow> exchange_all protect check p c bs;
     Some (status # rest) }"

text \<open>
  The verdict of the code on message number \<open>j\<close> of a stream, for a counter of \<open>w\<close> bits: it compares the counter with
  that of the first message. When the counter is back at zero, the distance is taken as the largest number.
\<close>

definition counter_accepted :: "nat \<Rightarrow> nat \<Rightarrow> nat \<Rightarrow> bool" where
  "counter_accepted w delta j \<longleftrightarrow> j = 0 \<or> (if j mod 2 ^ w = 0 then 2 ^ w - 1 else j mod 2 ^ w) \<le> delta"

text \<open>
  The check as \<open>documentation/vsomeipConfiguration.md\<close> defines \<open>max_delta_counter\<close>: the maximum allowed difference
  between the counter of the current message and that of the previous valid message. Everything but the counter is
  checked as in the code, by a checker that has not seen a message yet.
\<close>

definition documented_check ::
    "((u16 \<Rightarrow> 'w::len word option) \<Rightarrow> bytes \<Rightarrow> (generic_check_status \<times> (u16 \<Rightarrow> 'w word option)) option) \<Rightarrow> 'w word \<Rightarrow> u16 \<Rightarrow>
       (u16 \<Rightarrow> 'w word option) \<Rightarrow> bytes \<Rightarrow> (generic_check_status \<times> (u16 \<Rightarrow> 'w word option)) option" where
  "documented_check check max_delta_counter inst valid_counters buf = do {
     (status, c) \<leftarrow> check Map.empty buf;
     (case (c inst, valid_counters inst) of
        (Some n, Some previous) \<Rightarrow>
          Some (if status \<noteq> E2E_OK then (status, valid_counters)
                else if n - previous \<le> max_delta_counter then (E2E_OK, valid_counters(inst \<mapsto> n))
                else (E2E_ERROR, valid_counters))
      | (Some n, None) \<Rightarrow> Some (status, if status = E2E_OK then valid_counters(inst \<mapsto> n) else valid_counters)
      | (None, _) \<Rightarrow> Some (status, valid_counters)) }"

section \<open>Message counters\<close>

text \<open>
  What the three profiles share of their counters: the protector sends the number it has stored and
  adds one, the checker stores the first number it sees and compares every later one with it.
\<close>

locale message_counter =
  fixes get :: "u16 \<Rightarrow> (u16 \<Rightarrow> 'w::len word option) \<Rightarrow> 'w word"
    and inc :: "u16 \<Rightarrow> (u16 \<Rightarrow> 'w word option) \<Rightarrow> u16 \<Rightarrow> 'w word option"
    and verify :: "u16 \<Rightarrow> 'w word \<Rightarrow> (u16 \<Rightarrow> 'w word option) \<Rightarrow> bool \<times> (u16 \<Rightarrow> 'w word option)"
    and delta :: nat
  assumes get: "get inst c = (case c inst of None \<Rightarrow> 0 | Some n \<Rightarrow> n)"
    and inc: "inc inst c = c(inst \<mapsto> get inst c + 1)"
    and verify_first: "c inst = None \<Longrightarrow> verify inst n c = (True, c(inst \<mapsto> n))"
    and verify_later: "c inst = Some 0 \<Longrightarrow>
      verify inst n c = ((if n = 0 then 2 ^ LENGTH('w) - 1 else unat n) \<le> delta, c)"
begin

text \<open>The counters of the sender and of the receiver after \<open>j\<close> messages.\<close>

definition sent :: "u16 \<Rightarrow> nat \<Rightarrow> (u16 \<Rightarrow> 'w word option) \<Rightarrow> bool" where
  "sent inst j c \<longleftrightarrow> c inst = (if j = 0 then None else Some (of_nat j))"

definition seen :: "u16 \<Rightarrow> nat \<Rightarrow> (u16 \<Rightarrow> 'w word option) \<Rightarrow> bool" where
  "seen inst j c \<longleftrightarrow> c inst = (if j = 0 then None else Some 0)"

lemma sent_inc: "sent inst j p \<Longrightarrow> sent inst (Suc j) (inc inst p)"
  by (auto simp: sent_def inc get add.commute split: if_splits)

lemma verify_seen:
  assumes "sent inst j p" and "seen inst j c"
  obtains c' where "verify inst (get inst p) c = (counter_accepted LENGTH('w) delta j, c')" and "seen inst (Suc j) c'"
proof (cases "j = 0")
  case True
  then have "get inst p = 0" "c inst = None" using assms by (simp_all add: sent_def seen_def get)
  then show ?thesis
    using that [of "c(inst \<mapsto> 0)"] True verify_first [of c inst 0] by (simp add: seen_def counter_accepted_def)
next
  case False
  have u: "unat (of_nat j :: 'w word) = j mod 2 ^ LENGTH('w)" by (simp add: unat_of_nat take_bit_eq_mod)
  then have "(of_nat j :: 'w word) = 0 \<longleftrightarrow> j mod 2 ^ LENGTH('w) = 0" by (metis unat_eq_zero)
  moreover have "get inst p = of_nat j" "c inst = Some 0" using assms False by (simp_all add: sent_def seen_def get)
  ultimately show ?thesis
    using that [of c] verify_later [of c inst "of_nat j"] False u by (simp add: seen_def counter_accepted_def del: unat_of_nat)
qed

end

text \<open>
  A profile: the protector gives a message with the current number, and the verdict on such a message is that of its counter.
\<close>

locale e2e_stream = message_counter get inc verify delta
  for get :: "u16 \<Rightarrow> (u16 \<Rightarrow> 'w::len word option) \<Rightarrow> 'w word" and inc verify delta +
  fixes protect :: "u16 \<Rightarrow> (u16 \<Rightarrow> 'w word option) \<Rightarrow> bytes \<Rightarrow> (bytes \<times> (u16 \<Rightarrow> 'w word option)) option"
    and check :: "u16 \<Rightarrow> (u16 \<Rightarrow> 'w word option) \<Rightarrow> bytes \<Rightarrow> (generic_check_status \<times> (u16 \<Rightarrow> 'w word option)) option"
    and valid :: "u16 \<Rightarrow> bytes \<Rightarrow> bool"
  assumes exchange: "valid inst b \<Longrightarrow> \<exists>b'. protect inst p b = Some (b', inc inst p) \<and>
     (\<forall>c. check inst c b' = (case verify inst (get inst p) c of (ok, c') \<Rightarrow> Some (if ok then E2E_OK else E2E_ERROR, c')))"
begin

lemma stream_from:
  "list_all (valid inst) bs \<Longrightarrow> sent inst j p \<Longrightarrow> seen inst j c \<Longrightarrow>
     exchange_all (protect inst) (check inst) p c bs =
       Some (map (\<lambda>i. if counter_accepted LENGTH('w) delta i then E2E_OK else E2E_ERROR) [j..<j + length bs])"
proof (induction bs arbitrary: j p c)
  case (Cons b bs)
  obtain c' where c': "verify inst (get inst p) c = (counter_accepted LENGTH('w) delta j, c')" "seen inst (Suc j) c'"
    using verify_seen [OF Cons.prems(2,3)] .
  obtain b' where "protect inst p b = Some (b', inc inst p)"
      "check inst c b' = Some (if counter_accepted LENGTH('w) delta j then E2E_OK else E2E_ERROR, c')"
    using exchange [of inst b p] Cons.prems(1) c'(1) by auto
  moreover have "[j..<j + length (b # bs)] = j # [Suc j..<Suc j + length bs]"
    by (simp add: upt_conv_Cons del: upt_Suc)
  ultimately show ?case using Cons.IH [OF _ sent_inc [OF Cons.prems(2)] c'(2)] Cons.prems(1) by (simp del: upt_Suc)
qed simp

lemma documented_step:
  assumes "valid inst b" and "0 < max_delta" and "sent inst j p" and "c inst = (if j = 0 then None else Some (of_nat (j - 1)))"
  shows "\<exists>b'. protect inst p b = Some (b', inc inst p) \<and>
    documented_check (check inst) max_delta inst c b' = Some (E2E_OK, c(inst \<mapsto> of_nat j))"
proof -
  have n: "get inst p = of_nat j" using assms(3) by (simp add: sent_def get)
  have "verify inst (of_nat j) Map.empty = (True, [inst \<mapsto> of_nat j])" by (rule verify_first) simp
  then obtain b' where b': "protect inst p b = Some (b', inc inst p)" "check inst Map.empty b' = Some (E2E_OK, [inst \<mapsto> of_nat j])"
    using exchange [OF assms(1), of p] n by force
  have "(of_nat j :: 'w word) - of_nat (j - 1) = 1" if "j \<noteq> 0" using that by (cases j) simp_all
  moreover have "1 \<le> max_delta" using assms(2) by (simp add: word_le_nat_alt word_less_nat_alt)
  ultimately show ?thesis using b' assms(4) by (auto simp: documented_check_def)
qed

lemma documented_from:
  "list_all (valid inst) bs \<Longrightarrow> 0 < max_delta \<Longrightarrow> sent inst j p \<Longrightarrow> c inst = (if j = 0 then None else Some (of_nat (j - 1))) \<Longrightarrow>
     exchange_all (protect inst) (documented_check (check inst) max_delta inst) p c bs = Some (replicate (length bs) E2E_OK)"
proof (induction bs arbitrary: j p c)
  case (Cons b bs)
  obtain b' where "protect inst p b = Some (b', inc inst p)"
      "documented_check (check inst) max_delta inst c b' = Some (E2E_OK, c(inst \<mapsto> of_nat j))"
    using documented_step [of inst b max_delta j p c] Cons.prems by auto
  then show ?case
    using Cons.IH [OF _ Cons.prems(2) sent_inc [OF Cons.prems(3)], of "c(inst \<mapsto> of_nat j)"] Cons.prems(1)
      fun_upd_same [of c inst "Some (of_nat j)"]
    by (simp del: fun_upd_apply)
qed simp

text \<open>In a stream from the start: the verdicts of the code, and those of the documented check.\<close>

lemma stream:
  assumes "list_all (valid inst) bs" and "p inst = None" and "c inst = None"
  shows "exchange_all (protect inst) (check inst) p c bs =
      Some (map (\<lambda>j. if counter_accepted LENGTH('w) delta j then E2E_OK else E2E_ERROR) [0..<length bs])"
    and "delta = 2 ^ LENGTH('w) - 1 \<Longrightarrow> exchange_all (protect inst) (check inst) p c bs = Some (replicate (length bs) E2E_OK)"
    and "0 < max_delta \<Longrightarrow>
      exchange_all (protect inst) (documented_check (check inst) max_delta inst) p c bs = Some (replicate (length bs) E2E_OK)"
proof -
  show code: "exchange_all (protect inst) (check inst) p c bs =
      Some (map (\<lambda>j. if counter_accepted LENGTH('w) delta j then E2E_OK else E2E_ERROR) [0..<length bs])"
    using stream_from [of inst bs 0 p c] assms by (simp add: sent_def seen_def)
  have "j mod 2 ^ LENGTH('w) \<le> 2 ^ LENGTH('w) - 1" for j :: nat
  proof -
    have "j mod 2 ^ LENGTH('w) < 2 ^ LENGTH('w)" by simp
    then show ?thesis by linarith
  qed
  then have "counter_accepted LENGTH('w) (2 ^ LENGTH('w) - 1) j" for j by (auto simp: counter_accepted_def)
  then show "exchange_all (protect inst) (check inst) p c bs = Some (replicate (length bs) E2E_OK)"
    if "delta = 2 ^ LENGTH('w) - 1" using code that by (simp add: map_replicate_const)
  show "0 < max_delta \<Longrightarrow>
      exchange_all (protect inst) (documented_check (check inst) max_delta inst) p c bs = Some (replicate (length bs) E2E_OK)"
    using documented_from [of inst bs max_delta 0 p c] assms by (simp add: sent_def)
qed

end

interpretation counter_p04: message_counter p04_get_counter p04_increment_counter "p04_verify_counter cfg"
    "unat (p04_max_delta_counter cfg)"
  for cfg
  by unfold_locales
    (auto simp: p04_get_counter_def p04_increment_counter_def p04_verify_counter_def word_le_nat_alt word_gt_0 split: option.splits)

interpretation counter_p05: message_counter p05_get_counter p05_increment_counter "p05_verify_counter cfg"
    "unat (p05_max_delta_counter cfg)"
  for cfg
  by unfold_locales
    (auto simp: p05_get_counter_def p05_increment_counter_def p05_verify_counter_def word_le_nat_alt word_gt_0 unat_ucast_up
      split: option.splits)

interpretation counter_p07: message_counter p07_get_counter p07_increment_counter "p07_verify_counter cfg"
    "unat (p07_max_delta_counter cfg)"
  for cfg
  by unfold_locales
    (auto simp: p07_get_counter_def p07_increment_counter_def p07_verify_counter_def word_le_nat_alt word_gt_0 split: option.splits)

section \<open>Profile 04: correctness\<close>

definition p04_valid :: "p04_config \<Rightarrow> u16 \<Rightarrow> bytes \<Rightarrow> bool" where
  "p04_valid cfg inst buf \<longleftrightarrow> inst \<le> 0xff \<and> p04_verify_input cfg buf \<and> p04_offset cfg + 12 \<le> length buf \<and> length buf < 2 ^ 16"

lemma calculate_profile_04_append:
  "calculate_profile_04 (xs @ ys) s = calculate_profile_04 ys (calculate_profile_04 xs s)"
  by (simp add: calculate_profile_04_def xor.assoc)

lemma calculate_04_Nil [simp]: "calculate_profile_04 [] s = s"
  by (simp add: calculate_profile_04_def xor.assoc)

abbreviation p04_calc :: "bytes \<Rightarrow> u32" where
  "p04_calc view \<equiv> calculate_profile_04 view 0"

interpretation frame_p04: crc_frame p04_calc
proof
  show "a \<noteq> b \<Longrightarrow> p04_calc (xs @ a # ys) \<noteq> p04_calc (xs @ b # ys)" for a b xs ys
    using crc04.detects_byte by (simp add: calculate_profile_04_def xor_cancel)
qed simp

lemma p04_compute_crc_eq:
  assumes "p04_offset cfg + 8 + LENGTH(32) div 8 \<le> length buf"
  shows "p04_compute_crc cfg buf = Some (p04_calc (covered 0 (p04_offset cfg + 8) (p04_offset cfg + 8 + LENGTH(32) div 8) buf))"
  unfolding covered_def calculate_profile_04_append
  using assms by (auto simp: p04_compute_crc_def mem_range_all Let_def add.commute)

lemma p04_check_eq:
  assumes "p04_valid cfg inst buf" and "read_be buf (p04_offset cfg) = Some (l :: u16)"
    and "read_be buf (p04_offset cfg + 2) = Some n" and "read_be buf (p04_offset cfg + 4) = Some d"
  shows "p04_check cfg inst counters buf =
    (if \<not> frame_p04.framed 0 (p04_offset cfg + 8) buf then Some (E2E_WRONG_CRC, counters)
     else if d = push_bit 24 (ucast inst) OR p04_data_id cfg \<and> unat l = length buf
     then (case p04_verify_counter cfg inst n counters of (ok, counters) \<Rightarrow> Some (if ok then E2E_OK else E2E_ERROR, counters))
     else Some (E2E_ERROR, counters))"
proof -
  let ?p = "p04_offset cfg + 8"
  have len: "?p + LENGTH(32) div 8 \<le> length buf" and i: "\<not> 0xff < inst" "p04_verify_input cfg buf"
    using assms(1) by (auto simp: p04_valid_def)
  obtain w where "read_be buf ?p = Some w"
      "w = p04_calc (covered 0 ?p (?p + LENGTH(32) div 8) buf) \<longleftrightarrow> frame_p04.framed 0 ?p buf"
    using frame_p04.read_crc [OF len] by blast
  then show ?thesis
    unfolding p04_check_def p04_compute_crc_eq [OF len] assms using i by simp
qed

lemma p04_protect_eq:
  assumes "p04_valid cfg inst buf"
  obtains buf' where "p04_protect cfg inst counters buf = Some (buf', p04_increment_counter inst counters)"
    and "length buf' = length buf" and "frame_p04.framed 0 (p04_offset cfg + 8) buf'"
    and "read_be buf' (p04_offset cfg) = Some (of_nat (length buf) :: u16)"
    and "read_be buf' (p04_offset cfg + 2) = Some (p04_get_counter inst counters)"
    and "read_be buf' (p04_offset cfg + 4) = Some (push_bit 24 (ucast inst :: u32) OR p04_data_id cfg)"
proof -
  let ?o = "p04_offset cfg"
  have len: "?o + 8 + LENGTH(32) div 8 \<le> length buf" and i: "\<not> 0xff < inst" "p04_verify_input cfg buf"
    using assms by (auto simp: p04_valid_def)
  obtain b1 where b1: "write_be (of_nat (length buf) :: u16) buf ?o = Some b1" "length b1 = length buf"
    using write_be_ok [of ?o buf "of_nat (length buf) :: u16"] len by auto
  obtain b2 where b2: "write_be (p04_get_counter inst counters) b1 (?o + 2) = Some b2" "length b2 = length buf"
    using write_be_ok [of "?o + 2" b1 "p04_get_counter inst counters"] len b1(2) by auto
  obtain b3 where b3: "write_be (push_bit 24 (ucast inst :: u32) OR p04_data_id cfg) b2 (?o + 4) = Some b3" "length b3 = length buf"
    using write_be_ok [of "?o + 4" b2 "push_bit 24 (ucast inst :: u32) OR p04_data_id cfg"] len b2(2) by auto
  note crc = p04_compute_crc_eq [OF len [folded b3(2)]]
  obtain b4 where b4: "write_be (p04_calc (covered 0 (?o + 8) (?o + 8 + LENGTH(32) div 8) b3)) b3 (?o + 8) = Some b4" "length b4 = length buf"
    using write_be_ok [OF len [folded b3(2)]] b3(2) by metis
  have d: "read_be b3 (?o + 4) = Some (push_bit 24 (ucast inst :: u32) OR p04_data_id cfg)"
    using read_write_be [OF b3(1)] by simp
  have n: "read_be b3 (?o + 2) = Some (p04_get_counter inst counters)"
    using read_write_be [OF b2(1)] read_write_be_disjoint [where 'b = 16, OF b3(1), of "?o + 2"] by simp
  have l: "read_be b3 ?o = Some (of_nat (length buf) :: u16)"
    using read_write_be [OF b1(1)] read_write_be_disjoint [where 'b = 16, OF b2(1), of ?o]
      read_write_be_disjoint [where 'b = 16, OF b3(1), of ?o] by simp
  show ?thesis
  proof (rule that)
    show "p04_protect cfg inst counters buf = Some (b4, p04_increment_counter inst counters)"
      using b1(1) b2(1) b3(1) b4(1) crc i by (simp add: p04_protect_def)
    show "length b4 = length buf" "frame_p04.framed 0 (?o + 8) b4"
      using b4(2) frame_p04.protected_frame [OF b4(1)] by blast+
  qed (use d n l read_write_be_disjoint [where 'b = 32, OF b4(1), of "?o + 4"]
      read_write_be_disjoint [where 'b = 16, OF b4(1), of "?o + 2"]
      read_write_be_disjoint [where 'b = 16, OF b4(1), of ?o] in simp_all)
qed


lemma p04_valid_length: "p04_valid cfg inst buf \<Longrightarrow> length buf' = length buf \<Longrightarrow> p04_valid cfg inst buf'"
  by (simp add: p04_valid_def p04_verify_input_def)

lemma p04_check_wrong_crc:
  assumes "p04_valid cfg inst buf" and "\<not> frame_p04.framed 0 (p04_offset cfg + 8) buf"
  shows "p04_check cfg inst counters buf = Some (E2E_WRONG_CRC, counters)"
proof -
  have len: "p04_offset cfg + 12 \<le> length buf" using assms(1) by (simp add: p04_valid_def)
  obtain l :: u16 where l: "read_be buf (p04_offset cfg) = Some l"
    using read_be_ok [where 'a = 16, of "p04_offset cfg" buf] len by auto
  obtain n :: u16 where n: "read_be buf (p04_offset cfg + 2) = Some n"
    using read_be_ok [where 'a = 16, of "p04_offset cfg + 2" buf] len by auto
  obtain d :: u32 where d: "read_be buf (p04_offset cfg + 4) = Some d"
    using read_be_ok [where 'a = 32, of "p04_offset cfg + 4" buf] len by auto
  show ?thesis unfolding p04_check_eq [OF assms(1) l n d] using assms(2) by simp
qed

interpretation stream_p04: e2e_stream p04_get_counter p04_increment_counter "p04_verify_counter cfg"
    "unat (p04_max_delta_counter cfg)" "p04_protect cfg" "p04_check cfg" "p04_valid cfg"
  for cfg
proof
  fix inst b and p :: p04_counters
  assume b: "p04_valid cfg inst b"
  obtain b' where b': "p04_protect cfg inst p b = Some (b', p04_increment_counter inst p)"
    "length b' = length b" "frame_p04.framed 0 (p04_offset cfg + 8) b'"
    "read_be b' (p04_offset cfg) = Some (of_nat (length b) :: u16)"
    "read_be b' (p04_offset cfg + 2) = Some (p04_get_counter inst p)"
    "read_be b' (p04_offset cfg + 4) = Some (push_bit 24 (ucast inst :: u32) OR p04_data_id cfg)"
    using p04_protect_eq [OF b, of p] by blast
  have "unat (of_nat (length b) :: u16) = length b'"
    using b b'(2) by (simp add: p04_valid_def unat_of_nat take_bit_nat_eq_self)
  then show "\<exists>b'. p04_protect cfg inst p b = Some (b', p04_increment_counter inst p) \<and> (\<forall>c. p04_check cfg inst c b' =
      (case p04_verify_counter cfg inst (p04_get_counter inst p) c of (ok, c') \<Rightarrow> Some (if ok then E2E_OK else E2E_ERROR, c')))"
    using b'(1,3) p04_check_eq [OF p04_valid_length [OF b b'(2)] b'(4-6)] by simp
qed

text \<open>
  C28. Profile 04, a stream of messages with valid lengths, protected and checked in order with nothing lost: the verdict on every
  message, for streams of any length. With the default \<open>max_delta_counter\<close> 0xFFFF all messages are accepted. With a
  smaller one the first \<open>max_delta_counter + 1\<close> are, and then none until the counter has wrapped, since every counter is
  compared with the first one. This contradicts the documentation, which compares with the previous valid message:
  such a check accepts the whole stream as soon as the parameter is not 0.
\<close>

theorem p04_stream:
  assumes "list_all (p04_valid cfg inst) messages" and "sender inst = None" and "receiver inst = None"
  shows "exchange_all (p04_protect cfg inst) (p04_check cfg inst) sender receiver messages =
       Some (map (\<lambda>j. if counter_accepted 16 (unat (p04_max_delta_counter cfg)) j then E2E_OK else E2E_ERROR) [0..<length messages])
     \<and> (p04_max_delta_counter cfg = 0xFFFF \<longrightarrow>
       exchange_all (p04_protect cfg inst) (p04_check cfg inst) sender receiver messages = Some (replicate (length messages) E2E_OK))
     \<and> (0 < p04_max_delta_counter cfg \<longrightarrow>
       exchange_all (p04_protect cfg inst) (documented_check (p04_check cfg inst) (p04_max_delta_counter cfg) inst) sender receiver messages =
         Some (replicate (length messages) E2E_OK))"
  using stream_p04.stream [of cfg inst messages sender receiver] assms by simp

abbreviation p04_example :: p04_config where
  "p04_example \<equiv> \<lparr>p04_data_id = 0x123, p04_offset = 0, p04_min_data_length = 0, p04_max_data_length = 100, p04_max_delta_counter = 1\<rparr>"

theorem p04_stream_witness:
  "exchange_all (p04_protect p04_example 7) (p04_check p04_example 7)
     Map.empty Map.empty [replicate 12 0, replicate 12 1, replicate 12 2] = Some [E2E_OK, E2E_OK, E2E_ERROR] \<and>
   exchange_all (p04_protect p04_example 7) (documented_check (p04_check p04_example 7) 1 7)
     Map.empty Map.empty [replicate 12 0, replicate 12 1, replicate 12 2] = Some [E2E_OK, E2E_OK, E2E_OK] \<and>
   exchange_all (p04_protect (p04_example\<lparr>p04_max_delta_counter := 0xFFFF\<rparr>) 7) (p04_check (p04_example\<lparr>p04_max_delta_counter := 0xFFFF\<rparr>) 7)
     Map.empty Map.empty [replicate 12 0, replicate 12 1, replicate 12 2] = Some [E2E_OK, E2E_OK, E2E_OK]"
  using p04_stream [of p04_example 7 "[replicate 12 0, replicate 12 1, replicate 12 2]" Map.empty Map.empty]
    p04_stream [of "p04_example\<lparr>p04_max_delta_counter := 0xFFFF\<rparr>" 7 "[replicate 12 0, replicate 12 1, replicate 12 2]" Map.empty Map.empty]
  by (simp add: p04_valid_def p04_verify_input_def counter_accepted_def)

text \<open>
  C32. Profile 04: a change of any single byte of a protected message, header fields and checksum
  included, is reported as a wrong checksum and leaves the receiver's counters alone.
\<close>

theorem p04_detects:
  assumes "p04_valid cfg inst buf" and "p04_protect cfg inst counters buf = Some (buf', counters')"
    and "i < length buf'" and "v \<noteq> buf' ! i"
  shows "p04_check cfg inst seen_counters (buf'[i := v]) = Some (E2E_WRONG_CRC, seen_counters)"
proof -
  have b': "length buf' = length buf" "frame_p04.framed 0 (p04_offset cfg + 8) buf'"
    using p04_protect_eq [OF assms(1), of counters] assms(2) by (metis Pair_inject option.inject)+
  have "p04_offset cfg + 8 + LENGTH(32) div 8 \<le> length buf'" using assms(1) b'(1) by (simp add: p04_valid_def)
  then have "\<not> frame_p04.framed 0 (p04_offset cfg + 8) (buf'[i := v])"
    using frame_p04.single_byte [OF b'(2), of i v] assms(3,4) by simp
  then show ?thesis using p04_check_wrong_crc p04_valid_length [OF assms(1)] b'(1) by simp
qed


theorem p04_detects_witness:
  "\<exists>buf' counters'. p04_protect \<lparr>p04_data_id = 0x123, p04_offset = 0, p04_min_data_length = 0, p04_max_data_length = 100, p04_max_delta_counter = 1\<rparr> 7 Map.empty (replicate 12 0) = Some (buf', counters') \<and>
     p04_check \<lparr>p04_data_id = 0x123, p04_offset = 0, p04_min_data_length = 0, p04_max_data_length = 100, p04_max_delta_counter = 1\<rparr> 7 Map.empty (buf'[0 := buf' ! 0 + 1]) = Some (E2E_WRONG_CRC, Map.empty)"
proof -
  let ?cfg = "\<lparr>p04_data_id = 0x123, p04_offset = 0, p04_min_data_length = 0, p04_max_data_length = 100, p04_max_delta_counter = 1\<rparr>"
  have valid: "p04_valid ?cfg 7 (replicate 12 0)" by (simp add: p04_valid_def p04_verify_input_def)
  obtain buf' where b: "p04_protect ?cfg 7 Map.empty (replicate 12 0) = Some (buf', p04_increment_counter 7 Map.empty)" "length buf' = 12"
    using p04_protect_eq [OF valid, of Map.empty] by (metis length_replicate)
  then show ?thesis using p04_detects [OF valid b(1), of 0 "buf' ! 0 + 1" Map.empty] by auto
qed

section \<open>Profile 05: correctness\<close>

definition p05_valid :: "p05_config \<Rightarrow> u16 \<Rightarrow> bytes \<Rightarrow> bool" where
  "p05_valid cfg inst buf \<longleftrightarrow> inst \<le> 0xff \<and> p05_is_buffer_length_valid cfg buf \<and> p05_offset cfg + 3 \<le> length buf"

definition p05_calc :: "p05_config \<Rightarrow> bytes \<Rightarrow> u16" where
  "p05_calc cfg view = calculate_profile_05 [ucast (p05_data_id cfg AND 0xFF), ucast (drop_bit 8 (p05_data_id cfg) AND 0xFF)]
     (calculate_profile_05 view 0xFFFF)"

lemma calculate_profile_05_append:
  "calculate_profile_05 (xs @ ys) s = calculate_profile_05 ys (calculate_profile_05 xs s)"
  by (simp add: calculate_profile_05_def)

interpretation frame_p05: crc_frame "p05_calc cfg" for cfg
proof
  show "a \<noteq> b \<Longrightarrow> p05_calc cfg (xs @ a # ys) \<noteq> p05_calc cfg (xs @ b # ys)" for a b xs ys
    using crc05.detects_byte [of a b _ xs "ys @ [ucast (p05_data_id cfg AND 0xFF), ucast (drop_bit 8 (p05_data_id cfg) AND 0xFF)]"]
    unfolding p05_calc_def calculate_profile_05_append [symmetric] by (simp add: calculate_profile_05_def)
qed simp

lemma p05_compute_crc_eq:
  assumes "p05_offset cfg + LENGTH(16) div 8 < length buf"
  shows "p05_compute_crc cfg buf = Some (p05_calc cfg (covered 0 (p05_offset cfg) (p05_offset cfg + LENGTH(16) div 8) buf))"
  unfolding covered_def p05_calc_def calculate_profile_05_append
  using assms by (simp add: p05_compute_crc_def mem_range_all Let_def)

lemma p05_check_eq:
  assumes "p05_valid cfg inst buf" and "mem_at buf (p05_offset cfg + 2) = Some n"
  shows "p05_check cfg inst counters buf =
    (if \<not> frame_p05.framed cfg 0 (p05_offset cfg) buf then Some (E2E_WRONG_CRC, counters)
     else (case p05_verify_counter cfg inst n counters of (ok, counters) \<Rightarrow> Some (if ok then E2E_OK else E2E_ERROR, counters)))"
proof -
  let ?p = "p05_offset cfg"
  have len: "?p + LENGTH(16) div 8 < length buf" and i: "\<not> 0xff < inst" "p05_is_buffer_length_valid cfg buf"
    using assms(1) by (auto simp: p05_valid_def)
  obtain w where "read_be buf ?p = Some w"
      "w = p05_calc cfg (covered 0 ?p (?p + LENGTH(16) div 8) buf) \<longleftrightarrow> frame_p05.framed cfg 0 ?p buf"
    using frame_p05.read_crc [OF less_imp_le [OF len]] by blast
  then show ?thesis
    unfolding p05_check_def p05_compute_crc_eq [OF len] assms using i by simp
qed

lemma p05_protect_eq:
  assumes "p05_valid cfg inst buf"
  obtains buf' where "p05_protect cfg inst counters buf = Some (buf', p05_increment_counter inst counters)"
    and "length buf' = length buf" and "frame_p05.framed cfg 0 (p05_offset cfg) buf'"
    and "mem_at buf' (p05_offset cfg + 2) = Some (p05_get_counter inst counters)"
proof -
  let ?o = "p05_offset cfg"
  have len: "?o + LENGTH(16) div 8 < length buf" and i: "\<not> 0xff < inst" "p05_is_buffer_length_valid cfg buf"
    using assms by (auto simp: p05_valid_def)
  obtain b1 where b1: "p05_write_counter cfg buf (p05_get_counter inst counters) = Some b1" "length b1 = length buf"
      "mem_at b1 (?o + 2) = Some (p05_get_counter inst counters)"
    using len by (simp add: p05_write_counter_def)
  note crc = p05_compute_crc_eq [OF len [folded b1(2)]]
  obtain b2 where b2: "write_be (p05_calc cfg (covered 0 ?o (?o + LENGTH(16) div 8) b1)) b1 ?o = Some b2" "length b2 = length buf"
    using write_be_ok [OF less_imp_le [OF len [folded b1(2)]]] b1(2) by metis
  show ?thesis
  proof (rule that)
    show "p05_protect cfg inst counters buf = Some (b2, p05_increment_counter inst counters)"
      using b1(1) b2(1) crc i by (simp add: p05_protect_def)
    show "length b2 = length buf" "frame_p05.framed cfg 0 ?o b2"
      using b2(2) frame_p05.protected_frame [OF b2(1)] by blast+
    show "mem_at b2 (?o + 2) = Some (p05_get_counter inst counters)"
      using mem_at_write_be_disjoint [OF b2(1), of "?o + 2"] b1(3) by simp
  qed
qed

lemma p05_valid_length: "p05_valid cfg inst buf \<Longrightarrow> length buf' = length buf \<Longrightarrow> p05_valid cfg inst buf'"
  by (simp add: p05_valid_def p05_is_buffer_length_valid_def)

interpretation stream_p05: e2e_stream p05_get_counter p05_increment_counter "p05_verify_counter cfg"
    "unat (p05_max_delta_counter cfg)" "p05_protect cfg" "p05_check cfg" "p05_valid cfg"
  for cfg
proof
  fix inst b and p :: p05_counters
  assume b: "p05_valid cfg inst b"
  obtain b' where b': "p05_protect cfg inst p b = Some (b', p05_increment_counter inst p)"
    "length b' = length b" "frame_p05.framed cfg 0 (p05_offset cfg) b'"
    "mem_at b' (p05_offset cfg + 2) = Some (p05_get_counter inst p)"
    using p05_protect_eq [OF b, of p] by blast
  then show "\<exists>b'. p05_protect cfg inst p b = Some (b', p05_increment_counter inst p) \<and> (\<forall>c. p05_check cfg inst c b' =
      (case p05_verify_counter cfg inst (p05_get_counter inst p) c of (ok, c') \<Rightarrow> Some (if ok then E2E_OK else E2E_ERROR, c')))"
    using p05_check_eq [OF p05_valid_length [OF b b'(2)] b'(4)] by simp
qed

text \<open>Profile 05: the same with an eight bit counter.\<close>

lemma p05_stream:
  assumes "list_all (p05_valid cfg inst) messages" and "sender inst = None" and "receiver inst = None"
  shows "exchange_all (p05_protect cfg inst) (p05_check cfg inst) sender receiver messages =
     Some (map (\<lambda>j. if counter_accepted 8 (unat (p05_max_delta_counter cfg)) j then E2E_OK else E2E_ERROR) [0..<length messages])"
  using stream_p05.stream(1) [of cfg inst messages sender receiver] assms by simp

lemma p05_stream_witness:
  "exchange_all
     (p05_protect \<lparr>p05_data_id = 0x123, p05_data_length = 24, p05_offset = 0, p05_max_delta_counter = 1\<rparr> 7)
     (p05_check \<lparr>p05_data_id = 0x123, p05_data_length = 24, p05_offset = 0, p05_max_delta_counter = 1\<rparr> 7)
     Map.empty Map.empty [replicate 4 0, replicate 4 1, replicate 4 2] = Some [E2E_OK, E2E_OK, E2E_ERROR]"
  using p05_stream [of "\<lparr>p05_data_id = 0x123, p05_data_length = 24, p05_offset = 0, p05_max_delta_counter = 1\<rparr>" 7 "[replicate 4 0, replicate 4 1, replicate 4 2]" Map.empty Map.empty]
  by (simp add: p05_valid_def p05_is_buffer_length_valid_def counter_accepted_def)

lemma p05_detects:
  assumes "p05_valid cfg inst buf" and "p05_protect cfg inst counters buf = Some (buf', counters')"
    and "i < length buf'" and "v \<noteq> buf' ! i"
  shows "p05_check cfg inst seen_counters (buf'[i := v]) = Some (E2E_WRONG_CRC, seen_counters)"
proof -
  have b': "length buf' = length buf" "frame_p05.framed cfg 0 (p05_offset cfg) buf'"
    using p05_protect_eq [OF assms(1), of counters] assms(2) by (metis Pair_inject option.inject)+
  have len: "p05_offset cfg + 2 < length (buf'[i := v])" using assms(1) b'(1) by (simp add: p05_valid_def)
  have "\<not> frame_p05.framed cfg 0 (p05_offset cfg) (buf'[i := v])"
    using frame_p05.single_byte [OF b'(2), of i v] assms(3,4) len by simp
  then show ?thesis
    unfolding p05_check_eq [OF p05_valid_length [OF assms(1)] mem_at_Some [OF len], unfolded length_list_update, OF b'(1)] by simp
qed


section \<open>Profile 07: correctness\<close>

definition p07_valid :: "p07_config \<Rightarrow> bytes \<Rightarrow> bool" where
  "p07_valid cfg buf \<longleftrightarrow> p07_verify_input cfg buf \<and> p07_offset cfg + 20 \<le> length buf"

lemma p07_valid_length: "p07_valid cfg buf \<Longrightarrow> length buf' = length buf \<Longrightarrow> p07_valid cfg buf'"
  by (simp add: p07_valid_def p07_verify_input_def)

lemma calculate_profile_07_append:
  "calculate_profile_07 (xs @ ys) s = calculate_profile_07 ys (calculate_profile_07 xs s)"
  by (simp add: calculate_profile_07_def xor.assoc)

abbreviation p07_calc :: "bytes \<Rightarrow> u64" where
  "p07_calc view \<equiv> calculate_profile_07 view 0"

interpretation frame_p07: crc_frame p07_calc
proof
  show "a \<noteq> b \<Longrightarrow> p07_calc (xs @ a # ys) \<noteq> p07_calc (xs @ b # ys)" for a b xs ys
    using crc07.detects_byte by (simp add: calculate_profile_07_def xor_cancel)
qed simp

lemma p07_compute_crc_eq:
  assumes "p07_offset cfg + LENGTH(64) div 8 < length buf"
  shows "p07_compute_crc cfg buf = Some (p07_calc (covered 0 (p07_offset cfg) (p07_offset cfg + LENGTH(64) div 8) buf))"
  unfolding covered_def calculate_profile_07_append
  using assms by (simp add: p07_compute_crc_def mem_range_all Let_def)

lemma p07_check_eq:
  assumes "p07_valid cfg buf" and "read_be buf (p07_offset cfg + 8) = Some (l :: u32)"
    and "read_be buf (p07_offset cfg + 12) = Some n" and "read_be buf (p07_offset cfg + 16) = Some d"
  shows "p07_check cfg inst counters buf =
    (if \<not> frame_p07.framed 0 (p07_offset cfg) buf then Some (E2E_WRONG_CRC, counters)
     else if d = p07_data_id cfg \<and> unat l = length buf
     then (case p07_verify_counter cfg inst n counters of (ok, counters) \<Rightarrow> Some (if ok then E2E_OK else E2E_ERROR, counters))
     else Some (E2E_ERROR, counters))"
proof -
  let ?p = "p07_offset cfg"
  have len: "?p + LENGTH(64) div 8 < length buf" and i: "p07_verify_input cfg buf"
    using assms(1) by (auto simp: p07_valid_def)
  obtain w where "read_be buf ?p = Some w"
      "w = p07_calc (covered 0 ?p (?p + LENGTH(64) div 8) buf) \<longleftrightarrow> frame_p07.framed 0 ?p buf"
    using frame_p07.read_crc [OF less_imp_le [OF len]] by blast
  then show ?thesis
    unfolding p07_check_def p07_compute_crc_eq [OF len] assms add_0_right using i by simp
qed

lemma p07_check_wrong_crc:
  assumes "p07_valid cfg buf" and "\<not> frame_p07.framed 0 (p07_offset cfg) buf"
  shows "p07_check cfg inst counters buf = Some (E2E_WRONG_CRC, counters)"
proof -
  have len: "p07_offset cfg + 20 \<le> length buf" using assms(1) by (simp add: p07_valid_def)
  obtain l :: u32 where l: "read_be buf (p07_offset cfg + 8) = Some l"
    using read_be_ok [where 'a = 32, of "p07_offset cfg + 8" buf] len by auto
  obtain n :: u32 where n: "read_be buf (p07_offset cfg + 12) = Some n"
    using read_be_ok [where 'a = 32, of "p07_offset cfg + 12" buf] len by auto
  obtain d :: u32 where d: "read_be buf (p07_offset cfg + 16) = Some d"
    using read_be_ok [where 'a = 32, of "p07_offset cfg + 16" buf] len by auto
  show ?thesis unfolding p07_check_eq [OF assms(1) l n d] using assms(2) by simp
qed

lemma p07_protect_eq:
  assumes "p07_valid cfg buf"
  obtains buf' where "p07_protect cfg inst counters buf = Some (buf', p07_increment_counter inst counters)"
    and "length buf' = length buf" and "frame_p07.framed 0 (p07_offset cfg) buf'"
    and "read_be buf' (p07_offset cfg + 8) = Some (ucast (of_nat (length buf) :: u16) :: u32)"
    and "read_be buf' (p07_offset cfg + 12) = Some (p07_get_counter inst counters)"
    and "read_be buf' (p07_offset cfg + 16) = Some (p07_data_id cfg)"
proof -
  let ?o = "p07_offset cfg" and ?l = "ucast (of_nat (length buf) :: u16) :: u32"
  have len: "?o + 20 \<le> length buf" and i: "p07_verify_input cfg buf"
    using assms by (auto simp: p07_valid_def)
  obtain b1 where b1: "write_be ?l buf (?o + 8) = Some b1" "length b1 = length buf"
    using write_be_ok [of "?o + 8" buf ?l] len by auto
  obtain b2 where b2: "write_be (p07_get_counter inst counters) b1 (?o + 12) = Some b2" "length b2 = length buf"
    using write_be_ok [of "?o + 12" b1 "p07_get_counter inst counters"] len b1(2) by auto
  obtain b3 where b3: "write_be (p07_data_id cfg) b2 (?o + 16) = Some b3" "length b3 = length buf"
    using write_be_ok [of "?o + 16" b2 "p07_data_id cfg"] len b2(2) by auto
  have l3: "?o + LENGTH(64) div 8 < length b3" using len b3(2) by simp
  note crc = p07_compute_crc_eq [OF l3]
  obtain b4 where b4: "write_be (p07_calc (covered 0 ?o (?o + LENGTH(64) div 8) b3)) b3 ?o = Some b4" "length b4 = length buf"
    using write_be_ok [OF less_imp_le [OF l3]] b3(2) by metis
  have d: "read_be b3 (?o + 16) = Some (p07_data_id cfg)"
    using read_write_be [OF b3(1)] by simp
  have n: "read_be b3 (?o + 12) = Some (p07_get_counter inst counters)"
    using read_write_be [OF b2(1)] read_write_be_disjoint [where 'b = 32, OF b3(1), of "?o + 12"] by simp
  have l: "read_be b3 (?o + 8) = Some ?l"
    using read_write_be [OF b1(1)] read_write_be_disjoint [where 'b = 32, OF b2(1), of "?o + 8"]
      read_write_be_disjoint [where 'b = 32, OF b3(1), of "?o + 8"] by simp
  show ?thesis
  proof (rule that)
    show "p07_protect cfg inst counters buf = Some (b4, p07_increment_counter inst counters)"
      using b1(1) b2(1) b3(1) b4(1) crc i by (simp add: p07_protect_def)
    show "length b4 = length buf" "frame_p07.framed 0 ?o b4"
      using b4(2) frame_p07.protected_frame [OF b4(1)] by blast+
  qed (use d n l read_write_be_disjoint [where 'b = 32, OF b4(1)] in simp_all)
qed

interpretation stream_p07: e2e_stream p07_get_counter p07_increment_counter "p07_verify_counter cfg"
    "unat (p07_max_delta_counter cfg)" "p07_protect cfg" "p07_check cfg" "\<lambda>_ buf. p07_valid cfg buf \<and> length buf < 2 ^ 16"
  for cfg
proof
  fix inst b and p :: p07_counters
  assume b: "p07_valid cfg b \<and> length b < 2 ^ 16"
  obtain b' where b': "p07_protect cfg inst p b = Some (b', p07_increment_counter inst p)"
    "length b' = length b" "frame_p07.framed 0 (p07_offset cfg) b'"
    "read_be b' (p07_offset cfg + 8) = Some (ucast (of_nat (length b) :: u16) :: u32)"
    "read_be b' (p07_offset cfg + 12) = Some (p07_get_counter inst p)"
    "read_be b' (p07_offset cfg + 16) = Some (p07_data_id cfg)"
    using p07_protect_eq [OF conjunct1 [OF b], of inst p] by blast
  have "unat (ucast (of_nat (length b) :: u16) :: u32) = length b'"
    unfolding unat_ucast_up [where 'a = 16 and 'b = 32, simplified] using b b'(2) by (simp add: unat_of_nat take_bit_nat_eq_self)
  then show "\<exists>b'. p07_protect cfg inst p b = Some (b', p07_increment_counter inst p) \<and> (\<forall>c. p07_check cfg inst c b' =
      (case p07_verify_counter cfg inst (p07_get_counter inst p) c of (ok, c') \<Rightarrow> Some (if ok then E2E_OK else E2E_ERROR, c')))"
    using b'(1,3) p07_check_eq [OF p07_valid_length [OF conjunct1 [OF b] b'(2)] b'(4-6)] by simp
qed

text \<open>
  C29. Profile 07, a stream of messages with valid lengths below 65536 bytes, protected and checked in order with nothing lost:
  the verdict on every message. With the default \<open>max_delta_counter\<close> 0xFFFFFFFF all messages are accepted. With a smaller one the
  first \<open>max_delta_counter + 1\<close> are, and then none until the 32 bit counter has wrapped. This contradicts the documentation, which
  compares with the previous valid message: such a check accepts the whole stream as soon as the parameter is not 0.
\<close>

theorem p07_stream:
  assumes "list_all (\<lambda>buf. p07_valid cfg buf \<and> length buf < 2 ^ 16) messages" and "sender inst = None" and "receiver inst = None"
  shows "exchange_all (p07_protect cfg inst) (p07_check cfg inst) sender receiver messages =
       Some (map (\<lambda>j. if counter_accepted 32 (unat (p07_max_delta_counter cfg)) j then E2E_OK else E2E_ERROR) [0..<length messages])
     \<and> (p07_max_delta_counter cfg = 0xFFFFFFFF \<longrightarrow>
       exchange_all (p07_protect cfg inst) (p07_check cfg inst) sender receiver messages = Some (replicate (length messages) E2E_OK))
     \<and> (0 < p07_max_delta_counter cfg \<longrightarrow>
       exchange_all (p07_protect cfg inst) (documented_check (p07_check cfg inst) (p07_max_delta_counter cfg) inst) sender receiver messages =
         Some (replicate (length messages) E2E_OK))"
  using stream_p07.stream [of cfg messages sender inst receiver] assms by simp

abbreviation p07_example :: p07_config where
  "p07_example \<equiv> \<lparr>p07_data_id = 0x123, p07_offset = 0, p07_min_data_length = 0, p07_max_data_length = 100000, p07_max_delta_counter = 1\<rparr>"

theorem p07_stream_witness:
  "exchange_all (p07_protect p07_example 7) (p07_check p07_example 7)
     Map.empty Map.empty [replicate 20 0, replicate 20 1, replicate 20 2] = Some [E2E_OK, E2E_OK, E2E_ERROR] \<and>
   exchange_all (p07_protect p07_example 7) (documented_check (p07_check p07_example 7) 1 7)
     Map.empty Map.empty [replicate 20 0, replicate 20 1, replicate 20 2] = Some [E2E_OK, E2E_OK, E2E_OK] \<and>
   exchange_all (p07_protect (p07_example\<lparr>p07_max_delta_counter := 0xFFFFFFFF\<rparr>) 7) (p07_check (p07_example\<lparr>p07_max_delta_counter := 0xFFFFFFFF\<rparr>) 7)
     Map.empty Map.empty [replicate 20 0, replicate 20 1, replicate 20 2] = Some [E2E_OK, E2E_OK, E2E_OK]"
  using p07_stream [of p07_example "[replicate 20 0, replicate 20 1, replicate 20 2]" Map.empty 7 Map.empty]
    p07_stream [of "p07_example\<lparr>p07_max_delta_counter := 0xFFFFFFFF\<rparr>" "[replicate 20 0, replicate 20 1, replicate 20 2]" Map.empty 7 Map.empty]
  by (simp add: p07_valid_def p07_verify_input_def counter_accepted_def)

lemma p07_detects:
  assumes "p07_valid cfg buf" and "p07_protect cfg inst counters buf = Some (buf', counters')"
    and "i < length buf'" and "v \<noteq> buf' ! i"
  shows "p07_check cfg inst seen_counters (buf'[i := v]) = Some (E2E_WRONG_CRC, seen_counters)"
proof -
  have b': "length buf' = length buf" "frame_p07.framed 0 (p07_offset cfg) buf'"
    using p07_protect_eq [OF assms(1), of inst counters] assms(2) by (metis Pair_inject option.inject)+
  have "p07_offset cfg + LENGTH(64) div 8 \<le> length buf'" using assms(1) b'(1) by (simp add: p07_valid_def)
  then have "\<not> frame_p07.framed 0 (p07_offset cfg) (buf'[i := v])"
    using frame_p07.single_byte [OF b'(2), of i v] assms(3,4) by simp
  then show ?thesis using p07_check_wrong_crc p07_valid_length [OF assms(1)] b'(1) by simp
qed

text \<open>
  Profile 07: a message of 65536 bytes or more that the configuration allows is protected with
  a truncated length, and the unmodified result is rejected.
\<close>

lemma p07_length_truncated:
  assumes "p07_valid cfg buf" and "2 ^ 16 \<le> length buf"
  shows "\<exists>buf'. p07_protect cfg inst counters buf = Some (buf', p07_increment_counter inst counters) \<and>
     p07_check cfg inst seen_counters buf' = Some (E2E_ERROR, seen_counters)"
proof -
  obtain b' where b': "p07_protect cfg inst counters buf = Some (b', p07_increment_counter inst counters)"
    "length b' = length buf" "frame_p07.framed 0 (p07_offset cfg) b'"
    "read_be b' (p07_offset cfg + 8) = Some (ucast (of_nat (length buf) :: u16) :: u32)"
    "read_be b' (p07_offset cfg + 12) = Some (p07_get_counter inst counters)"
    "read_be b' (p07_offset cfg + 16) = Some (p07_data_id cfg)"
    using p07_protect_eq [OF assms(1), of inst counters] by blast
  have "unat (ucast (of_nat (length buf) :: u16) :: u32) < 2 ^ 16"
    unfolding unat_ucast_up [where 'a = 16 and 'b = 32, simplified] by (simp add: unat_of_nat take_bit_nat_def)
  then have "unat (ucast (of_nat (length buf) :: u16) :: u32) \<noteq> length b'" using assms(2) b'(2) by linarith
  then show ?thesis
    using b'(1,3) p07_check_eq [OF p07_valid_length [OF assms(1) b'(2)] b'(4-6), of inst seen_counters] by auto
qed

lemma p07_length_truncated_witness:
  "\<exists>buf buf'. length buf = 65536 \<and> p07_protect \<lparr>p07_data_id = 0x123, p07_offset = 0, p07_min_data_length = 0, p07_max_data_length = 100000, p07_max_delta_counter = 1\<rparr> 7 Map.empty buf = Some (buf', [7 \<mapsto> 1]) \<and>
     p07_check \<lparr>p07_data_id = 0x123, p07_offset = 0, p07_min_data_length = 0, p07_max_data_length = 100000, p07_max_delta_counter = 1\<rparr> 7 Map.empty buf' = Some (E2E_ERROR, Map.empty)"
proof -
  obtain buf :: bytes where len: "length buf = 65536" using Ex_list_of_length by blast
  then have "p07_valid \<lparr>p07_data_id = 0x123, p07_offset = 0, p07_min_data_length = 0, p07_max_data_length = 100000, p07_max_delta_counter = 1\<rparr> buf" "2 ^ 16 \<le> length buf"
    by (simp_all add: p07_valid_def p07_verify_input_def)
  from p07_length_truncated [OF this, of 7 Map.empty Map.empty] show ?thesis
    using len by (auto simp: p07_increment_counter_def)
qed

end
