(* ===== verification/Sd_Option.thy ===== *)
theory Sd_Option
  imports Message "HOL-Library.List_Lexorder"
begin

text \<open>
  Model of the SOME/IP-SD options: \<open>option_impl.cpp\<close>, \<open>ip_option_impl.cpp\<close>,
  \<open>ipv4_option_impl.cpp\<close>, \<open>ipv6_option_impl.cpp\<close>, \<open>load_balancing_option_impl.cpp\<close>,
  \<open>protection_option_impl.cpp\<close>, \<open>selective_option_impl.cpp\<close>,
  \<open>configuration_option_impl.cpp\<close> and \<open>unknown_option_impl.cpp\<close> of
  \<open>service_discovery/src\<close>.

  An option is the base class part (length and type) with the fields of the derived class. A
  \<open>std::map\<close> or \<open>std::set\<close> is the list of its elements in iteration order. Strings are byte
  sequences, compared lexicographically.
\<close>

section \<open>Data\<close>

type_synonym option_type_e = byte
type_synonym layer_four_protocol_e = byte

abbreviation (input) CONFIGURATION :: option_type_e where "CONFIGURATION \<equiv> 0x1"
abbreviation (input) LOAD_BALANCING :: option_type_e where "LOAD_BALANCING \<equiv> 0x2"
abbreviation (input) PROTECTION :: option_type_e where "PROTECTION \<equiv> 0x3"
abbreviation (input) IP4_ENDPOINT :: option_type_e where "IP4_ENDPOINT \<equiv> 0x4"
abbreviation (input) IP6_ENDPOINT :: option_type_e where "IP6_ENDPOINT \<equiv> 0x6"
abbreviation (input) IP4_MULTICAST :: option_type_e where "IP4_MULTICAST \<equiv> 0x14"
abbreviation (input) IP6_MULTICAST :: option_type_e where "IP6_MULTICAST \<equiv> 0x16"
abbreviation (input) SELECTIVE :: option_type_e where "SELECTIVE \<equiv> 0x20"
abbreviation (input) OPTION_UNKNOWN :: option_type_e where "OPTION_UNKNOWN \<equiv> 0xFF"

abbreviation (input) L4_TCP :: layer_four_protocol_e where "L4_TCP \<equiv> 0x06"
abbreviation (input) L4_UDP :: layer_four_protocol_e where "L4_UDP \<equiv> 0x11"
abbreviation (input) L4_UNKNOWN :: layer_four_protocol_e where "L4_UNKNOWN \<equiv> 0xFF"

abbreviation (input) reserved_byte :: byte where "reserved_byte \<equiv> 0"
abbreviation (input) reserved_word :: u16 where "reserved_word \<equiv> 0"
abbreviation (input) reserved_long :: u32 where "reserved_long \<equiv> 0"

text \<open>The derived classes; for an IP option the address, the layer four protocol and the port.\<close>

datatype option_body =
    Configuration "(bytes \<times> bytes) list"
  | Load_balancing u16 u16
  | Protection u32 u32
  | Ipv4 bytes layer_four_protocol_e u16
  | Ipv6 bytes layer_four_protocol_e u16
  | Selective "u16 list"
  | Unknown bytes

record option_impl =
  opt_length :: u16
  opt_type :: option_type_e
  opt_body :: option_body

definition option_get_size :: "option_impl \<Rightarrow> u32" where
  "option_get_size opt = ucast (opt_length opt) + 3"

section \<open>Construction\<close>

text \<open>
  \<open>boost::asio::ip::address::is_multicast\<close>: the addresses 224.0.0.0/4, respectively ff00::/8.
\<close>

definition is_multicast_v4 :: "bytes \<Rightarrow> bool" where
  "is_multicast_v4 a \<longleftrightarrow> hd a AND 0xF0 = 0xE0"

definition is_multicast_v6 :: "bytes \<Rightarrow> bool" where
  "is_multicast_v6 a \<longleftrightarrow> hd a = 0xFF"

definition ipv4_option_new :: "bytes \<Rightarrow> u16 \<Rightarrow> bool \<Rightarrow> option_impl" where
  "ipv4_option_new address port is_reliable =
     \<lparr>opt_length = 1 + 4 + 1 + 1 + 2,
      opt_type = (if is_multicast_v4 address then IP4_MULTICAST else IP4_ENDPOINT),
      opt_body = Ipv4 address (if is_reliable then L4_TCP else L4_UDP) port\<rparr>"

definition ipv6_option_new :: "bytes \<Rightarrow> u16 \<Rightarrow> bool \<Rightarrow> option_impl" where
  "ipv6_option_new address port is_reliable =
     \<lparr>opt_length = 1 + 16 + 1 + 1 + 2,
      opt_type = (if is_multicast_v6 address then IP6_MULTICAST else IP6_ENDPOINT),
      opt_body = Ipv6 address (if is_reliable then L4_TCP else L4_UDP) port\<rparr>"

definition load_balancing_option_new :: option_impl where
  "load_balancing_option_new =
     \<lparr>opt_length = 1 + 2 + 2, opt_type = LOAD_BALANCING, opt_body = Load_balancing 0 0\<rparr>"

definition protection_option_new :: option_impl where
  "protection_option_new = \<lparr>opt_length = 1 + 4 + 4, opt_type = PROTECTION, opt_body = Protection 0 0\<rparr>"

definition selective_option_new :: option_impl where
  "selective_option_new = \<lparr>opt_length = 1, opt_type = SELECTIVE, opt_body = Selective []\<rparr>"

definition configuration_option_new :: option_impl where
  "configuration_option_new = \<lparr>opt_length = 2, opt_type = CONFIGURATION, opt_body = Configuration []\<rparr>"

section \<open>Selective option\<close>

text \<open>Operations on the set of clients; the length is recomputed with every change.\<close>

definition selective_length :: "u16 list \<Rightarrow> u16" where
  "selective_length clients = of_nat (1 + length clients * 2)"

definition set_clients :: "u16 list \<Rightarrow> option_impl \<Rightarrow> option_impl" where
  "set_clients clients opt = opt\<lparr>opt_body := Selective clients, opt_length := selective_length clients\<rparr>"

fun option_clients :: "option_body \<Rightarrow> u16 list" where
  "option_clients (Selective clients) = clients"
| "option_clients _ = []"

definition add_client :: "u16 \<Rightarrow> option_impl \<Rightarrow> bool \<times> option_impl" where
  "add_client client opt =
     (let clients = option_clients (opt_body opt); clients' = List.insort_insert client clients
      in (client \<notin> set clients, opt\<lparr>opt_body := Selective clients', opt_length := selective_length clients'\<rparr>))"

definition remove_client :: "u16 \<Rightarrow> option_impl \<Rightarrow> bool \<times> option_impl" where
  "remove_client client opt =
     (let clients = option_clients (opt_body opt); clients' = filter (\<lambda>c. c \<noteq> client) clients
      in (length clients' < length clients, opt\<lparr>opt_body := Selective clients', opt_length := selective_length clients'\<rparr>))"

definition has_client :: "u16 \<Rightarrow> option_impl \<Rightarrow> bool" where
  "has_client client opt \<longleftrightarrow> client \<in> set (option_clients (opt_body opt))"

section \<open>Configuration option\<close>

text \<open>\<open>std::map::operator[]\<close> with assignment, on the list in key order.\<close>

fun map_put :: "'k::linorder \<Rightarrow> 'v \<Rightarrow> ('k \<times> 'v) list \<Rightarrow> ('k \<times> 'v) list" where
  "map_put k v [] = [(k, v)]"
| "map_put k v ((k', v') # m) =
     (if k = k' then (k, v) # m else if k < k' then (k, v) # (k', v') # m else (k', v') # map_put k v m)"

fun option_configuration :: "option_body \<Rightarrow> (bytes \<times> bytes) list" where
  "option_configuration (Configuration m) = m"
| "option_configuration _ = []"

definition add_item :: "bytes \<Rightarrow> bytes \<Rightarrow> option_impl \<Rightarrow> option_impl" where
  "add_item key val opt =
     opt\<lparr>opt_body := Configuration (map_put key val (option_configuration (opt_body opt))),
         opt_length := of_nat (unat (opt_length opt) + length key + length val + 2)\<rparr>"

definition remove_item :: "bytes \<Rightarrow> option_impl \<Rightarrow> option_impl" where
  "remove_item key opt =
     (let m = option_configuration (opt_body opt) in
      (case map_of m key of
         None \<Rightarrow> opt
       | Some val \<Rightarrow> opt\<lparr>opt_length := opt_length opt - of_nat (length key + length val + 2),
                        opt_body := Configuration (filter (\<lambda>(k, _). k \<noteq> key) m)\<rparr>))"

definition get_value :: "bytes \<Rightarrow> option_impl \<Rightarrow> bytes" where
  "get_value key opt =
     (case map_of (option_configuration (opt_body opt)) key of None \<Rightarrow> [] | Some val \<Rightarrow> val)"

section \<open>Comparison\<close>

text \<open>
  \<open>equals\<close> dispatches on the class of the first option, after the comparison of type and length;
  \<^term>\<open>None\<close> is the \<open>std::bad_cast\<close> when the other option has another class.
\<close>

definition base_equals :: "option_impl \<Rightarrow> option_impl \<Rightarrow> bool" where
  "base_equals a b \<longleftrightarrow> opt_type a = opt_type b \<and> opt_length a = opt_length b"

fun body_equals :: "option_body \<Rightarrow> option_body \<Rightarrow> bool option" where
  "body_equals (Configuration m) (Configuration m') = Some (m = m')"
| "body_equals (Load_balancing p w) (Load_balancing p' w') = Some (p = p' \<and> w = w')"
| "body_equals (Protection n c) (Protection n' c') = Some (n = n' \<and> c = c')"
| "body_equals (Ipv4 a l p) (Ipv4 a' l' p') = Some (l = l' \<and> p = p' \<and> a = a')"
| "body_equals (Ipv6 a l p) (Ipv6 a' l' p') = Some (l = l' \<and> p = p' \<and> a = a')"
| "body_equals (Selective c) (Selective c') = Some (c = c')"
| "body_equals (Unknown _) _ = Some True"
| "body_equals _ _ = None"

definition option_equals :: "option_impl \<Rightarrow> option_impl \<Rightarrow> bool option" where
  "option_equals a b = (if base_equals a b then body_equals (opt_body a) (opt_body b) else Some False)"

section \<open>Writing\<close>

definition option_header_serialize :: "option_impl \<Rightarrow> ser" where
  "option_header_serialize opt =
     ser_all [serialize_u16 (opt_length opt), serialize_u8 (opt_type opt), serialize_u8 reserved_byte]"

text \<open>The string a configuration option is written as: length, key, equals sign, value; a final zero.\<close>

definition configuration_item :: "bytes \<times> bytes \<Rightarrow> bytes" where
  "configuration_item kv =
     (case kv of (k, v) \<Rightarrow> of_nat (1 + length k + length v) # k @ [0x3D] @ v)"

definition configuration_string :: "(bytes \<times> bytes) list \<Rightarrow> bytes" where
  "configuration_string m = concat (map configuration_item m) @ [0]"

definition ip_body_serialize :: "bytes \<Rightarrow> layer_four_protocol_e \<Rightarrow> u16 \<Rightarrow> ser" where
  "ip_body_serialize address proto port =
     ser_all [serialize_bytes address, serialize_u8 reserved_byte, serialize_u8 proto, serialize_u16 port]"

text \<open>An unknown option inherits the writer of the base class.\<close>

fun option_body_serialize :: "option_body \<Rightarrow> ser" where
  "option_body_serialize (Configuration m) = serialize_bytes (configuration_string m)"
| "option_body_serialize (Load_balancing priority weight) = ser_all [serialize_u16 priority, serialize_u16 weight]"
| "option_body_serialize (Protection counter crc) = ser_all [serialize_u32 counter False, serialize_u32 crc False]"
| "option_body_serialize (Ipv4 address proto port) = ip_body_serialize address proto port"
| "option_body_serialize (Ipv6 address proto port) = ip_body_serialize address proto port"
| "option_body_serialize (Selective clients) = ser_all (map serialize_u16 clients)"
| "option_body_serialize (Unknown _) = ser_all []"

definition option_serialize :: "option_impl \<Rightarrow> ser" where
  "option_serialize opt = ser_and (option_header_serialize opt) (option_body_serialize (opt_body opt))"

section \<open>Reading\<close>

definition known_option_type :: "byte \<Rightarrow> bool" where
  "known_option_type t \<longleftrightarrow> t \<in> {CONFIGURATION, LOAD_BALANCING, PROTECTION, IP4_ENDPOINT, IP6_ENDPOINT,
     IP4_MULTICAST, IP6_MULTICAST, SELECTIVE}"

text \<open>The base class: length and type.\<close>

definition option_header_deserialize :: "(u16 \<times> option_type_e) des" where
  "option_header_deserialize =
     des_bind deserialize_u16 (\<lambda>len.
     des_bind deserialize_u8 (\<lambda>its_type.
     des_bind deserialize_u8 (\<lambda>reserved.
       des_return (len, if known_option_type its_type then its_type else OPTION_UNKNOWN))))"

definition layer_four_protocol :: "byte \<Rightarrow> layer_four_protocol_e" where
  "layer_four_protocol b = (if b = L4_TCP \<or> b = L4_UDP then b else L4_UNKNOWN)"

text \<open>
  The IP options read on after a failure, and only the header decides about success: a field that
  cannot be read keeps its initial value.
\<close>

definition ip_option_deserialize ::
    "nat \<Rightarrow> u16 \<Rightarrow> (bytes \<Rightarrow> layer_four_protocol_e \<Rightarrow> u16 \<Rightarrow> option_body) \<Rightarrow> option_impl des" where
  "ip_option_deserialize sz option_length body =
     des_bind (des_try option_header_deserialize) (\<lambda>header.
     des_bind (des_try (deserialize_bytes sz)) (\<lambda>address.
     des_bind (des_try deserialize_u8) (\<lambda>reserved.
     des_bind (des_try deserialize_u8) (\<lambda>proto.
     des_bind (des_try deserialize_u16) (\<lambda>port.
       (let its_address = (case address of Some a \<Rightarrow> a | None \<Rightarrow> replicate sz 0);
            its_reserved = (case proto of Some b \<Rightarrow> b | None \<Rightarrow> (case reserved of Some b \<Rightarrow> b | None \<Rightarrow> L4_UNKNOWN));
            its_port = (case port of Some p \<Rightarrow> p | None \<Rightarrow> 0)
        in (case header of
              Some (len, type) \<Rightarrow>
                if len = option_length
                then des_return \<lparr>opt_length = len, opt_type = type,
                       opt_body = body its_address (layer_four_protocol its_reserved) its_port\<rparr>
                else des_fail
            | None \<Rightarrow> des_fail)))))))"

definition ipv4_option_deserialize :: "option_impl des" where
  "ipv4_option_deserialize = ip_option_deserialize 4 0x0009 Ipv4"

definition ipv6_option_deserialize :: "option_impl des" where
  "ipv6_option_deserialize = ip_option_deserialize 16 0x0015 Ipv6"

definition load_balancing_option_deserialize :: "option_impl des" where
  "load_balancing_option_deserialize =
     des_bind option_header_deserialize (\<lambda>(len, type).
     des_bind deserialize_u16 (\<lambda>priority.
     des_bind deserialize_u16 (\<lambda>weight.
       des_return \<lparr>opt_length = len, opt_type = type, opt_body = Load_balancing priority weight\<rparr>)))"

definition protection_option_deserialize :: "option_impl des" where
  "protection_option_deserialize =
     des_bind option_header_deserialize (\<lambda>(len, type).
     des_bind (deserialize_u32 False) (\<lambda>counter.
     des_bind (deserialize_u32 False) (\<lambda>crc.
       des_return \<lparr>opt_length = len, opt_type = type, opt_body = Protection counter crc\<rparr>)))"

text \<open>
  The loop over the clients of a selective option. The result of the last read decides; after a
  failed read an indeterminate client is inserted, which the option never shows since it is
  discarded then.
\<close>

partial_function (option) selective_loop ::
    "u16 \<Rightarrow> u16 \<Rightarrow> bool \<Rightarrow> u16 list \<Rightarrow> deserializer \<Rightarrow> ((bool \<times> u16 list) \<times> deserializer) option" where
  "selective_loop len i is_successful clients d =
     (if i < len then do {
        (client, d) \<leftarrow> deserialize_u16 d;
        (case client of
           Some its_client \<Rightarrow> selective_loop len (i + 2) True (List.insort_insert its_client clients) d
         | None \<Rightarrow> selective_loop len (i + 2) False clients d) }
      else Some ((is_successful, clients), d))"

declare selective_loop.simps [code]

definition selective_option_deserialize :: "option_impl des" where
  "selective_option_deserialize =
     des_bind option_header_deserialize (\<lambda>(len, type) d. do {
       ((is_successful, clients), d) \<leftarrow> selective_loop len 1 True [] d;
       Some (if is_successful then Some \<lparr>opt_length = len, opt_type = type, opt_body = Selective clients\<rparr> else None, d) })"

text \<open>Key and value of an item: split at the first equals sign, an item without one is a key.\<close>

definition split_item :: "bytes \<Rightarrow> bytes \<times> bytes" where
  "split_item item = (takeWhile (\<lambda>c. c \<noteq> 0x3D) item, drop 1 (dropWhile (\<lambda>c. c \<noteq> 0x3D) item))"

text \<open>The items of a configuration option, up to an empty item or the end of the input.\<close>

partial_function (option) configuration_loop ::
    "(bytes \<times> bytes) list \<Rightarrow> deserializer \<Rightarrow> ((bytes \<times> bytes) list option \<times> deserializer) option" where
  "configuration_loop m d = do {
     (len, d) \<leftarrow> deserialize_u8 d;
     (case len of
        None \<Rightarrow> Some (None, d)
      | Some item_length \<Rightarrow>
          if 0 < item_length then do {
            (item, d) \<leftarrow> deserialize_string 256 (unat item_length) d;
            (case item of
               None \<Rightarrow> Some (None, d)
             | Some its_item \<Rightarrow>
                 (let (key, val) = split_item its_item in
                  if map_of m key = None
                  then (if 0 < get_remaining d then configuration_loop (map_put key val m) d
                        else Some (Some (map_put key val m), d))
                  else Some (None, d))) }
          else Some (Some m, d)) }"

declare configuration_loop.simps [code]

definition configuration_option_deserialize :: "option_impl des" where
  "configuration_option_deserialize =
     des_bind option_header_deserialize (\<lambda>(len, type).
     des_bind (configuration_loop []) (\<lambda>m.
       des_return \<lparr>opt_length = len, opt_type = type, opt_body = Configuration m\<rparr>))"

text \<open>A \<open>std::vector\<close> constructed with \<open>n\<close> elements has capacity \<open>n\<close>.\<close>

definition unknown_option_deserialize :: "option_impl des" where
  "unknown_option_deserialize =
     des_bind option_header_deserialize (\<lambda>(len, type) d.
       if len = 0 \<or> get_remaining d < unat len then Some (None, d)
       else des_bind (deserialize_vector (unat len - 1)) (\<lambda>payload.
         des_return \<lparr>opt_length = len, opt_type = type, opt_body = Unknown payload\<rparr>) d)"

text \<open>\<open>message_impl::deserialize_option\<close>: the type byte selects the class.\<close>

definition deserialize_option :: "option_impl des" where
  "deserialize_option d = do {
     tmp_option_type \<leftarrow> look_ahead_u8 2 d;
     (case tmp_option_type of
        None \<Rightarrow> Some (None, d)
      | Some t \<Rightarrow>
          (if t = CONFIGURATION then configuration_option_deserialize
           else if t = LOAD_BALANCING then load_balancing_option_deserialize
           else if t = PROTECTION then protection_option_deserialize
           else if t = IP4_ENDPOINT \<or> t = IP4_MULTICAST then ipv4_option_deserialize
           else if t = IP6_ENDPOINT \<or> t = IP6_MULTICAST then ipv6_option_deserialize
           else if t = SELECTIVE then selective_option_deserialize
           else unknown_option_deserialize) d) }"

section \<open>Lists in iteration order\<close>

lemma map_put_last: "\<forall>k' \<in> fst ` set m. k' < k \<Longrightarrow> map_put k v m = m @ [(k, v)]"
  by (induction m) auto

lemma map_of_map_put: "sorted_wrt (<) (map fst m) \<Longrightarrow> map_of (map_put k v m) = (map_of m)(k \<mapsto> v)"
  by (induction m) (auto simp: fun_eq_iff)

lemma set_map_put: "fst ` set (map_put k v m) = insert k (fst ` set m)"
  by (induction k v m rule: map_put.induct) (simp_all add: insert_commute)

lemma sorted_map_put: "sorted_wrt (<) (map fst m) \<Longrightarrow> sorted_wrt (<) (map fst (map_put k v m))"
proof (induction m)
  case (Cons kv m)
  then show ?case using set_map_put [of k v m] by (cases kv) (auto simp: set_map_put simp flip: image_iff)
qed simp

lemma fold_map_put:
  "sorted_wrt (<) (map fst (acc @ m)) \<Longrightarrow> fold (\<lambda>(k, v). map_put k v) m acc = acc @ m"
proof (induction m arbitrary: acc)
  case (Cons kv m)
  obtain k v where kv: "kv = (k, v)" by (cases kv)
  have "\<forall>k' \<in> fst ` set acc. k' < k" using Cons.prems by (auto simp: kv sorted_wrt_append)
  then show ?case using Cons.IH [of "acc @ [kv]"] Cons.prems by (simp add: kv map_put_last)
qed simp

lemma insort_last: "\<forall>y \<in> set xs. y < x \<Longrightarrow> insort x xs = xs @ [x]" for x :: "'a::linorder"
  by (induction xs) auto

lemma fold_insort_insert:
  "sorted_wrt (<) (acc @ xs) \<Longrightarrow> fold List.insort_insert xs acc = acc @ xs" for acc :: "'a::linorder list"
proof (induction xs arbitrary: acc)
  case (Cons x xs)
  have "\<forall>y \<in> set acc. y < x" using Cons.prems by (auto simp: sorted_wrt_append)
  then have "List.insort_insert x acc = acc @ [x]" using insort_last [of acc x] by (auto simp: insort_insert_key_def)
  then show ?case using Cons.IH [of "acc @ [x]"] Cons.prems by simp
qed simp

section \<open>Well-formed options\<close>

text \<open>
  An option whose length and type agree with its class and contents, with an address of the right
  size and keys that can be told from their values.
\<close>

definition item_wf :: "bytes \<times> bytes \<Rightarrow> bool" where
  "item_wf kv \<longleftrightarrow> 0x3D \<notin> set (fst kv) \<and> 1 + length (fst kv) + length (snd kv) < 256"

fun body_wf :: "option_type_e \<Rightarrow> nat \<Rightarrow> option_body \<Rightarrow> bool" where
  "body_wf t n (Configuration m) \<longleftrightarrow> t = CONFIGURATION \<and> sorted_wrt (<) (map fst m) \<and> list_all item_wf m \<and>
     n = 1 + length (configuration_string m)"
| "body_wf t n (Load_balancing _ _) \<longleftrightarrow> t = LOAD_BALANCING \<and> n = 5"
| "body_wf t n (Protection _ _) \<longleftrightarrow> t = PROTECTION \<and> n = 9"
| "body_wf t n (Ipv4 a l p) \<longleftrightarrow> (t = IP4_ENDPOINT \<or> t = IP4_MULTICAST) \<and> n = 9 \<and> length a = 4 \<and> layer_four_protocol l = l"
| "body_wf t n (Ipv6 a l p) \<longleftrightarrow> (t = IP6_ENDPOINT \<or> t = IP6_MULTICAST) \<and> n = 21 \<and> length a = 16 \<and> layer_four_protocol l = l"
| "body_wf t n (Selective cs) \<longleftrightarrow> t = SELECTIVE \<and> sorted_wrt (<) cs \<and> n = 1 + 2 * length cs"
| "body_wf t n (Unknown _) \<longleftrightarrow> False"

definition option_wf :: "option_impl \<Rightarrow> bool" where
  "option_wf opt \<longleftrightarrow> body_wf (opt_type opt) (unat (opt_length opt)) (opt_body opt)"

section \<open>The bytes of an option\<close>

fun body_bytes :: "option_body \<Rightarrow> bytes" where
  "body_bytes (Configuration m) = configuration_string m"
| "body_bytes (Load_balancing p w) = be_bytes 2 p @ be_bytes 2 w"
| "body_bytes (Protection n c) = be_bytes 4 n @ be_bytes 4 c"
| "body_bytes (Ipv4 a l p) = a @ [0, l] @ be_bytes 2 p"
| "body_bytes (Ipv6 a l p) = a @ [0, l] @ be_bytes 2 p"
| "body_bytes (Selective cs) = concat (map (be_bytes 2) cs)"
| "body_bytes (Unknown _) = []"

definition option_bytes :: "option_impl \<Rightarrow> bytes" where
  "option_bytes opt = be_bytes 2 (opt_length opt) @ [opt_type opt, 0] @ body_bytes (opt_body opt)"

lemma emits_append_Nil: "emits m bs \<Longrightarrow> bs = cs \<Longrightarrow> emits m cs" by simp

lemma emits_option_header: "emits (option_header_serialize opt) (be_bytes 2 (opt_length opt) @ [opt_type opt, 0])"
  unfolding option_header_serialize_def by (rule emits_append_Nil, (rule emit_intros)+) simp

lemma emits_ip_body: "emits (ip_body_serialize a l p) (a @ 0 # l # be_bytes 2 p)"
  unfolding ip_body_serialize_def by (rule emits_append_Nil, (rule emit_intros)+) simp

lemma emits_body: "emits (option_body_serialize b) (body_bytes b)"
proof (cases b)
  case (Selective cs)
  then show ?thesis using emits_all_map [of cs serialize_u16 "be_bytes 2"] emits_u16 by simp
qed (auto intro!: emits_ip_body emits_bytes emits_append_Nil [OF emits_all_Cons [OF _ emits_all_Cons [OF _ emits_all_Nil]]]
    emits_u16 emits_u32 emits_all_Nil)

lemma emits_option: "emits (option_serialize opt) (option_bytes opt)"
  using emits_and [OF emits_option_header emits_body] by (simp add: option_serialize_def option_bytes_def)

lemma length_selective: "length (concat (map (be_bytes 2) (cs :: u16 list))) = 2 * length cs"
  by (induction cs) auto

lemma length_option_bytes: "option_wf opt \<Longrightarrow> length (option_bytes opt) = unat (opt_length opt) + 3"
  by (cases "opt_body opt") (auto simp: option_wf_def option_bytes_def length_selective)


section \<open>Reading back\<close>

lemma look_ahead_input:
  assumes "des_ok d" and "des_input d = bs @ rest" and "i < length bs"
  shows "look_ahead_u8 i d = Some (Some (bs ! i))"
proof -
  have "length bs \<le> des_remaining d" using assms(1,2) length_des_input [of d] by simp
  then show ?thesis
    using assms mem_at_input [OF assms(1), of i] by (simp add: look_ahead_u8_def nth_append)
qed

lemma parses_cong: "parses m bs v \<Longrightarrow> bs = cs \<Longrightarrow> v = w \<Longrightarrow> parses m cs w" by simp

lemma parses_option_header:
  "known_option_type t \<Longrightarrow> parses option_header_deserialize (be_bytes 2 len @ [t, 0]) (len, t)"
  unfolding option_header_deserialize_def
  by (rule parses_cong, (rule parse_intros)+) simp_all

lemma parses_bind2:
  "parses m bs (x, y) \<Longrightarrow> parses (f x y) cs v \<Longrightarrow> parses (des_bind m (\<lambda>(x, y). f x y)) (bs @ cs) v"
  using parses_bind [of m bs "(x, y)" "\<lambda>(x, y). f x y" cs v] by simp

lemma parses_load_balancing:
  "parses load_balancing_option_deserialize (be_bytes 2 len @ [LOAD_BALANCING, 0] @ body_bytes (Load_balancing p w))
     \<lparr>opt_length = len, opt_type = LOAD_BALANCING, opt_body = Load_balancing p w\<rparr>"
proof -
  have h: "parses option_header_deserialize (be_bytes 2 len @ [LOAD_BALANCING, 0]) (len, LOAD_BALANCING)"
    by (rule parses_option_header) (simp add: known_option_type_def)
  have "parses load_balancing_option_deserialize ((be_bytes 2 len @ [LOAD_BALANCING, 0]) @ be_bytes 2 p @ be_bytes 2 w @ [])
      \<lparr>opt_length = len, opt_type = LOAD_BALANCING, opt_body = Load_balancing p w\<rparr>"
    unfolding load_balancing_option_deserialize_def
    by (rule parses_bind2 h parses_bind parses_u16 parses_u32 parses_return)+
  then show ?thesis by simp
qed

lemma parses_protection:
  "parses protection_option_deserialize (be_bytes 2 len @ [PROTECTION, 0] @ body_bytes (Protection n c))
     \<lparr>opt_length = len, opt_type = PROTECTION, opt_body = Protection n c\<rparr>"
proof -
  have h: "parses option_header_deserialize (be_bytes 2 len @ [PROTECTION, 0]) (len, PROTECTION)"
    by (rule parses_option_header) (simp add: known_option_type_def)
  have "parses protection_option_deserialize ((be_bytes 2 len @ [PROTECTION, 0]) @ be_bytes 4 n @ be_bytes 4 c @ [])
      \<lparr>opt_length = len, opt_type = PROTECTION, opt_body = Protection n c\<rparr>"
    unfolding protection_option_deserialize_def
    by (rule parses_bind2 h parses_bind parses_u16 parses_u32 parses_return)+
  then show ?thesis by simp
qed

lemma parses_ip:
  assumes "known_option_type t" and "length a = sz" and "layer_four_protocol l = l"
  shows "parses (ip_option_deserialize sz len body) (be_bytes 2 len @ [t, 0] @ a @ [0, l] @ be_bytes 2 p)
     \<lparr>opt_length = len, opt_type = t, opt_body = body a l p\<rparr>"
proof -
  have "parses (ip_option_deserialize sz len body) ((be_bytes 2 len @ [t, 0]) @ a @ [0] @ [l] @ be_bytes 2 p @ [])
      \<lparr>opt_length = len, opt_type = t, opt_body = body a l p\<rparr>"
    unfolding ip_option_deserialize_def
    by (rule parses_bind parses_try parses_option_header [OF assms(1)] parses_bytes [OF assms(2)] parses_u8 parses_u16)+
      (simp add: assms(3) parses_return)
  then show ?thesis by simp
qed

lemma unat_less_16: "unat (w :: u16) < 65536"
  using unsigned_less [of w] by simp

lemma selective_loop_parses:
  assumes "des_ok d" and "des_input d = concat (map (be_bytes 2) cs) @ rest" and "unat i + 2 * length cs = unat len"
  shows "selective_loop len i True acc d = Some ((True, fold List.insort_insert cs acc), advance (2 * length cs) d)"
  using assms
proof (induction cs arbitrary: d i acc)
  case Nil
  then show ?case by (subst selective_loop.simps) (simp add: word_less_nat_alt)
next
  case (Cons c cs)
  let ?d = "advance 2 d"
  have rd: "deserialize_u16 d = Some (Some c, ?d)"
    using parsesD [OF parses_u16, of d c "concat (map (be_bytes 2) cs) @ rest"] Cons.prems by simp
  have d: "des_ok ?d" "des_input ?d = concat (map (be_bytes 2) cs) @ rest"
    using des_ok_advance_app [of d "be_bytes 2 c"] Cons.prems by simp_all
  have "unat (i + 2) = unat i + 2"
    using Cons.prems(3) unat_less_16 [of len] by (subst unat_add_lem [THEN iffD1]) simp_all
  then show ?case
    using Cons.IH [OF d, of "i + 2"] rd Cons.prems(3)
    by (subst selective_loop.simps) (simp add: word_less_nat_alt)
qed


lemma parses_selective:
  assumes "sorted_wrt (<) cs" and "unat len = 1 + 2 * length cs"
  shows "parses selective_option_deserialize (be_bytes 2 len @ [SELECTIVE, 0] @ concat (map (be_bytes 2) cs))
     \<lparr>opt_length = len, opt_type = SELECTIVE, opt_body = Selective cs\<rparr>"
proof -
  have h: "parses option_header_deserialize (be_bytes 2 len @ [SELECTIVE, 0]) (len, SELECTIVE)"
    by (rule parses_option_header) (simp add: known_option_type_def)
  have "parses selective_option_deserialize ((be_bytes 2 len @ [SELECTIVE, 0]) @ concat (map (be_bytes 2) cs))
      \<lparr>opt_length = len, opt_type = SELECTIVE, opt_body = Selective cs\<rparr>"
    unfolding selective_option_deserialize_def
  proof (rule parses_bind2 [OF h], unfold parses_def, intro allI impI, elim conjE)
    fix d rest assume d: "des_ok d" "des_input d = concat (map (be_bytes 2) cs) @ rest"
    have "selective_loop len 1 True [] d = Some ((True, cs), advance (2 * length cs) d)"
      using selective_loop_parses [OF d, of 1 len "[]"] assms fold_insort_insert [of "[]" cs] by simp
    then show "(do {
        ((is_successful, clients), d) \<leftarrow> selective_loop len 1 True [] d;
        Some (if is_successful then Some \<lparr>opt_length = len, opt_type = SELECTIVE, opt_body = Selective clients\<rparr> else None, d) }) =
      Some (Some \<lparr>opt_length = len, opt_type = SELECTIVE, opt_body = Selective cs\<rparr>,
        advance (length (concat (map (be_bytes 2) cs))) d)"
      by (simp add: length_selective)
  qed
  then show ?thesis by simp
qed

lemma deserialize_string_bytes: "n \<le> capacity \<Longrightarrow> deserialize_string capacity n = deserialize_bytes n"
  by (rule ext) (simp add: deserialize_string_def deserialize_bytes_def)

lemma split_item: "0x3D \<notin> set k \<Longrightarrow> split_item (k @ 0x3D # v) = (k, v)"
proof -
  assume "0x3D \<notin> set k"
  then have "\<forall>x \<in> set k. x \<noteq> 0x3D" by blast
  then show ?thesis by (simp add: split_item_def takeWhile_append2 dropWhile_append2)
qed

lemma configuration_loop_parses:
  assumes "des_ok d" and "des_input d = configuration_string m @ rest" and "list_all item_wf m"
    and "distinct (map fst m)" and "fst ` set m \<inter> fst ` set acc = {}"
  shows "configuration_loop acc d =
     Some (Some (fold (\<lambda>(k, v). map_put k v) m acc), advance (length (configuration_string m)) d)"
  using assms
proof (induction m arbitrary: d acc)
  case Nil
  then have "deserialize_u8 d = Some (Some 0, advance 1 d)"
    using parsesD [OF parses_u8, of d 0 rest] by (simp add: configuration_string_def)
  then show ?case by (subst configuration_loop.simps) (simp add: configuration_string_def)
next
  case (Cons kv m)
  obtain k v where kv: "kv = (k, v)" by (cases kv)
  let ?l = "of_nat (1 + length k + length v) :: byte" and ?d1 = "advance 1 d"
  have wf: "0x3D \<notin> set k" "1 + length k + length v < 256" using Cons.prems(3) by (simp_all add: kv item_wf_def)
  have l: "unat ?l = 1 + length k + length v" using wf(2) by (simp add: unat_of_nat take_bit_nat_eq_self del: of_nat_add of_nat_Suc)
  have input: "des_input d = ?l # (k @ 0x3D # v) @ configuration_string m @ rest"
    using Cons.prems(2) by (simp add: kv configuration_string_def configuration_item_def)
  have 1: "deserialize_u8 d = Some (Some ?l, ?d1)"
    using parsesD [OF parses_u8, of d ?l] Cons.prems(1) input by simp
  have d1: "des_ok ?d1" "des_input ?d1 = (k @ 0x3D # v) @ configuration_string m @ rest"
    using des_ok_advance_app [of d "[?l]"] Cons.prems(1) input by simp_all
  let ?d2 = "advance (1 + length k + length v) ?d1"
  have "deserialize_string 256 (unat ?l) = deserialize_bytes (unat ?l)"
    using wf(2) unfolding l by (intro deserialize_string_bytes) simp
  then have 2: "deserialize_string 256 (unat ?l) ?d1 = Some (Some (k @ 0x3D # v), ?d2)"
    unfolding l using parsesD [OF parses_bytes d1, of "1 + length k + length v"] by simp
  have d2: "des_ok ?d2" "des_input ?d2 = configuration_string m @ rest"
    using des_ok_advance_app [OF d1] des_input_advance [of "1 + length k + length v" ?d1] unfolding d1(2) by simp_all
  have rem: "0 < get_remaining ?d2"
    using length_des_input [OF d2(1)] unfolding d2(2) get_remaining_def configuration_string_def by simp
  have pos: "0 < ?l" using l by (simp add: word_less_nat_alt del: of_nat_add of_nat_Suc)
  have "k \<notin> fst ` set acc" using Cons.prems(5) by (auto simp: kv)
  then have "map_of acc k = None" by (simp add: map_of_eq_None_iff)
  moreover have "fst ` set m \<inter> fst ` set (map_put k v acc) = {}"
    using Cons.prems(4,5) by (auto simp: kv set_map_put)
  ultimately show ?case
    using Cons.IH [OF d2, of "map_put k v acc"] Cons.prems(3,4) 1 2 rem pos split_item [OF wf(1), of v]
    by (subst configuration_loop.simps) (simp add: kv configuration_string_def configuration_item_def add.assoc del: of_nat_add of_nat_Suc)
qed

lemma parses_configuration:
  assumes "sorted_wrt (<) (map fst m)" and "list_all item_wf m"
  shows "parses configuration_option_deserialize (be_bytes 2 len @ [CONFIGURATION, 0] @ configuration_string m)
     \<lparr>opt_length = len, opt_type = CONFIGURATION, opt_body = Configuration m\<rparr>"
proof -
  have h: "parses option_header_deserialize (be_bytes 2 len @ [CONFIGURATION, 0]) (len, CONFIGURATION)"
    by (rule parses_option_header) (simp add: known_option_type_def)
  have m: "parses (configuration_loop []) (configuration_string m) m"
    unfolding parses_def
    using configuration_loop_parses [of _ m _ "[]"] assms fold_map_put [of "[]" m] strict_sorted_iff [of "map fst m"] by simp
  have "parses configuration_option_deserialize ((be_bytes 2 len @ [CONFIGURATION, 0]) @ configuration_string m @ [])
      \<lparr>opt_length = len, opt_type = CONFIGURATION, opt_body = Configuration m\<rparr>"
    unfolding configuration_option_deserialize_def
    by (rule parses_bind2 h parses_bind m parses_return)+
  then show ?thesis by simp
qed

lemma parses_option:
  assumes "option_wf opt"
  shows "parses deserialize_option (option_bytes opt) opt"
proof -
  have la: "look_ahead_u8 2 d = Some (Some (opt_type opt))" if "des_ok d" "des_input d = option_bytes opt @ rest" for d rest
    using look_ahead_input [OF that, of 2] by (simp add: option_bytes_def nth_append)
  have known: "known_option_type t" if "t = IP4_ENDPOINT \<or> t = IP4_MULTICAST \<or> t = IP6_ENDPOINT \<or> t = IP6_MULTICAST" for t
    using that by (auto simp: known_option_type_def)
  obtain len t b where opt: "opt = \<lparr>opt_length = len, opt_type = t, opt_body = b\<rparr>" by (cases opt)
  have "parses (if t = CONFIGURATION then configuration_option_deserialize
           else if t = LOAD_BALANCING then load_balancing_option_deserialize
           else if t = PROTECTION then protection_option_deserialize
           else if t = IP4_ENDPOINT \<or> t = IP4_MULTICAST then ipv4_option_deserialize
           else if t = IP6_ENDPOINT \<or> t = IP6_MULTICAST then ipv6_option_deserialize
           else if t = SELECTIVE then selective_option_deserialize
           else unknown_option_deserialize) (option_bytes opt) opt"
  proof (cases b)
    case (Configuration m)
    then show ?thesis using assms parses_configuration [of m len] by (simp add: opt option_wf_def option_bytes_def)
  next
    case (Load_balancing p w)
    then show ?thesis using assms parses_load_balancing [of len p w] by (simp add: opt option_wf_def option_bytes_def)
  next
    case (Protection n c)
    then show ?thesis using assms parses_protection [of len n c] by (simp add: opt option_wf_def option_bytes_def)
  next
    case (Ipv4 a l p)
    then have t: "t = IP4_ENDPOINT \<or> t = IP4_MULTICAST" and k: "known_option_type t" and len: "len = 9" and a: "length a = 4" "layer_four_protocol l = l"
      using assms known [of t] by (auto simp: opt option_wf_def word_unat_eq_iff)
    have "parses ipv4_option_deserialize (option_bytes opt) opt"
      using parses_ip [OF k a, of 9 Ipv4 p] by (simp add: opt Ipv4 len option_bytes_def ipv4_option_deserialize_def)
    then show ?thesis using t by auto
  next
    case (Ipv6 a l p)
    then have t: "t = IP6_ENDPOINT \<or> t = IP6_MULTICAST" and k: "known_option_type t" and len: "len = 21" and a: "length a = 16" "layer_four_protocol l = l"
      using assms known [of t] by (auto simp: opt option_wf_def word_unat_eq_iff)
    have "parses ipv6_option_deserialize (option_bytes opt) opt"
      using parses_ip [OF k a, of 21 Ipv6 p] by (simp add: opt Ipv6 len option_bytes_def ipv6_option_deserialize_def)
    then show ?thesis using t by auto
  next
    case (Selective cs)
    then show ?thesis using assms parses_selective [of cs len] by (simp add: opt option_wf_def option_bytes_def)
  qed (use assms in \<open>simp add: opt option_wf_def\<close>)
  then show ?thesis
    unfolding parses_def deserialize_option_def using la by (auto simp: opt)
qed


section \<open>Safety\<close>

lemma des_safe_option_header: "des_safe option_header_deserialize"
  unfolding option_header_deserialize_def by (intro safe_intros)

lemma des_safe_bind2: "des_safe m \<Longrightarrow> (\<And>x y. des_safe (f x y)) \<Longrightarrow> des_safe (des_bind m (\<lambda>(x, y). f x y))"
  by (rule des_safe_bind) (auto split: prod.splits)

lemma des_safe_ip: "des_safe (ip_option_deserialize sz len body)"
  unfolding ip_option_deserialize_def Let_def
  by (intro safe_intros des_safe_option_header) (auto split: option.splits intro: safe_intros)

lemma des_safe_string: "des_safe (deserialize_string cap n)"
proof (cases "n \<le> cap")
  case False
  then have "deserialize_string cap n = des_fail" by (simp add: fun_eq_iff deserialize_string_def des_fail_def)
  then show ?thesis by (simp add: des_safe_fail)
qed (simp add: deserialize_string_bytes rdn.rd_safe)

lemma selective_loop_safe:
  assumes "des_ok d" and "odd (unat i)"
  shows "\<exists>r d'. selective_loop len i ok cs d = Some (r, d') \<and> des_step d d'"
  using assms
proof (induction "unat len - unat i" arbitrary: i ok cs d rule: less_induct)
  case less
  show ?case
  proof (cases "i < len")
    case True
    obtain c d1 where c: "deserialize_u16 d = Some (c, d1)" "des_step d d1" "des_ok d1"
      using des_safeD [OF rd16.rd_safe less.prems(1)] by blast
    have "unat i \<noteq> 65534" using less.prems(2) by auto
    then have "unat i < 65534" using True unat_less_16 [of len] by (simp add: word_less_nat_alt)
    then have i: "unat (i + 2) = unat i + 2" by (subst unat_add_lem [THEN iffD1]) simp_all
    then have "unat len - unat (i + 2) < unat len - unat i" "odd (unat (i + 2))"
      using True less.prems(2) by (simp_all add: word_less_nat_alt)
    note IH = less.hyps [OF this(1) c(3) this(2)]
    have "\<exists>r d'. selective_loop len i ok cs d = Some (r, d') \<and> des_step d1 d'"
      using IH [of False cs] IH [of True "List.insort_insert (the c) cs"] True c(1)
      by (subst selective_loop.simps) (cases c; auto)
    then show ?thesis using c(2) des_step_trans by blast
  qed (use less.prems in \<open>subst selective_loop.simps, simp\<close>)
qed

lemma des_safe_selective_clients:
  "des_safe (\<lambda>d. do {
       ((is_successful, clients), d) \<leftarrow> selective_loop len 1 True [] d;
       Some (if is_successful then Some \<lparr>opt_length = len, opt_type = type, opt_body = Selective clients\<rparr> else None, d) })"
  unfolding des_safe_def using selective_loop_safe [of _ 1 len True "[]"] by fastforce

lemma des_safe_selective: "des_safe selective_option_deserialize"
  unfolding selective_option_deserialize_def by (rule des_safe_bind2 [OF des_safe_option_header des_safe_selective_clients])

lemma configuration_loop_safe:
  "des_ok d \<Longrightarrow> \<exists>r d'. configuration_loop m d = Some (r, d') \<and> des_step d d'"
proof (induction "des_remaining d" arbitrary: m d rule: less_induct)
  case less
  obtain l d1 where l: "deserialize_u8 d = Some (l, d1)" "des_step d d1" "des_ok d1"
    using des_safeD [OF rd8.rd_safe less.prems] by blast
  show ?case
  proof (cases l)
    case None
    then show ?thesis using l by (subst configuration_loop.simps) simp
  next
    case l': (Some n)
    have rem: "des_remaining d1 < des_remaining d"
      using consumesD [OF consumes_u8] l(1,2) l' by (fastforce simp: des_step_def)
    obtain s d2 where s: "deserialize_string 256 (unat n) d1 = Some (s, d2)" "des_step d1 d2" "des_ok d2"
      using des_safeD [OF des_safe_string l(3)] by blast
    have rem2: "des_remaining d2 < des_remaining d" using rem des_step_remaining [OF s(2)] by simp
    have step: "des_step d d2" using l(2) s(2) by (rule des_step_trans)
    have rec: "\<exists>r d'. configuration_loop m' d2 = Some (r, d') \<and> des_step d d'" for m'
      using less.hyps [OF rem2 s(3)] step des_step_trans by blast
    show ?thesis
      using l(1,2) l' s(1) step rec by (subst configuration_loop.simps) (auto split: option.splits prod.splits)
  qed
qed

lemma des_safe_configuration: "des_safe configuration_option_deserialize"
  unfolding configuration_option_deserialize_def
  by (intro des_safe_bind2 des_safe_option_header safe_intros) (simp add: des_safe_def configuration_loop_safe)

lemma des_safe_unknown_payload:
  "des_safe (\<lambda>d. if len = 0 \<or> get_remaining d < unat len then Some (None, d)
      else des_bind (deserialize_vector (unat len - 1)) (\<lambda>payload.
        des_return \<lparr>opt_length = len, opt_type = type, opt_body = Unknown payload\<rparr>) d)"
proof -
  have "des_safe (des_bind (deserialize_vector (unat len - 1)) (\<lambda>payload.
      des_return \<lparr>opt_length = len, opt_type = type, opt_body = Unknown payload\<rparr>))"
    by (intro safe_intros)
  then show ?thesis by (simp add: des_safe_def)
qed

lemma des_safe_unknown: "des_safe unknown_option_deserialize"
  unfolding unknown_option_deserialize_def by (rule des_safe_bind2 [OF des_safe_option_header des_safe_unknown_payload])

text \<open>
  Choosing the class looks three bytes ahead although only two are known to remain: the byte after
  the announced ones must exist.
\<close>

lemma deserialize_option_safe:
  assumes "des_ok d" and "des_remaining d \<noteq> 2 \<or> des_position d + 2 < length (des_data d)"
  shows "\<exists>r d'. deserialize_option d = Some (r, d') \<and> des_step d d'"
proof -
  have safe: "\<exists>r d'. m d = Some (r, d') \<and> des_step d d'" if "des_safe m" for m :: "option_impl des"
    using that assms(1) by (simp add: des_safe_def)
  show ?thesis
  proof (cases "des_remaining d < 2")
    case True
    then show ?thesis by (simp add: deserialize_option_def look_ahead_u8_def)
  next
    case False
    then have "des_position d + 2 < length (des_data d)"
      using assms by (auto simp: des_ok_def)
    then have "look_ahead_u8 2 d = Some (Some (des_data d ! (des_position d + 2)))"
      using False by (simp add: look_ahead_u8_def)
    then show ?thesis
      unfolding deserialize_option_def
      by (simp add: safe des_safe_configuration des_safe_selective des_safe_unknown ipv4_option_deserialize_def ipv6_option_deserialize_def
          des_safe_ip load_balancing_option_deserialize_def protection_option_deserialize_def
          des_safe_bind2 des_safe_option_header des_safe_bind readers_safe des_safe_return)
  qed
qed

end
