(* ===== verification/Sd_Entry.thy ===== *)
theory Sd_Entry
  imports Sd_Option "HOL-Library.Multiset"
begin

text \<open>
  Model of the SOME/IP-SD entries: \<open>entry_impl.cpp\<close>, \<open>serviceentry_impl.cpp\<close> and
  \<open>eventgroupentry_impl.cpp\<close> of \<open>service_discovery/src\<close>. An entry is the base class part with the
  fields of the derived class. The endpoints stored by \<open>add_target\<close> never reach the wire and are left
  out.
\<close>

section \<open>Data\<close>

type_synonym entry_type_e = byte

abbreviation (input) FIND_SERVICE :: entry_type_e where "FIND_SERVICE \<equiv> 0x00"
abbreviation (input) OFFER_SERVICE :: entry_type_e where "OFFER_SERVICE \<equiv> 0x01"
abbreviation (input) REQUEST_SERVICE :: entry_type_e where "REQUEST_SERVICE \<equiv> 0x02"
abbreviation (input) FIND_EVENT_GROUP :: entry_type_e where "FIND_EVENT_GROUP \<equiv> 0x04"
abbreviation (input) PUBLISH_EVENTGROUP :: entry_type_e where "PUBLISH_EVENTGROUP \<equiv> 0x05"
abbreviation (input) SUBSCRIBE_EVENTGROUP :: entry_type_e where "SUBSCRIBE_EVENTGROUP \<equiv> 0x06"
abbreviation (input) SUBSCRIBE_EVENTGROUP_ACK :: entry_type_e where "SUBSCRIBE_EVENTGROUP_ACK \<equiv> 0x07"
abbreviation (input) ENTRY_UNKNOWN :: entry_type_e where "ENTRY_UNKNOWN \<equiv> 0xFF"

text \<open>The derived classes: the minor version, respectively eventgroup, reserved field and counter.\<close>

datatype entry_kind =
    Service_entry u32
  | Eventgroup_entry u16 u16 byte

record entry_impl =
  ent_type :: entry_type_e
  ent_service :: u16
  ent_instance :: u16
  ent_major_version :: byte
  ent_ttl :: u32
  ent_options1 :: "byte list"
  ent_options2 :: "byte list"
  ent_num_options1 :: byte
  ent_num_options2 :: byte
  ent_index1 :: byte
  ent_index2 :: byte
  ent_kind :: entry_kind

definition entry_new :: "entry_kind \<Rightarrow> entry_impl" where
  "entry_new k = \<lparr>ent_type = ENTRY_UNKNOWN, ent_service = 0, ent_instance = 0, ent_major_version = 0, ent_ttl = 0,
     ent_options1 = [], ent_options2 = [], ent_num_options1 = 0, ent_num_options2 = 0, ent_index1 = 0, ent_index2 = 0,
     ent_kind = k\<rparr>"

definition serviceentry_new :: entry_impl where
  "serviceentry_new = entry_new (Service_entry 0)"

definition eventgroupentry_new :: entry_impl where
  "eventgroupentry_new = entry_new (Eventgroup_entry 0xFFFF 0 0)"

definition entry_get_options :: "byte \<Rightarrow> entry_impl \<Rightarrow> byte list" where
  "entry_get_options run e = (if 0 < run \<and> run \<le> 2 then (if run = 1 then ent_options1 e else ent_options2 e) else [])"

definition entry_get_num_options :: "byte \<Rightarrow> entry_impl \<Rightarrow> byte" where
  "entry_get_num_options run e = (if run < 1 \<or> 2 < run then 0 else if run = 1 then ent_num_options1 e else ent_num_options2 e)"

definition is_service_entry :: "entry_impl \<Rightarrow> bool" where
  "is_service_entry e \<longleftrightarrow> ent_type e \<le> REQUEST_SERVICE"

definition is_eventgroup_entry :: "entry_impl \<Rightarrow> bool" where
  "is_eventgroup_entry e \<longleftrightarrow> FIND_EVENT_GROUP \<le> ent_type e \<and> ent_type e \<le> SUBSCRIBE_EVENTGROUP_ACK"

section \<open>Option runs\<close>

text \<open>
  An option joins a run that is empty or that it extends by one at either end. The comparisons are
  made in \<open>int\<close>, so index 255 has no successor.
\<close>

definition run_takes :: "byte list \<Rightarrow> byte \<Rightarrow> bool" where
  "run_takes run index \<longleftrightarrow> run = [] \<or> unat (hd run) = unat index + 1 \<or> unat (last run) + 1 = unat index"

definition assign_option :: "int \<Rightarrow> entry_impl \<Rightarrow> entry_impl" where
  "assign_option i e =
     (if -1 < i \<and> i < 256 then
        (let its_index = word_of_int i in
         if run_takes (ent_options1 e) its_index
         then e\<lparr>ent_options1 := sort (ent_options1 e @ [its_index]), ent_num_options1 := ent_num_options1 e + 1\<rparr>
         else if run_takes (ent_options2 e) its_index
         then e\<lparr>ent_options2 := sort (ent_options2 e @ [its_index]), ent_num_options2 := ent_num_options2 e + 1\<rparr>
         else e)
      else e)"

section \<open>Writing\<close>

definition run_start :: "byte list \<Rightarrow> byte" where
  "run_start run = (if 0 < length run then run ! 0 else 0)"

definition number_of_options :: "byte list \<Rightarrow> byte list \<Rightarrow> byte" where
  "number_of_options run1 run2 = push_bit 4 (of_nat (length run1)) OR (of_nat (length run2) AND 0x0F)"

definition entry_base_serialize :: "entry_impl \<Rightarrow> ser" where
  "entry_base_serialize e = ser_all
     [serialize_u8 (ent_type e), serialize_u8 (run_start (ent_options1 e)), serialize_u8 (run_start (ent_options2 e)),
      serialize_u8 (number_of_options (ent_options1 e) (ent_options2 e)),
      serialize_u16 (ent_service e), serialize_u16 (ent_instance e)]"

definition entry_serialize :: "entry_impl \<Rightarrow> ser" where
  "entry_serialize e = ser_and (entry_base_serialize e)
     (ser_all ([serialize_u8 (ent_major_version e), serialize_u32 (ent_ttl e) True] @
        (case ent_kind e of
           Service_entry minor_version \<Rightarrow> [serialize_u32 minor_version False]
         | Eventgroup_entry eventgroup reserved counter \<Rightarrow> [serialize_u16 reserved_word, serialize_u16 eventgroup])))"

section \<open>Reading\<close>

definition option_run :: "byte \<Rightarrow> byte \<Rightarrow> byte list" where
  "option_run index num = map of_nat [unat index ..< unat index + unat num]"

definition entry_base_deserialize :: "entry_impl \<Rightarrow> entry_impl des" where
  "entry_base_deserialize e =
     des_bind deserialize_u8 (\<lambda>its_type.
     des_bind deserialize_u8 (\<lambda>index1.
     des_bind deserialize_u8 (\<lambda>index2.
     des_bind deserialize_u8 (\<lambda>its_numbers.
     des_bind deserialize_u16 (\<lambda>service.
     des_bind deserialize_u16 (\<lambda>inst.
       des_return (e\<lparr>ent_type := its_type, ent_index1 := index1, ent_index2 := index2,
         ent_num_options1 := drop_bit 4 its_numbers, ent_num_options2 := its_numbers AND 0xF,
         ent_options1 := ent_options1 e @ option_run index1 (drop_bit 4 its_numbers),
         ent_options2 := ent_options2 e @ option_run index2 (its_numbers AND 0xF),
         ent_service := service, ent_instance := inst\<rparr>)))))))"

definition serviceentry_deserialize :: "entry_impl des" where
  "serviceentry_deserialize =
     des_bind (entry_base_deserialize serviceentry_new) (\<lambda>e.
     des_bind deserialize_u8 (\<lambda>major_version.
     des_bind (deserialize_u32 True) (\<lambda>ttl.
     des_bind (deserialize_u32 False) (\<lambda>minor_version.
       des_return (e\<lparr>ent_major_version := major_version, ent_ttl := ttl, ent_kind := Service_entry minor_version\<rparr>)))))"

definition eventgroupentry_deserialize :: "entry_impl des" where
  "eventgroupentry_deserialize =
     des_bind (entry_base_deserialize eventgroupentry_new) (\<lambda>e.
     des_bind deserialize_u8 (\<lambda>major_version.
     des_bind (deserialize_u32 True) (\<lambda>ttl.
     des_bind deserialize_u16 (\<lambda>reserved.
     des_bind deserialize_u16 (\<lambda>eventgroup.
       des_return (e\<lparr>ent_major_version := major_version, ent_ttl := ttl,
         ent_kind := Eventgroup_entry eventgroup reserved 0\<rparr>))))))"

text \<open>\<open>message_impl::deserialize_entry\<close>: the type byte selects the class.\<close>

definition deserialize_entry :: "entry_impl des" where
  "deserialize_entry d = do {
     tmp_entry_type \<leftarrow> look_ahead_u8 0 d;
     (case tmp_entry_type of
        None \<Rightarrow> Some (None, d)
      | Some t \<Rightarrow>
          if t = FIND_SERVICE \<or> t = OFFER_SERVICE \<or> t = REQUEST_SERVICE then serviceentry_deserialize d
          else if t = FIND_EVENT_GROUP \<or> t = PUBLISH_EVENTGROUP \<or> t = SUBSCRIBE_EVENTGROUP \<or> t = SUBSCRIBE_EVENTGROUP_ACK
          then eventgroupentry_deserialize d
          else Some (None, d)) }"

section \<open>Comparison\<close>

text \<open>
  \<open>eventgroupentry_impl::matches\<close>. The IP endpoint options an entry refers to, looked up in the options
  of the message; \<^term>\<open>None\<close> is a failing cast.
\<close>

definition endpoint_options :: "option_impl list \<Rightarrow> byte list \<Rightarrow> option_impl list" where
  "endpoint_options options run =
     filter (\<lambda>opt. opt_type opt = IP4_ENDPOINT \<or> opt_type opt = IP6_ENDPOINT)
       (map (\<lambda>i. options ! unat i) (filter (\<lambda>i. unat i < length options) run))"

fun find_equal :: "option_impl \<Rightarrow> option_impl list \<Rightarrow> bool option" where
  "find_equal c [] = Some False"
| "find_equal c (opt # opts) = do {
     eq \<leftarrow> option_equals c opt;
     if eq then Some True else find_equal c opts }"

fun all_found :: "option_impl list \<Rightarrow> option_impl list \<Rightarrow> bool option" where
  "all_found [] others = Some True"
| "all_found (c # cs) others = do {
     found \<leftarrow> find_equal c others;
     if found then all_found cs others else Some False }"

definition same_eventgroup :: "entry_impl \<Rightarrow> entry_impl \<Rightarrow> bool" where
  "same_eventgroup a b \<longleftrightarrow> ent_service a = ent_service b \<and> ent_instance a = ent_instance b \<and>
     (case (ent_kind a, ent_kind b) of
        (Eventgroup_entry g _ c, Eventgroup_entry g' _ c') \<Rightarrow> g = g' \<and> c = c'
      | _ \<Rightarrow> False) \<and>
     ent_major_version a = ent_major_version b"

definition matches :: "entry_impl \<Rightarrow> entry_impl \<Rightarrow> option_impl list \<Rightarrow> bool option" where
  "matches a b options =
     (if same_eventgroup a b then
        (if ent_index1 a = ent_index1 b \<and> ent_index2 a = ent_index2 b \<and>
            ent_num_options1 a = ent_num_options1 b \<and> ent_num_options2 a = ent_num_options2 b
         then Some True
         else if unat (ent_num_options1 a) + unat (ent_num_options2 a) \<noteq> unat (ent_num_options1 b) + unat (ent_num_options2 b) \<or>
            unat (ent_num_options1 a) + unat (ent_num_options2 a) = 0
         then Some False
         else
           (let current = endpoint_options options (ent_options1 a) @ endpoint_options options (ent_options2 a);
                other = endpoint_options options (ent_options1 b) @ endpoint_options options (ent_options2 b)
            in if current = [] \<or> other = [] then Some False else all_found current other))
      else Some False)"

text \<open>The first selective option an entry refers to.\<close>

definition get_selective_option :: "option_impl list \<Rightarrow> entry_impl \<Rightarrow> option_impl option" where
  "get_selective_option options e =
     find (\<lambda>opt. case opt_body opt of Selective _ \<Rightarrow> True | _ \<Rightarrow> False)
       (map (\<lambda>i. options ! unat i) (filter (\<lambda>i. unat i < length options) (ent_options1 e @ ent_options2 e)))"

section \<open>Runs stay contiguous\<close>

definition run_ok :: "byte list \<Rightarrow> bool" where
  "run_ok run \<longleftrightarrow> (\<exists>a n. run = map of_nat [a ..< a + n] \<and> a + n \<le> 256)"

lemma run_okI: "run = map of_nat [a ..< a + n] \<Longrightarrow> a + n \<le> 256 \<Longrightarrow> run_ok run"
  unfolding run_ok_def by blast

lemma run_ok_Nil [simp]: "run_ok []"
  by (rule run_okI [of _ 0 0]) simp_all

lemma unat_of_nat_byte: "n < 256 \<Longrightarrow> unat (of_nat n :: byte) = n"
  by (simp add: unat_of_nat take_bit_nat_eq_self)

lemma sorted_map_of_nat: "b \<le> 256 \<Longrightarrow> sorted (map of_nat [a ..< b] :: byte list)"
  unfolding sorted_map
  by (rule sorted_wrt_mono_rel [OF _ sorted_wrt_upt]) (auto simp: word_le_nat_alt unat_of_nat_byte)

lemma run_ok_insert:
  assumes "run_ok run" and "run_takes run i"
  shows "run_ok (sort (run @ [i]))"
proof -
  obtain a n where run: "run = map of_nat [a ..< a + n]" and a: "a + n \<le> 256"
    using assms(1) by (auto simp: run_ok_def)
  have i: "unat i < 256" "(of_nat (unat i) :: byte) = i" using unsigned_less [of i] by simp_all
  have hd_last: "unat (hd run) = a" "unat (last run) + 1 = a + n" if "run \<noteq> []"
  proof -
    have n: "0 < n" using that run by simp
    then have "hd run = of_nat a" "last run = of_nat (a + n - 1)"
      by (simp_all add: run hd_map last_map del: upt_Suc of_nat_diff of_nat_add)
    moreover have "a < 256" "a + n - 1 < 256" using n a by linarith+
    ultimately show "unat (hd run) = a" "unat (last run) + 1 = a + n"
      using n by (simp_all only: unat_of_nat_byte)
  qed
  have sorted: "run_ok (sort (run @ [i]))" if "run @ [i] = xs @ ys" "ys @ xs = map of_nat [k ..< k + Suc n]" "k + Suc n \<le> 256" for xs ys k
  proof -
    have "mset (ys @ xs) = mset (run @ [i])" unfolding that(1) by (simp add: union_commute)
    moreover have "sorted (ys @ xs)" unfolding that(2) using that(3) by (rule sorted_map_of_nat)
    ultimately have "sort (run @ [i]) = ys @ xs" by (rule properties_for_sort)
    then show ?thesis using run_okI [OF that(2,3)] by simp
  qed
  consider "run = []" | "run \<noteq> []" "unat (hd run) = unat i + 1" | "run \<noteq> []" "unat (last run) + 1 = unat i"
    using assms(2) by (auto simp: run_takes_def)
  then show ?thesis
  proof cases
    case 1
    then have "n = 0" using run by auto
    then show ?thesis using i 1 by (intro sorted [of "[i]" "[]" "unat i"]) simp_all
  next
    case 2
    then have "a = unat i + 1" using hd_last by simp
    then show ?thesis using i a run by (intro sorted [of run "[i]" "unat i"]) (simp_all add: upt_conv_Cons del: upt_Suc)
  next
    case 3
    then have "a + n = unat i" using hd_last(2) by simp
    then show ?thesis using i run by (intro sorted [of "run @ [i]" "[]" a]) simp_all
  qed
qed

lemma assign_option_run_ok:
  "run_ok (ent_options1 e) \<Longrightarrow> run_ok (ent_options2 e) \<Longrightarrow>
     run_ok (ent_options1 (assign_option i e)) \<and> run_ok (ent_options2 (assign_option i e))"
  by (auto simp: assign_option_def Let_def intro: run_ok_insert)

lemma assign_option_keeps:
  "ent_type (assign_option i e) = ent_type e" "ent_ttl (assign_option i e) = ent_ttl e" "ent_kind (assign_option i e) = ent_kind e"
  "ent_service (assign_option i e) = ent_service e" "ent_instance (assign_option i e) = ent_instance e"
  "ent_major_version (assign_option i e) = ent_major_version e"
  by (simp_all add: assign_option_def Let_def)

lemma assign_option_length:
  "length (ent_options1 (assign_option i e)) + length (ent_options2 (assign_option i e)) \<le>
     length (ent_options1 e) + length (ent_options2 e) + 1"
  by (simp add: assign_option_def Let_def)

section \<open>Codec\<close>

definition service_type :: "byte \<Rightarrow> bool" where
  "service_type t \<longleftrightarrow> t = FIND_SERVICE \<or> t = OFFER_SERVICE \<or> t = REQUEST_SERVICE"

definition eventgroup_type :: "byte \<Rightarrow> bool" where
  "eventgroup_type t \<longleftrightarrow> t = FIND_EVENT_GROUP \<or> t = PUBLISH_EVENTGROUP \<or> t = SUBSCRIBE_EVENTGROUP \<or> t = SUBSCRIBE_EVENTGROUP_ACK"

text \<open>Entries that fit the wire format: a 24 bit time to live, at most fifteen options in a run.\<close>

definition entry_wf :: "entry_impl \<Rightarrow> bool" where
  "entry_wf e \<longleftrightarrow>
     (case ent_kind e of Service_entry _ \<Rightarrow> service_type (ent_type e) | Eventgroup_entry _ _ _ \<Rightarrow> eventgroup_type (ent_type e)) \<and>
     take_bit 24 (ent_ttl e) = ent_ttl e \<and>
     run_ok (ent_options1 e) \<and> run_ok (ent_options2 e) \<and> length (ent_options1 e) < 16 \<and> length (ent_options2 e) < 16"

text \<open>What the receiver of an entry holds: the run positions and counts filled in, reserved fields zero.\<close>

definition entry_received :: "entry_impl \<Rightarrow> entry_impl" where
  "entry_received e = e\<lparr>ent_index1 := run_start (ent_options1 e), ent_index2 := run_start (ent_options2 e),
     ent_num_options1 := of_nat (length (ent_options1 e)), ent_num_options2 := of_nat (length (ent_options2 e)),
     ent_kind := (case ent_kind e of Service_entry v \<Rightarrow> Service_entry v | Eventgroup_entry g _ _ \<Rightarrow> Eventgroup_entry g 0 0)\<rparr>"

definition entry_bytes :: "entry_impl \<Rightarrow> bytes" where
  "entry_bytes e = [ent_type e, run_start (ent_options1 e), run_start (ent_options2 e), number_of_options (ent_options1 e) (ent_options2 e)]
     @ be_bytes 2 (ent_service e) @ be_bytes 2 (ent_instance e) @ [ent_major_version e] @ be_bytes 3 (ent_ttl e) @
     (case ent_kind e of Service_entry v \<Rightarrow> be_bytes 4 v | Eventgroup_entry g _ _ \<Rightarrow> be_bytes 2 (0 :: u16) @ be_bytes 2 g)"

lemma length_entry_bytes: "length (entry_bytes e) = 16"
  by (simp add: entry_bytes_def split: entry_kind.splits)

lemma emits_entry: "emits (entry_serialize e) (entry_bytes e)"
proof -
  have "emits (entry_base_serialize e) ([ent_type e] @ [run_start (ent_options1 e)] @ [run_start (ent_options2 e)] @
      [number_of_options (ent_options1 e) (ent_options2 e)] @ be_bytes 2 (ent_service e) @ be_bytes 2 (ent_instance e) @ [])"
    unfolding entry_base_serialize_def by (intro emit_intros)
  note base = emits_and [OF this]
  show ?thesis
  proof (cases "ent_kind e")
    case (Service_entry v)
    have "emits (ser_all [serialize_u8 (ent_major_version e), serialize_u32 (ent_ttl e) True, serialize_u32 v False])
        ([ent_major_version e] @ be_bytes 3 (ent_ttl e) @ be_bytes 4 v @ [])"
      by (intro emit_intros)
    from base [OF this] show ?thesis by (simp add: entry_serialize_def entry_bytes_def Service_entry del: ser_all.simps)
  next
    case (Eventgroup_entry g r c)
    have "emits (ser_all [serialize_u8 (ent_major_version e), serialize_u32 (ent_ttl e) True, serialize_u16 0, serialize_u16 g])
        ([ent_major_version e] @ be_bytes 3 (ent_ttl e) @ be_bytes 2 (0 :: u16) @ be_bytes 2 g @ [])"
      by (intro emit_intros)
    from base [OF this] show ?thesis by (simp add: entry_serialize_def entry_bytes_def Eventgroup_entry del: ser_all.simps)
  qed
qed

lemma nibbles:
  assumes "n < 16" and "m < 16"
  shows "drop_bit 4 (push_bit 4 (of_nat n) OR (of_nat m AND 0x0F)) = (of_nat n :: byte)"
    and "(push_bit 4 (of_nat n) OR (of_nat m AND 0x0F)) AND 0xF = (of_nat m :: byte)"
proof -
  have f: "(0xF :: byte) = mask 4" by (simp add: mask_eq_exp_minus_1)
  have t: "i < 4" if "bit (of_nat k :: byte) i" "k < 16" for k i
  proof -
    have "take_bit 4 (of_nat k :: byte) = of_nat k" using that(2) by (simp add: take_bit_of_nat take_bit_nat_eq_self)
    then show ?thesis using that(1) by (metis bit_take_bit_iff)
  qed
  show "drop_bit 4 (push_bit 4 (of_nat n) OR (of_nat m AND 0x0F)) = (of_nat n :: byte)"
    unfolding f by (rule bit_eqI) (use assms in \<open>auto simp: bit_drop_bit_eq bit_or_iff bit_push_bit_iff bit_and_iff bit_mask_iff dest: t\<close>)
  show "(push_bit 4 (of_nat n) OR (of_nat m AND 0x0F)) AND 0xF = (of_nat m :: byte)"
    unfolding f by (rule bit_eqI) (use assms in \<open>auto simp only: bit_or_iff bit_push_bit_iff bit_and_iff bit_mask_iff dest: t\<close>)
qed

lemma option_run_run_start:
  assumes "run_ok run" and "length run < 16"
  shows "option_run (run_start run) (of_nat (length run)) = run"
proof -
  obtain a n where run: "run = map of_nat [a ..< a + n]" and a: "a + n \<le> 256"
    using assms(1) by (auto simp: run_ok_def)
  have n: "unat (of_nat n :: byte) = n" using assms(2) by (simp add: run unat_of_nat_byte)
  show ?thesis
  proof (cases "n = 0")
    case False
    then have "unat (run_start run) = a" using a by (simp add: run run_start_def unat_of_nat_byte)
    then show ?thesis by (simp add: option_run_def run n)
  qed (simp add: option_run_def run)
qed


lemma number_of_options_nibbles:
  assumes "length run1 < 16" and "length run2 < 16"
  shows "drop_bit 4 (number_of_options run1 run2) = of_nat (length run1)"
    and "number_of_options run1 run2 AND 0xF = of_nat (length run2)"
  unfolding number_of_options_def by (rule nibbles [OF assms])+

lemma parses_entry_base:
  assumes "run_ok run1" and "run_ok run2" and "length run1 < 16" and "length run2 < 16"
    and "ent_options1 e = []" and "ent_options2 e = []"
  shows "parses (entry_base_deserialize e)
     ([t] @ [run_start run1] @ [run_start run2] @ [number_of_options run1 run2] @ be_bytes 2 s @ be_bytes 2 i @ [])
     (e\<lparr>ent_type := t, ent_index1 := run_start run1, ent_index2 := run_start run2,
        ent_num_options1 := of_nat (length run1), ent_num_options2 := of_nat (length run2),
        ent_options1 := run1, ent_options2 := run2, ent_service := s, ent_instance := i\<rparr>)"
  unfolding entry_base_deserialize_def
  by (rule parses_bind parses_u8 parses_u16)+
    (rule parses_returnI, simp add: number_of_options_nibbles assms option_run_run_start)

lemma parses_entry:
  assumes "entry_wf e"
  shows "parses deserialize_entry (entry_bytes e) (entry_received e)"
proof -
  have la: "look_ahead_u8 0 d = Some (Some (ent_type e))" if "des_ok d" "des_input d = entry_bytes e @ rest" for d rest
    using look_ahead_input [OF that, of 0] by (simp add: entry_bytes_def)
  have base: "run_ok (ent_options1 e)" "run_ok (ent_options2 e)" "length (ent_options1 e) < 16" "length (ent_options2 e) < 16"
    and ttl: "take_bit 24 (ent_ttl e) = ent_ttl e"
    using assms by (simp_all add: entry_wf_def)
  note parse_base = parses_entry_base [OF base]
  let ?bytes = "[ent_type e] @ [run_start (ent_options1 e)] @ [run_start (ent_options2 e)] @
      [number_of_options (ent_options1 e) (ent_options2 e)] @ be_bytes 2 (ent_service e) @ be_bytes 2 (ent_instance e) @ []"
  show ?thesis
  proof (cases "ent_kind e")
    case (Service_entry v)
    have "parses serviceentry_deserialize (?bytes @ [ent_major_version e] @ be_bytes 3 (ent_ttl e) @ be_bytes 4 v @ []) (entry_received e)"
      unfolding serviceentry_deserialize_def
      by (rule parses_bind, rule parse_base [of serviceentry_new], simp add: serviceentry_new_def entry_new_def,
          simp add: serviceentry_new_def entry_new_def, (rule parses_bind parses_u8 parses_u24 parses_u32)+)
        (simp_all add: parses_def des_return_def entry_received_def entry_new_def serviceentry_new_def Service_entry ttl)
    then have "parses serviceentry_deserialize (entry_bytes e) (entry_received e)"
      by (simp add: entry_bytes_def Service_entry)
    then show ?thesis using la assms Service_entry
      unfolding parses_def deserialize_entry_def by (auto simp: entry_wf_def service_type_def)
  next
    case (Eventgroup_entry g r c)
    have "parses eventgroupentry_deserialize (?bytes @ [ent_major_version e] @ be_bytes 3 (ent_ttl e) @ be_bytes 2 (0 :: u16) @ be_bytes 2 g @ [])
        (entry_received e)"
      unfolding eventgroupentry_deserialize_def
      by (rule parses_bind, rule parse_base [of eventgroupentry_new], simp add: eventgroupentry_new_def entry_new_def,
          simp add: eventgroupentry_new_def entry_new_def, (rule parses_bind parses_u8 parses_u24 parses_u16)+)
        (simp_all add: parses_def des_return_def entry_received_def entry_new_def eventgroupentry_new_def Eventgroup_entry ttl)
    then have "parses eventgroupentry_deserialize (entry_bytes e) (entry_received e)"
      by (simp add: entry_bytes_def Eventgroup_entry)
    then show ?thesis using la assms Eventgroup_entry
      unfolding parses_def deserialize_entry_def by (auto simp: entry_wf_def eventgroup_type_def)
  qed
qed

lemma des_safe_entry_base: "des_safe (entry_base_deserialize e)"
  unfolding entry_base_deserialize_def by (intro safe_intros)

lemma des_safe_serviceentry: "des_safe serviceentry_deserialize"
  unfolding serviceentry_deserialize_def by (intro safe_intros des_safe_entry_base)

lemma des_safe_eventgroupentry: "des_safe eventgroupentry_deserialize"
  unfolding eventgroupentry_deserialize_def by (intro safe_intros des_safe_entry_base)

lemma consumes_entry_base: "consumes (entry_base_deserialize e) (1 + (1 + (1 + (1 + (2 + (2 + 0))))))"
  unfolding entry_base_deserialize_def by (intro consume_intros)

lemma consumes_serviceentry: "consumes serviceentry_deserialize (1 + (1 + (1 + (1 + (2 + (2 + 0))))) + (1 + (3 + (4 + 0))))"
  unfolding serviceentry_deserialize_def by (intro consume_intros consumes_entry_base)

lemma consumes_eventgroupentry: "consumes eventgroupentry_deserialize (1 + (1 + (1 + (1 + (2 + (2 + 0))))) + (1 + (3 + (2 + (2 + 0)))))"
  unfolding eventgroupentry_deserialize_def by (intro consume_intros consumes_entry_base)

lemma deserialize_entry_safe:
  assumes "des_ok d" and "0 < des_remaining d"
  shows "\<exists>r d'. deserialize_entry d = Some (r, d') \<and> des_step d d' \<and> (r \<noteq> None \<longrightarrow> des_position d' = des_position d + 16)"
proof -
  have "look_ahead_u8 0 d = Some (Some (des_input d ! 0))"
    using mem_at_input [OF assms] by (simp add: look_ahead_u8_def)
  moreover obtain r d' where "serviceentry_deserialize d = Some (r, d')" "des_step d d'"
    using des_safeD [OF des_safe_serviceentry assms(1)] by blast
  moreover obtain r2 d2 where "eventgroupentry_deserialize d = Some (r2, d2)" "des_step d d2"
    using des_safeD [OF des_safe_eventgroupentry assms(1)] by blast
  ultimately show ?thesis
    using consumesD [OF consumes_serviceentry, of d] consumesD [OF consumes_eventgroupentry, of d]
    by (auto simp: deserialize_entry_def)
qed

end
