(* ===== verification/Sd_Message.thy ===== *)
theory Sd_Message
  imports Sd_Entry
begin

text \<open>
  Model of the SOME/IP-SD message (\<open>service_discovery/src/message_impl.cpp\<close> and
  \<open>service_discovery/src/deserializer.cpp\<close>): flags, entries, options, the assembly of messages with
  \<open>add_entry_data\<close>, and both directions of the wire format.

  Options are shared objects that are compared by address, and \<open>add_entry_data\<close> visits them in the
  order of their addresses: an option comes with its address.
\<close>

section \<open>Data\<close>

type_synonym option_ptr = "nat \<times> option_impl"

record sd_message =
  sdm_header :: message_header_impl
  sdm_flags :: byte
  sdm_options_length :: u32
  sdm_entries :: "entry_impl list"
  sdm_options :: "option_ptr list"
  sdm_current_message_size :: u32

abbreviation (input) VSOMEIP_SOMEIP_SD_DATA_SIZE :: u32 where "VSOMEIP_SOMEIP_SD_DATA_SIZE \<equiv> 12"
abbreviation (input) VSOMEIP_SOMEIP_SD_ENTRY_LENGTH_SIZE :: u32 where "VSOMEIP_SOMEIP_SD_ENTRY_LENGTH_SIZE \<equiv> 4"
abbreviation (input) VSOMEIP_SOMEIP_SD_ENTRY_SIZE :: u32 where "VSOMEIP_SOMEIP_SD_ENTRY_SIZE \<equiv> 16"
abbreviation (input) VSOMEIP_SOMEIP_SD_OPTION_LENGTH_SIZE :: u32 where "VSOMEIP_SOMEIP_SD_OPTION_LENGTH_SIZE \<equiv> 4"
abbreviation (input) VSOMEIP_SOMEIP_SD_OPTION_HEADER_SIZE :: u32 where "VSOMEIP_SOMEIP_SD_OPTION_HEADER_SIZE \<equiv> 3"
abbreviation (input) VSOMEIP_SOMEIP_SD_EMPTY_MESSAGE_SIZE :: u32 where "VSOMEIP_SOMEIP_SD_EMPTY_MESSAGE_SIZE \<equiv> 28"
abbreviation (input) VSOMEIP_MAX_UDP_SD_PAYLOAD :: u32 where "VSOMEIP_MAX_UDP_SD_PAYLOAD \<equiv> 1380"

definition get_reboot_flag :: "sd_message \<Rightarrow> bool" where
  "get_reboot_flag m \<longleftrightarrow> sdm_flags m AND 0x80 \<noteq> 0"

definition set_reboot_flag :: "bool \<Rightarrow> sd_message \<Rightarrow> sd_message" where
  "set_reboot_flag is_set m =
     m\<lparr>sdm_flags := (if is_set then sdm_flags m OR 0x80 else sdm_flags m AND NOT 0x80)\<rparr>"

definition get_unicast_flag :: "sd_message \<Rightarrow> bool" where
  "get_unicast_flag m \<longleftrightarrow> sdm_flags m AND 0x40 \<noteq> 0"

definition set_unicast_flag :: "bool \<Rightarrow> sd_message \<Rightarrow> sd_message" where
  "set_unicast_flag is_set m =
     m\<lparr>sdm_flags := (if is_set then sdm_flags m OR 0x40 else sdm_flags m AND NOT 0x40)\<rparr>"

definition sd_message_new :: sd_message where
  "sd_message_new = set_unicast_flag True
     \<lparr>sdm_header = message_header_new\<lparr>hdr_service := 0xFFFF, hdr_instance := 0x0000, hdr_method := 0x8100,
        hdr_client := 0x0, hdr_protocol_version := 0x01, hdr_interface_version := 0x01,
        hdr_type := MT_NOTIFICATION, hdr_code := E_OK\<rparr>,
      sdm_flags = 0, sdm_options_length = 0, sdm_entries = [], sdm_options = [],
      sdm_current_message_size = VSOMEIP_SOMEIP_SD_EMPTY_MESSAGE_SIZE\<rparr>"

definition sd_get_length :: "sd_message \<Rightarrow> u32" where
  "sd_get_length m =
     foldl (\<lambda>current_length (_, opt). current_length + (ucast (opt_length opt) + VSOMEIP_SOMEIP_SD_OPTION_HEADER_SIZE))
       ((if sdm_entries m \<noteq> []
         then VSOMEIP_SOMEIP_SD_DATA_SIZE + VSOMEIP_SOMEIP_SD_ENTRY_LENGTH_SIZE + of_nat (length (sdm_entries m) * 16)
         else VSOMEIP_SOMEIP_SD_DATA_SIZE) + VSOMEIP_SOMEIP_SD_OPTION_LENGTH_SIZE)
       (sdm_options m)"

section \<open>Assembly\<close>

fun find_option :: "option_ptr list \<Rightarrow> option_impl \<Rightarrow> option_ptr option option" where
  "find_option [] opt = Some None"
| "find_option ((p, its_option) # rest) opt = do {
     eq \<leftarrow> option_equals its_option opt;
     if eq then Some (Some (p, its_option)) else find_option rest opt }"

text \<open>The index loop runs over \<open>int16_t\<close>; the size is converted to it.\<close>

fun option_index :: "option_ptr list \<Rightarrow> nat \<Rightarrow> nat \<Rightarrow> int" where
  "option_index [] p i = -1"
| "option_index ((q, _) # rest) p i = (if q = p then int i else option_index rest p (Suc i))"

definition get_option_index :: "option_ptr list \<Rightarrow> nat \<Rightarrow> int" where
  "get_option_index options p = option_index (take (nat (sint (of_nat (length options) :: u16))) options) p 0"

definition get_option :: "option_ptr list \<Rightarrow> int \<Rightarrow> option_impl option" where
  "get_option options i =
     (if -1 < i \<and> nat i < length options then Some (snd (options ! nat i)) else None)"

text \<open>
  The first loop of \<open>add_entry_data\<close>: the size added, and the options to be referenced by address, with
  a flag for those that are new.
\<close>

fun collect_options ::
    "option_ptr list \<Rightarrow> option_ptr list \<Rightarrow> u32 \<Rightarrow> (nat \<times> option_impl \<times> bool) list \<Rightarrow> (u32 \<times> (nat \<times> option_impl \<times> bool) list) option" where
  "collect_options existing [] entry_size its_options = Some (entry_size, its_options)"
| "collect_options existing ((p, opt) # opts) entry_size its_options = do {
     its_existing_option \<leftarrow> find_option existing opt;
     (case its_existing_option of
        None \<Rightarrow> collect_options existing opts (entry_size + option_get_size opt) (map_put p (opt, True) its_options)
      | Some (q, o') \<Rightarrow> collect_options existing opts entry_size (map_put q (o', False) its_options)) }"

text \<open>The second loop: new options are appended, and the entry refers to every option.\<close>

fun assign_options ::
    "(nat \<times> option_impl \<times> bool) list \<Rightarrow> option_ptr list \<Rightarrow> entry_impl \<Rightarrow> option_ptr list \<times> entry_impl" where
  "assign_options [] options entry = (options, entry)"
| "assign_options ((p, opt, is_new) # rest) options entry =
     (let options' = (if is_new then options @ [(p, opt)] else options)
      in assign_options rest options' (assign_option (get_option_index options' p) entry))"

definition add_entry_data ::
    "entry_impl \<Rightarrow> option_ptr list \<Rightarrow> entry_impl option \<Rightarrow> sd_message \<Rightarrow> (bool \<times> sd_message) option" where
  "add_entry_data entry opts other m = do {
     let entry_size = VSOMEIP_SOMEIP_SD_ENTRY_SIZE + (if other \<noteq> None then VSOMEIP_SOMEIP_SD_ENTRY_SIZE else 0);
     (entry_size, its_options) \<leftarrow> collect_options (sdm_options m) opts entry_size [];
     if VSOMEIP_MAX_UDP_SD_PAYLOAD < sdm_current_message_size m + entry_size then Some (False, m)
     else
       (let (options', entry') = assign_options its_options (sdm_options m) entry;
            entries' = sdm_entries m @ [entry'] @
              (case other of
                 None \<Rightarrow> []
               | Some e \<Rightarrow> [fold (\<lambda>(p, _). assign_option (get_option_index options' p)) its_options e])
        in Some (True, m\<lparr>sdm_entries := entries', sdm_options := options',
                     sdm_current_message_size := sdm_current_message_size m + entry_size\<rparr>)) }"

section \<open>Writing\<close>

definition sd_options_length :: "option_ptr list \<Rightarrow> u32" where
  "sd_options_length options =
     foldl (\<lambda>n (_, opt). n + (ucast (opt_length opt) + VSOMEIP_SOMEIP_SD_OPTION_HEADER_SIZE)) 0 options"

definition sd_message_serialize :: "sd_message \<Rightarrow> ser" where
  "sd_message_serialize m = ser_all
     ([header_serialize (sd_get_length m) (sdm_header m),
       serialize_u8 (sdm_flags m),
       serialize_u32 reserved_long True,
       serialize_u32 (of_nat (length (sdm_entries m) * 16)) False] @
      map entry_serialize (sdm_entries m) @
      [serialize_u32 (sd_options_length (sdm_options m)) False] @
      map (\<lambda>(_, opt). option_serialize opt) (sdm_options m))"

section \<open>Reading\<close>

text \<open>Elements are read while bytes remain; the first that cannot be read ends the loop.\<close>

partial_function (option) des_many ::
    "(deserializer \<Rightarrow> ('a option \<times> deserializer) option) \<Rightarrow> 'a list \<Rightarrow> deserializer \<Rightarrow> ((bool \<times> 'a list) \<times> deserializer) option" where
  "des_many m xs d =
     (if 0 < get_remaining d then do {
        (x, d) \<leftarrow> m d;
        (case x of Some x \<Rightarrow> des_many m (xs @ [x]) d | None \<Rightarrow> Some ((False, xs), d)) }
      else Some ((True, xs), d))"

declare des_many.simps [code]

text \<open>
  The arrays behind the entries length. A failing option ends the loop but does not make the message
  fail. \<open>alloc k\<close> is the address of the \<open>k\<close>-th option that is read.
\<close>

definition sd_arrays_deserialize :: "(nat \<Rightarrow> nat) \<Rightarrow> sd_message \<Rightarrow> u32 \<Rightarrow> sd_message des" where
  "sd_arrays_deserialize alloc m entries_length d =
     (let save_remaining = of_nat (get_remaining d) :: u32 in
      if save_remaining < entries_length then Some (None, d)
      else do {
        ((is_successful, entries), d) \<leftarrow> des_many deserialize_entry [] (set_remaining (unat entries_length) d);
        let d = set_remaining (unat (save_remaining - entries_length)) d;
        if get_remaining d = 0
        then Some (if is_successful then Some (m\<lparr>sdm_entries := sdm_entries m @ entries\<rparr>) else None, d)
        else do {
          (options_length, d) \<leftarrow> (if is_successful then deserialize_u32 False d else Some (None, d));
          let its_options_length = (case options_length of Some l \<Rightarrow> l | None \<Rightarrow> sdm_options_length m);
          let d = (if unat its_options_length < get_remaining d then set_remaining (unat its_options_length) d else d);
          ((option_is_successful, options), d) \<leftarrow> des_many deserialize_option [] d;
          Some (if options_length \<noteq> None
            then Some (m\<lparr>sdm_entries := sdm_entries m @ entries, sdm_options_length := its_options_length,
                   sdm_options := sdm_options m @ zip (map alloc [0..<length options]) options,
                   sdm_current_message_size := 0\<rparr>)
            else None, d) } })"

definition sd_message_deserialize :: "(nat \<Rightarrow> nat) \<Rightarrow> sd_message \<Rightarrow> sd_message des" where
  "sd_message_deserialize alloc m =
     des_bind (header_deserialize (sdm_header m)) (\<lambda>header.
     des_bind deserialize_u8 (\<lambda>flags.
     des_bind (deserialize_u32 True) (\<lambda>reserved.
     des_bind (deserialize_u32 False) (\<lambda>entries_length.
       sd_arrays_deserialize alloc (m\<lparr>sdm_header := header, sdm_flags := flags\<rparr>) entries_length))))"

definition deserialize_sd_message :: "(nat \<Rightarrow> nat) \<Rightarrow> sd_message des" where
  "deserialize_sd_message alloc = sd_message_deserialize alloc sd_message_new"

section \<open>Codec\<close>

lemma ser_all_append: "ser_all (ms @ ns) s = ser_and (ser_all ms) (ser_all ns) s"
  by (induction ms arbitrary: s) (auto simp: ser_and_def split: prod.splits)

lemma emits_all_append:
  "emits (ser_all ms) bs \<Longrightarrow> emits (ser_all ns) cs \<Longrightarrow> emits (ser_all (ms @ ns)) (bs @ cs)"
  using emits_and [of "ser_all ms" bs "ser_all ns" cs] by (simp add: emits_def ser_all_append)

definition sd_message_bytes :: "sd_message \<Rightarrow> bytes" where
  "sd_message_bytes m = (header_bytes (sd_get_length m) (sdm_header m) @ [sdm_flags m] @ be_bytes 3 (0 :: u32) @
     be_bytes 4 (of_nat (length (sdm_entries m) * 16) :: u32) @ []) @
     concat (map entry_bytes (sdm_entries m)) @ (be_bytes 4 (sd_options_length (sdm_options m)) @ []) @
     concat (map (\<lambda>(_, opt). option_bytes opt) (sdm_options m))"

lemma emits_sd_message: "emits (sd_message_serialize m) (sd_message_bytes m)"
  unfolding sd_message_serialize_def sd_message_bytes_def
  by (intro emits_all_append emits_all_map emits_entry emit_intros) (auto intro: emits_option)

lemma length_entries: "length (concat (map entry_bytes es)) = 16 * length es"
  by (induction es) (simp_all add: length_entry_bytes)

lemma length_sd_message_bytes:
  "length (sd_message_bytes m) = 28 + 16 * length (sdm_entries m) + length (concat (map (\<lambda>(_, opt). option_bytes opt) (sdm_options m)))"
  by (simp add: sd_message_bytes_def length_entries)

lemma des_many_parses:
  assumes "\<And>x. x \<in> set xs \<Longrightarrow> parses m (enc x) (dec x)" and "\<And>x. x \<in> set xs \<Longrightarrow> enc x \<noteq> []"
    and "des_ok d" and "des_input d = concat (map enc xs)"
  shows "des_many m acc d = Some ((True, acc @ map dec xs), advance (length (concat (map enc xs))) d)"
  using assms
proof (induction xs arbitrary: acc d)
  case Nil
  then have "des_remaining d = 0" using length_des_input [of d] by simp
  then show ?case by (subst des_many.simps) (simp add: get_remaining_def)
next
  case (Cons x xs)
  let ?d = "advance (length (enc x)) d"
  have "0 < des_remaining d" using length_des_input [OF Cons.prems(3)] Cons.prems(2) [of x] Cons.prems(4) by (cases "enc x") auto
  moreover have "m d = Some (Some (dec x), ?d)"
    using parsesD [OF Cons.prems(1) [of x] Cons.prems(3)] Cons.prems(4) by simp
  moreover have "des_ok ?d" "des_input ?d = concat (map enc xs)"
    using des_ok_advance_app [of d "enc x"] Cons.prems(3,4) by simp_all
  ultimately show ?case
    using Cons.IH [of ?d "acc @ [dec x]"] Cons.prems(1,2) by (subst des_many.simps) (simp add: get_remaining_def)
qed

section \<open>Lengths\<close>

definition options_size :: "option_ptr list \<Rightarrow> nat" where
  "options_size options = sum_list (map (\<lambda>(_, opt). unat (opt_length opt) + 3) options)"

lemma length_options_bytes:
  "list_all (\<lambda>(_, opt). option_wf opt) options \<Longrightarrow> length (concat (map (\<lambda>(_, opt). option_bytes opt) options)) = options_size options"
  by (induction options) (auto simp: options_size_def length_option_bytes)

lemma foldl_add_word:
  "foldl (\<lambda>n (_, opt). n + (ucast (opt_length opt) + 3)) k options = k + (of_nat (options_size options) :: u32)"
proof (induction options arbitrary: k)
  case (Cons po options)
  have "(of_nat (unat (opt_length (snd po))) :: u32) = ucast (opt_length (snd po))" by (simp add: unsigned_of_nat)
  then show ?case using Cons by (cases po) (simp add: options_size_def)
qed (simp add: options_size_def)

lemma sd_options_length_eq: "sd_options_length options = of_nat (options_size options)"
  by (simp add: sd_options_length_def foldl_add_word)

lemma sd_get_length_eq:
  "sd_get_length m = (if sdm_entries m = [] then of_nat (16 + options_size (sdm_options m))
     else of_nat (20 + 16 * length (sdm_entries m) + options_size (sdm_options m)))"
  by (simp add: sd_get_length_def foldl_add_word)


section \<open>Round trip\<close>

definition sd_wf :: "sd_message \<Rightarrow> bool" where
  "sd_wf m \<longleftrightarrow> list_all entry_wf (sdm_entries m) \<and> list_all (\<lambda>(_, opt). option_wf opt) (sdm_options m)"

text \<open>What the receiver of a message holds.\<close>

definition sd_received :: "(nat \<Rightarrow> nat) \<Rightarrow> sd_message \<Rightarrow> sd_message" where
  "sd_received alloc m = m\<lparr>
     sdm_header := header_of (sd_get_length m) (sdm_header m) (sdm_header sd_message_new),
     sdm_options_length := sd_options_length (sdm_options m),
     sdm_entries := map entry_received (sdm_entries m),
     sdm_options := zip (map alloc [0..<length (sdm_options m)]) (map snd (sdm_options m)),
     sdm_current_message_size := 0\<rparr>"

lemma set_remaining_input: "k \<le> des_remaining d \<Longrightarrow> des_input (set_remaining k d) = take k (des_input d)"
  by (simp add: set_remaining_def des_input_def)

lemma set_remaining_ok: "des_ok d \<Longrightarrow> k \<le> des_remaining d \<Longrightarrow> des_ok (set_remaining k d)"
  by (simp add: set_remaining_def des_ok_def)

lemma set_remaining_back:
  "k \<le> des_remaining d \<Longrightarrow> set_remaining (des_remaining d - k) (advance k (set_remaining k d)) = advance k d"
  by (simp add: set_remaining_def advance_def)

lemma set_remaining_self: "set_remaining (des_remaining d) d = d"
  by (simp add: set_remaining_def)

lemma unat_of_nat_u32: "n < 2 ^ 32 \<Longrightarrow> unat (of_nat n :: u32) = n"
  by (simp add: unat_of_nat take_bit_nat_eq_self)

lemma sd_arrays_parse:
  assumes wf: "list_all entry_wf entries" "list_all (\<lambda>(_, opt). option_wf opt) options"
    and d: "des_ok d" "des_remaining d < 2 ^ 32"
      "des_input d = concat (map entry_bytes entries) @ be_bytes 4 (sd_options_length options) @
         concat (map (\<lambda>(_, opt). option_bytes opt) options) @ rest"
    and m: "sdm_entries m = []" "sdm_options m = []"
  shows "\<exists>d'. sd_arrays_deserialize alloc m (of_nat (length entries * 16)) d =
     Some (Some (m\<lparr>sdm_entries := map entry_received entries, sdm_options_length := sd_options_length options,
       sdm_options := zip (map alloc [0..<length options]) (map snd options), sdm_current_message_size := 0\<rparr>), d')"
proof -
  let ?n = "16 * length entries" and ?opts = "concat (map (\<lambda>(_, opt). option_bytes opt) options)"
  let ?d1 = "set_remaining ?n d" and ?d2 = "advance ?n d"
  have len: "des_remaining d = ?n + 4 + options_size options + length rest"
    using length_des_input [OF d(1)] wf(2) unfolding d(3) by (simp add: length_entries length_options_bytes)
  have el: "unat (of_nat (length entries * 16) :: u32) = ?n" "unat (of_nat (des_remaining d) :: u32) = des_remaining d"
    using d(2) len unat_of_nat_u32 [of "length entries * 16"] unat_of_nat_u32 [of "des_remaining d"] by simp_all
  have d1: "des_ok ?d1" "des_input ?d1 = concat (map entry_bytes entries)"
    using set_remaining_ok [OF d(1), of ?n] set_remaining_input [of ?n d] len by (simp_all add: d(3) length_entries)
  have many1: "des_many deserialize_entry [] ?d1 = Some ((True, map entry_received entries), advance ?n ?d1)"
  proof -
    have "parses deserialize_entry (entry_bytes x) (entry_received x)" "entry_bytes x \<noteq> []" if "x \<in> set entries" for x
      using that wf(1) parses_entry [of x] by (auto simp: list_all_iff entry_bytes_def)
    from des_many_parses [OF this d1, where acc = "[]"] show ?thesis by (simp add: length_entries)
  qed
  have d2: "des_ok ?d2" "des_input ?d2 = be_bytes 4 (sd_options_length options) @ ?opts @ rest"
    using des_ok_advance_app [OF d(1) d(3)] by (simp_all add: d(3) length_entries)
  let ?d3 = "advance (?n + 4) d"
  have d23: "advance 4 ?d2 = ?d3" by simp
  have u32: "deserialize_u32 False ?d2 = Some (Some (sd_options_length options), ?d3)"
    using parsesD [OF parses_u32 d2] by simp
  have d3: "des_ok ?d3" "des_input ?d3 = ?opts @ rest" "des_remaining ?d3 = options_size options + length rest"
    using des_ok_advance_app [OF d2] des_input_advance [of 4 ?d2] len unfolding d2(2) d23 by simp_all
  let ?d4 = "set_remaining (options_size options) ?d3"
  have ol: "unat (sd_options_length options) = options_size options"
    using d(2) len by (simp add: sd_options_length_eq unat_of_nat_u32)
  have d4: "?d4 = ?d3" if "rest = []"
    using that d3(3) set_remaining_self [of ?d3] by simp
  have in4: "des_ok ?d4" "des_input ?d4 = ?opts"
    using set_remaining_ok [OF d3(1), of "options_size options"] set_remaining_input [of "options_size options" ?d3] d3(3) wf(2)
    unfolding d3(2) by (simp_all add: length_options_bytes)
  have many2: "des_many deserialize_option [] ?d4 = Some ((True, map snd options), advance (length ?opts) ?d4)"
  proof -
    have "parses deserialize_option (case x of (_, opt) \<Rightarrow> option_bytes opt) (snd x)" "(case x of (_, opt) \<Rightarrow> option_bytes opt) \<noteq> []"
      if "x \<in> set options" for x
      using that wf(2) parses_option [of "snd x"] by (auto simp: list_all_iff option_bytes_def split: prod.splits)
    from des_many_parses [OF this in4, where acc = "[]"] show ?thesis by simp
  qed
  have r: "unat (of_nat (des_remaining d) - of_nat (length entries * 16) :: u32) = des_remaining d - ?n"
    using el len by (subst unat_sub) (simp_all add: word_le_nat_alt)
  show ?thesis
    unfolding sd_arrays_deserialize_def get_remaining_def [of d]
    using el len many1 u32 m many2 d3(3) set_remaining_back [of ?n d] d4 r ol
    by (cases rest) (simp_all add: word_less_nat_alt get_remaining_def Let_def)
qed

lemma des_bind_parsed:
  "parses m bs x \<Longrightarrow> des_ok d \<Longrightarrow> des_input d = bs @ cs \<Longrightarrow> des_bind m f d = f x (advance (length bs) d)"
  by (simp add: des_bind_def parsesD)

lemma advance_parsed:
  "des_ok d \<Longrightarrow> des_input d = bs @ cs \<Longrightarrow> des_ok (advance (length bs) d) \<and> des_input (advance (length bs) d) = cs"
  using des_ok_advance_app by simp


lemma sd_deserialize_bytes:
  assumes "sd_wf m" and "length (sd_message_bytes m @ rest) < 2 ^ 32"
  shows "\<exists>d'. deserialize_sd_message alloc (deserializer_new (sd_message_bytes m @ rest) th') = Some (Some (sd_received alloc m), d')"
proof -
  let ?h = "header_bytes (sd_get_length m) (sdm_header m)" and ?bs = "sd_message_bytes m @ rest"
  let ?d = "deserializer_new ?bs th'"
  let ?m1 = "sd_message_new\<lparr>sdm_header := header_of (sd_get_length m) (sdm_header m) (sdm_header sd_message_new), sdm_flags := sdm_flags m\<rparr>"
  let ?tail = "concat (map entry_bytes (sdm_entries m)) @ be_bytes 4 (sd_options_length (sdm_options m)) @
      concat (map (\<lambda>(_, opt). option_bytes opt) (sdm_options m)) @ rest"
  have "\<exists>d'. sd_message_deserialize alloc sd_message_new ?d = Some (Some (sd_received alloc m), d')"
  proof -
    have d0: "des_ok ?d" "des_input ?d = ?h @ [sdm_flags m] @ be_bytes 3 (0 :: u32) @
        be_bytes 4 (of_nat (length (sdm_entries m) * 16) :: u32) @ ?tail"
      by (simp_all add: sd_message_bytes_def)
    note d1 = advance_parsed [OF d0, THEN conjunct1] advance_parsed [OF d0, THEN conjunct2]
    note d2 = advance_parsed [OF d1, THEN conjunct1] advance_parsed [OF d1, THEN conjunct2]
    note d3 = advance_parsed [OF d2, THEN conjunct1] advance_parsed [OF d2, THEN conjunct2]
    note d4 = advance_parsed [OF d3, THEN conjunct1] advance_parsed [OF d3, THEN conjunct2]
    have rem: "des_remaining (advance (length (be_bytes 4 (of_nat (length (sdm_entries m) * 16) :: u32))) (advance (length (be_bytes 3 (0 :: u32)))
        (advance (length [sdm_flags m]) (advance (length ?h) ?d)))) < 2 ^ 32"
      using assms(2) by (simp add: deserializer_new_def)
    obtain d' where "sd_arrays_deserialize alloc ?m1 (of_nat (length (sdm_entries m) * 16))
        (advance (length (be_bytes 4 (of_nat (length (sdm_entries m) * 16) :: u32))) (advance (length (be_bytes 3 (0 :: u32)))
        (advance (length [sdm_flags m]) (advance (length ?h) ?d)))) =
        Some (Some (?m1\<lparr>sdm_entries := map entry_received (sdm_entries m), sdm_options_length := sd_options_length (sdm_options m),
       sdm_options := zip (map alloc [0..<length (sdm_options m)]) (map snd (sdm_options m)), sdm_current_message_size := 0\<rparr>), d')"
      using sd_arrays_parse [OF _ _ d4(1) rem d4(2), of ?m1 alloc] assms(1)
      by (auto simp: sd_wf_def sd_message_new_def set_unicast_flag_def)
    then show ?thesis
      unfolding sd_message_deserialize_def des_bind_parsed [OF parses_header d0] des_bind_parsed [OF parses_u8 d1]
        des_bind_parsed [OF parses_u24 d2] des_bind_parsed [OF parses_u32 d3]
      by (simp add: sd_received_def sd_message_new_def set_unicast_flag_def)
  qed
  then show ?thesis by (simp add: deserialize_sd_message_def)
qed

text \<open>
  C23. Deserializing a serialized service discovery message, with anything behind it, gives its
  header, flags, entries and options back; in the entries the option runs are as they were assigned.
\<close>

theorem sd_message_roundtrip:
  assumes "sd_wf m" and "length (sd_message_bytes m @ rest) < 2 ^ 32"
  shows "\<exists>d'. deserialize_sd_message alloc
       (deserializer_new (ser_data (snd (sd_message_serialize m (serializer_new th))) @ rest) th') = Some (Some (sd_received alloc m), d')"
  using sd_deserialize_bytes [OF assms] emitsD [OF emits_sd_message] by (simp add: serializer_new_def)

theorem sd_message_roundtrip_witness:
  "\<exists>d'. deserialize_sd_message (\<lambda>k. k) (deserializer_new
       (ser_data (snd (sd_message_serialize
          (sd_message_new\<lparr>sdm_entries := [serviceentry_new\<lparr>ent_type := OFFER_SERVICE, ent_ttl := 3, ent_options1 := [0]\<rparr>],
             sdm_options := [(100, ipv4_option_new [10, 0, 0, 1] 30509 False)]\<rparr>)
          (serializer_new 0))) @ [1, 2, 3]) 0) =
     Some (Some (sd_received (\<lambda>k. k)
       (sd_message_new\<lparr>sdm_entries := [serviceentry_new\<lparr>ent_type := OFFER_SERVICE, ent_ttl := 3, ent_options1 := [0]\<rparr>],
          sdm_options := [(100, ipv4_option_new [10, 0, 0, 1] 30509 False)]\<rparr>)), d')"
proof (rule sd_message_roundtrip)
  have "run_ok [0]" by (rule run_okI [of _ 0 1]) simp_all
  then show "sd_wf (sd_message_new\<lparr>sdm_entries := [serviceentry_new\<lparr>ent_type := OFFER_SERVICE, ent_ttl := 3, ent_options1 := [0]\<rparr>],
      sdm_options := [(100, ipv4_option_new [10, 0, 0, 1] 30509 False)]\<rparr>)"
    by (simp add: sd_wf_def entry_wf_def serviceentry_new_def entry_new_def service_type_def option_wf_def ipv4_option_new_def
        layer_four_protocol_def)
qed (simp add: length_sd_message_bytes option_bytes_def ipv4_option_new_def)

section \<open>Safety\<close>

text \<open>Every successful reader of an option has consumed its header.\<close>

definition progresses :: "'a des \<Rightarrow> bool" where
  "progresses m \<longleftrightarrow> (\<forall>d x d'. des_ok d \<and> m d = Some (Some x, d') \<longrightarrow> des_position d < des_position d')"

lemma progresses_bind:
  assumes "consumes m n" and "0 < n" and "des_safe m" and "\<And>x. des_safe (f x)"
  shows "progresses (des_bind m f)"
  unfolding progresses_def
proof (intro allI impI, elim conjE)
  fix d x d' assume d: "des_ok d" and x: "des_bind m f d = Some (Some x, d')"
  obtain r d1 where m: "m d = Some (r, d1)" "des_ok d1" using des_safeD [OF assms(3) d] by metis
  then obtain y where y: "r = Some y" "f y d1 = Some (Some x, d')" using x by (cases r) (auto simp: des_bind_def)
  have "des_step d1 d'" using des_safeD [OF assms(4) m(2)] y(2) by (metis option.inject prod.inject)
  moreover have "des_position d1 = des_position d + n" using consumesD [OF assms(1)] m(1) y(1) by blast
  ultimately show "des_position d < des_position d'" using assms(2) by (simp add: des_step_def)
qed

lemma consumes_option_header: "consumes option_header_deserialize (2 + (1 + (1 + 0)))"
  unfolding option_header_deserialize_def by (intro consume_intros)

definition never :: "'a des \<Rightarrow> bool" where
  "never m \<longleftrightarrow> (\<forall>d x d'. m d \<noteq> Some (Some x, d'))"

lemma never_fail: "never des_fail"
  by (simp add: never_def des_fail_def)

lemma never_bind: "(\<And>x. never (f x)) \<Longrightarrow> never (des_bind m f)"
  by (auto simp: never_def des_bind_def split: option.splits prod.splits)

lemma progresses_try:
  assumes "consumes m n" and "0 < n" and "des_safe m" and "never (f None)" and "\<And>x. des_safe (f x)"
  shows "progresses (des_bind (des_try m) f)"
  unfolding progresses_def
proof (intro allI impI, elim conjE)
  fix d x d' assume d: "des_ok d" and x: "des_bind (des_try m) f d = Some (Some x, d')"
  obtain r d1 where m: "m d = Some (r, d1)" "des_ok d1" using des_safeD [OF assms(3) d] by metis
  then have f: "f r d1 = Some (Some x, d')" using x by (simp add: des_bind_def des_try_def)
  then obtain y where y: "r = Some y" using assms(4) by (cases r) (auto simp: never_def)
  have "des_step d1 d'" using des_safeD [OF assms(5) m(2)] f by (metis option.inject prod.inject)
  moreover have "des_position d1 = des_position d + n" using consumesD [OF assms(1)] m(1) y by blast
  ultimately show "des_position d < des_position d'" using assms(2) by (simp add: des_step_def)
qed

lemma progresses_ip: "progresses (ip_option_deserialize sz len body)"
  unfolding ip_option_deserialize_def Let_def
  by (rule progresses_try [OF consumes_option_header _ des_safe_option_header])
    (simp, simp, intro never_bind never_fail, intro safe_intros, auto split: option.splits intro: safe_intros)

lemma progresses_header:
  assumes "\<And>x y. des_safe (f x y)"
  shows "progresses (des_bind option_header_deserialize (\<lambda>(x, y). f x y))"
  using progresses_bind [OF consumes_option_header _ des_safe_option_header, of "case_prod f"] assms by (auto split: prod.splits)

lemma progresses_option:
  assumes "des_ok d" and "deserialize_option d = Some (Some x, d')"
  shows "des_position d < des_position d'"
proof -
  have "progresses configuration_option_deserialize"
    unfolding configuration_option_deserialize_def
    by (intro progresses_header safe_intros) (simp add: des_safe_def configuration_loop_safe)
  moreover have "progresses load_balancing_option_deserialize" "progresses protection_option_deserialize"
    unfolding load_balancing_option_deserialize_def protection_option_deserialize_def by (intro progresses_header safe_intros)+
  moreover have "progresses selective_option_deserialize"
    unfolding selective_option_deserialize_def by (intro progresses_header des_safe_selective_clients)
  moreover have "progresses unknown_option_deserialize"
    unfolding unknown_option_deserialize_def by (intro progresses_header des_safe_unknown_payload)
  ultimately have "progresses (if t = CONFIGURATION then configuration_option_deserialize
           else if t = LOAD_BALANCING then load_balancing_option_deserialize
           else if t = PROTECTION then protection_option_deserialize
           else if t = IP4_ENDPOINT \<or> t = IP4_MULTICAST then ipv4_option_deserialize
           else if t = IP6_ENDPOINT \<or> t = IP6_MULTICAST then ipv6_option_deserialize
           else if t = SELECTIVE then selective_option_deserialize
           else unknown_option_deserialize)" for t
    by (simp add: ipv4_option_deserialize_def ipv6_option_deserialize_def progresses_ip)
  then show ?thesis
    using assms unfolding progresses_def deserialize_option_def bind_eq_Some_conv
    by (auto split: option.splits split del: if_split)
qed

text \<open>\<open>P\<close> is what the reader needs besides a cursor inside the buffer; reading preserves it.\<close>

lemma des_many_safe:
  assumes "\<And>d. des_ok d \<Longrightarrow> P d \<Longrightarrow> 0 < des_remaining d \<Longrightarrow>
      \<exists>r d'. m d = Some (r, d') \<and> des_step d d' \<and> (r \<noteq> None \<longrightarrow> des_position d < des_position d')"
    and "\<And>d d'. P d \<Longrightarrow> des_step d d' \<Longrightarrow> P d'" and "des_ok d" and "P d"
  shows "\<exists>r d'. des_many m xs d = Some (r, d') \<and> des_step d d'"
  using assms(3,4)
proof (induction "des_remaining d" arbitrary: d xs rule: less_induct)
  case less
  show ?case
  proof (cases "0 < des_remaining d")
    case True
    then obtain r d1 where m: "m d = Some (r, d1)" "des_step d d1" "r \<noteq> None \<longrightarrow> des_position d < des_position d1"
      using assms(1) less.prems by blast
    show ?thesis
    proof (cases r)
      case None
      then show ?thesis using m(1,2) True by (subst des_many.simps) (auto simp: get_remaining_def)
    next
      case (Some x)
      then have "des_remaining d1 < des_remaining d" using m by (auto simp: des_step_def)
      then have "\<exists>r d'. des_many m (xs @ [x]) d1 = Some (r, d') \<and> des_step d1 d'"
        using less.hyps des_step_ok [OF m(2)] assms(2) [OF _ m(2)] less.prems by blast
      then show ?thesis using m(1,2) Some True des_step_trans by (subst des_many.simps) (auto simp: get_remaining_def)
    qed
  next
    case False
    then have "des_many m xs d = Some ((True, xs), d)" by (subst des_many.simps) (simp add: get_remaining_def)
    then show ?thesis using des_step_refl by blast
  qed
qed

lemma entries_safe:
  assumes "des_ok d"
  shows "\<exists>r d'. des_many deserialize_entry xs d = Some (r, d') \<and> des_step d d'"
  by (rule des_many_safe [where P = "\<lambda>_. True", OF _ _ assms]) (use deserialize_entry_safe in fastforce)+

section \<open>One byte behind the buffer\<close>

text \<open>The same cursor with one more byte behind the buffer.\<close>

definition put_behind :: "byte \<Rightarrow> deserializer \<Rightarrow> deserializer" where
  "put_behind x d = d\<lparr>des_data := des_data d @ [x]\<rparr>"

text \<open>A reader that returns is not influenced by that byte.\<close>

definition ignores_behind :: "(deserializer \<Rightarrow> ('a \<times> deserializer) option) \<Rightarrow> bool" where
  "ignores_behind m \<longleftrightarrow> (\<forall>d x r d'. m d = Some (r, d') \<longrightarrow> m (put_behind x d) = Some (r, put_behind x d'))"

named_theorems behind_intros

lemma ignores_behindD: "ignores_behind m \<Longrightarrow> m d = Some (r, d') \<Longrightarrow> m (put_behind x d) = Some (r, put_behind x d')"
  by (simp add: ignores_behind_def)

lemma put_behind_simps [simp]:
  "des_remaining (put_behind x d) = des_remaining d" "des_position (put_behind x d) = des_position d"
  "des_data (put_behind x d) = des_data d @ [x]" "get_remaining (put_behind x d) = get_remaining d"
  "set_remaining n (put_behind x d) = put_behind x (set_remaining n d)"
  "(put_behind x d)\<lparr>des_position := p, des_remaining := n\<rparr> = put_behind x (d\<lparr>des_position := p, des_remaining := n\<rparr>)"
  by (simp_all add: put_behind_def get_remaining_def set_remaining_def)

lemma mem_behind:
  "mem_at bs i = Some v \<Longrightarrow> mem_at (bs @ [x]) i = Some v" "mem_sub bs i n = Some vs \<Longrightarrow> mem_sub (bs @ [x]) i n = Some vs"
  by (auto simp: mem_at_def mem_sub_def nth_append split: if_splits)

lemma readers_behind [behind_intros]:
  "ignores_behind deserialize_u8" "ignores_behind deserialize_u16" "ignores_behind (deserialize_u32 b)"
  "ignores_behind (deserialize_bytes n)" "ignores_behind (deserialize_string c n)" "ignores_behind (deserialize_vector n)"
  unfolding ignores_behind_def deserialize_u8_def deserialize_u16_def deserialize_u32_def deserialize_bytes_def
    deserialize_string_def deserialize_vector_def
  by (auto simp: bind_eq_Some_conv mem_behind split: if_splits)

lemma const_behind [behind_intros]: "ignores_behind (\<lambda>d. Some (r, d))" "ignores_behind (des_return a)" "ignores_behind des_fail"
  by (simp_all add: ignores_behind_def des_return_def des_fail_def)

lemma seq_behind:
  assumes "ignores_behind m" and "\<And>r. ignores_behind (f r)"
  shows "ignores_behind (\<lambda>d. m d \<bind> (\<lambda>(r, d). f r d))"
  using assms unfolding ignores_behind_def by (auto simp: bind_eq_Some_conv)

lemma bind_behind [behind_intros]:
  assumes "ignores_behind m" and "\<And>a. ignores_behind (f a)"
  shows "ignores_behind (des_bind m f)"
proof -
  have "des_bind m f = (\<lambda>d. m d \<bind> (\<lambda>(r, d). (case r of None \<Rightarrow> \<lambda>d. Some (None, d) | Some a \<Rightarrow> f a) d))"
    by (auto simp: des_bind_def fun_eq_iff split: option.split)
  then show ?thesis using assms by (auto intro!: seq_behind behind_intros split: option.split)
qed

lemma try_behind [behind_intros]: "ignores_behind m \<Longrightarrow> ignores_behind (des_try m)"
  by (auto simp: ignores_behind_def des_try_def split: option.splits)

lemma if_behind [behind_intros]:
  "ignores_behind m \<Longrightarrow> ignores_behind n \<Longrightarrow> ignores_behind (if b then m else n)"
  "ignores_behind m \<Longrightarrow> ignores_behind n \<Longrightarrow> ignores_behind (\<lambda>d. if b then m d else n d)"
  "ignores_behind (f a) \<Longrightarrow> ignores_behind (let y = a in f y)"
  by (cases b; simp)+

lemma remaining_behind:
  "(\<And>n. ignores_behind (f n)) \<Longrightarrow> ignores_behind (\<lambda>d. f (get_remaining d) d)"
  by (simp add: ignores_behind_def)

lemma selective_loop_behind: "ignores_behind (selective_loop len i ok cs)"
proof -
  have "selective_loop len i ok cs d = Some y \<Longrightarrow>
      selective_loop len i ok cs (put_behind x d) = Some (fst y, put_behind x (snd y))" for d y x
  proof (induction arbitrary: x rule: selective_loop.raw_induct [rotated, consumes 1, case_names step])
    case (step loop len i ok cs d y)
    show ?case
    proof (cases "i < len")
      case True
      with step.hyps obtain c d1 where c: "deserialize_u16 d = Some (c, d1)"
        "(case c of Some k \<Rightarrow> loop len (i + 2) True (List.insort_insert k cs) d1 | None \<Rightarrow> loop len (i + 2) False cs d1) = Some y"
        by (auto simp: bind_eq_Some_conv)
      show ?thesis
        using True c(2) step.IH ignores_behindD [OF readers_behind(2) c(1)]
        by (subst selective_loop.simps) (cases c; simp)
    next
      case False
      then show ?thesis using step.hyps by (subst selective_loop.simps) auto
    qed
  qed
  then show ?thesis by (simp add: ignores_behind_def)
qed

lemma configuration_loop_behind: "ignores_behind (configuration_loop m)"
proof -
  have "configuration_loop m d = Some y \<Longrightarrow>
      configuration_loop m (put_behind x d) = Some (fst y, put_behind x (snd y))" for d y x
  proof (induction arbitrary: x rule: configuration_loop.raw_induct [rotated, consumes 1, case_names step])
    case (step loop m d y)
    obtain l d1 where l: "deserialize_u8 d = Some (l, d1)" using step.hyps by (auto simp: bind_eq_Some_conv)
    note l' = ignores_behindD [OF readers_behind(1) l]
    show ?case
    proof (cases "l = None \<or> l = Some 0")
      case True
      then show ?thesis using step.hyps l l' by (subst configuration_loop.simps) auto
    next
      case False
      then obtain n where n: "l = Some n" "0 < n" by (cases l) (auto simp: word_gt_0)
      obtain s d2 where s: "deserialize_string 256 (unat n) d1 = Some (s, d2)"
        using step.hyps l n by (auto simp: bind_eq_Some_conv)
      show ?thesis
        using step.hyps step.IH l l' n s ignores_behindD [OF readers_behind(5) s]
        by (subst configuration_loop.simps) (cases s; auto split: prod.splits if_splits)
    qed
  qed
  then show ?thesis by (simp add: ignores_behind_def)
qed

lemma des_many_behind:
  assumes "ignores_behind m"
  shows "ignores_behind (des_many m acc)"
proof -
  have "des_many m acc d = Some y \<Longrightarrow> ignores_behind m \<Longrightarrow>
      des_many m acc (put_behind x d) = Some (fst y, put_behind x (snd y))" for d y x
  proof (induction arbitrary: x rule: des_many.raw_induct [rotated, consumes 1, case_names step])
    case (step loop m acc d y)
    show ?case
    proof (cases "0 < get_remaining d")
      case True
      with step.hyps obtain a d1 where m: "m d = Some (a, d1)" by (auto simp: bind_eq_Some_conv)
      show ?thesis
        using True step.hyps step.IH step.prems m ignores_behindD [OF step.prems m]
        by (subst des_many.simps) (cases a; auto)
    next
      case False
      then show ?thesis using step.hyps by (subst des_many.simps) auto
    qed
  qed
  then show ?thesis using assms by (simp add: ignores_behind_def)
qed

lemma look_ahead_behind: "look_ahead_u8 i d = Some r \<Longrightarrow> look_ahead_u8 i (put_behind x d) = Some r"
  by (auto simp: look_ahead_u8_def mem_at_def nth_append split: if_splits)

lemma header_behind [behind_intros]: "ignores_behind option_header_deserialize"
  unfolding option_header_deserialize_def by (intro behind_intros)

lemma bind2_behind: "ignores_behind m \<Longrightarrow> (\<And>a b. ignores_behind (f a b)) \<Longrightarrow> ignores_behind (des_bind m (\<lambda>(a, b). f a b))"
  by (rule bind_behind) (simp_all split: prod.split)

lemma option_classes_behind:
  "ignores_behind configuration_option_deserialize" "ignores_behind load_balancing_option_deserialize"
  "ignores_behind protection_option_deserialize" "ignores_behind (ip_option_deserialize sz len body)"
  "ignores_behind selective_option_deserialize" "ignores_behind unknown_option_deserialize"
proof -
  show "ignores_behind configuration_option_deserialize"
    unfolding configuration_option_deserialize_def by (intro bind2_behind behind_intros configuration_loop_behind)
  show "ignores_behind load_balancing_option_deserialize" "ignores_behind protection_option_deserialize"
    unfolding load_balancing_option_deserialize_def protection_option_deserialize_def by (intro bind2_behind behind_intros)+
  show "ignores_behind (ip_option_deserialize sz len body)"
    unfolding ip_option_deserialize_def Let_def by (intro behind_intros) (auto intro: behind_intros split: option.split)
  have "ignores_behind (\<lambda>d. do { ((ok, cs), d) \<leftarrow> selective_loop l 1 True [] d;
      Some (if ok then Some \<lparr>opt_length = l, opt_type = t, opt_body = Selective cs\<rparr> else None, d) })" for l t
    using seq_behind [OF selective_loop_behind const_behind(1)] by (simp add: case_prod_beta')
  then show "ignores_behind selective_option_deserialize"
    unfolding selective_option_deserialize_def by (intro bind2_behind header_behind)
  have "ignores_behind (\<lambda>d. if len = 0 \<or> get_remaining d < unat len then Some (None, d)
      else des_bind (deserialize_vector (unat len - 1)) (\<lambda>payload.
        des_return \<lparr>opt_length = len, opt_type = type, opt_body = Unknown payload\<rparr>) d)" for len :: u16 and type
    by (rule remaining_behind [where f = "\<lambda>r d. if len = 0 \<or> r < unat len then Some (None, d) else _ d"]) (intro behind_intros)
  then show "ignores_behind unknown_option_deserialize"
    unfolding unknown_option_deserialize_def by (intro bind2_behind header_behind)
qed

lemma option_behind: "ignores_behind deserialize_option"
proof -
  have cls: "ignores_behind (if t = CONFIGURATION then configuration_option_deserialize
           else if t = LOAD_BALANCING then load_balancing_option_deserialize
           else if t = PROTECTION then protection_option_deserialize
           else if t = IP4_ENDPOINT \<or> t = IP4_MULTICAST then ipv4_option_deserialize
           else if t = IP6_ENDPOINT \<or> t = IP6_MULTICAST then ipv6_option_deserialize
           else if t = SELECTIVE then selective_option_deserialize
           else unknown_option_deserialize)" for t
    unfolding ipv4_option_deserialize_def ipv6_option_deserialize_def by (intro if_behind(1) option_classes_behind)
  show ?thesis
    unfolding ignores_behind_def
  proof (intro allI impI)
    fix d x r d' assume r: "deserialize_option d = Some (r, d')"
    then obtain t where t: "look_ahead_u8 2 d = Some t" unfolding deserialize_option_def by (auto simp: bind_eq_Some_conv)
    show "deserialize_option (put_behind x d) = Some (r, put_behind x d')"
      using r unfolding deserialize_option_def t look_ahead_behind [OF t] bind.simps
      by (cases t) (simp_all only: option.simps ignores_behindD [OF cls] Pair_inject, auto)
  qed
qed

lemma entry_behind: "ignores_behind deserialize_entry"
proof -
  have cls: "ignores_behind serviceentry_deserialize" "ignores_behind eventgroupentry_deserialize"
    unfolding serviceentry_deserialize_def eventgroupentry_deserialize_def entry_base_deserialize_def by (intro behind_intros)+
  show ?thesis
    unfolding ignores_behind_def
  proof (intro allI impI)
    fix d x r d' assume r: "deserialize_entry d = Some (r, d')"
    then obtain t where t: "look_ahead_u8 0 d = Some t" unfolding deserialize_entry_def by (auto simp: bind_eq_Some_conv)
    show "deserialize_entry (put_behind x d) = Some (r, put_behind x d')"
      using r unfolding deserialize_entry_def t look_ahead_behind [OF t] bind.simps
      by (cases t) (simp_all only: option.simps split: if_splits, auto simp: cls [THEN ignores_behindD])
  qed
qed

lemma header_two_left:
  assumes "des_ok d" and "des_remaining d = 2"
  shows "option_header_deserialize d = Some (None, advance 2 d)"
  using assms by (simp add: option_header_deserialize_def des_bind_def deserialize_u16_def deserialize_u8_def mem_at_def des_ok_def advance_def)

text \<open>With two bytes left no class of options is read, whatever the third byte says.\<close>

lemma option_two_left:
  assumes "des_ok d" and "des_remaining d = 2"
  shows "deserialize_option (put_behind x d) = Some (None, put_behind x (advance 2 d))"
proof -
  have h: "option_header_deserialize (put_behind x d) = Some (None, put_behind x (advance 2 d))"
    by (rule ignores_behindD [OF header_behind header_two_left [OF assms]])
  obtain t where "look_ahead_u8 2 (put_behind x d) = Some (Some t)"
    using assms by (simp add: look_ahead_u8_def mem_at_def des_ok_def)
  then show ?thesis
    unfolding deserialize_option_def
    by (simp add: configuration_option_deserialize_def load_balancing_option_deserialize_def protection_option_deserialize_def
        ipv4_option_deserialize_def ipv6_option_deserialize_def ip_option_deserialize_def selective_option_deserialize_def
        unknown_option_deserialize_def des_bind_def des_try_def h deserialize_bytes_def deserialize_u8_def deserialize_u16_def assms advance_def des_fail_def)
qed

lemma option_overread:
  assumes "des_ok d"
  shows "deserialize_option d = None \<longleftrightarrow> des_remaining d = 2 \<and> des_position d + 2 = length (des_data d)"
proof -
  have "deserialize_option d = None" if "des_remaining d = 2" "des_position d + 2 = length (des_data d)"
    using that by (simp add: deserialize_option_def look_ahead_u8_def mem_at_def)
  moreover have "\<exists>y. deserialize_option d = Some y" if "\<not> (des_remaining d = 2 \<and> des_position d + 2 = length (des_data d))"
  proof -
    have "des_remaining d \<noteq> 2 \<or> des_position d + 2 < length (des_data d)" using that assms by (auto simp: des_ok_def)
    then show ?thesis using deserialize_option_safe [OF assms] by blast
  qed
  ultimately show ?thesis by (metis option.distinct(1))
qed

text \<open>The cursors at which the loop over the options stands, from the cursor where it starts.\<close>

inductive option_reached :: "deserializer \<Rightarrow> deserializer \<Rightarrow> bool" where
  start: "option_reached d d"
| option: "deserialize_option d = Some (Some opt, d1) \<Longrightarrow> option_reached d1 d2 \<Longrightarrow> option_reached d d2"

inductive_cases option_reachedE: "option_reached d d2"

definition two_bytes_left :: "deserializer \<Rightarrow> bool" where
  "two_bytes_left d \<longleftrightarrow> (\<exists>d2. option_reached d d2 \<and> des_remaining d2 = 2 \<and> des_position d2 + 2 = length (des_data d2))"

lemma two_bytes_left_step: "deserialize_option d = Some (Some opt, d1) \<Longrightarrow> two_bytes_left d \<longleftrightarrow> two_bytes_left d1 \<or>
    des_remaining d = 2 \<and> des_position d + 2 = length (des_data d)"
  unfolding two_bytes_left_def by (auto elim: option_reachedE intro: option_reached.intros)

lemma two_bytes_left_last: "deserialize_option d = None \<or> deserialize_option d = Some (None, d1) \<Longrightarrow>
    two_bytes_left d \<longleftrightarrow> des_remaining d = 2 \<and> des_position d + 2 = length (des_data d)"
  unfolding two_bytes_left_def by (auto elim: option_reachedE intro: option_reached.intros)

lemma des_many_unfold:
  "des_remaining d = 0 \<Longrightarrow> des_many m acc d = Some ((True, acc), d)"
  "0 < des_remaining d \<Longrightarrow> m d = Some (None, d1) \<Longrightarrow> des_many m acc d = Some ((False, acc), d1)"
  "0 < des_remaining d \<Longrightarrow> m d = Some (Some a, d1) \<Longrightarrow> des_many m acc d = des_many m (acc @ [a]) d1"
  "0 < des_remaining d \<Longrightarrow> m d = None \<Longrightarrow> des_many m acc d = None"
  by (subst des_many.simps; simp add: get_remaining_def)+

lemma options_run:
  assumes "des_ok d"
  shows "\<exists>r d'. (\<forall>x. des_many deserialize_option acc (put_behind x d) = Some (r, put_behind x d')) \<and>
    des_many deserialize_option acc d = (if two_bytes_left d then None else Some (r, d'))"
  using assms
proof (induction "des_remaining d" arbitrary: d acc rule: less_induct)
  case less
  let ?two = "des_remaining d = 2 \<and> des_position d + 2 = length (des_data d)"
  have over: "deserialize_option d = None \<longleftrightarrow> ?two" by (rule option_overread [OF less.prems])
  consider (finished) "des_remaining d = 0" | (two) "0 < des_remaining d" "deserialize_option d = None"
    | (stop) d1 where "0 < des_remaining d" "deserialize_option d = Some (None, d1)"
    | (more) a d1 where "0 < des_remaining d" "deserialize_option d = Some (Some a, d1)"
    by (metis gr0I option.exhaust surj_pair)
  then show ?case
  proof cases
    case finished
    then have "deserialize_option d = Some (None, d)" by (simp add: deserialize_option_def look_ahead_u8_def)
    then have "\<not> two_bytes_left d" using two_bytes_left_last [of d d] finished by simp
    then show ?thesis
      using finished des_many_unfold(1) [of d deserialize_option acc] des_many_unfold(1) [of "put_behind x d" deserialize_option acc for x]
      by (intro exI [where x = "(True, acc)"] exI [where x = d]) simp
  next
    case two
    then have "two_bytes_left d" using two_bytes_left_last [of d] over by simp
    then show ?thesis
      using two over des_many_unfold(4) [of d deserialize_option acc]
        des_many_unfold(2) [of _ deserialize_option, OF _ option_two_left [OF less.prems], where acc = acc] by auto
  next
    case (stop d1)
    then have "\<not> two_bytes_left d" using two_bytes_left_last [of d d1] over by simp
    then show ?thesis
      using stop des_many_unfold(2) [of d deserialize_option d1 acc]
        des_many_unfold(2) [of _ deserialize_option, OF _ ignores_behindD [OF option_behind stop(2)], where acc = acc] by auto
  next
    case (more a d1)
    have n: "\<not> ?two" using over more by simp
    have "des_step d d1" "des_position d < des_position d1"
      using deserialize_option_safe [OF less.prems] n more less.prems progresses_option [OF less.prems more(2)]
      by (fastforce simp: des_ok_def)+
    then have lt: "des_remaining d1 < des_remaining d" and ok: "des_ok d1"
      using less.prems by (auto simp: des_step_def des_ok_def)
    have "two_bytes_left d \<longleftrightarrow> two_bytes_left d1" using two_bytes_left_step [OF more(2)] n by blast
    then show ?thesis
      using less.hyps [OF lt ok, of "acc @ [a]"] more des_many_unfold(3) [of d deserialize_option a d1 acc]
        des_many_unfold(3) [of _ deserialize_option, OF _ ignores_behindD [OF option_behind more(2)]] by simp
  qed
qed

text \<open>
  \<open>message_impl::deserialize\<close> up to the loop over the options: either the result is known before it, or the loop
  starts at the cursor and \<open>f\<close> makes the result of the options it reads.
\<close>

definition sd_arrays_front ::
    "(nat \<Rightarrow> nat) \<Rightarrow> sd_message \<Rightarrow> u32 \<Rightarrow> (sd_message + (option_impl list \<Rightarrow> sd_message option)) des" where
  "sd_arrays_front alloc m entries_length d =
     (let save_remaining = of_nat (get_remaining d) :: u32 in
      if save_remaining < entries_length then Some (None, d)
      else do {
        ((is_successful, entries), d) \<leftarrow> des_many deserialize_entry [] (set_remaining (unat entries_length) d);
        let d = set_remaining (unat (save_remaining - entries_length)) d;
        if get_remaining d = 0
        then Some (if is_successful then Some (Inl (m\<lparr>sdm_entries := sdm_entries m @ entries\<rparr>)) else None, d)
        else do {
          (options_length, d) \<leftarrow> (if is_successful then deserialize_u32 False d else Some (None, d));
          let its_options_length = (case options_length of Some l \<Rightarrow> l | None \<Rightarrow> sdm_options_length m);
          let d = (if unat its_options_length < get_remaining d then set_remaining (unat its_options_length) d else d);
          Some (Some (Inr (\<lambda>options. if options_length \<noteq> None
            then Some (m\<lparr>sdm_entries := sdm_entries m @ entries, sdm_options_length := its_options_length,
                   sdm_options := sdm_options m @ zip (map alloc [0..<length options]) options,
                   sdm_current_message_size := 0\<rparr>)
            else None)), d) } })"

definition sd_front :: "(nat \<Rightarrow> nat) \<Rightarrow> sd_message \<Rightarrow> (sd_message + (option_impl list \<Rightarrow> sd_message option)) des" where
  "sd_front alloc m =
     des_bind (header_deserialize (sdm_header m)) (\<lambda>header.
     des_bind deserialize_u8 (\<lambda>flags.
     des_bind (deserialize_u32 True) (\<lambda>reserved.
     des_bind (deserialize_u32 False) (\<lambda>entries_length.
       sd_arrays_front alloc (m\<lparr>sdm_header := header, sdm_flags := flags\<rparr>) entries_length))))"

definition sd_finish ::
    "((sd_message + (option_impl list \<Rightarrow> sd_message option)) option \<times> deserializer) option \<Rightarrow> (sd_message option \<times> deserializer) option" where
  "sd_finish r = do {
     (r, d) \<leftarrow> r;
     (case r of
        None \<Rightarrow> Some (None, d)
      | Some (Inl m) \<Rightarrow> Some (Some m, d)
      | Some (Inr f) \<Rightarrow> do {
          ((option_is_successful, options), d) \<leftarrow> des_many deserialize_option [] d;
          Some (f options, d) }) }"

lemma sd_arrays_split: "sd_arrays_deserialize alloc m n = (\<lambda>d. sd_finish (sd_arrays_front alloc m n d))"
proof
  fix d
  let ?s = "of_nat (get_remaining d) :: u32"
  show "sd_arrays_deserialize alloc m n d = sd_finish (sd_arrays_front alloc m n d)"
  proof (cases "?s < n \<or> des_many deserialize_entry [] (set_remaining (unat n) d) = None")
    case False
    then obtain ok es d2 where d2: "des_many deserialize_entry [] (set_remaining (unat n) d) = Some ((ok, es), d2)" "\<not> ?s < n" by auto
    note defs = sd_arrays_deserialize_def sd_arrays_front_def Let_def d2 sd_finish_def
    show ?thesis
    proof (cases "ok \<and> deserialize_u32 False (set_remaining (unat (?s - n)) d2) \<noteq> None")
      case True
      then obtain l d4 where "ok" "deserialize_u32 False (set_remaining (unat (?s - n)) d2) = Some (l, d4)" by auto
      then show ?thesis by (simp add: defs)
    next
      case False
      then show ?thesis
        by (cases ok; cases "deserialize_u32 False (set_remaining (unat (?s - n)) d2)") (simp_all add: defs)
    qed
  qed (auto simp: sd_arrays_deserialize_def sd_arrays_front_def sd_finish_def Let_def)
qed

lemma sd_finish_bind: "des_bind m (\<lambda>a d. sd_finish (f a d)) = (\<lambda>d. sd_finish (des_bind m f d))"
  by (simp add: fun_eq_iff des_bind_def sd_finish_def split: option.split)

lemma sd_message_split: "sd_message_deserialize alloc m d = sd_finish (sd_front alloc m d)"
  unfolding sd_message_deserialize_def sd_front_def sd_arrays_split sd_finish_bind ..

definition sd_options_cursor :: "(nat \<Rightarrow> nat) \<Rightarrow> deserializer \<Rightarrow> deserializer option" where
  "sd_options_cursor alloc d =
     (case sd_front alloc sd_message_new d of Some (Some (Inr f), d1) \<Rightarrow> Some d1 | _ \<Rightarrow> None)"

lemma sd_arrays_front_behind: "ignores_behind (sd_arrays_front alloc m n)"
  unfolding ignores_behind_def
proof (intro allI impI)
  fix d x r d' assume r: "sd_arrays_front alloc m n d = Some (r, d')"
  let ?s = "of_nat (get_remaining d) :: u32"
  show "sd_arrays_front alloc m n (put_behind x d) = Some (r, put_behind x d')"
  proof (cases "?s < n")
    case True
    then show ?thesis using r by (simp add: sd_arrays_front_def)
  next
    case s: False
    with r obtain ok es d2 where d2: "des_many deserialize_entry [] (set_remaining (unat n) d) = Some ((ok, es), d2)"
      by (auto simp: sd_arrays_front_def Let_def bind_eq_Some_conv)
    let ?d3 = "set_remaining (unat (?s - n)) d2" and ?l = "\<lambda>d. if ok then deserialize_u32 False d else Some (None, d)"
    note d2' = ignores_behindD [OF des_many_behind [OF entry_behind] d2, of x]
    show ?thesis
    proof (cases "get_remaining ?d3 = 0")
      case True
      then show ?thesis using r s d2 d2' by (simp add: sd_arrays_front_def Let_def)
    next
      case False
      then obtain ol d4 where d4: "?l ?d3 = Some (ol, d4)"
        using r s d2 by (cases "?l ?d3") (auto simp: sd_arrays_front_def Let_def)
      have "ignores_behind ?l" by (intro behind_intros)
      from ignores_behindD [OF this d4, of x] d4 show ?thesis
        using r s d2 d2' False by (cases ok; simp add: sd_arrays_front_def Let_def) auto
    qed
  qed
qed

lemma sd_front_behind: "ignores_behind (sd_front alloc m)"
  unfolding sd_front_def header_deserialize_def by (intro behind_intros sd_arrays_front_behind)

lemma sd_arrays_front_safe:
  assumes "des_ok d"
  shows "\<exists>r d'. sd_arrays_front alloc m n d = Some (r, d') \<and> des_ok d'"
proof (cases "(of_nat (get_remaining d) :: u32) < n")
  case False
  let ?s = "of_nat (get_remaining d) :: u32"
  have rem: "unat n \<le> unat ?s" "unat ?s \<le> des_remaining d"
    using False by (simp_all add: word_less_nat_alt get_remaining_def unat_of_nat take_bit_nat_less_eq_self)
  let ?d1 = "set_remaining (unat n) d"
  have ok1: "des_ok ?d1" using assms rem by (intro set_remaining_ok) simp_all
  obtain ok entries d2 where d2: "des_many deserialize_entry [] ?d1 = Some ((ok, entries), d2)" "des_step ?d1 d2"
    using entries_safe [OF ok1] by (metis surj_pair)
  let ?d3 = "set_remaining (unat (?s - n)) d2"
  have "unat (?s - n) = unat ?s - unat n" using False by (simp add: unat_sub word_le_nat_alt word_less_nat_alt)
  then have ok3: "des_ok ?d3"
    using d2(2) assms rem unfolding des_ok_def des_step_def set_remaining_def by (simp, linarith)
  obtain w d4' where w: "deserialize_u32 False ?d3 = Some (w, d4')" "des_ok d4'"
    using des_safeD [OF rd32.rd_safe ok3] by metis
  obtain ol d4 where d4: "(if ok then deserialize_u32 False ?d3 else Some (None, ?d3)) = Some (ol, d4)" "des_ok d4"
    using w ok3 by (cases ok) auto
  have "des_ok (if unat l < get_remaining d4 then set_remaining (unat l) d4 else d4)" for l :: u32
    using d4(2) by (auto simp: des_ok_def get_remaining_def set_remaining_def)
  then show ?thesis
    unfolding sd_arrays_front_def Let_def using False d2(1) d4(1) ok3 by simp
qed (simp add: sd_arrays_front_def assms)

lemma sd_front_safe:
  assumes "des_ok d"
  shows "\<exists>r d'. sd_front alloc m d = Some (r, d') \<and> des_ok d'"
proof -
  have bind: "\<exists>r d'. des_bind m f d = Some (r, d') \<and> des_ok d'"
    if "des_ok d" and safe: "des_safe m" and f: "\<And>x d. des_ok d \<Longrightarrow> \<exists>r d'. f x d = Some (r, d') \<and> des_ok d'"
    for m :: "'x des" and f :: "'x \<Rightarrow> (sd_message + (option_impl list \<Rightarrow> sd_message option)) des" and d
  proof -
    obtain r d' where "m d = Some (r, d')" "des_ok d'" using des_safeD [OF safe \<open>des_ok d\<close>] by blast
    then show ?thesis using f [of d'] by (cases r) (simp_all add: des_bind_def)
  qed
  show ?thesis unfolding sd_front_def by (intro bind assms sd_arrays_front_safe safe_intros)
qed

text \<open>
  C24. \<open>deserialize_sd_message\<close> on the datagrams that \<open>set_data\<close> hands over, however malformed: the buffer ends with the
  datagram. Given one more byte behind it, reading always ends, with a result that does not depend on that byte, so no
  loop runs forever and at most this byte is read outside. The byte is read in one case, and then the model has
  no result: the loop over the options arrives at the last two bytes of the buffer. In all other cases reading stays inside the
  buffer and gives the same result.
\<close>

theorem sd_deserialize_safe:
  "let d = deserializer_set_data (Some bs) d0 in \<exists>r.
     (\<forall>x. map_option fst (deserialize_sd_message alloc (put_behind x d)) = Some r) \<and>
     map_option fst (deserialize_sd_message alloc d) =
       (if \<exists>d1. sd_options_cursor alloc d = Some d1 \<and> two_bytes_left d1 then None else Some r)"
proof -
  let ?d = "deserializer_set_data (Some bs) d0"
  have "des_ok ?d" by (simp add: deserializer_set_data_def des_ok_def)
  then obtain r d1 where front: "sd_front alloc sd_message_new ?d = Some (r, d1)" "des_ok d1"
    using sd_front_safe by blast
  note behind = ignores_behindD [OF sd_front_behind front(1)]
  obtain y d2 where loop: "\<And>x. des_many deserialize_option [] (put_behind x d1) = Some (y, put_behind x d2)"
    "des_many deserialize_option [] d1 = (if two_bytes_left d1 then None else Some (y, d2))"
    using options_run [OF front(2)] by metis
  show ?thesis
    unfolding Let_def deserialize_sd_message_def sd_message_split front behind
    using loop by (simp add: sd_finish_def sd_options_cursor_def front split: option.split sum.split prod.split)
qed

section \<open>Malformed options\<close>

text \<open>A datagram with the given bytes as entries and options arrays.\<close>

definition sd_datagram :: "bytes \<Rightarrow> bytes \<Rightarrow> bytes" where
  "sd_datagram entries options =
     [0xFF, 0xFF, 0x81, 0x00] @ be_bytes 4 (of_nat (20 + length entries + length options) :: u32) @
     [0, 0, 0, 1, 1, 1, 2, 0, 0xC0, 0, 0, 0] @ be_bytes 4 (of_nat (length entries) :: u32) @ entries @
     be_bytes 4 (of_nat (length options) :: u32) @ options"

text \<open>
  The bad case exists: an options array of two bytes at the end of the datagram.
\<close>

lemma sd_deserialize_overread:
  "deserialize_sd_message alloc (deserializer_new (sd_datagram [] [0, 9]) th) = None"
  by code_simp

text \<open>
  An offer whose IPv4 endpoint option ends after its header is accepted, with the endpoint 0.0.0.0
  port 0 and an unknown transport protocol.
\<close>

lemma sd_truncated_option_accepted:
  "map_option (map_option (map snd \<circ> sdm_options) \<circ> fst)
     (deserialize_sd_message alloc
       (deserializer_new (sd_datagram [1, 0, 0, 0x10, 0x12, 0x34, 0, 1, 1, 0, 0, 3, 0, 0, 0, 0] [0, 9, 4, 0]) th)) =
   Some (Some [\<lparr>opt_length = 9, opt_type = IP4_ENDPOINT, opt_body = Ipv4 [0, 0, 0, 0] L4_UNKNOWN 0\<rparr>])"
  by code_simp

end
