(* ===== verification/Sd_Assembly.thy ===== *)
theory Sd_Assembly
  imports Sd_Message
begin

text \<open>
  Correctness of message assembly: \<open>add_entry_data\<close> keeps every message serializable and within
  the size of a UDP datagram, and entries refer to the options they were given.
\<close>

section \<open>Comparison never fails\<close>

lemma option_equals_wf:
  assumes "option_wf a" and "option_wf b"
  shows "option_equals a b \<noteq> None"
proof -
  have "body_equals (opt_body a) (opt_body b) \<noteq> None" if "opt_type a = opt_type b"
    using assms that by (cases "opt_body a"; cases "opt_body b") (auto simp: option_wf_def)
  then show ?thesis by (auto simp: option_equals_def base_equals_def)
qed

lemma option_equals_eq:
  assumes "option_wf a" and "option_equals a b = Some True"
  shows "a = b"
proof -
  have "opt_type a = opt_type b" "opt_length a = opt_length b" "body_equals (opt_body a) (opt_body b) = Some True"
    using assms(2) by (auto simp: option_equals_def base_equals_def split: if_splits)
  moreover from this have "opt_body a = opt_body b"
    using assms(1) by (cases "opt_body a"; cases "opt_body b") (auto simp: option_wf_def)
  ultimately show ?thesis by (cases a; cases b) simp
qed

lemma find_option_wf:
  assumes "list_all (\<lambda>(_, opt). option_wf opt) options" and "option_wf opt"
  obtains "find_option options opt = Some None"
    | q where "find_option options opt = Some (Some (q, opt))" and "(q, opt) \<in> set options"
proof -
  have "find_option options opt = Some None \<or> (\<exists>q. find_option options opt = Some (Some (q, opt)) \<and> (q, opt) \<in> set options)"
    using assms(1)
  proof (induction options)
    case (Cons po options)
    obtain p o' where po: "po = (p, o')" by (cases po)
    obtain eq where eq: "option_equals o' opt = Some eq"
      using option_equals_wf [of o' opt] Cons.prems assms(2) by (auto simp: po)
    show ?case
      using Cons eq option_equals_eq [of o' opt] by (cases eq) (auto simp: po)
  qed simp
  then show ?thesis using that by blast
qed

section \<open>The options of a call\<close>

text \<open>Size of the options that are appended.\<close>

definition new_size :: "(nat \<times> option_impl \<times> bool) list \<Rightarrow> nat" where
  "new_size its = sum_list (map (\<lambda>(_, opt, is_new). if is_new then unat (opt_length opt) + 3 else 0) its)"

lemma new_size_put: "new_size (map_put p (opt, b) its) \<le> new_size its + (if b then unat (opt_length opt) + 3 else 0)"
  by (induction its) (auto simp: new_size_def)

definition collected_ok :: "option_ptr list \<Rightarrow> (nat \<times> option_impl \<times> bool) list \<Rightarrow> bool" where
  "collected_ok existing its \<longleftrightarrow> list_all (\<lambda>(p, opt, is_new). option_wf opt \<and> (is_new \<or> (p, opt) \<in> set existing)) its"

lemma list_all_map_put: "list_all P its \<Longrightarrow> P (k, v) \<Longrightarrow> list_all P (map_put k v its)"
  by (induction k v its rule: map_put.induct) auto

lemma length_map_put: "length (map_put k v its) \<le> length its + 1"
  by (induction k v its rule: map_put.induct) auto

lemma unat_option_size: "unat (option_get_size opt) = unat (opt_length opt) + 3"
proof -
  have "unat (ucast (opt_length opt) :: u32) = unat (opt_length opt)" by (rule unat_ucast_up) simp
  moreover have "unat (opt_length opt) < 65536" by (rule unat_less_16)
  ultimately show ?thesis unfolding option_get_size_def by (subst unat_add_lem [THEN iffD1]) simp_all
qed

lemma collect_options_ok:
  assumes "list_all (\<lambda>(_, opt). option_wf opt) existing" and "list_all (\<lambda>(_, opt). option_wf opt) opts"
    and "collected_ok existing its" and "base + new_size its \<le> unat n" and "unat n + 65538 * length opts < 2 ^ 32"
  shows "\<exists>n' its'. collect_options existing opts n its = Some (n', its') \<and> collected_ok existing its' \<and>
     base + new_size its' \<le> unat n' \<and> length its' \<le> length its + length opts \<and>
     unat n' \<le> unat n + 65538 * length opts"
  using assms(2-5)
proof (induction opts arbitrary: n its)
  case (Cons po opts)
  obtain p opt where po: "po = (p, opt)" by (cases po)
  have wf: "option_wf opt" using Cons.prems(1) by (simp add: po)
  show ?case
  proof (rule find_option_wf [OF assms(1) wf])
    assume f: "find_option existing opt = Some None"
    have small: "unat (opt_length opt) < 65536" by (rule unat_less_16)
    have n: "unat (n + option_get_size opt) = unat n + (unat (opt_length opt) + 3)"
      using Cons.prems(4) small unat_option_size [of opt] by (subst unat_add_lem [THEN iffD1]) simp_all
    have "collected_ok existing (map_put p (opt, True) its)"
      using Cons.prems(2) wf by (simp add: collected_ok_def list_all_map_put)
    moreover have "base + new_size (map_put p (opt, True) its) \<le> unat (n + option_get_size opt)"
      using new_size_put [of p opt True its] Cons.prems(3) n by simp
    moreover have "unat (n + option_get_size opt) + 65538 * length opts < 2 ^ 32"
      using n small Cons.prems(4) by simp
    ultimately obtain n' its' where "collect_options existing opts (n + option_get_size opt) (map_put p (opt, True) its) = Some (n', its')"
        "collected_ok existing its'" "base + new_size its' \<le> unat n'" "length its' \<le> length (map_put p (opt, True) its) + length opts"
        "unat n' \<le> unat (n + option_get_size opt) + 65538 * length opts"
      using Cons.IH [of "map_put p (opt, True) its" "n + option_get_size opt"] Cons.prems(1) by (auto simp: po)
    then show ?thesis using f length_map_put [of p "(opt, True)" its] n small by (auto simp: po)
  next
    fix q assume f: "find_option existing opt = Some (Some (q, opt))" and q: "(q, opt) \<in> set existing"
    have "collected_ok existing (map_put q (opt, False) its)"
      using Cons.prems(2) wf q by (simp add: collected_ok_def list_all_map_put)
    moreover have "base + new_size (map_put q (opt, False) its) \<le> unat n"
      using new_size_put [of q opt False its] Cons.prems(3) by simp
    ultimately obtain n' its' where "collect_options existing opts n (map_put q (opt, False) its) = Some (n', its')"
        "collected_ok existing its'" "base + new_size its' \<le> unat n'" "length its' \<le> length (map_put q (opt, False) its) + length opts"
        "unat n' \<le> unat n + 65538 * length opts"
      using Cons.IH [of "map_put q (opt, False) its" n] Cons.prems(1,4) by (auto simp: po)
    then show ?thesis using f length_map_put [of q "(opt, False)" its] by (auto simp: po)
  qed
qed auto


section \<open>The entries of a call\<close>

lemma assign_options_options:
  "fst (assign_options its options e) = options @ map (\<lambda>(p, opt, _). (p, opt)) (filter (\<lambda>(_, _, is_new). is_new) its)"
  by (induction its options e rule: assign_options.induct) (auto simp: Let_def)

lemma options_size_new:
  "options_size (options @ map (\<lambda>(p, opt, _). (p, opt)) (filter (\<lambda>(_, _, is_new). is_new) its)) = options_size options + new_size its"
  by (induction its) (auto simp: options_size_def new_size_def)

text \<open>Assigning options keeps an entry well formed as long as its runs stay short.\<close>

definition fresh_entry :: "entry_impl \<Rightarrow> bool" where
  "fresh_entry e \<longleftrightarrow> entry_wf e \<and> ent_options1 e = [] \<and> ent_options2 e = []"

definition entry_room :: "nat \<Rightarrow> entry_impl \<Rightarrow> bool" where
  "entry_room k e \<longleftrightarrow> entry_wf e \<and> length (ent_options1 e) + length (ent_options2 e) + k < 16"

lemma entry_room_assign: "entry_room (Suc k) e \<Longrightarrow> entry_room k (assign_option i e)"
proof -
  assume a: "entry_room (Suc k) e"
  then have "run_ok (ent_options1 e)" "run_ok (ent_options2 e)" by (simp_all add: entry_room_def entry_wf_def)
  with a show ?thesis
    using assign_option_run_ok [of e i] assign_option_length [of i e]
    unfolding entry_room_def entry_wf_def assign_option_keeps by auto
qed

lemma assign_options_room: "entry_room (length its) e \<Longrightarrow> entry_wf (snd (assign_options its options e))"
  by (induction its options e rule: assign_options.induct)
    (simp_all add: Let_def entry_room_def [of 0] entry_room_assign)

lemma assign_other_room:
  "entry_room (length its) e \<Longrightarrow> entry_wf (fold (\<lambda>(p, _). assign_option (get_option_index options p)) its e)"
  by (induction its arbitrary: e) (auto simp: entry_room_def [of 0] entry_room_assign)

section \<open>The invariant of assembly\<close>

text \<open>
  A message under assembly can be serialized, and its size counter bounds the size it has on the wire,
  which does not exceed the largest payload sent over UDP.
\<close>

definition sd_assembled :: "sd_message \<Rightarrow> bool" where
  "sd_assembled m \<longleftrightarrow> sd_wf m \<and> 28 + 16 * length (sdm_entries m) + options_size (sdm_options m) \<le> unat (sdm_current_message_size m) \<and>
     unat (sdm_current_message_size m) \<le> 1380"

lemma sd_assembled_new: "sd_assembled sd_message_new"
  by (simp add: sd_assembled_def sd_wf_def sd_message_new_def set_unicast_flag_def options_size_def)

lemma add_entry_data_assembled:
  assumes "sd_assembled m" and "fresh_entry e" and "\<And>e'. other = Some e' \<Longrightarrow> fresh_entry e'"
    and "list_all (\<lambda>(_, opt). option_wf opt) opts" and "length opts < 16"
  shows "\<exists>ok m'. add_entry_data e opts other m = Some (ok, m') \<and> sd_assembled m'"
proof -
  let ?n = "16 + (if other \<noteq> None then 16 else 0) :: u32"
  have n: "unat ?n = 16 * (if other = None then 1 else 2)" by simp
  have wf: "list_all (\<lambda>(_, opt). option_wf opt) (sdm_options m)" "list_all entry_wf (sdm_entries m)"
    using assms(1) by (simp_all add: sd_assembled_def sd_wf_def)
  have "collected_ok (sdm_options m) []" "unat ?n + new_size [] \<le> unat ?n" "unat ?n + 65538 * length opts < 2 ^ 32"
    using assms(5) by (simp_all add: collected_ok_def new_size_def)
  from collect_options_ok [OF wf(1) assms(4) this] obtain n' its where
    c: "collect_options (sdm_options m) opts ?n [] = Some (n', its)" "collected_ok (sdm_options m) its"
      "unat ?n + new_size its \<le> unat n'" "length its \<le> length opts" "unat n' \<le> unat ?n + 65538 * length opts" by auto
  show ?thesis
  proof (cases "1380 < sdm_current_message_size m + n'")
    case True
    then show ?thesis using c(1) assms(1) by (auto simp: add_entry_data_def Let_def)
  next
    case False
    obtain options' e' where a: "assign_options its (sdm_options m) e = (options', e')" by (cases "assign_options its (sdm_options m) e")
    let ?es = "sdm_entries m @ [e'] @ (case other of None \<Rightarrow> []
        | Some e2 \<Rightarrow> [fold (\<lambda>(p, _). assign_option (get_option_index options' p)) its e2])"
    have room: "entry_room (length its) e2" if "fresh_entry e2" for e2
      using that c(4) assms(5) by (simp add: fresh_entry_def entry_room_def)
    have "list_all entry_wf ?es"
      using wf(2) assign_options_room [OF room [OF assms(2)], of "sdm_options m"] assign_other_room [OF room] assms(3)
      by (auto simp: a split: option.splits)
    moreover have opts': "options' = sdm_options m @ map (\<lambda>(p, opt, _). (p, opt)) (filter (\<lambda>(_, _, is_new). is_new) its)"
      using assign_options_options [of its "sdm_options m" e] by (simp add: a)
    moreover have "list_all (\<lambda>(_, opt). option_wf opt) options'"
      using wf(1) c(2) by (auto simp: opts' collected_ok_def list_all_iff)
    moreover have size: "unat (sdm_current_message_size m + n') = unat (sdm_current_message_size m) + unat n'"
      using assms(1,5) c(5) n by (subst unat_add_lem [THEN iffD1]) (auto simp: sd_assembled_def split: if_splits)
    moreover have "length ?es * 16 = length (sdm_entries m) * 16 + unat ?n" by (cases other) simp_all
    ultimately have "sd_assembled (m\<lparr>sdm_entries := ?es, sdm_options := options', sdm_current_message_size := sdm_current_message_size m + n'\<rparr>)"
      using False assms(1) c(3) options_size_new [of "sdm_options m" its]
      by (simp add: sd_assembled_def sd_wf_def word_less_nat_alt del: unat_add_lem)
    then show ?thesis using False c(1) a by (auto simp: add_entry_data_def Let_def)
  qed
qed


fun sd_build :: "(entry_impl \<times> option_ptr list \<times> entry_impl option) list \<Rightarrow> sd_message \<Rightarrow> sd_message option" where
  "sd_build [] m = Some m"
| "sd_build ((e, opts, other) # rs) m = do { (ok, m) \<leftarrow> add_entry_data e opts other m; sd_build rs m }"

definition valid_request :: "entry_impl \<times> option_ptr list \<times> entry_impl option \<Rightarrow> bool" where
  "valid_request r = (case r of (e, opts, other) \<Rightarrow> fresh_entry e \<and> (case other of None \<Rightarrow> True | Some e' \<Rightarrow> fresh_entry e') \<and>
     list_all (\<lambda>(_, opt). option_wf opt) opts \<and> length opts < 16)"

lemma sd_build_assembled:
  "list_all valid_request rs \<Longrightarrow> sd_assembled m \<Longrightarrow> \<exists>m'. sd_build rs m = Some m' \<and> sd_assembled m'"
proof (induction rs arbitrary: m)
  case (Cons r rs)
  obtain e opts other where r: "r = (e, opts, other)" by (cases r)
  obtain ok m1 where "add_entry_data e opts other m = Some (ok, m1)" "sd_assembled m1"
    using add_entry_data_assembled [of m e other opts] Cons.prems by (cases other) (auto simp: r valid_request_def)
  then show ?case using Cons.IH [of m1] Cons.prems(1) by (simp add: r)
qed simp

lemma sd_assembled_length:
  "sd_assembled m \<Longrightarrow> length (sd_message_bytes m) \<le> 1380"
  by (simp add: sd_assembled_def sd_wf_def length_sd_message_bytes length_options_bytes)

text \<open>An offer with one endpoint.\<close>

definition sd_offer :: entry_impl where
  "sd_offer = serviceentry_new\<lparr>ent_type := OFFER_SERVICE, ent_service := 0x1234, ent_instance := 1, ent_major_version := 1, ent_ttl := 3\<rparr>"

definition sd_endpoint :: option_impl where
  "sd_endpoint = ipv4_option_new [10, 0, 0, 1] 30509 False"

lemma fresh_sd_offer: "fresh_entry sd_offer"
  by (simp add: sd_offer_def fresh_entry_def entry_wf_def serviceentry_new_def entry_new_def service_type_def)

lemma option_wf_sd_endpoint: "option_wf sd_endpoint"
  by (simp add: sd_endpoint_def ipv4_option_new_def option_wf_def layer_four_protocol_def)

text \<open>
  C10. A message assembled by any sequence of \<open>add_entry_data\<close> calls, each with well-formed entries and
  at most fifteen options, is never larger than 1380 bytes on the wire, and its receiver gets exactly the
  entries and options that were added.
\<close>

theorem sd_assembly:
  assumes "list_all valid_request requests"
  shows "\<exists>m d'. sd_build requests sd_message_new = Some m \<and>
     length (ser_data (snd (sd_message_serialize m (serializer_new th)))) \<le> 1380 \<and>
     deserialize_sd_message alloc (deserializer_new (ser_data (snd (sd_message_serialize m (serializer_new th)))) th') =
       Some (Some (sd_received alloc m), d')"
proof -
  obtain m where m: "sd_build requests sd_message_new = Some m" "sd_assembled m"
    using sd_build_assembled [OF assms sd_assembled_new] by blast
  have "ser_data (snd (sd_message_serialize m (serializer_new th))) = sd_message_bytes m"
    using emitsD [OF emits_sd_message] by (simp add: serializer_new_def)
  moreover have "\<exists>d'. deserialize_sd_message alloc (deserializer_new (sd_message_bytes m @ []) th') = Some (Some (sd_received alloc m), d')"
    using m(2) sd_assembled_length [OF m(2)] by (intro sd_deserialize_bytes) (simp_all add: sd_assembled_def)
  ultimately show ?thesis using m sd_assembled_length [OF m(2)] by auto
qed

theorem sd_assembly_witness:
  "\<exists>m d'. sd_build [(sd_offer, [(100, sd_endpoint)], None), (sd_offer, [(200, sd_endpoint)], Some sd_offer)] sd_message_new = Some m \<and>
     length (ser_data (snd (sd_message_serialize m (serializer_new 0)))) \<le> 1380 \<and>
     deserialize_sd_message (\<lambda>k. k) (deserializer_new (ser_data (snd (sd_message_serialize m (serializer_new 0)))) 0) =
       Some (Some (sd_received (\<lambda>k. k) m), d')"
  by (rule sd_assembly) (simp add: valid_request_def fresh_sd_offer option_wf_sd_endpoint)

section \<open>What the entries refer to\<close>

text \<open>Equal addresses mean equal options.\<close>

definition coherent :: "option_ptr list \<Rightarrow> bool" where
  "coherent ps \<longleftrightarrow> (\<forall>p a b. (p, a) \<in> set ps \<longrightarrow> (p, b) \<in> set ps \<longrightarrow> a = b)"

definition entry_indices :: "entry_impl \<Rightarrow> byte set" where
  "entry_indices e = set (ent_options1 e) \<union> set (ent_options2 e)"

definition refers :: "option_ptr list \<Rightarrow> option_impl set \<Rightarrow> entry_impl \<Rightarrow> bool" where
  "refers options S e \<longleftrightarrow> (\<forall>i \<in> entry_indices e. unat i < length options \<and> snd (options ! unat i) \<in> S)"

lemma option_index_nth: "option_index options p k = int n \<Longrightarrow> k \<le> n \<and> n - k < length options \<and> fst (options ! (n - k)) = p"
proof (induction options arbitrary: k)
  case (Cons po options)
  then show ?case by (cases po) (fastforce split: if_splits simp: nth_Cons' Suc_diff_le dest: Suc_leD)
qed simp

lemma get_option_index_nth:
  assumes "get_option_index options p = i" and "-1 < i"
  shows "nat i < length options \<and> fst (options ! nat i) = p"
  using option_index_nth [of "take (nat (sint (of_nat (length options) :: u16))) options" p 0 "nat i"] assms
  by (auto simp: get_option_index_def)

lemma assign_option_indices:
  "entry_indices (assign_option i e) \<subseteq> entry_indices e \<union> (if -1 < i \<and> i < 256 then {word_of_int i} else {})"
  by (auto simp: assign_option_def entry_indices_def Let_def)

lemma refers_append: "refers options S e \<Longrightarrow> refers (options @ xs) S e"
  by (auto simp: refers_def nth_append)

lemma unat_word_of_int_byte: "-1 < i \<Longrightarrow> i < 256 \<Longrightarrow> unat (word_of_int i :: byte) = nat i"
  using unat_of_nat_byte [of "nat i"] by simp

lemma refers_assign:
  assumes "refers options S e" and "coherent options" and "(p, opt) \<in> set options" and "opt \<in> S"
  shows "refers options S (assign_option (get_option_index options p) e)"
  unfolding refers_def
proof
  fix i assume i: "i \<in> entry_indices (assign_option (get_option_index options p) e)"
  show "unat i < length options \<and> snd (options ! unat i) \<in> S"
  proof (cases "i \<in> entry_indices e")
    case False
    let ?n = "get_option_index options p"
    have n: "-1 < ?n" "?n < 256" "i = word_of_int ?n"
      using i False assign_option_indices [of ?n e] by (auto split: if_splits)
    then have "unat i = nat ?n" "nat ?n < length options" "fst (options ! nat ?n) = p"
      using unat_word_of_int_byte [of ?n] get_option_index_nth [of options p ?n] by simp_all
    moreover from this have "(p, snd (options ! nat ?n)) \<in> set options" by (metis nth_mem prod.collapse)
    ultimately show ?thesis using assms(2-4) by (auto simp: coherent_def)
  qed (use assms(1) in \<open>simp add: refers_def\<close>)
qed


text \<open>All options of a call, old and new, with what the call adds.\<close>

definition its_ptrs :: "(nat \<times> option_impl \<times> bool) list \<Rightarrow> option_ptr list" where
  "its_ptrs its = map (\<lambda>(p, opt, _). (p, opt)) its"

lemma its_ptrs_Cons [simp]: "its_ptrs ((p, opt, b) # its) = (p, opt) # its_ptrs its"
  by (simp add: its_ptrs_def)

lemma coherent_subset: "coherent ys \<Longrightarrow> set xs \<subseteq> set ys \<Longrightarrow> coherent xs"
  unfolding coherent_def by (meson subsetD)

lemma assign_options_refers:
  assumes "refers options S e" and "coherent (options @ its_ptrs its)"
    and "list_all (\<lambda>(p, opt, is_new). opt \<in> S \<and> (is_new \<or> (p, opt) \<in> set options)) its"
  shows "refers (fst (assign_options its options e)) S (snd (assign_options its options e))"
  using assms
proof (induction its options e rule: assign_options.induct)
  case (2 p opt is_new rest options e)
  let ?os = "if is_new then options @ [(p, opt)] else options"
  have co: "coherent (?os @ its_ptrs rest)" by (rule coherent_subset [OF "2.prems"(2)]) (simp, blast)
  then have os: "coherent ?os" by (rule coherent_subset) simp
  have h: "opt \<in> S" "is_new \<or> (p, opt) \<in> set options" using "2.prems"(3) by simp_all
  have "refers ?os S e" using refers_append [OF "2.prems"(1)] "2.prems"(1) by simp
  moreover have "(p, opt) \<in> set ?os" using h(2) by auto
  ultimately have r: "refers ?os S (assign_option (get_option_index ?os p) e)"
    using h(1) by (intro refers_assign [OF _ os])
  have "set options \<subseteq> set ?os" by auto
  then have "list_all (\<lambda>(p, opt, is_new). opt \<in> S \<and> (is_new \<or> (p, opt) \<in> set ?os)) rest"
    using "2.prems"(3) by (auto simp: list_all_iff split del: if_split)
  from "2.IH" [OF refl r co this] show ?case by (simp add: Let_def)
qed simp

lemma set_map_put_subset: "set (map_put k v m) \<subseteq> insert (k, v) (set m)"
  by (induction k v m rule: map_put.induct) auto

lemma collect_options_from:
  assumes "collect_options existing opts n its = Some (n', its')"
    and "list_all (\<lambda>(_, opt). option_wf opt) existing" and "list_all (\<lambda>(_, opt). option_wf opt) opts"
    and "set (its_ptrs its) \<subseteq> set (existing @ done)" and "snd ` set (its_ptrs its) \<subseteq> snd ` set done"
    and "list_all (\<lambda>(p, opt, is_new). is_new \<or> (p, opt) \<in> set existing) its"
  shows "set (its_ptrs its') \<subseteq> set (existing @ done @ opts) \<and> snd ` set (its_ptrs its') \<subseteq> snd ` set (done @ opts) \<and>
     list_all (\<lambda>(p, opt, is_new). is_new \<or> (p, opt) \<in> set existing) its'"
  using assms
proof (induction opts arbitrary: n its "done")
  case (Cons po opts)
  obtain p opt where po: "po = (p, opt)" by (cases po)
  have put: "set (its_ptrs (map_put q (v, b) its)) \<subseteq> insert (q, v) (set (its_ptrs its))" for q v b
    using set_map_put_subset [of q "(v, b)" its] by (force simp: its_ptrs_def)
  have wf: "option_wf opt" "list_all (\<lambda>(_, opt). option_wf opt) opts" using Cons.prems(3) by (simp_all add: po)
  have step: ?case if c: "collect_options existing opts k (map_put q (opt, b) its) = Some (n', its')"
    and q: "(q, opt) \<in> set (existing @ [po])" "b \<or> (q, opt) \<in> set existing" for k q b
  proof -
    have "set (its_ptrs (map_put q (opt, b) its)) \<subseteq> set (existing @ done @ [po])"
      using put [of q opt b] Cons.prems(4) q(1) by auto
    moreover have "snd ` set (its_ptrs (map_put q (opt, b) its)) \<subseteq> snd ` set (done @ [po])"
      using image_mono [OF put [of q opt b], of snd] Cons.prems(5) by (simp add: po) blast
    moreover have "list_all (\<lambda>(p, opt, is_new). is_new \<or> (p, opt) \<in> set existing) (map_put q (opt, b) its)"
      using Cons.prems(6) q(2) by (intro list_all_map_put) simp_all
    ultimately show ?thesis using Cons.IH [OF c Cons.prems(2) wf(2), of "done @ [po]"] by simp
  qed
  show ?case
  proof (rule find_option_wf [OF Cons.prems(2) wf(1)])
    assume "find_option existing opt = Some None"
    then have "collect_options existing opts (n + option_get_size opt) (map_put p (opt, True) its) = Some (n', its')"
      using Cons.prems(1) by (simp add: po)
    then show ?thesis by (rule step) (simp_all add: po)
  next
    fix q assume f: "find_option existing opt = Some (Some (q, opt))" and q: "(q, opt) \<in> set existing"
    have "collect_options existing opts n (map_put q (opt, False) its) = Some (n', its')"
      using Cons.prems(1) f by (simp add: po)
    then show ?thesis by (rule step) (use q in simp_all)
  qed
qed simp


lemma its_ptrs_cond:
  "snd ` set (its_ptrs its) \<subseteq> S \<Longrightarrow> list_all (\<lambda>(p, opt, is_new). is_new \<or> (p, opt) \<in> T) its \<Longrightarrow>
     list_all (\<lambda>(p, opt, is_new). opt \<in> S \<and> (is_new \<or> (p, opt) \<in> T)) its"
  by (induction its) auto

text \<open>
  C37. The entry added by a successful \<open>add_entry_data\<close> only refers to options the caller asked for,
  also when an equal option of the message is shared.
\<close>

theorem sd_references:
  assumes "add_entry_data e opts None m = Some (True, m')" and "sd_wf m" and "fresh_entry e"
    and "list_all (\<lambda>(_, opt). option_wf opt) opts" and "coherent (sdm_options m @ opts)"
  shows "refers (sdm_options m') (snd ` set opts) (last (sdm_entries m'))"
proof -
  have wf: "list_all (\<lambda>(_, opt). option_wf opt) (sdm_options m)" using assms(2) by (simp add: sd_wf_def)
  obtain n its where c: "collect_options (sdm_options m) opts 16 [] = Some (n, its)"
    using assms(1) by (cases "collect_options (sdm_options m) opts 16 []") (auto simp: add_entry_data_def)
  then have m': "m' = m\<lparr>sdm_entries := sdm_entries m @ [snd (assign_options its (sdm_options m) e)],
      sdm_options := fst (assign_options its (sdm_options m) e), sdm_current_message_size := sdm_current_message_size m + n\<rparr>"
    using assms(1) by (simp add: add_entry_data_def case_prod_beta split: if_splits)
  have its: "set (its_ptrs its) \<subseteq> set (sdm_options m @ opts)" "snd ` set (its_ptrs its) \<subseteq> snd ` set opts"
      "list_all (\<lambda>(p, opt, is_new). is_new \<or> (p, opt) \<in> set (sdm_options m)) its"
    using collect_options_from [OF c wf assms(4), of "[]"] by (simp_all add: its_ptrs_def)
  have "refers (sdm_options m) (snd ` set opts) e" using assms(3) by (simp add: refers_def fresh_entry_def entry_indices_def)
  moreover have "coherent (sdm_options m @ its_ptrs its)"
    using its(1) by (intro coherent_subset [OF assms(5)]) simp
  moreover have "list_all (\<lambda>(p, opt, is_new). opt \<in> snd ` set opts \<and> (is_new \<or> (p, opt) \<in> set (sdm_options m))) its"
    using its(2,3) by (rule its_ptrs_cond)
  ultimately have "refers (fst (assign_options its (sdm_options m) e)) (snd ` set opts) (snd (assign_options its (sdm_options m) e))"
    by (rule assign_options_refers)
  then show ?thesis by (simp add: m')
qed

theorem sd_references_witness:
  "\<exists>m'. add_entry_data sd_offer [(100, sd_endpoint)] None sd_message_new = Some (True, m') \<and>
     refers (sdm_options m') {sd_endpoint} (last (sdm_entries m'))"
proof -
  obtain m' where m': "add_entry_data sd_offer [(100, sd_endpoint)] None sd_message_new = Some (True, m')"
    by (simp add: add_entry_data_def sd_message_new_def set_unicast_flag_def option_get_size_def sd_endpoint_def ipv4_option_new_def
        case_prod_beta)
  have "sd_wf sd_message_new" using sd_assembled_new by (simp add: sd_assembled_def)
  from sd_references [OF m' this fresh_sd_offer] m' show ?thesis
    by (simp add: option_wf_sd_endpoint coherent_def sd_message_new_def set_unicast_flag_def)
qed


end
