(* ===== verification/Sd_Session.thy ===== *)
theory Sd_Session
  imports Sd_Message
begin

text \<open>
  Sessions of service discovery (\<open>service_discovery/src/service_discovery_impl.cpp\<close>): the session identifiers
  and reboot flags of sent messages, the detection of a rebooted peer, and the search for lost messages.

  Addresses are an arbitrary type. What \<open>host_->send\<close> answers is part of the input.
\<close>

type_synonym 'a sessions_sent = "'a \<Rightarrow> (u16 \<times> bool) option"
type_synonym 'a sessions_received = "'a \<Rightarrow> (u16 \<times> u16 \<times> bool \<times> bool) option"

section \<open>Sending\<close>

definition get_session :: "'a \<Rightarrow> 'a sessions_sent \<Rightarrow> (u16 \<times> bool) \<times> 'a sessions_sent" where
  "get_session address sent =
     (case sent address of
        None \<Rightarrow> ((1, True), sent(address \<mapsto> (1, True)))
      | Some its_session \<Rightarrow> (its_session, sent))"

definition increment_session :: "'a \<Rightarrow> 'a sessions_sent \<Rightarrow> 'a sessions_sent" where
  "increment_session address sent =
     (case sent address of
        None \<Rightarrow> sent
      | Some (session, reboot_flag) \<Rightarrow>
          sent(address \<mapsto> if session + 1 = 0 then (1, False) else (session + 1, reboot_flag)))"

definition sd_set_session :: "u16 \<times> bool \<Rightarrow> sd_message \<Rightarrow> sd_message" where
  "sd_set_session its_session m =
     set_reboot_flag (snd its_session) (m\<lparr>sdm_header := (sdm_header m)\<lparr>hdr_session := fst its_session\<rparr>\<rparr>)"

text \<open>\<open>send\<close>: the multicast messages, counted under the own unicast address.\<close>

fun sd_send :: "'a \<Rightarrow> (sd_message \<times> bool) list \<Rightarrow> 'a sessions_sent \<Rightarrow> bool \<times> sd_message list \<times> 'a sessions_sent" where
  "sd_send unicast [] sent = (True, [], sent)"
| "sd_send unicast ((m, is_sent) # ms) sent =
     (if sdm_entries m \<noteq> [] then
        let (its_session, sent) = get_session unicast sent;
            m = sd_set_session its_session m;
            (its_result, out, sent) = sd_send unicast ms (if is_sent then increment_session unicast sent else sent)
        in (its_result, if is_sent then m # out else out, sent)
      else let (its_result, out, sent) = sd_send unicast ms sent in (False, out, sent))"

text \<open>
  \<open>serialize_and_send\<close>: the unicast messages, as the bytes handed to the endpoint. The pooled serializer starts
  empty and is reset after every message; \<open>capacity\<close> is that of its vector.
\<close>

fun serialize_and_send ::
  "bool \<Rightarrow> 'a \<Rightarrow> nat \<Rightarrow> (sd_message \<times> bool) list \<Rightarrow> serializer \<times> 'a sessions_sent \<Rightarrow> bool \<times> bytes list \<times> serializer \<times> 'a sessions_sent" where
  "serialize_and_send unspecified address capacity [] (ser, sent) = (True, [], ser, sent)"
| "serialize_and_send unspecified address capacity ((m, is_sent) # ms) (ser, sent) =
     (if unspecified then (True, [], ser, sent)
      else if sdm_entries m \<noteq> [] then
        let (its_session, sent) = get_session address sent;
            (ok, ser) = sd_message_serialize (sd_set_session its_session m) ser;
            out = (if ok \<and> is_sent then [ser_data ser] else []);
            (its_result, outs, rest) = serialize_and_send unspecified address capacity ms
              (serializer_reset capacity ser, if ok \<and> is_sent then increment_session address sent else sent)
        in (ok \<and> its_result, out @ outs, rest)
      else let (its_result, outs, rest) = serialize_and_send unspecified address capacity ms (ser, sent) in (False, outs, rest))"

section \<open>Receiving\<close>

definition is_reboot :: "'a \<Rightarrow> bool \<Rightarrow> bool \<Rightarrow> u16 \<Rightarrow> 'a sessions_received \<Rightarrow> bool \<times> 'a sessions_received" where
  "is_reboot sender is_multicast reboot_flag session received =
     (case received sender of
        None \<Rightarrow> (False, received(sender \<mapsto>
          (if is_multicast then (session, 0, reboot_flag, True) else (0, session, True, reboot_flag))))
      | Some (multicast_session, unicast_session, multicast_flag, unicast_flag) \<Rightarrow>
          let its_old_session = (if is_multicast then multicast_session else unicast_session);
              its_old_reboot_flag = (if is_multicast then multicast_flag else unicast_flag);
              result = (if reboot_flag \<and> (is_multicast \<and> \<not> multicast_flag \<or> \<not> is_multicast \<and> \<not> unicast_flag) then True
                        else its_old_reboot_flag \<and> reboot_flag \<and> its_old_session \<ge> session)
          in (result,
              if result then received(sender := None)
              else received(sender \<mapsto>
                (if is_multicast then (session, unicast_session, reboot_flag, unicast_flag)
                 else (multicast_session, session, multicast_flag, reboot_flag)))))"

text \<open>The sequence check; the sum is computed in \<open>int\<close> and does not wrap. The first missing session is the second component.\<close>

definition check_session_id_sequence ::
  "'a \<Rightarrow> bool \<Rightarrow> u16 \<Rightarrow> ('a \<times> bool \<Rightarrow> u16 option) \<Rightarrow> (bool \<times> u16 option) \<times> ('a \<times> bool \<Rightarrow> u16 option)" where
  "check_session_id_sequence sender is_multicast session session_peer =
     (let missing = (case session_peer (sender, is_multicast) of
           None \<Rightarrow> None
         | Some old \<Rightarrow> if session > old \<and> uint session \<noteq> uint old + 1 then Some (old + 1) else None)
      in ((missing = None, missing), session_peer((sender, is_multicast) \<mapsto> session)))"

definition check_source_address :: "'a \<Rightarrow> 'a \<Rightarrow> bool" where
  "check_source_address unicast source \<longleftrightarrow> unicast \<noteq> source"

definition check_static_header_fields :: "sd_message \<Rightarrow> bool" where
  "check_static_header_fields m \<longleftrightarrow>
     hdr_protocol_version (sdm_header m) = 0x01 \<and> hdr_interface_version (sdm_header m) = 0x01 \<and>
     hdr_type (sdm_header m) = MT_NOTIFICATION \<and>
     \<not> (hdr_code (sdm_header m) > E_OK \<and> hdr_code (sdm_header m) < E_UNKNOWN)"

text \<open>
  What \<open>on_message\<close> does with a message before it looks at the entries: it is ignored, or the reboot flag and the
  session are checked; the result says whether the peer has rebooted and which session is missing.
\<close>

definition sd_on_message ::
  "'a \<Rightarrow> 'a \<Rightarrow> bool \<Rightarrow> sd_message \<Rightarrow> 'a sessions_received \<times> ('a \<times> bool \<Rightarrow> u16 option)
   \<Rightarrow> (bool \<times> u16 option) option \<times> 'a sessions_received \<times> ('a \<times> bool \<Rightarrow> u16 option)" where
  "sd_on_message unicast sender is_multicast m st =
     (if \<not> check_source_address unicast sender \<or> \<not> check_static_header_fields m then (None, st)
      else let (reboot, received) = is_reboot sender is_multicast (get_reboot_flag m) (hdr_session (sdm_header m)) (fst st);
               ((_, missing), session_peer) = check_session_id_sequence sender is_multicast (hdr_session (sdm_header m)) (snd st)
           in (Some (reboot, missing), received, session_peer))"

section \<open>The numbers that a sender uses\<close>

definition sd_stamp :: "nat \<Rightarrow> u16 \<times> bool" where
  "sd_stamp n = (of_nat (n mod 65535) + 1, n < 65535)"

lemma unat_sd_stamp: "unat (fst (sd_stamp n)) = n mod 65535 + 1"
proof -
  have "n mod 65535 < 65535" by simp
  moreover have "fst (sd_stamp n) = of_nat (n mod 65535 + 1)" by (simp add: sd_stamp_def)
  ultimately show ?thesis by (simp only: unat_of_nat) simp
qed

lemma sd_stamp_Suc:
  "sd_stamp (Suc n) = (if fst (sd_stamp n) + 1 = 0 then (1, False) else (fst (sd_stamp n) + 1, snd (sd_stamp n)))"
proof (cases "n mod 65535 = 65534")
  case True
  then have "Suc n mod 65535 = 0" by (simp add: mod_Suc)
  moreover have "n \<ge> 65534" using True mod_less_eq_dividend [of n 65535] by linarith
  moreover have "(65534 + 1 + 1 :: u16) = 0" by simp
  ultimately show ?thesis using True by (simp add: sd_stamp_def)
next
  case False
  then have m: "Suc n mod 65535 = Suc (n mod 65535)" by (simp add: mod_Suc)
  have "n mod 65535 < 65535" by simp
  then have "n mod 65535 + 2 < 2 ^ 16" using False by simp
  then have "unat (of_nat (n mod 65535 + 2) :: u16) = n mod 65535 + 2" by (simp only: unat_of_nat) simp
  then have "(of_nat (n mod 65535 + 2) :: u16) \<noteq> 0" by (metis add_2_eq_Suc' nat.distinct(1) unat_0)
  moreover have "n \<noteq> 65534" using False by auto
  ultimately show ?thesis using m by (auto simp: sd_stamp_def algebra_simps)
qed

lemma increment_stamp: "sent a = Some (sd_stamp n) \<Longrightarrow> increment_session a sent = sent(a \<mapsto> sd_stamp (Suc n))"
  by (simp add: increment_session_def sd_stamp_Suc split: prod.splits)

lemma sd_stamp_0: "sd_stamp 0 = (1, True)"
  by (simp add: sd_stamp_def)

text \<open>The state of a sender that has sent \<open>n\<close> messages to an address.\<close>

definition sent_count :: "'a sessions_sent \<Rightarrow> 'a \<Rightarrow> nat \<Rightarrow> bool" where
  "sent_count sent a n \<longleftrightarrow> sent a = Some (sd_stamp n) \<or> n = 0 \<and> sent a = None"

lemma get_session_stamp:
  assumes "sent_count sent a n"
  obtains sent' where "get_session a sent = (sd_stamp n, sent')" "sent' a = Some (sd_stamp n)"
  using assms by (auto simp: sent_count_def get_session_def sd_stamp_0)

lemma sd_set_session_stamp:
  "hdr_session (sdm_header (sd_set_session st m)) = fst st" "get_reboot_flag (sd_set_session st m) = snd st"
proof -
  have "(x OR 0x80) AND 0x80 = (0x80 :: byte)" "(x AND NOT 0x80) AND 0x80 = (0 :: byte)" for x
    by (rule bit_word_eqI; auto simp: bit_simps)+
  then show "hdr_session (sdm_header (sd_set_session st m)) = fst st" "get_reboot_flag (sd_set_session st m) = snd st"
    by (simp_all add: sd_set_session_def set_reboot_flag_def get_reboot_flag_def)
qed

lemma sd_send_stamps:
  assumes "sent_count sent a n" "sd_send a ms sent = (r, out, sent')"
  shows "map (\<lambda>m. (hdr_session (sdm_header m), get_reboot_flag m)) out = map sd_stamp [n..<n + length out] \<and> sent_count sent' a (n + length out)"
  using assms
proof (induction ms arbitrary: sent n r out)
  case (Cons x ms)
  obtain m b where x: "x = (m, b)" by fastforce
  show ?case
  proof (cases "sdm_entries m = []")
    case True
    obtain r1 where "sd_send a ms sent = (r1, out, sent')"
      using Cons.prems(2) by (auto simp: x True split: prod.splits)
    from Cons.IH [OF Cons.prems(1) this] show ?thesis .
  next
    case False
    from get_session_stamp [OF Cons.prems(1)] obtain s1 where s1: "get_session a sent = (sd_stamp n, s1)" "s1 a = Some (sd_stamp n)" .
    let ?s2 = "if b then increment_session a s1 else s1" and ?n = "if b then Suc n else n"
    have c: "sent_count ?s2 a ?n" using s1(2) by (simp add: sent_count_def increment_stamp)
    obtain r1 out1 where o: "sd_send a ms ?s2 = (r1, out1, sent')" "out = (if b then sd_set_session (sd_stamp n) m # out1 else out1)"
      using Cons.prems(2) s1(1) False by (auto simp: x Let_def split: prod.splits)
    from Cons.IH [OF c o(1)] o(2) show ?thesis by (cases b) (auto simp: sd_set_session_stamp upt_conv_Cons simp del: upt_Suc)
  qed
qed (simp add: sent_count_def)

section \<open>Detection of reboots\<close>

text \<open>
  A sequence of messages from one peer as the receiver sees them: by multicast or not, and with the
  number that the sender gave to the message.
\<close>

fun receive_stamps :: "'a \<Rightarrow> (bool \<times> nat) list \<Rightarrow> 'a sessions_received \<Rightarrow> bool list \<times> 'a sessions_received" where
  "receive_stamps sender [] received = ([], received)"
| "receive_stamps sender ((mc, n) # rs) received =
     (let (r, received) = is_reboot sender mc (snd (sd_stamp n)) (fst (sd_stamp n)) received;
          (out, received) = receive_stamps sender rs received
      in (r # out, received))"

definition on_channel :: "bool \<Rightarrow> (bool \<times> nat) list \<Rightarrow> nat list" where
  "on_channel mc rs = map snd (filter (\<lambda>r. fst r = mc) rs)"

definition seen :: "nat list \<Rightarrow> u16 \<times> bool" where
  "seen ns = (if ns = [] then (0, True) else sd_stamp (last ns))"

definition received_so_far :: "'a \<Rightarrow> (bool \<times> nat) list \<Rightarrow> 'a sessions_received \<Rightarrow> bool" where
  "received_so_far sender rs received \<longleftrightarrow>
     (let m = seen (on_channel True rs); u = seen (on_channel False rs)
      in received sender = (if rs = [] then None else Some (fst m, fst u, snd m, snd u)))"

definition reboot_seen :: "nat list \<Rightarrow> nat \<Rightarrow> bool" where
  "reboot_seen ns k \<longleftrightarrow> k < 65535 \<and> ns \<noteq> [] \<and> (65535 \<le> last ns \<or> k \<le> last ns)"

lemma stamp_le: "fst (sd_stamp k) \<le> fst (sd_stamp n) \<longleftrightarrow> k mod 65535 \<le> n mod 65535"
  unfolding word_le_nat_alt unat_sd_stamp by (rule add_le_cancel_right)

lemma reboot_seen_stamp:
  "reboot_seen ns k \<longleftrightarrow> snd (sd_stamp k) \<and> (\<not> snd (seen ns) \<or> fst (sd_stamp k) \<le> fst (seen ns))"
proof (cases "ns = []")
  case True
  have "\<not> fst (sd_stamp k) \<le> 0" unfolding word_le_nat_alt unat_sd_stamp by simp
  with True show ?thesis by (simp add: reboot_seen_def seen_def)
next
  case False
  have st: "snd (sd_stamp n) \<longleftrightarrow> n < 65535" for n by (simp add: sd_stamp_def)
  have "fst (sd_stamp k) \<le> fst (sd_stamp (last ns)) \<longleftrightarrow> k \<le> last ns" if "k < 65535" "last ns < 65535"
    unfolding stamp_le using that by (simp only: mod_less)
  then show ?thesis unfolding reboot_seen_def seen_def st if_not_P [OF False] not_less by (metis False not_less)
qed

lemma is_reboot_result:
  assumes "received_so_far sender rs received"
  shows "fst (is_reboot sender mc (snd (sd_stamp k)) (fst (sd_stamp k)) received) = reboot_seen (on_channel mc rs) k"
proof (cases "rs = []")
  case True
  with assms show ?thesis by (simp add: received_so_far_def is_reboot_def reboot_seen_def on_channel_def)
next
  case False
  with assms show ?thesis
    unfolding received_so_far_def reboot_seen_stamp by (cases mc) (auto simp: is_reboot_def Let_def)
qed

lemma is_reboot_state:
  assumes "received_so_far sender rs received" "\<not> reboot_seen (on_channel mc rs) k"
  shows "received_so_far sender (rs @ [(mc, k)]) (snd (is_reboot sender mc (snd (sd_stamp k)) (fst (sd_stamp k)) received))"
proof -
  have ch: "on_channel mc (rs @ [(mc, k)]) = on_channel mc rs @ [k]" "on_channel (\<not> mc) (rs @ [(mc, k)]) = on_channel (\<not> mc) rs"
    by (simp_all add: on_channel_def)
  have f: "\<not> fst (is_reboot sender mc (snd (sd_stamp k)) (fst (sd_stamp k)) received)"
    using is_reboot_result [OF assms(1)] assms(2) by simp
  show ?thesis
  proof (cases "rs = []")
    case True
    with assms(1) ch show ?thesis
      by (cases mc) (auto simp: received_so_far_def is_reboot_def seen_def on_channel_def)
  next
    case False
    with assms(1) ch f show ?thesis
      unfolding received_so_far_def
      by (cases mc) (auto simp: is_reboot_def seen_def Let_def split: if_splits)
  qed
qed

lemma receive_stamps_ordered:
  assumes "received_so_far sender before received"
    and "sorted_wrt (<) (on_channel True (before @ rs))" "sorted_wrt (<) (on_channel False (before @ rs))"
  shows "fst (receive_stamps sender rs received) = replicate (length rs) False
    \<and> received_so_far sender (before @ rs) (snd (receive_stamps sender rs received))"
  using assms
proof (induction rs arbitrary: before received)
  case (Cons r rs)
  obtain mc k where r: "r = (mc, k)" by fastforce
  have "sorted_wrt (<) (on_channel mc (before @ (mc, k) # rs))"
    using Cons.prems(2,3) r by (cases mc) auto
  then have "\<forall>n \<in> set (on_channel mc before). n < k"
    by (auto simp: on_channel_def sorted_wrt_append)
  then have no: "\<not> reboot_seen (on_channel mc before) k"
    by (cases "on_channel mc before = []") (auto simp: reboot_seen_def dest!: bspec [OF _ last_in_set])
  from Cons.IH [OF is_reboot_state [OF Cons.prems(1) no]] Cons.prems(2,3) is_reboot_result [OF Cons.prems(1)] no
  show ?case by (simp add: r Let_def split_beta)
qed simp

text \<open>
  C11. Reboot detection. As long as the messages of a peer that arrive by multicast, and those that arrive
  by unicast, keep the order in which they were sent, no reboot is reported, whatever is lost and
  also when the session identifiers wrap around. When the peer has then restarted and its message number
  \<open>k\<close> of the first round arrives, the reboot is reported exactly if the last message from before on that channel
  was from a later round or had at least the number \<open>k\<close>.
\<close>

theorem sd_reboot_detection:
  assumes "received sender = None"
    and "sorted_wrt (<) (on_channel True rs)" "sorted_wrt (<) (on_channel False rs)" "k < 65535"
  shows "fst (receive_stamps sender rs received) = replicate (length rs) False
    \<and> fst (is_reboot sender mc (snd (sd_stamp k)) (fst (sd_stamp k)) (snd (receive_stamps sender rs received))) =
        (on_channel mc rs \<noteq> [] \<and> (65535 \<le> last (on_channel mc rs) \<or> k \<le> last (on_channel mc rs)))"
proof -
  have "received_so_far sender [] received" using assms(1) by (simp add: received_so_far_def)
  from receive_stamps_ordered [OF this] assms(2,3) is_reboot_result
  show ?thesis using assms(4) by (fastforce simp: reboot_seen_def)
qed

theorem sd_reboot_detection_witness:
  "fst (receive_stamps (7 :: nat) [(True, 3), (False, 0), (True, 65536), (False, 9)] Map.empty) = [False, False, False, False]
   \<and> fst (is_reboot 7 True True 5 (snd (receive_stamps (7 :: nat) [(True, 3), (False, 0), (True, 65536), (False, 9)] Map.empty)))"
proof -
  have "sd_stamp 4 = (5, True)" by (simp add: sd_stamp_def)
  then show ?thesis
    using sd_reboot_detection [of Map.empty "7 :: nat" "[(True, 3), (False, 0), (True, 65536), (False, 9)]" 4 True]
    by (simp add: on_channel_def)
qed

text \<open>
  The message that gives a reboot away is not remembered, so a peer that reboots again after one
  message is not noticed.
\<close>

lemma sd_second_reboot_missed:
  assumes "is_reboot sender mc flag session received = (True, received')"
  shows "fst (is_reboot sender mc' flag' session' received') = False"
proof -
  have "received' sender = None"
    using assms by (auto simp: is_reboot_def Let_def split: option.splits prod.splits if_splits)
  then show ?thesis by (simp add: is_reboot_def)
qed

text \<open>The search for lost messages reports the first missing session, up to the wrap-around.\<close>

lemma sd_missing_sessions:
  assumes "peer (sender, mc) = Some (fst (sd_stamp n))" "n < k" "k < 65535"
  shows "fst (check_session_id_sequence sender mc (fst (sd_stamp k)) peer) =
    (if k = Suc n then (True, None) else (False, Some (fst (sd_stamp (Suc n)))))"
proof -
  have u: "uint (fst (sd_stamp i)) = int i + 1" if "i < 65535" for i
    using unat_sd_stamp [of i] that by (simp add: uint_nat)
  have "fst (sd_stamp n) < fst (sd_stamp k)"
    using assms(2,3) unat_sd_stamp [of n] unat_sd_stamp [of k] by (simp add: word_less_nat_alt)
  moreover have "uint (fst (sd_stamp k)) = uint (fst (sd_stamp n)) + 1 \<longleftrightarrow> k = Suc n"
    using assms(2,3) u [of n] u [of k] by auto
  moreover have "fst (sd_stamp n) + 1 = fst (sd_stamp (Suc n))"
    using assms(2,3) by (simp add: sd_stamp_def)
  ultimately show ?thesis using assms(1) by (simp add: check_session_id_sequence_def Let_def)
qed

end
