(* ===== verification/Sd_Offers.thy ===== *)
theory Sd_Offers
  imports Sd_Entry Alists
begin

text \<open>
  Which services a remote host offers and over which transport
  (\<open>service_discovery/src/service_discovery_impl.cpp\<close>): \<open>remote_offer_types_\<close> and \<open>remote_offers_by_ip_\<close> with the
  operations that keep them in step. The nested maps are association lists; a \<open>remote_offer_info_t\<close> is the
  service with its mutable multicast flag.
\<close>

type_synonym reliability_type_e = byte
type_synonym service_info = "u16 \<times> u16"

abbreviation (input) RT_RELIABLE :: reliability_type_e where "RT_RELIABLE \<equiv> 0x01"
abbreviation (input) RT_UNRELIABLE :: reliability_type_e where "RT_UNRELIABLE \<equiv> 0x02"
abbreviation (input) RT_BOTH :: reliability_type_e where "RT_BOTH \<equiv> 0x03"
abbreviation (input) RT_UNKNOWN :: reliability_type_e where "RT_UNKNOWN \<equiv> 0xFF"
abbreviation (input) ANY_PORT :: u16 where "ANY_PORT \<equiv> 0"
abbreviation (input) ILLEGAL_PORT :: u16 where "ILLEGAL_PORT \<equiv> 0xFFFF"

type_synonym offer_infos = "(service_info \<times> bool) list"
type_synonym offer_ports = "((bool \<times> u16) \<times> offer_infos) list"

record 'a remote_offers =
  remote_offer_types :: "(service_info \<times> reliability_type_e) list"
  remote_offers_by_ip :: "('a \<times> offer_ports) list"

definition remote_offers_new :: "'a remote_offers" where
  "remote_offers_new = \<lparr>remote_offer_types = [], remote_offers_by_ip = []\<rparr>"

definition get_remote_offer_type :: "service_info \<Rightarrow> 'a remote_offers \<Rightarrow> reliability_type_e" where
  "get_remote_offer_type si r = (case map_of (remote_offer_types r) si of Some t \<Rightarrow> t | None \<Rightarrow> RT_UNKNOWN)"

text \<open>\<open>get_remote_offer_type\<close> of a subscription: by the endpoints it has.\<close>

definition get_subscription_offer_type :: "bool \<Rightarrow> bool \<Rightarrow> reliability_type_e" where
  "get_subscription_offer_type has_reliable has_unreliable =
     (if has_reliable then if has_unreliable then RT_BOTH else RT_RELIABLE
      else if has_unreliable then RT_UNRELIABLE else RT_UNKNOWN)"

text \<open>\<open>remote_offers_by_ip_[address][(reliable, port)].insert(info)\<close>: an entry that exists keeps its flag.\<close>

definition ports_of :: "'a \<Rightarrow> ('a \<times> offer_ports) list \<Rightarrow> offer_ports" where
  "ports_of a ips = (case map_of ips a of Some ps \<Rightarrow> ps | None \<Rightarrow> [])"

definition infos_of :: "bool \<times> u16 \<Rightarrow> offer_ports \<Rightarrow> offer_infos" where
  "infos_of p ps = (case map_of ps p of Some is \<Rightarrow> is | None \<Rightarrow> [])"

definition insert_info :: "service_info \<Rightarrow> bool \<Rightarrow> offer_infos \<Rightarrow> offer_infos" where
  "insert_info si mc is = (if map_of is si \<noteq> None then is else (si, mc) # is)"

definition insert_offer :: "'a \<Rightarrow> bool \<times> u16 \<Rightarrow> service_info \<Rightarrow> bool \<Rightarrow> ('a \<times> offer_ports) list \<Rightarrow> ('a \<times> offer_ports) list" where
  "insert_offer a p si mc ips = AList.update a (AList.update p (insert_info si mc (infos_of p (ports_of a ips))) (ports_of a ips)) ips"

definition update_remote_offer_type ::
  "service_info \<Rightarrow> reliability_type_e \<Rightarrow> 'a \<Rightarrow> u16 \<Rightarrow> 'a \<Rightarrow> u16 \<Rightarrow> bool \<Rightarrow> 'a remote_offers \<Rightarrow> bool \<times> 'a remote_offers" where
  "update_remote_offer_type si offer_type reliable_address reliable_port unreliable_address unreliable_port mc r =
     (let ret = (case map_of (remote_offer_types r) si of Some t \<Rightarrow> t \<noteq> offer_type | None \<Rightarrow> False);
          types = AList.update si offer_type (remote_offer_types r);
          ips = remote_offers_by_ip r;
          ips = (if offer_type = RT_UNRELIABLE then insert_offer unreliable_address (False, unreliable_port) si mc ips
                 else if offer_type = RT_RELIABLE then insert_offer reliable_address (True, reliable_port) si mc ips
                 else if offer_type = RT_BOTH then
                   insert_offer unreliable_address (True, reliable_port) si mc
                     (insert_offer unreliable_address (False, unreliable_port) si mc ips)
                 else ips)
      in (ret, \<lparr>remote_offer_types = types, remote_offers_by_ip = ips\<rparr>))"

text \<open>The lambda \<open>delete_from_remote_offers_by_ip\<close>: maps that become empty are removed.\<close>

definition delete_from_remote_offers_by_ip :: "'a \<Rightarrow> bool \<times> u16 \<Rightarrow> service_info \<Rightarrow> ('a \<times> offer_ports) list \<Rightarrow> ('a \<times> offer_ports) list" where
  "delete_from_remote_offers_by_ip a p si ips =
     (case map_of ips a of None \<Rightarrow> ips
      | Some ps \<Rightarrow> (case map_of ps p of None \<Rightarrow> ips
         | Some is \<Rightarrow>
             if map_of is si = None then ips
             else let is = AList.delete si is in
               if is \<noteq> [] then AList.update a (AList.update p is ps) ips
               else let ps = AList.delete p ps in
                 if ps \<noteq> [] then AList.update a ps ips else AList.delete a ips))"

definition remove_remote_offer_type :: "service_info \<Rightarrow> 'a \<Rightarrow> u16 \<Rightarrow> 'a \<Rightarrow> u16 \<Rightarrow> 'a remote_offers \<Rightarrow> 'a remote_offers" where
  "remove_remote_offer_type si reliable_address reliable_port unreliable_address unreliable_port r =
     (let ips = remote_offers_by_ip r;
          ips = (if reliable_port \<noteq> ILLEGAL_PORT then delete_from_remote_offers_by_ip reliable_address (True, reliable_port) si ips else ips);
          ips = (if unreliable_port \<noteq> ILLEGAL_PORT then delete_from_remote_offers_by_ip unreliable_address (False, unreliable_port) si ips else ips)
      in \<lparr>remote_offer_types = AList.delete si (remote_offer_types r), remote_offers_by_ip = ips\<rparr>)"

definition erase_types :: "offer_infos \<Rightarrow> (service_info \<times> reliability_type_e) list \<Rightarrow> (service_info \<times> reliability_type_e) list" where
  "erase_types is types = fold (\<lambda>(si, _). AList.delete si) is types"

definition remove_remote_offer_type_by_ip :: "'a \<Rightarrow> u16 \<Rightarrow> bool \<Rightarrow> 'a remote_offers \<Rightarrow> 'a remote_offers" where
  "remove_remote_offer_type_by_ip a port reliable r =
     (case map_of (remote_offers_by_ip r) a of
        None \<Rightarrow> r
      | Some ps \<Rightarrow>
          if port = ANY_PORT then
            \<lparr>remote_offer_types = fold (\<lambda>(_, is). erase_types is) ps (remote_offer_types r),
             remote_offers_by_ip = AList.delete a (remote_offers_by_ip r)\<rparr>
          else (case map_of ps (reliable, port) of
              None \<Rightarrow> r
            | Some is \<Rightarrow>
                let ps = AList.delete (reliable, port) ps in
                \<lparr>remote_offer_types = erase_types is (remote_offer_types r),
                 remote_offers_by_ip = (if ps = [] then AList.delete a (remote_offers_by_ip r)
                                        else AList.update a ps (remote_offers_by_ip r))\<rparr>))"

text \<open>\<open>set_offer_multicast_state\<close>: the lambda \<open>check_offer_info\<close>, and the whole.\<close>

definition check_offer_info :: "bool \<Rightarrow> 'a \<Rightarrow> bool \<times> u16 \<Rightarrow> service_info \<Rightarrow> bool \<times> ('a \<times> offer_ports) list \<Rightarrow> bool \<times> ('a \<times> offer_ports) list" where
  "check_offer_info mc a p si w =
     (let (was_unicast, ips) = w in
      case map_of ips a of None \<Rightarrow> w
      | Some ps \<Rightarrow> (case map_of ps p of None \<Rightarrow> w
         | Some is \<Rightarrow> (case map_of is si of
               Some False \<Rightarrow> (True, AList.update a (AList.update p (AList.update si mc is) ps) ips)
             | _ \<Rightarrow> w)))"

definition set_offer_multicast_state ::
  "service_info \<Rightarrow> reliability_type_e \<Rightarrow> 'a \<Rightarrow> u16 \<Rightarrow> 'a \<Rightarrow> u16 \<Rightarrow> bool \<Rightarrow> 'a remote_offers \<Rightarrow> bool \<times> 'a remote_offers" where
  "set_offer_multicast_state si offer_type reliable_address reliable_port unreliable_address unreliable_port mc r =
     (let w = (False, remote_offers_by_ip r);
          (was_unicast, ips) =
            (if offer_type = RT_UNRELIABLE then check_offer_info mc unreliable_address (False, unreliable_port) si w
             else if offer_type = RT_RELIABLE then check_offer_info mc reliable_address (True, reliable_port) si w
             else if offer_type = RT_BOTH then
               check_offer_info mc reliable_address (True, reliable_port) si
                 (check_offer_info mc unreliable_address (False, unreliable_port) si w)
             else w)
      in (was_unicast, r\<lparr>remote_offers_by_ip := ips\<rparr>))"

section \<open>Well-formed tables\<close>

text \<open>Where a service is registered.\<close>

definition registered :: "('a \<times> offer_ports) list \<Rightarrow> 'a \<Rightarrow> bool \<times> u16 \<Rightarrow> service_info \<Rightarrow> bool" where
  "registered ips a p si \<longleftrightarrow> map_of (infos_of p (ports_of a ips)) si \<noteq> None"

abbreviation ips_ok :: "('a \<times> offer_ports) list \<Rightarrow> bool" where
  "ips_ok \<equiv> table (table1 (table1 (\<lambda>_. True)))"

definition known_type :: "reliability_type_e \<Rightarrow> bool" where
  "known_type t \<longleftrightarrow> t \<in> {RT_RELIABLE, RT_UNRELIABLE, RT_BOTH}"

definition offers_ok :: "'a remote_offers \<Rightarrow> bool" where
  "offers_ok r \<longleftrightarrow> table (\<lambda>_. True) (remote_offer_types r) \<and> ips_ok (remote_offers_by_ip r)
     \<and> (\<forall>si. known_type (get_remote_offer_type si r) \<longrightarrow>
           (\<exists>a p. registered (remote_offers_by_ip r) a p si))"

lemma ports_of_ok: "ips_ok ips \<Longrightarrow> table (table1 (\<lambda>_. True)) (ports_of a ips)"
  by (auto simp: ports_of_def split: option.splits dest: table_lookup)

lemma infos_of_ok: "table (table1 (\<lambda>_. True)) ps \<Longrightarrow> table (\<lambda>_. True) (infos_of p ps)"
  by (auto simp: infos_of_def split: option.splits dest: table_lookup)

lemma insert_offer_ok:
  assumes "ips_ok ips"
  shows "ips_ok (insert_offer a p si mc ips)"
proof -
  have "table (\<lambda>_. True) (infos_of p (ports_of a ips))"
    using assms by (intro infos_of_ok ports_of_ok)
  then have "table1 (\<lambda>_. True) (insert_info si mc (infos_of p (ports_of a ips)))"
    by (auto simp: insert_info_def table1_def intro: table_Cons)
  with assms show ?thesis
    unfolding insert_offer_def by (intro table_update table1_update ports_of_ok)
qed

lemma infos_of_update: "infos_of q (AList.update p ifs ps) = (if q = p then ifs else infos_of q ps)"
  by (simp add: infos_of_def alist_simps)

lemma infos_of_delete: "infos_of q (AList.delete p ps) = (if q = p then [] else infos_of q ps)"
  by (simp add: infos_of_def alist_simps)

lemma ports_of_update: "ports_of b (AList.update a ps ips) = (if b = a then ps else ports_of b ips)"
  by (simp add: ports_of_def alist_simps)

lemma ports_of_delete: "ports_of b (AList.delete a ips) = (if b = a then [] else ports_of b ips)"
  by (simp add: ports_of_def alist_simps)

lemma infos_of_Nil [simp]: "infos_of p [] = []"
  by (simp add: infos_of_def)

lemmas offer_simps = infos_of_update infos_of_delete ports_of_update ports_of_delete

lemma registered_insert:
  "registered (insert_offer a p si mc ips) b q sj \<longleftrightarrow> (b, q, sj) = (a, p, si) \<or> registered ips b q sj"
  by (cases "b = a"; cases "q = p") (auto simp: insert_offer_def offer_simps insert_info_def registered_def)

lemma delete_offer_ok:
  assumes "ips_ok ips"
  shows "ips_ok (delete_from_remote_offers_by_ip a p si ips)"
proof (cases "registered ips a p si")
  case True
  then obtain ps ifs where l: "map_of ips a = Some ps" "map_of ps p = Some ifs"
    by (auto simp: registered_def ports_of_def infos_of_def split: option.splits)
  then have t: "table1 (table1 (\<lambda>_. True)) ps" "table1 (\<lambda>_. True) ifs"
    using assms by (auto dest: table_lookup)
  with assms l show ?thesis
    by (auto simp: delete_from_remote_offers_by_ip_def Let_def intro!: table_update table1_update table1_delete table_delete)
next
  case False
  then have "delete_from_remote_offers_by_ip a p si ips = ips"
    by (auto simp: delete_from_remote_offers_by_ip_def registered_def ports_of_def infos_of_def split: option.splits)
  with assms show ?thesis by simp
qed

lemma delete_offer_infos:
  "infos_of q (ports_of b (delete_from_remote_offers_by_ip a p si ips)) =
     (if b = a \<and> q = p then AList.delete si (infos_of p (ports_of a ips)) else infos_of q (ports_of b ips))"
proof (cases "registered ips a p si")
  case True
  then obtain ps ifs where l: "map_of ips a = Some ps" "map_of ps p = Some ifs" "map_of ifs si \<noteq> None"
    by (auto simp: registered_def ports_of_def infos_of_def split: option.splits)
  then have at: "ports_of a ips = ps" "infos_of p ps = ifs" by (simp_all add: ports_of_def infos_of_def)
  have "infos_of q ps = []" if "AList.delete p ps = []" "q \<noteq> p"
    using delete_Nil_map_of [OF that] by (simp add: infos_of_def)
  then show ?thesis
    using l at by (auto simp: delete_from_remote_offers_by_ip_def Let_def offer_simps)
next
  case False
  then have "delete_from_remote_offers_by_ip a p si ips = ips"
    by (auto simp: delete_from_remote_offers_by_ip_def registered_def ports_of_def infos_of_def split: option.splits)
  moreover have "AList.delete si (infos_of p (ports_of a ips)) = infos_of p (ports_of a ips)"
    using False by (intro delete_id) (auto simp: registered_def map_of_eq_None_iff)
  ultimately show ?thesis by simp
qed

lemma registered_delete:
  "sj \<noteq> si \<Longrightarrow> registered (delete_from_remote_offers_by_ip a p si ips) b q sj \<longleftrightarrow> registered ips b q sj"
  by (simp add: registered_def delete_offer_infos alist_simps)

lemma map_of_erase_types: "map_of (erase_types ifs types) si = (if map_of ifs si \<noteq> None then None else map_of types si)"
proof (induction ifs arbitrary: types)
  case (Cons x ifs)
  obtain sj b where "x = (sj, b)" by fastforce
  then show ?case using Cons by (auto simp: erase_types_def alist_simps)
qed (simp add: erase_types_def)

lemma table_erase_types: "table P types \<Longrightarrow> table P (erase_types ifs types)"
proof (induction ifs arbitrary: types)
  case (Cons x ifs)
  have "table P (AList.delete k types)" for k using Cons.prems by auto
  with Cons.IH show ?case by (simp add: erase_types_def split: prod.splits)
qed (simp add: erase_types_def)

lemma map_of_erase_ports:
  "map_of (fold (\<lambda>(_, ifs). erase_types ifs) ps types) si =
     (if list_ex (\<lambda>(_, ifs). map_of ifs si \<noteq> None) ps then None else map_of types si)"
  by (induction ps arbitrary: types) (auto simp: map_of_erase_types split: prod.splits)

lemma table_erase_ports: "table P types \<Longrightarrow> table P (fold (\<lambda>(_, ifs). erase_types ifs) ps types)"
  by (induction ps arbitrary: types) (auto intro: table_erase_types)

lemma list_ex_ports:
  assumes "table P ps"
  shows "list_ex (\<lambda>(_, ifs). map_of ifs si \<noteq> None) ps \<longleftrightarrow> (\<exists>p. map_of (infos_of p ps) si \<noteq> None)"
proof -
  have "(p, ifs) \<in> set ps \<longleftrightarrow> map_of ps p = Some ifs" for p ifs
    using assms by (simp add: table_def)
  then show ?thesis by (fastforce simp: list_ex_iff infos_of_def split: option.splits)
qed

lemma check_offer_info_ok:
  assumes "ips_ok ips" "check_offer_info mc a p si (w, ips) = (w', ips')"
  shows "ips_ok ips' \<and> (\<forall>b q sj. registered ips' b q sj = registered ips b q sj)"
proof (cases "\<exists>ps ifs. map_of ips a = Some ps \<and> map_of ps p = Some ifs \<and> map_of ifs si = Some False")
  case True
  then obtain ps ifs where l: "map_of ips a = Some ps" "map_of ps p = Some ifs" "map_of ifs si = Some False" by blast
  then have t: "table1 (table1 (\<lambda>_. True)) ps" "table1 (\<lambda>_. True) ifs"
    using assms(1) by (auto dest: table_lookup)
  have i: "ips' = AList.update a (AList.update p (AList.update si mc ifs) ps) ips"
    using assms(2) l by (simp add: check_offer_info_def)
  have "registered ips' b q sj = registered ips b q sj" for b q sj
    using l by (cases "b = a"; cases "q = p"; cases "sj = si") (simp_all add: i registered_def offer_simps, auto simp: ports_of_def infos_of_def alist_simps)
  moreover have "ips_ok ips'" using assms(1) t by (auto simp: i intro!: table_update table1_update)
  ultimately show ?thesis by blast
next
  case False
  then have "ips' = ips"
    using assms(2) by (auto simp: check_offer_info_def split: option.splits bool.splits)
  with assms(1) show ?thesis by simp
qed

text \<open>The operations on the tables, and sequences of them.\<close>

datatype 'a offer_op =
    Update service_info reliability_type_e 'a u16 'a u16 bool
  | Remove service_info 'a u16 'a u16
  | Remove_by_ip 'a u16 bool
  | Set_multicast service_info reliability_type_e 'a u16 'a u16 bool

fun apply_offer :: "'a offer_op \<Rightarrow> 'a remote_offers \<Rightarrow> 'a remote_offers" where
  "apply_offer (Update si t ra rp ua up mc) r = snd (update_remote_offer_type si t ra rp ua up mc r)"
| "apply_offer (Remove si ra rp ua up) r = remove_remote_offer_type si ra rp ua up r"
| "apply_offer (Remove_by_ip a port rel) r = remove_remote_offer_type_by_ip a port rel r"
| "apply_offer (Set_multicast si t ra rp ua up mc) r = snd (set_offer_multicast_state si t ra rp ua up mc r)"

lemma update_ok:
  assumes "offers_ok r"
  shows "offers_ok (apply_offer (Update si t ra rp ua up mc) r)"
  using assms
  by (auto simp: offers_ok_def update_remote_offer_type_def Let_def get_remote_offer_type_def alist_simps registered_insert known_type_def
      intro!: insert_offer_ok table_update split: if_splits)

lemma remove_ok:
  assumes "offers_ok r"
  shows "offers_ok (apply_offer (Remove si ra rp ua up) r)"
  using assms
  by (auto simp: offers_ok_def remove_remote_offer_type_def Let_def get_remote_offer_type_def alist_simps registered_delete known_type_def
      intro!: delete_offer_ok split: if_splits)

lemma offers_ok_erase:
  assumes "offers_ok r" "table (\<lambda>_. True) types" "ips_ok ips"
    and "\<And>si. map_of types si = (if gone si then None else map_of (remote_offer_types r) si)"
    and "\<And>b q si. registered (remote_offers_by_ip r) b q si \<Longrightarrow> \<not> gone si \<Longrightarrow> registered ips b q si"
  shows "offers_ok \<lparr>remote_offer_types = types, remote_offers_by_ip = ips\<rparr>"
proof -
  have "\<exists>b q. registered ips b q si" if t: "known_type (case map_of types si of Some t \<Rightarrow> t | None \<Rightarrow> RT_UNKNOWN)" for si
  proof -
    from t have "\<not> gone si" by (auto simp: assms(4) known_type_def)
    with t have "known_type (get_remote_offer_type si r)" by (simp add: assms(4) get_remote_offer_type_def)
    with assms(1) obtain b q where "registered (remote_offers_by_ip r) b q si" unfolding offers_ok_def by blast
    with assms(5) \<open>\<not> gone si\<close> show ?thesis by blast
  qed
  with assms(2,3) show ?thesis by (simp add: offers_ok_def get_remote_offer_type_def)
qed

lemma remove_host_ok:
  assumes "offers_ok r" "map_of (remote_offers_by_ip r) a = Some ps"
  shows "offers_ok (remove_remote_offer_type_by_ip a ANY_PORT rel r)"
proof -
  have ok: "table (\<lambda>_. True) (remote_offer_types r)" "ips_ok (remote_offers_by_ip r)" using assms(1) by (auto simp: offers_ok_def)
  from table1_table [OF table_lookup [OF ok(2) assms(2)]] have ps: "table (table1 (\<lambda>_. True)) ps" .
  have a: "ports_of a (remote_offers_by_ip r) = ps" using assms(2) by (simp add: ports_of_def)
  let ?gone = "\<lambda>si. \<exists>p. map_of (infos_of p ps) si \<noteq> None"
  let ?types = "fold (\<lambda>(_, ifs). erase_types ifs) ps (remote_offer_types r)"
  have "offers_ok \<lparr>remote_offer_types = ?types, remote_offers_by_ip = AList.delete a (remote_offers_by_ip r)\<rparr>"
  proof (rule offers_ok_erase [OF assms(1), where gone = ?gone])
    show "ips_ok (AList.delete a (remote_offers_by_ip r))" using ok(2) by (rule table_delete)
    show "table (\<lambda>_. True) ?types" using ok(1) by (rule table_erase_ports)
    show "map_of ?types si = (if ?gone si then None else map_of (remote_offer_types r) si)" for si
      by (simp only: map_of_erase_ports list_ex_ports [OF ps])
    show "registered (AList.delete a (remote_offers_by_ip r)) b q si"
      if "registered (remote_offers_by_ip r) b q si" "\<not> ?gone si" for b q si
    proof -
      have "b \<noteq> a" using that a unfolding registered_def by blast
      with that(1) show ?thesis by (simp add: registered_def offer_simps)
    qed
  qed
  then show ?thesis using assms(2) by (simp add: remove_remote_offer_type_by_ip_def)
qed

lemma remove_port_ok:
  assumes "offers_ok r" "map_of (remote_offers_by_ip r) a = Some ps" "map_of ps (rel, port) = Some ifs" "port \<noteq> ANY_PORT"
  shows "offers_ok (remove_remote_offer_type_by_ip a port rel r)"
proof -
  have ok: "table (\<lambda>_. True) (remote_offer_types r)" "ips_ok (remote_offers_by_ip r)" using assms(1) by (auto simp: offers_ok_def)
  from table1_table [OF table_lookup [OF ok(2) assms(2)]] have ps: "table (table1 (\<lambda>_. True)) ps" .
  let ?ps = "AList.delete (rel, port) ps"
  let ?ips = "if ?ps = [] then AList.delete a (remote_offers_by_ip r) else AList.update a ?ps (remote_offers_by_ip r)"
  have "registered ?ips b q si" if "registered (remote_offers_by_ip r) b q si" "\<not> map_of ifs si \<noteq> None" for b q si
  proof (cases "b = a")
    case True
    have "ports_of a (remote_offers_by_ip r) = ps" "infos_of (rel, port) ps = ifs"
      using assms(2,3) by (simp_all add: ports_of_def infos_of_def)
    then have "q \<noteq> (rel, port)" "map_of (infos_of q ps) si \<noteq> None"
      using that True by (auto simp: registered_def)
    then show ?thesis using True delete_Nil_map_of [of "(rel, port)" ps q] by (auto simp: registered_def offer_simps infos_of_def)
  qed (use that in \<open>simp add: registered_def offer_simps\<close>)
  moreover have "ips_ok ?ips" using ok(2) ps by auto
  ultimately have "offers_ok \<lparr>remote_offer_types = erase_types ifs (remote_offer_types r), remote_offers_by_ip = ?ips\<rparr>"
    using ok(1) by (intro offers_ok_erase [OF assms(1), where gone = "\<lambda>si. map_of ifs si \<noteq> None"] table_erase_types) (auto simp: map_of_erase_types)
  then show ?thesis using assms(2-4) by (simp add: remove_remote_offer_type_by_ip_def Let_def)
qed

lemma remove_by_ip_ok:
  assumes "offers_ok r"
  shows "offers_ok (apply_offer (Remove_by_ip a port rel) r)"
proof (cases "map_of (remote_offers_by_ip r) a")
  case None
  with assms show ?thesis by (simp add: remove_remote_offer_type_by_ip_def)
next
  case (Some ps)
  note a = Some
  show ?thesis
  proof (cases "port = ANY_PORT")
    case True
    then show ?thesis using remove_host_ok [OF assms a] by simp
  next
    case False
    then show ?thesis
      using assms a remove_port_ok [OF assms a] by (cases "map_of ps (rel, port)") (auto simp: remove_remote_offer_type_by_ip_def)
  qed
qed

lemma set_multicast_ok:
  assumes "offers_ok r"
  shows "offers_ok (apply_offer (Set_multicast si t ra rp ua up mc) r)"
proof -
  have ips: "ips_ok (remote_offers_by_ip r)" using assms by (simp add: offers_ok_def)
  obtain w1 i1 where c1: "check_offer_info mc ua (False, up) si (False, remote_offers_by_ip r) = (w1, i1)" by fastforce
  obtain w2 i2 where c2: "check_offer_info mc ra (True, rp) si (False, remote_offers_by_ip r) = (w2, i2)" by fastforce
  obtain w3 i3 where c3: "check_offer_info mc ra (True, rp) si (w1, i1) = (w3, i3)" by fastforce
  note k1 = check_offer_info_ok [OF ips c1] and k2 = check_offer_info_ok [OF ips c2]
  note k3 = check_offer_info_ok [OF conjunct1 [OF k1] c3]
  show ?thesis
    using assms k1 k2 k3 by (auto simp: offers_ok_def set_offer_multicast_state_def Let_def c1 c2 c3 get_remote_offer_type_def)
qed

lemma apply_offer_ok: "offers_ok r \<Longrightarrow> offers_ok (apply_offer op r)"
  by (cases op) (blast intro: update_ok remove_ok remove_by_ip_ok set_multicast_ok)+

text \<open>
  C12. Well-formedness of the remote offers: after any sequence of offers, stop offers, reboots and multicast
  notes, the keys of every map are unique, no inner map is left empty, and every service whose
  transport is known is registered under some address and port.
\<close>

theorem remote_offers_ok: "offers_ok (fold apply_offer ops remote_offers_new)"
proof -
  have "offers_ok r \<Longrightarrow> offers_ok (fold apply_offer ops r)" for r
    by (induction ops arbitrary: r) (auto intro: apply_offer_ok)
  then show ?thesis by (simp add: offers_ok_def remote_offers_new_def get_remote_offer_type_def known_type_def)
qed

text \<open>
  The registration under an old address stays: when a service has moved from one host to another and the old
  host reboots, its transport is forgotten although the new host offers it. An offer over both
  transports registers the reliable one under the unreliable address, so \<open>remove_remote_offer_type\<close> leaves it behind.
\<close>

lemma moved_offer_forgotten:
  "get_remote_offer_type (1, 2) (fold apply_offer
     [Update (1, 2) RT_UNRELIABLE 0 0 (10 :: nat) 30509 True, Update (1, 2) RT_UNRELIABLE 0 0 20 30509 True, Remove_by_ip 10 ANY_PORT False]
     remote_offers_new) = RT_UNKNOWN
   \<and> registered (remote_offers_by_ip (fold apply_offer
     [Update (1, 2) RT_UNRELIABLE 0 0 (10 :: nat) 30509 True, Update (1, 2) RT_UNRELIABLE 0 0 20 30509 True, Remove_by_ip 10 ANY_PORT False]
     remote_offers_new)) 20 (False, 30509) (1, 2)"
  by code_simp

lemma reliable_offer_left_behind:
  "registered (remote_offers_by_ip (fold apply_offer
     [Update (1, 2) RT_BOTH (10 :: nat) 30501 20 30509 True, Remove (1, 2) 10 30501 20 30509] remote_offers_new)) 20 (True, 30501) (1, 2)"
  by code_simp

end
