(* ===== verification/Command.thy ===== *)
theory Command
  imports Bithelper
begin

text \<open>
  The header of the commands that vSomeIP applications and the routing host exchange
  over local sockets (\<open>protocol/src/command.cpp\<close>, \<open>protocol/include/protocol.hpp\<close>).

  A command class is a record that extends \<open>command\<close>, as the C++ classes derive from it.
  Integers are copied with \<open>memcpy\<close>, so every operation takes the byte order \<open>e\<close> of the
  host. A serializer maps the vector it is given to the vector it leaves, the command (whose
  \<open>size_\<close> is mutable) and the error code; a deserializer maps the vector and the command
  object to the updated object and the error code. The outer \<^typ>\<open>'a option\<close> is \<^term>\<open>None\<close> for
  an access outside the vector.
\<close>

section \<open>Objects in memory\<close>

text \<open>\<open>std::memcpy\<close> between a word and a position of a vector.\<close>

definition load :: "endianess_e \<Rightarrow> bytes \<Rightarrow> nat \<Rightarrow> 'a::len word option" where
  "load e buf i = map_option (of_mem e) (mem_sub buf i (LENGTH('a) div 8))"

definition store :: "endianess_e \<Rightarrow> bytes \<Rightarrow> nat \<Rightarrow> 'a::len word \<Rightarrow> bytes option" where
  "store e buf i w = mem_write buf i (mem_of e w)"

text \<open>Rules that run loads and stores over a vector given as a concatenation.\<close>
named_theorems wire_simps

lemma mem_write_later [wire_simps]:
  "length p \<le> i \<Longrightarrow> mem_write (p @ q) i bs = map_option ((@) p) (mem_write q (i - length p) bs)"
  by (auto simp: mem_write_def)

lemma mem_write_front [wire_simps]:
  "length bs \<le> length q \<Longrightarrow> mem_write q 0 bs = Some (bs @ drop (length bs) q)"
  by simp

lemma mem_sub_later [wire_simps]:
  "length p \<le> i \<Longrightarrow> mem_sub (p @ q) i n = mem_sub q (i - length p) n"
  by (auto simp: mem_sub_def)

lemma mem_sub_front: "length p = n \<Longrightarrow> mem_sub (p @ q) 0 n = Some p"
  by (simp add: mem_sub_def)

lemma mem_at_later [wire_simps]: "length p \<le> i \<Longrightarrow> mem_at (p @ q) i = mem_at q (i - length p)"
  by (auto simp: mem_at_def nth_append)

lemma mem_at_front [wire_simps]: "mem_at (x # q) 0 = Some x"
  by simp

lemma store_later [wire_simps]:
  "length p \<le> i \<Longrightarrow> store e (p @ q) i w = map_option ((@) p) (store e q (i - length p) w)"
  by (simp add: store_def mem_write_later)

lemma store_front [wire_simps]:
  "LENGTH('a) div 8 \<le> length q \<Longrightarrow> store e q 0 (w :: 'a::len word) = Some (mem_of e w @ drop (LENGTH('a) div 8) q)"
  by (simp add: store_def)

lemma mem_put_later [wire_simps]:
  "length p \<le> i \<Longrightarrow> mem_put (p @ q) i v = map_option ((@) p) (mem_put q (i - length p) v)"
  by (simp add: mem_put_write mem_write_later)

lemma mem_put_front [wire_simps]: "Suc 0 \<le> length q \<Longrightarrow> mem_put q 0 v = Some (v # drop 1 q)"
  by (cases q) (simp_all add: mem_put_def)

lemma load_later [wire_simps]: "length p \<le> i \<Longrightarrow> load e (p @ q) i = load e q (i - length p)"
  by (simp add: load_def mem_sub_later)

lemma load_front [wire_simps]:
  "8 * (LENGTH('a) div 8) = LENGTH('a) \<Longrightarrow> load e (mem_of e w @ q) 0 = Some (w :: 'a::len word)"
  by (simp add: load_def mem_sub_front)

lemma load_last [wire_simps]:
  "8 * (LENGTH('a) div 8) = LENGTH('a) \<Longrightarrow> load e (mem_of e w) 0 = Some (w :: 'a::len word)"
  using load_front [of e w "[]"] by simp

lemma load_Some [simp]:
  "i + LENGTH('a) div 8 \<le> length buf \<Longrightarrow>
     load e buf i = Some (of_mem e (take (LENGTH('a) div 8) (drop i buf)) :: 'a::len word)"
  by (simp add: load_def)

lemma load_eq_None: "load e buf i = (None :: 'a::len word option) \<longleftrightarrow> length buf < i + LENGTH('a) div 8"
  by (simp add: load_def mem_sub_eq_None)

lemma unat_u32_of_nat: "n \<le> 4294967295 \<Longrightarrow> unat (of_nat n :: u32) = n"
  by (simp add: unat_of_nat take_bit_nat_eq_self)

section \<open>Identifiers, error codes and sizes\<close>

text \<open>An \<open>id_e\<close> is any byte: \<open>static_cast\<close> from the wire does not check it.\<close>

type_synonym id_e = byte

abbreviation ASSIGN_CLIENT_ID :: id_e where "ASSIGN_CLIENT_ID \<equiv> 0x00"
abbreviation ASSIGN_CLIENT_ACK_ID :: id_e where "ASSIGN_CLIENT_ACK_ID \<equiv> 0x01"
abbreviation REGISTER_APPLICATION_ID :: id_e where "REGISTER_APPLICATION_ID \<equiv> 0x02"
abbreviation DEREGISTER_APPLICATION_ID :: id_e where "DEREGISTER_APPLICATION_ID \<equiv> 0x03"
abbreviation ROUTING_INFO_ID :: id_e where "ROUTING_INFO_ID \<equiv> 0x05"
abbreviation REGISTERED_ACK_ID :: id_e where "REGISTERED_ACK_ID \<equiv> 0x06"
abbreviation PING_ID :: id_e where "PING_ID \<equiv> 0x07"
abbreviation PONG_ID :: id_e where "PONG_ID \<equiv> 0x08"
abbreviation OFFER_SERVICE_ID :: id_e where "OFFER_SERVICE_ID \<equiv> 0x10"
abbreviation STOP_OFFER_SERVICE_ID :: id_e where "STOP_OFFER_SERVICE_ID \<equiv> 0x11"
abbreviation SUBSCRIBE_ID :: id_e where "SUBSCRIBE_ID \<equiv> 0x12"
abbreviation UNSUBSCRIBE_ID :: id_e where "UNSUBSCRIBE_ID \<equiv> 0x13"
abbreviation REQUEST_SERVICE_ID :: id_e where "REQUEST_SERVICE_ID \<equiv> 0x14"
abbreviation RELEASE_SERVICE_ID :: id_e where "RELEASE_SERVICE_ID \<equiv> 0x15"
abbreviation SUBSCRIBE_NACK_ID :: id_e where "SUBSCRIBE_NACK_ID \<equiv> 0x16"
abbreviation SUBSCRIBE_ACK_ID :: id_e where "SUBSCRIBE_ACK_ID \<equiv> 0x17"
abbreviation SEND_ID :: id_e where "SEND_ID \<equiv> 0x18"
abbreviation NOTIFY_ID :: id_e where "NOTIFY_ID \<equiv> 0x19"
abbreviation NOTIFY_ONE_ID :: id_e where "NOTIFY_ONE_ID \<equiv> 0x1A"
abbreviation REGISTER_EVENT_ID :: id_e where "REGISTER_EVENT_ID \<equiv> 0x1B"
abbreviation UNREGISTER_EVENT_ID :: id_e where "UNREGISTER_EVENT_ID \<equiv> 0x1C"
abbreviation OFFERED_SERVICES_REQUEST_ID :: id_e where "OFFERED_SERVICES_REQUEST_ID \<equiv> 0x1F"
abbreviation OFFERED_SERVICES_RESPONSE_ID :: id_e where "OFFERED_SERVICES_RESPONSE_ID \<equiv> 0x20"
abbreviation UNSUBSCRIBE_ACK_ID :: id_e where "UNSUBSCRIBE_ACK_ID \<equiv> 0x21"
abbreviation RESEND_PROVIDED_EVENTS_ID :: id_e where "RESEND_PROVIDED_EVENTS_ID \<equiv> 0x22"
abbreviation UPDATE_SECURITY_POLICY_ID :: id_e where "UPDATE_SECURITY_POLICY_ID \<equiv> 0x23"
abbreviation UPDATE_SECURITY_POLICY_RESPONSE_ID :: id_e where "UPDATE_SECURITY_POLICY_RESPONSE_ID \<equiv> 0x24"
abbreviation REMOVE_SECURITY_POLICY_ID :: id_e where "REMOVE_SECURITY_POLICY_ID \<equiv> 0x25"
abbreviation REMOVE_SECURITY_POLICY_RESPONSE_ID :: id_e where "REMOVE_SECURITY_POLICY_RESPONSE_ID \<equiv> 0x26"
abbreviation UPDATE_SECURITY_CREDENTIALS_ID :: id_e where "UPDATE_SECURITY_CREDENTIALS_ID \<equiv> 0x27"
abbreviation DISTRIBUTE_SECURITY_POLICIES_ID :: id_e where "DISTRIBUTE_SECURITY_POLICIES_ID \<equiv> 0x28"
abbreviation UPDATE_SECURITY_POLICY_INT_ID :: id_e where "UPDATE_SECURITY_POLICY_INT_ID \<equiv> 0x29"
abbreviation EXPIRE_ID :: id_e where "EXPIRE_ID \<equiv> 0x2A"
abbreviation SUSPEND_ID :: id_e where "SUSPEND_ID \<equiv> 0x30"
abbreviation CONFIG_ID :: id_e where "CONFIG_ID \<equiv> 0x31"
abbreviation UNKNOWN_ID :: id_e where "UNKNOWN_ID \<equiv> 0xFF"

datatype error_e =
    ERROR_OK
  | ERROR_NOT_ENOUGH_BYTES
  | ERROR_MAX_COMMAND_SIZE_EXCEEDED
  | ERROR_MISMATCH
  | ERROR_MALFORMED
  | ERROR_NOT_ALLOWED
  | ERROR_UNKNOWN

abbreviation COMMAND_HEADER_SIZE :: nat where "COMMAND_HEADER_SIZE \<equiv> 9"
abbreviation COMMAND_POSITION_VERSION :: nat where "COMMAND_POSITION_VERSION \<equiv> 1"
abbreviation COMMAND_POSITION_CLIENT :: nat where "COMMAND_POSITION_CLIENT \<equiv> 3"
abbreviation COMMAND_POSITION_SIZE :: nat where "COMMAND_POSITION_SIZE \<equiv> 5"
abbreviation COMMAND_POSITION_PAYLOAD :: nat where "COMMAND_POSITION_PAYLOAD \<equiv> 9"

text \<open>\<open>std::numeric_limits<command_size_t>::max()\<close>.\<close>

abbreviation MAX_COMMAND_SIZE :: nat where "MAX_COMMAND_SIZE \<equiv> 4294967295"

definition get_command :: "byte \<Rightarrow> id_e" where
  "get_command b = (if b \<le> SUSPEND_ID then b else UNKNOWN_ID)"

section \<open>The command base class\<close>

record command =
  cmd_id :: id_e
  cmd_version :: u16
  cmd_client :: u16
  cmd_size :: u32

definition command_new :: "id_e \<Rightarrow> 'a \<Rightarrow> 'a command_scheme" where
  "command_new i d = \<lparr> cmd_id = i, cmd_version = 0, cmd_client = 0, cmd_size = 0, \<dots> = d \<rparr>"

definition command_serialize :: "endianess_e \<Rightarrow> 'a command_scheme \<Rightarrow> bytes \<Rightarrow> (bytes \<times> error_e) option" where
  "command_serialize e c buf = do {
     buf \<leftarrow> mem_put buf 0 (cmd_id c);
     buf \<leftarrow> store e buf COMMAND_POSITION_VERSION (cmd_version c);
     buf \<leftarrow> store e buf COMMAND_POSITION_CLIENT (cmd_client c);
     buf \<leftarrow> store e buf COMMAND_POSITION_SIZE (cmd_size c);
     Some (buf, ERROR_OK)
   }"

definition command_deserialize ::
  "endianess_e \<Rightarrow> bytes \<Rightarrow> 'a command_scheme \<Rightarrow> ('a command_scheme \<times> error_e) option" where
  "command_deserialize e buf c = do {
     b \<leftarrow> mem_at buf 0;
     if cmd_id c \<noteq> UNKNOWN_ID \<and> b \<noteq> cmd_id c then Some (c, ERROR_MISMATCH)
     else do {
       let c = (if cmd_id c = UNKNOWN_ID then c\<lparr>cmd_id := b\<rparr> else c);
       v \<leftarrow> load e buf COMMAND_POSITION_VERSION;
       cl \<leftarrow> load e buf COMMAND_POSITION_CLIENT;
       sz \<leftarrow> load e buf COMMAND_POSITION_SIZE;
       Some (c\<lparr>cmd_version := v, cmd_client := cl, cmd_size := sz\<rparr>, ERROR_OK)
     }
   }"

text \<open>
  The frame shared by the derived classes. A serializer checks the total size, resizes the
  vector, sets \<open>size_\<close> to the size of the payload, writes the header and then the payload
  (\<open>body\<close>). A deserializer checks that the vector holds \<open>n\<close> bytes, reads the header and
  then the payload.
\<close>

definition serialize_frame ::
  "endianess_e \<Rightarrow> 'a command_scheme \<Rightarrow> bytes \<Rightarrow> nat \<Rightarrow> (bytes \<Rightarrow> bytes option) \<Rightarrow>
     (bytes \<times> 'a command_scheme \<times> error_e) option" where
  "serialize_frame e c buf its_size body =
     (if its_size > MAX_COMMAND_SIZE then Some (buf, c, ERROR_MAX_COMMAND_SIZE_EXCEEDED)
      else do {
        let buf = vec_resize buf its_size 0;
        let c = c\<lparr>cmd_size := of_nat (its_size - COMMAND_HEADER_SIZE)\<rparr>;
        (buf, err) \<leftarrow> command_serialize e c buf;
        if err \<noteq> ERROR_OK then Some (buf, c, err)
        else do {
          buf \<leftarrow> body buf;
          Some (buf, c, err)
        }
      })"

definition deserialize_frame ::
  "endianess_e \<Rightarrow> bytes \<Rightarrow> 'a command_scheme \<Rightarrow> nat \<Rightarrow>
     ('a command_scheme \<Rightarrow> ('a command_scheme \<times> error_e) option) \<Rightarrow>
     ('a command_scheme \<times> error_e) option" where
  "deserialize_frame e buf c n body =
     (if length buf < n then Some (c, ERROR_NOT_ENOUGH_BYTES)
      else do {
        (c, err) \<leftarrow> command_deserialize e buf c;
        if err \<noteq> ERROR_OK then Some (c, err) else body c
      })"

section \<open>The bytes of a header\<close>

definition cmd_header :: "endianess_e \<Rightarrow> 'a command_scheme \<Rightarrow> bytes" where
  "cmd_header e c = cmd_id c # mem_of e (cmd_version c) @ mem_of e (cmd_client c) @ mem_of e (cmd_size c)"

lemma length_cmd_header [simp]: "length (cmd_header e c) = 9"
  by (simp add: cmd_header_def)

lemma cmd_header_nonempty [simp]: "cmd_header e c \<noteq> []"
  by (simp add: cmd_header_def)

lemma cmd_header_nth_0 [simp]: "cmd_header e c ! 0 = cmd_id c"
  by (simp add: cmd_header_def)

lemma mem_write_Cons [wire_simps]:
  "1 \<le> i \<Longrightarrow> mem_write (x # xs) i bs = map_option ((#) x) (mem_write xs (i - 1) bs)"
  using mem_write_later [of "[x]" i xs bs] by (cases "mem_write xs (i - 1) bs") simp_all

lemma mem_put_Cons [wire_simps]:
  "1 \<le> i \<Longrightarrow> mem_put (x # xs) i v = map_option ((#) x) (mem_put xs (i - 1) v)"
  by (simp add: mem_put_write mem_write_Cons)

lemma mem_sub_Cons [wire_simps]: "1 \<le> i \<Longrightarrow> mem_sub (x # xs) i n = mem_sub xs (i - 1) n"
  using mem_sub_later [of "[x]" i xs n] by simp

lemma mem_at_Cons [wire_simps]: "1 \<le> i \<Longrightarrow> mem_at (x # xs) i = mem_at xs (i - 1)"
  using mem_at_later [of "[x]" i xs] by simp

lemma store_Cons [wire_simps]:
  "1 \<le> i \<Longrightarrow> store e (x # xs) i w = map_option ((#) x) (store e xs (i - 1) w)"
  using store_later [of "[x]" i e xs w] by (cases "store e xs (i - 1) w") simp_all

lemma load_Cons [wire_simps]: "1 \<le> i \<Longrightarrow> load e (x # xs) i = load e xs (i - 1)"
  using load_later [of "[x]" i e xs] by simp

lemma command_serialize_bytes:
  "9 \<le> length buf \<Longrightarrow> command_serialize e c buf = Some (cmd_header e c @ drop 9 buf, ERROR_OK)"
  by (cases buf) (simp_all add: command_serialize_def cmd_header_def wire_simps)

lemma command_deserialize_bytes:
  "cmd_id c0 = cmd_id c \<or> cmd_id c0 = UNKNOWN_ID \<Longrightarrow>
     command_deserialize e (cmd_header e c @ rest) c0 =
     Some (c0\<lparr>cmd_id := cmd_id c, cmd_version := cmd_version c, cmd_client := cmd_client c,
       cmd_size := cmd_size c\<rparr>, ERROR_OK)"
  by (cases "cmd_id c0 = UNKNOWN_ID") (simp_all add: command_deserialize_def cmd_header_def wire_simps)

lemma command_deserialize_mismatch:
  "buf \<noteq> [] \<Longrightarrow> cmd_id c \<noteq> UNKNOWN_ID \<Longrightarrow> buf ! 0 \<noteq> cmd_id c \<Longrightarrow>
     command_deserialize e buf c = Some (c, ERROR_MISMATCH)"
  by (simp add: command_deserialize_def)

lemma command_deserialize_match:
  "9 \<le> length buf \<Longrightarrow> cmd_id c = UNKNOWN_ID \<or> buf ! 0 = cmd_id c \<Longrightarrow>
     command_deserialize e buf c = Some (c\<lparr>cmd_id := buf ! 0, cmd_version := of_mem e (take 2 (drop 1 buf)),
       cmd_client := of_mem e (take 2 (drop 3 buf)), cmd_size := of_mem e (take 4 (drop 5 buf))\<rparr>, ERROR_OK)"
  by (cases "buf = []") (auto simp: command_deserialize_def Let_def)

lemma command_deserialize_cases:
  assumes "9 \<le> length buf"
  obtains (match) c' where "command_deserialize e buf c = Some (c', ERROR_OK)" "cmd_id c' = buf ! 0"
      "command.more c' = command.more c"
  | (mismatch) "command_deserialize e buf c = Some (c, ERROR_MISMATCH)" "cmd_id c \<noteq> UNKNOWN_ID" "buf ! 0 \<noteq> cmd_id c"
proof (cases "cmd_id c \<noteq> UNKNOWN_ID \<and> buf ! 0 \<noteq> cmd_id c")
  case True
  then show ?thesis using command_deserialize_mismatch mismatch assms by (metis list.size(3) not_numeral_le_zero)
next
  case False
  then show ?thesis using match [OF command_deserialize_match [OF assms]] by simp
qed

lemma command_deserialize_Some: "9 \<le> length buf \<Longrightarrow> \<exists>c' err. command_deserialize e buf c = Some (c', err)"
  by (erule command_deserialize_cases [where e = e and c = c]) auto

lemma serialize_frame_bytes:
  assumes "9 \<le> n" "n \<le> MAX_COMMAND_SIZE"
    and "\<And>rest. length rest = n - 9 \<Longrightarrow>
      body (cmd_header e (c\<lparr>cmd_size := of_nat (n - 9)\<rparr>) @ rest) = Some (cmd_header e (c\<lparr>cmd_size := of_nat (n - 9)\<rparr>) @ payload)"
  shows "serialize_frame e c buf n body =
    Some (cmd_header e (c\<lparr>cmd_size := of_nat (n - 9)\<rparr>) @ payload, c\<lparr>cmd_size := of_nat (n - 9)\<rparr>, ERROR_OK)"
  using assms by (simp add: serialize_frame_def Let_def command_serialize_bytes)

lemma serialize_frame_too_long:
  "MAX_COMMAND_SIZE < n \<Longrightarrow> serialize_frame e c buf n body = Some (buf, c, ERROR_MAX_COMMAND_SIZE_EXCEEDED)"
  by (simp add: serialize_frame_def)

lemma deserialize_frame_short:
  "length buf < n \<Longrightarrow> deserialize_frame e buf c n body = Some (c, ERROR_NOT_ENOUGH_BYTES)"
  by (simp add: deserialize_frame_def)

lemma deserialize_frame_bytes:
  assumes "cmd_id c0 = cmd_id c" "n \<le> 9 + length rest"
  shows "deserialize_frame e (cmd_header e c @ rest) c0 n body =
    body (c0\<lparr>cmd_id := cmd_id c, cmd_version := cmd_version c, cmd_client := cmd_client c, cmd_size := cmd_size c\<rparr>)"
  using assms by (simp add: deserialize_frame_def command_deserialize_bytes)

lemma deserialize_frame_mismatch:
  "9 \<le> n \<Longrightarrow> n \<le> length buf \<Longrightarrow> cmd_id c \<noteq> UNKNOWN_ID \<Longrightarrow> buf ! 0 \<noteq> cmd_id c \<Longrightarrow>
     deserialize_frame e buf c n body = Some (c, ERROR_MISMATCH)"
  by (cases buf) (simp_all add: deserialize_frame_def command_deserialize_mismatch)

lemma deserialize_frame_total:
  assumes "9 \<le> n" and "\<And>c'. n \<le> length buf \<Longrightarrow> command.more c' = command.more c \<Longrightarrow> body c' \<noteq> None"
  shows "deserialize_frame e buf c n body \<noteq> None"
proof (cases "length buf < n")
  case True
  then show ?thesis by (simp add: deserialize_frame_short)
next
  case False
  then have len: "9 \<le> length buf" "n \<le> length buf" using assms(1) by auto
  show ?thesis
    by (rule command_deserialize_cases [OF len(1), of e c])
      (use assms(2) len(2) in \<open>auto simp: deserialize_frame_def\<close>)
qed

section \<open>The contract of a command class\<close>

text \<open>The command as the serializer leaves it: \<open>size_\<close> holds the length of the payload.\<close>

definition sized :: "bytes \<Rightarrow> 'a command_scheme \<Rightarrow> 'a command_scheme" where
  "sized bs c = c\<lparr>cmd_size := of_nat (length bs)\<rparr>"

text \<open>A byte sequence that is one command: a header whose size field counts the rest.\<close>

definition one_command :: "endianess_e \<Rightarrow> bytes \<Rightarrow> bool" where
  "one_command e bs \<longleftrightarrow> 9 \<le> length bs \<and> length bs \<le> MAX_COMMAND_SIZE \<and>
     load e bs COMMAND_POSITION_SIZE = Some (of_nat (length bs - 9) :: u32)"

lemma one_command_header:
  assumes "9 + length bs \<le> MAX_COMMAND_SIZE"
  shows "one_command e (cmd_header e (sized bs c) @ bs)"
  using assms by (simp add: one_command_def cmd_header_def sized_def wire_simps)

lemma sized_id [simp]: "cmd_id (sized bs c) = cmd_id c"
  by (simp add: sized_def)

text \<open>
  The transfer of the commands of a class: whatever the vector held, \<open>serialize\<close> succeeds with
  one well framed command of the class, and \<open>deserialize\<close> on a fresh object gives every member
  back. \<open>pay\<close> is the layout of the payload, \<open>valid\<close> what the members have to satisfy.
\<close>

definition transfers ::
  "id_e \<Rightarrow> (endianess_e \<Rightarrow> 'a command_scheme \<Rightarrow> bytes \<Rightarrow> (bytes \<times> 'a command_scheme \<times> error_e) option) \<Rightarrow>
     (endianess_e \<Rightarrow> bytes \<Rightarrow> 'a command_scheme \<Rightarrow> ('a command_scheme \<times> error_e) option) \<Rightarrow> 'a command_scheme \<Rightarrow>
     (endianess_e \<Rightarrow> 'a command_scheme \<Rightarrow> bool) \<Rightarrow> (endianess_e \<Rightarrow> 'a command_scheme \<Rightarrow> bytes) \<Rightarrow> bool" where
  "transfers cid ser des fresh valid pay \<longleftrightarrow> (\<forall>e c buf. cmd_id c = cid \<longrightarrow> valid e c \<longrightarrow> 9 + length (pay e c) \<le> MAX_COMMAND_SIZE \<longrightarrow>
     (\<exists>bs. ser e c buf = Some (bs, sized (pay e c) c, ERROR_OK) \<and> bs ! 0 = cid \<and> one_command e bs
       \<and> des e bs fresh = Some (sized (pay e c) c, ERROR_OK)))"

text \<open>A deserializer that never leaves the vector it is given.\<close>

definition stays_inside :: "(endianess_e \<Rightarrow> bytes \<Rightarrow> 'c \<Rightarrow> ('c \<times> error_e) option) \<Rightarrow> bool" where
  "stays_inside des \<longleftrightarrow> (\<forall>e buf c. \<exists>c' err. des e buf c = Some (c', err))"

text \<open>
  What a command class promises: \<open>ser\<close> writes the header and the payload \<open>pay\<close> into the
  vector whatever it held, \<open>des\<close> on a fresh object gives the command back and refuses a vector
  shorter than the header.
\<close>

locale wire_codec =
  fixes cid :: id_e
    and ser :: "endianess_e \<Rightarrow> 'a command_scheme \<Rightarrow> bytes \<Rightarrow> (bytes \<times> 'a command_scheme \<times> error_e) option"
    and des :: "endianess_e \<Rightarrow> bytes \<Rightarrow> 'a command_scheme \<Rightarrow> ('a command_scheme \<times> error_e) option"
    and fresh :: "'a command_scheme"
    and valid :: "endianess_e \<Rightarrow> 'a command_scheme \<Rightarrow> bool"
    and pay :: "endianess_e \<Rightarrow> 'a command_scheme \<Rightarrow> bytes"
  assumes encodes: "cmd_id c = cid \<Longrightarrow> valid e c \<Longrightarrow> 9 + length (pay e c) \<le> MAX_COMMAND_SIZE \<Longrightarrow>
      ser e c buf = Some (cmd_header e (sized (pay e c) c) @ pay e c, sized (pay e c) c, ERROR_OK)"
    and decodes: "cmd_id c = cid \<Longrightarrow> valid e c \<Longrightarrow> 9 + length (pay e c) \<le> MAX_COMMAND_SIZE \<Longrightarrow>
      des e (cmd_header e (sized (pay e c) c) @ pay e c) fresh = Some (sized (pay e c) c, ERROR_OK)"
    and short: "length buf < 9 \<Longrightarrow> map_option snd (des e buf c) = Some ERROR_NOT_ENOUGH_BYTES"
begin

lemma transfer:
  assumes "cmd_id c = cid" "valid e c" "9 + length (pay e c) \<le> MAX_COMMAND_SIZE"
  shows "\<exists>bs. ser e c buf = Some (bs, sized (pay e c) c, ERROR_OK) \<and> bs ! 0 = cid \<and> one_command e bs
    \<and> des e bs fresh = Some (sized (pay e c) c, ERROR_OK)"
  using assms encodes decodes one_command_header by (fastforce simp: nth_append)

lemma class_transfers: "transfers cid ser des fresh valid pay"
  unfolding transfers_def using transfer by blast

end

text \<open>A class whose deserializer never leaves the vector.\<close>

locale wire_command = wire_codec +
  assumes total: "des e buf c \<noteq> None"
begin

lemma accepts_or_rejects: "\<exists>c' err. des e buf c = Some (c', err)"
  using total [of e buf c] by (cases "des e buf c") auto

lemma class_stays_inside: "stays_inside des"
  unfolding stays_inside_def using accepts_or_rejects by blast

end

text \<open>Establishing the contract for a class that uses the frames above.\<close>

lemma wire_commandI:
  assumes ser: "\<And>e c buf. ser e c buf = serialize_frame e c buf (n c) (wr e c)"
    and des: "\<And>e buf c. des e buf c = deserialize_frame e buf c m (rd e buf)"
    and fresh: "cmd_id fresh = cid"
    and len: "\<And>e c. valid e c \<Longrightarrow> n c = 9 + length (pay e c)"
    and min: "9 \<le> m" "\<And>e c. valid e c \<Longrightarrow> m \<le> 9 + length (pay e c)"
    and wr: "\<And>e c h rest. valid e c \<Longrightarrow> length h = 9 \<Longrightarrow> length rest = length (pay e c) \<Longrightarrow> wr e c (h @ rest) = Some (h @ pay e c)"
    and rd: "\<And>e c h. valid e c \<Longrightarrow> length h = 9 \<Longrightarrow>
      rd e (h @ pay e c) (fresh\<lparr>cmd_id := cmd_id c, cmd_version := cmd_version c, cmd_client := cmd_client c,
        cmd_size := of_nat (length (pay e c))\<rparr>) = Some (c\<lparr>cmd_size := of_nat (length (pay e c))\<rparr>, ERROR_OK)"
    and tot: "\<And>e buf c. m \<le> length buf \<Longrightarrow> rd e buf c \<noteq> None"
  shows "wire_command cid ser des fresh valid pay"
proof
  fix c e buf assume "valid e c" "9 + length (pay e c) \<le> MAX_COMMAND_SIZE"
  then show "ser e c buf = Some (cmd_header e (sized (pay e c) c) @ pay e c, sized (pay e c) c, ERROR_OK)"
    unfolding ser sized_def by (subst serialize_frame_bytes [where payload = "pay e c"]) (auto simp: len [of e c] wr)
next
  fix c e assume "cmd_id c = cid" "valid e c"
  then show "des e (cmd_header e (sized (pay e c) c) @ pay e c) fresh = Some (sized (pay e c) c, ERROR_OK)"
    unfolding des sized_def using min(2) by (subst deserialize_frame_bytes) (auto simp: fresh rd)
next
  fix e buf c
  show "des e buf c \<noteq> None"
    unfolding des using min(1) tot by (rule deserialize_frame_total)
  show "length buf < 9 \<Longrightarrow> map_option snd (des e buf c) = Some ERROR_NOT_ENOUGH_BYTES"
    using min(1) by (simp add: des deserialize_frame_short)
qed

end
