(* ===== verification/Command_Fixed.thy ===== *)
theory Command_Fixed
  imports Command
begin

text \<open>
  The command classes whose payload has a fixed size (\<open>protocol/src\<close>): the simple commands,
  client assignment, application registration, service offers and releases, subscriptions
  without a filter and their acknowledgements, event deregistration, and the security
  responses. Each class is interpreted as a \<open>wire_command\<close>.

  Members that a constructor leaves uninitialised are an argument of the constructor.
\<close>

section \<open>Simple commands\<close>

definition simple_command_new :: "id_e \<Rightarrow> command" where
  "simple_command_new i = command_new i ()"

definition deregister_application_command_new :: command where
  "deregister_application_command_new = simple_command_new DEREGISTER_APPLICATION_ID"

definition registered_ack_command_new :: command where
  "registered_ack_command_new = simple_command_new REGISTERED_ACK_ID"

definition ping_command_new :: command where
  "ping_command_new = simple_command_new PING_ID"

definition pong_command_new :: command where
  "pong_command_new = simple_command_new PONG_ID"

definition suspend_command_new :: command where
  "suspend_command_new = simple_command_new SUSPEND_ID"

definition dummy_command_new :: command where
  "dummy_command_new = simple_command_new UNKNOWN_ID"

definition simple_command_serialize :: "endianess_e \<Rightarrow> command \<Rightarrow> bytes \<Rightarrow> (bytes \<times> command \<times> error_e) option" where
  "simple_command_serialize e c buf = do {
     let buf = vec_resize buf COMMAND_HEADER_SIZE 0;
     let c = c\<lparr>cmd_size := 0\<rparr>;
     (buf, err) \<leftarrow> command_serialize e c buf;
     Some (buf, c, err)
   }"

definition simple_command_deserialize :: "endianess_e \<Rightarrow> bytes \<Rightarrow> command \<Rightarrow> (command \<times> error_e) option" where
  "simple_command_deserialize e buf c =
     (if length buf < COMMAND_HEADER_SIZE then Some (c, ERROR_NOT_ENOUGH_BYTES)
      else command_deserialize e buf c)"

interpretation simple: wire_command i simple_command_serialize simple_command_deserialize
  "simple_command_new i" "\<lambda>_ _. True" "\<lambda>_ _. []" for i
proof
  fix c :: command and e buf
  show "simple_command_serialize e c buf = Some (cmd_header e (sized [] c) @ [], sized [] c, ERROR_OK)"
    by (simp add: simple_command_serialize_def sized_def command_serialize_bytes Let_def)
  show "cmd_id c = i \<Longrightarrow> simple_command_deserialize e (cmd_header e (sized [] c) @ []) (simple_command_new i)
      = Some (sized [] c, ERROR_OK)"
    using command_deserialize_bytes [of "simple_command_new i" "sized [] c" e "[]"]
    by (simp add: simple_command_deserialize_def simple_command_new_def command_new_def sized_def)
  show "simple_command_deserialize e buf c \<noteq> None"
    using command_deserialize_Some [of buf e c] by (auto simp: simple_command_deserialize_def)
  show "length buf < 9 \<Longrightarrow> map_option snd (simple_command_deserialize e buf c) = Some ERROR_NOT_ENOUGH_BYTES"
    by (simp add: simple_command_deserialize_def)
qed

section \<open>Client assignment and application registration\<close>

record assign_client_ack_command = command +
  ack_assigned :: u16

definition assign_client_ack_command_new :: "u16 \<Rightarrow> assign_client_ack_command" where
  "assign_client_ack_command_new x = command_new ASSIGN_CLIENT_ACK_ID \<lparr> ack_assigned = x \<rparr>"

definition assign_client_ack_serialize ::
  "endianess_e \<Rightarrow> assign_client_ack_command \<Rightarrow> bytes \<Rightarrow> (bytes \<times> assign_client_ack_command \<times> error_e) option" where
  "assign_client_ack_serialize e c buf =
     serialize_frame e c buf (COMMAND_HEADER_SIZE + 2) (\<lambda>buf. store e buf COMMAND_POSITION_PAYLOAD (ack_assigned c))"

definition assign_client_ack_deserialize ::
  "endianess_e \<Rightarrow> bytes \<Rightarrow> assign_client_ack_command \<Rightarrow> (assign_client_ack_command \<times> error_e) option" where
  "assign_client_ack_deserialize e buf c =
     deserialize_frame e buf c (COMMAND_HEADER_SIZE + 2) (\<lambda>c. do {
       x \<leftarrow> load e buf COMMAND_POSITION_PAYLOAD;
       Some (c\<lparr>ack_assigned := x\<rparr>, ERROR_OK)
     })"

definition assign_client_ack_pay :: "endianess_e \<Rightarrow> assign_client_ack_command \<Rightarrow> bytes" where
  "assign_client_ack_pay e c = mem_of e (ack_assigned c)"

interpretation assign_client_ack: wire_command ASSIGN_CLIENT_ACK_ID assign_client_ack_serialize assign_client_ack_deserialize
  "assign_client_ack_command_new x" "\<lambda>_ _. True" assign_client_ack_pay
  for x
  by (rule wire_commandI [OF assign_client_ack_serialize_def assign_client_ack_deserialize_def])
    (simp_all add: wire_simps assign_client_ack_pay_def assign_client_ack_command_new_def command_new_def)

record register_application_command = command +
  reg_port :: u16

definition register_application_command_new :: register_application_command where
  "register_application_command_new = command_new REGISTER_APPLICATION_ID \<lparr> reg_port = 0xFFFF \<rparr>"

definition register_application_serialize ::
  "endianess_e \<Rightarrow> register_application_command \<Rightarrow> bytes \<Rightarrow> (bytes \<times> register_application_command \<times> error_e) option" where
  "register_application_serialize e c buf =
     serialize_frame e c buf (COMMAND_HEADER_SIZE + 2) (\<lambda>buf. store e buf COMMAND_POSITION_PAYLOAD (reg_port c))"

definition register_application_deserialize ::
  "endianess_e \<Rightarrow> bytes \<Rightarrow> register_application_command \<Rightarrow> (register_application_command \<times> error_e) option" where
  "register_application_deserialize e buf c =
     deserialize_frame e buf c (COMMAND_HEADER_SIZE + 2) (\<lambda>c. do {
       x \<leftarrow> load e buf COMMAND_POSITION_PAYLOAD;
       Some (c\<lparr>reg_port := x\<rparr>, ERROR_OK)
     })"

definition register_application_pay :: "endianess_e \<Rightarrow> register_application_command \<Rightarrow> bytes" where
  "register_application_pay e c = mem_of e (reg_port c)"

interpretation register_application: wire_command REGISTER_APPLICATION_ID register_application_serialize register_application_deserialize
  register_application_command_new "\<lambda>_ _. True" register_application_pay
  by (rule wire_commandI [OF register_application_serialize_def register_application_deserialize_def])
    (simp_all add: wire_simps register_application_pay_def register_application_command_new_def command_new_def)

section \<open>Releasing a service and deregistering an event\<close>

record release_service_command = command +
  rel_service :: u16
  rel_instance :: u16

definition release_service_command_new :: release_service_command where
  "release_service_command_new = command_new RELEASE_SERVICE_ID \<lparr> rel_service = 0xFFFF, rel_instance = 0xFFFF \<rparr>"

definition release_service_serialize ::
  "endianess_e \<Rightarrow> release_service_command \<Rightarrow> bytes \<Rightarrow> (bytes \<times> release_service_command \<times> error_e) option" where
  "release_service_serialize e c buf =
     serialize_frame e c buf (COMMAND_HEADER_SIZE + 4) (\<lambda>buf. do {
       buf \<leftarrow> store e buf COMMAND_POSITION_PAYLOAD (rel_service c);
       store e buf (COMMAND_POSITION_PAYLOAD + 2) (rel_instance c)
     })"

definition release_service_deserialize ::
  "endianess_e \<Rightarrow> bytes \<Rightarrow> release_service_command \<Rightarrow> (release_service_command \<times> error_e) option" where
  "release_service_deserialize e buf c =
     deserialize_frame e buf c (COMMAND_HEADER_SIZE + 4) (\<lambda>c. do {
       x0 \<leftarrow> load e buf COMMAND_POSITION_PAYLOAD;
       x1 \<leftarrow> load e buf (COMMAND_POSITION_PAYLOAD + 2);
       Some (c\<lparr>rel_service := x0, rel_instance := x1\<rparr>, ERROR_OK)
     })"

definition release_service_pay :: "endianess_e \<Rightarrow> release_service_command \<Rightarrow> bytes" where
  "release_service_pay e c = mem_of e (rel_service c) @ mem_of e (rel_instance c)"

interpretation release_service: wire_command RELEASE_SERVICE_ID release_service_serialize release_service_deserialize
  release_service_command_new "\<lambda>_ _. True" release_service_pay
  by (rule wire_commandI [OF release_service_serialize_def release_service_deserialize_def])
    (simp_all add: wire_simps release_service_pay_def release_service_command_new_def command_new_def)

record unregister_event_command = command +
  unreg_service :: u16
  unreg_instance :: u16
  unreg_event :: u16
  unreg_provided :: bool

definition unregister_event_command_new :: unregister_event_command where
  "unregister_event_command_new = command_new UNREGISTER_EVENT_ID \<lparr> unreg_service = 0xFFFF, unreg_instance = 0xFFFF, unreg_event = 0xFFFF, unreg_provided = False \<rparr>"

definition unregister_event_serialize ::
  "endianess_e \<Rightarrow> unregister_event_command \<Rightarrow> bytes \<Rightarrow> (bytes \<times> unregister_event_command \<times> error_e) option" where
  "unregister_event_serialize e c buf =
     serialize_frame e c buf (COMMAND_HEADER_SIZE + 7) (\<lambda>buf. do {
       buf \<leftarrow> store e buf COMMAND_POSITION_PAYLOAD (unreg_service c);
       buf \<leftarrow> store e buf (COMMAND_POSITION_PAYLOAD + 2) (unreg_instance c);
       buf \<leftarrow> store e buf (COMMAND_POSITION_PAYLOAD + 4) (unreg_event c);
       mem_put buf (COMMAND_POSITION_PAYLOAD + 6) (of_bool (unreg_provided c))
     })"

definition unregister_event_deserialize ::
  "endianess_e \<Rightarrow> bytes \<Rightarrow> unregister_event_command \<Rightarrow> (unregister_event_command \<times> error_e) option" where
  "unregister_event_deserialize e buf c =
     deserialize_frame e buf c (COMMAND_HEADER_SIZE + 7) (\<lambda>c. do {
       x0 \<leftarrow> load e buf COMMAND_POSITION_PAYLOAD;
       x1 \<leftarrow> load e buf (COMMAND_POSITION_PAYLOAD + 2);
       x2 \<leftarrow> load e buf (COMMAND_POSITION_PAYLOAD + 4);
       x3 \<leftarrow> mem_at buf (COMMAND_POSITION_PAYLOAD + 6);
       Some (c\<lparr>unreg_service := x0, unreg_instance := x1, unreg_event := x2, unreg_provided := (x3 \<noteq> 0)\<rparr>, ERROR_OK)
     })"

definition unregister_event_pay :: "endianess_e \<Rightarrow> unregister_event_command \<Rightarrow> bytes" where
  "unregister_event_pay e c = mem_of e (unreg_service c) @ mem_of e (unreg_instance c) @ mem_of e (unreg_event c) @ [of_bool (unreg_provided c)]"

interpretation unregister_event: wire_command UNREGISTER_EVENT_ID unregister_event_serialize unregister_event_deserialize
  unregister_event_command_new "\<lambda>_ _. True" unregister_event_pay
  by (rule wire_commandI [OF unregister_event_serialize_def unregister_event_deserialize_def],
      simp_all add: wire_simps unregister_event_pay_def unregister_event_command_new_def command_new_def
        del: mem_put_Some mem_at_Some) simp_all

section \<open>Acknowledgements of subscriptions\<close>

record subscribe_ack_command_base = command +
  suback_service :: u16
  suback_instance :: u16
  suback_eventgroup :: u16
  suback_subscriber :: u16
  suback_event :: u16
  suback_pending :: u16

definition subscribe_ack_command_base_new :: "id_e \<Rightarrow> subscribe_ack_command_base" where
  "subscribe_ack_command_base_new i = command_new i \<lparr> suback_service = 0xFFFF, suback_instance = 0xFFFF, suback_eventgroup = 0, suback_subscriber = 0, suback_event = 0xFFFF, suback_pending = 0 \<rparr>"

definition subscribe_ack_command_new :: subscribe_ack_command_base where
  "subscribe_ack_command_new = subscribe_ack_command_base_new SUBSCRIBE_ACK_ID"

definition subscribe_nack_command_new :: subscribe_ack_command_base where
  "subscribe_nack_command_new = subscribe_ack_command_base_new SUBSCRIBE_NACK_ID"

definition subscribe_ack_command_base_serialize ::
  "endianess_e \<Rightarrow> subscribe_ack_command_base \<Rightarrow> bytes \<Rightarrow> (bytes \<times> subscribe_ack_command_base \<times> error_e) option" where
  "subscribe_ack_command_base_serialize e c buf =
     serialize_frame e c buf (COMMAND_HEADER_SIZE + 12) (\<lambda>buf. do {
       buf \<leftarrow> store e buf COMMAND_POSITION_PAYLOAD (suback_service c);
       buf \<leftarrow> store e buf (COMMAND_POSITION_PAYLOAD + 2) (suback_instance c);
       buf \<leftarrow> store e buf (COMMAND_POSITION_PAYLOAD + 4) (suback_eventgroup c);
       buf \<leftarrow> store e buf (COMMAND_POSITION_PAYLOAD + 6) (suback_subscriber c);
       buf \<leftarrow> store e buf (COMMAND_POSITION_PAYLOAD + 8) (suback_event c);
       store e buf (COMMAND_POSITION_PAYLOAD + 10) (suback_pending c)
     })"

definition subscribe_ack_command_base_deserialize ::
  "endianess_e \<Rightarrow> bytes \<Rightarrow> subscribe_ack_command_base \<Rightarrow> (subscribe_ack_command_base \<times> error_e) option" where
  "subscribe_ack_command_base_deserialize e buf c =
     deserialize_frame e buf c (COMMAND_HEADER_SIZE + 12) (\<lambda>c. do {
       x0 \<leftarrow> load e buf COMMAND_POSITION_PAYLOAD;
       x1 \<leftarrow> load e buf (COMMAND_POSITION_PAYLOAD + 2);
       x2 \<leftarrow> load e buf (COMMAND_POSITION_PAYLOAD + 4);
       x3 \<leftarrow> load e buf (COMMAND_POSITION_PAYLOAD + 6);
       x4 \<leftarrow> load e buf (COMMAND_POSITION_PAYLOAD + 8);
       x5 \<leftarrow> load e buf (COMMAND_POSITION_PAYLOAD + 10);
       Some (c\<lparr>suback_service := x0, suback_instance := x1, suback_eventgroup := x2, suback_subscriber := x3, suback_event := x4, suback_pending := x5\<rparr>, ERROR_OK)
     })"

definition subscribe_ack_command_base_pay :: "endianess_e \<Rightarrow> subscribe_ack_command_base \<Rightarrow> bytes" where
  "subscribe_ack_command_base_pay e c = mem_of e (suback_service c) @ mem_of e (suback_instance c) @ mem_of e (suback_eventgroup c) @ mem_of e (suback_subscriber c) @ mem_of e (suback_event c) @ mem_of e (suback_pending c)"

interpretation subscribe_ack: wire_command SUBSCRIBE_ACK_ID subscribe_ack_command_base_serialize subscribe_ack_command_base_deserialize
  subscribe_ack_command_new "\<lambda>_ _. True" subscribe_ack_command_base_pay
  by (rule wire_commandI [OF subscribe_ack_command_base_serialize_def subscribe_ack_command_base_deserialize_def])
    (simp_all add: wire_simps subscribe_ack_command_base_pay_def subscribe_ack_command_new_def subscribe_ack_command_base_new_def command_new_def)

interpretation subscribe_nack: wire_command SUBSCRIBE_NACK_ID subscribe_ack_command_base_serialize subscribe_ack_command_base_deserialize
  subscribe_nack_command_new "\<lambda>_ _. True" subscribe_ack_command_base_pay
  by (rule wire_commandI [OF subscribe_ack_command_base_serialize_def subscribe_ack_command_base_deserialize_def])
    (simp_all add: wire_simps subscribe_ack_command_base_pay_def subscribe_nack_command_new_def subscribe_ack_command_base_new_def command_new_def)

record unsubscribe_ack_command = command +
  unsuback_service :: u16
  unsuback_instance :: u16
  unsuback_eventgroup :: u16
  unsuback_pending :: u16

definition unsubscribe_ack_command_new :: unsubscribe_ack_command where
  "unsubscribe_ack_command_new = command_new UNSUBSCRIBE_ACK_ID \<lparr> unsuback_service = 0xFFFF, unsuback_instance = 0xFFFF, unsuback_eventgroup = 0, unsuback_pending = 0 \<rparr>"

definition unsubscribe_ack_serialize ::
  "endianess_e \<Rightarrow> unsubscribe_ack_command \<Rightarrow> bytes \<Rightarrow> (bytes \<times> unsubscribe_ack_command \<times> error_e) option" where
  "unsubscribe_ack_serialize e c buf =
     serialize_frame e c buf (COMMAND_HEADER_SIZE + 8) (\<lambda>buf. do {
       buf \<leftarrow> store e buf COMMAND_POSITION_PAYLOAD (unsuback_service c);
       buf \<leftarrow> store e buf (COMMAND_POSITION_PAYLOAD + 2) (unsuback_instance c);
       buf \<leftarrow> store e buf (COMMAND_POSITION_PAYLOAD + 4) (unsuback_eventgroup c);
       store e buf (COMMAND_POSITION_PAYLOAD + 6) (unsuback_pending c)
     })"

definition unsubscribe_ack_deserialize ::
  "endianess_e \<Rightarrow> bytes \<Rightarrow> unsubscribe_ack_command \<Rightarrow> (unsubscribe_ack_command \<times> error_e) option" where
  "unsubscribe_ack_deserialize e buf c =
     deserialize_frame e buf c (COMMAND_HEADER_SIZE + 8) (\<lambda>c. do {
       x0 \<leftarrow> load e buf COMMAND_POSITION_PAYLOAD;
       x1 \<leftarrow> load e buf (COMMAND_POSITION_PAYLOAD + 2);
       x2 \<leftarrow> load e buf (COMMAND_POSITION_PAYLOAD + 4);
       x3 \<leftarrow> load e buf (COMMAND_POSITION_PAYLOAD + 6);
       Some (c\<lparr>unsuback_service := x0, unsuback_instance := x1, unsuback_eventgroup := x2, unsuback_pending := x3\<rparr>, ERROR_OK)
     })"

definition unsubscribe_ack_pay :: "endianess_e \<Rightarrow> unsubscribe_ack_command \<Rightarrow> bytes" where
  "unsubscribe_ack_pay e c = mem_of e (unsuback_service c) @ mem_of e (unsuback_instance c) @ mem_of e (unsuback_eventgroup c) @ mem_of e (unsuback_pending c)"

interpretation unsubscribe_ack: wire_command UNSUBSCRIBE_ACK_ID unsubscribe_ack_serialize unsubscribe_ack_deserialize
  unsubscribe_ack_command_new "\<lambda>_ _. True" unsubscribe_ack_pay
  by (rule wire_commandI [OF unsubscribe_ack_serialize_def unsubscribe_ack_deserialize_def])
    (simp_all add: wire_simps unsubscribe_ack_pay_def unsubscribe_ack_command_new_def command_new_def)

section \<open>Queries and security updates\<close>

record offered_services_request_command = command +
  offer_type :: byte

definition offered_services_request_command_new :: "byte \<Rightarrow> offered_services_request_command" where
  "offered_services_request_command_new x = command_new OFFERED_SERVICES_REQUEST_ID \<lparr> offer_type = x \<rparr>"

definition offered_services_request_serialize ::
  "endianess_e \<Rightarrow> offered_services_request_command \<Rightarrow> bytes \<Rightarrow> (bytes \<times> offered_services_request_command \<times> error_e) option" where
  "offered_services_request_serialize e c buf =
     serialize_frame e c buf (COMMAND_HEADER_SIZE + 1) (\<lambda>buf. mem_put buf COMMAND_POSITION_PAYLOAD (offer_type c))"

definition offered_services_request_deserialize ::
  "endianess_e \<Rightarrow> bytes \<Rightarrow> offered_services_request_command \<Rightarrow> (offered_services_request_command \<times> error_e) option" where
  "offered_services_request_deserialize e buf c =
     deserialize_frame e buf c (COMMAND_HEADER_SIZE + 1) (\<lambda>c. do {
       x \<leftarrow> mem_at buf COMMAND_POSITION_PAYLOAD;
       Some (c\<lparr>offer_type := x\<rparr>, ERROR_OK)
     })"

definition offered_services_request_pay :: "endianess_e \<Rightarrow> offered_services_request_command \<Rightarrow> bytes" where
  "offered_services_request_pay e c = [offer_type c]"

interpretation offered_services_request: wire_command OFFERED_SERVICES_REQUEST_ID offered_services_request_serialize offered_services_request_deserialize
  "offered_services_request_command_new x" "\<lambda>_ _. True" offered_services_request_pay
  for x
  by (rule wire_commandI [OF offered_services_request_serialize_def offered_services_request_deserialize_def],
      simp_all add: wire_simps offered_services_request_pay_def offered_services_request_command_new_def command_new_def
        del: mem_put_Some mem_at_Some) simp_all

record resend_provided_events_command = command +
  resend_remote_offer_id :: u32

definition resend_provided_events_command_new :: "u32 \<Rightarrow> resend_provided_events_command" where
  "resend_provided_events_command_new x = command_new RESEND_PROVIDED_EVENTS_ID \<lparr> resend_remote_offer_id = x \<rparr>"

definition resend_provided_events_serialize ::
  "endianess_e \<Rightarrow> resend_provided_events_command \<Rightarrow> bytes \<Rightarrow> (bytes \<times> resend_provided_events_command \<times> error_e) option" where
  "resend_provided_events_serialize e c buf =
     serialize_frame e c buf (COMMAND_HEADER_SIZE + 4) (\<lambda>buf. store e buf COMMAND_POSITION_PAYLOAD (resend_remote_offer_id c))"

definition resend_provided_events_deserialize ::
  "endianess_e \<Rightarrow> bytes \<Rightarrow> resend_provided_events_command \<Rightarrow> (resend_provided_events_command \<times> error_e) option" where
  "resend_provided_events_deserialize e buf c =
     deserialize_frame e buf c (COMMAND_HEADER_SIZE + 4) (\<lambda>c. do {
       x \<leftarrow> load e buf COMMAND_POSITION_PAYLOAD;
       Some (c\<lparr>resend_remote_offer_id := x\<rparr>, ERROR_OK)
     })"

definition resend_provided_events_pay :: "endianess_e \<Rightarrow> resend_provided_events_command \<Rightarrow> bytes" where
  "resend_provided_events_pay e c = mem_of e (resend_remote_offer_id c)"

interpretation resend_provided_events: wire_command RESEND_PROVIDED_EVENTS_ID resend_provided_events_serialize resend_provided_events_deserialize
  "resend_provided_events_command_new x" "\<lambda>_ _. True" resend_provided_events_pay
  for x
  by (rule wire_commandI [OF resend_provided_events_serialize_def resend_provided_events_deserialize_def])
    (simp_all add: wire_simps resend_provided_events_pay_def resend_provided_events_command_new_def command_new_def)

record security_policy_response_command_base = command +
  secresp_update_id :: u32

definition security_policy_response_command_base_new :: "id_e \<Rightarrow> u32 \<Rightarrow> security_policy_response_command_base" where
  "security_policy_response_command_base_new i x = command_new i \<lparr> secresp_update_id = x \<rparr>"

definition update_security_policy_response_command_new :: "u32 \<Rightarrow> security_policy_response_command_base" where
  "update_security_policy_response_command_new x = security_policy_response_command_base_new UPDATE_SECURITY_POLICY_RESPONSE_ID x"

definition remove_security_policy_response_command_new :: "u32 \<Rightarrow> security_policy_response_command_base" where
  "remove_security_policy_response_command_new x = security_policy_response_command_base_new REMOVE_SECURITY_POLICY_RESPONSE_ID x"

definition security_policy_response_command_base_serialize ::
  "endianess_e \<Rightarrow> security_policy_response_command_base \<Rightarrow> bytes \<Rightarrow> (bytes \<times> security_policy_response_command_base \<times> error_e) option" where
  "security_policy_response_command_base_serialize e c buf =
     serialize_frame e c buf (COMMAND_HEADER_SIZE + 4) (\<lambda>buf. store e buf COMMAND_POSITION_PAYLOAD (secresp_update_id c))"

definition security_policy_response_command_base_deserialize ::
  "endianess_e \<Rightarrow> bytes \<Rightarrow> security_policy_response_command_base \<Rightarrow> (security_policy_response_command_base \<times> error_e) option" where
  "security_policy_response_command_base_deserialize e buf c =
     deserialize_frame e buf c (COMMAND_HEADER_SIZE + 4) (\<lambda>c. do {
       x \<leftarrow> load e buf COMMAND_POSITION_PAYLOAD;
       Some (c\<lparr>secresp_update_id := x\<rparr>, ERROR_OK)
     })"

definition security_policy_response_command_base_pay :: "endianess_e \<Rightarrow> security_policy_response_command_base \<Rightarrow> bytes" where
  "security_policy_response_command_base_pay e c = mem_of e (secresp_update_id c)"

interpretation update_security_policy_response: wire_command UPDATE_SECURITY_POLICY_RESPONSE_ID security_policy_response_command_base_serialize security_policy_response_command_base_deserialize
  "update_security_policy_response_command_new x" "\<lambda>_ _. True" security_policy_response_command_base_pay
  for x
  by (rule wire_commandI [OF security_policy_response_command_base_serialize_def security_policy_response_command_base_deserialize_def])
    (simp_all add: wire_simps security_policy_response_command_base_pay_def update_security_policy_response_command_new_def security_policy_response_command_base_new_def command_new_def)

interpretation remove_security_policy_response: wire_command REMOVE_SECURITY_POLICY_RESPONSE_ID security_policy_response_command_base_serialize security_policy_response_command_base_deserialize
  "remove_security_policy_response_command_new x" "\<lambda>_ _. True" security_policy_response_command_base_pay
  for x
  by (rule wire_commandI [OF security_policy_response_command_base_serialize_def security_policy_response_command_base_deserialize_def])
    (simp_all add: wire_simps security_policy_response_command_base_pay_def remove_security_policy_response_command_new_def security_policy_response_command_base_new_def command_new_def)

record remove_security_policy_command = command +
  secrem_update_id :: u32
  secrem_uid :: u32
  secrem_gid :: u32

definition remove_security_policy_command_new :: "u32 \<Rightarrow> u32 \<Rightarrow> u32 \<Rightarrow> remove_security_policy_command" where
  "remove_security_policy_command_new x y z = command_new REMOVE_SECURITY_POLICY_ID \<lparr> secrem_update_id = x, secrem_uid = y, secrem_gid = z \<rparr>"

definition remove_security_policy_serialize ::
  "endianess_e \<Rightarrow> remove_security_policy_command \<Rightarrow> bytes \<Rightarrow> (bytes \<times> remove_security_policy_command \<times> error_e) option" where
  "remove_security_policy_serialize e c buf =
     serialize_frame e c buf (COMMAND_HEADER_SIZE + 12) (\<lambda>buf. do {
       buf \<leftarrow> store e buf COMMAND_POSITION_PAYLOAD (secrem_update_id c);
       buf \<leftarrow> store e buf (COMMAND_POSITION_PAYLOAD + 4) (secrem_uid c);
       store e buf (COMMAND_POSITION_PAYLOAD + 8) (secrem_gid c)
     })"

definition remove_security_policy_deserialize ::
  "endianess_e \<Rightarrow> bytes \<Rightarrow> remove_security_policy_command \<Rightarrow> (remove_security_policy_command \<times> error_e) option" where
  "remove_security_policy_deserialize e buf c =
     deserialize_frame e buf c (COMMAND_HEADER_SIZE + 12) (\<lambda>c. do {
       x0 \<leftarrow> load e buf COMMAND_POSITION_PAYLOAD;
       x1 \<leftarrow> load e buf (COMMAND_POSITION_PAYLOAD + 4);
       x2 \<leftarrow> load e buf (COMMAND_POSITION_PAYLOAD + 8);
       Some (c\<lparr>secrem_update_id := x0, secrem_uid := x1, secrem_gid := x2\<rparr>, ERROR_OK)
     })"

definition remove_security_policy_pay :: "endianess_e \<Rightarrow> remove_security_policy_command \<Rightarrow> bytes" where
  "remove_security_policy_pay e c = mem_of e (secrem_update_id c) @ mem_of e (secrem_uid c) @ mem_of e (secrem_gid c)"

interpretation remove_security_policy: wire_command REMOVE_SECURITY_POLICY_ID remove_security_policy_serialize remove_security_policy_deserialize
  "remove_security_policy_command_new x y z" "\<lambda>_ _. True" remove_security_policy_pay
  for x y z
  by (rule wire_commandI [OF remove_security_policy_serialize_def remove_security_policy_deserialize_def])
    (simp_all add: wire_simps remove_security_policy_pay_def remove_security_policy_command_new_def command_new_def)

section \<open>Offering a service\<close>

text \<open>\<open>struct service\<close> of \<open>protocol.hpp\<close>; the default members are the wild cards.\<close>

record service =
  svc_service :: u16
  svc_instance :: u16
  svc_major :: byte
  svc_minor :: u32

definition service_new :: service where
  "service_new = \<lparr> svc_service = 0xFFFF, svc_instance = 0xFFFF, svc_major = 0xFF, svc_minor = 0xFFFFFFFF \<rparr>"

record service_command_base = command +
  cmd_service :: service

definition service_command_base_new :: "id_e \<Rightarrow> service_command_base" where
  "service_command_base_new i = command_new i \<lparr> cmd_service = service_new \<rparr>"

definition offer_service_command_new :: service_command_base where
  "offer_service_command_new = service_command_base_new OFFER_SERVICE_ID"

definition stop_offer_service_command_new :: service_command_base where
  "stop_offer_service_command_new = service_command_base_new STOP_OFFER_SERVICE_ID"

definition service_command_base_serialize ::
  "endianess_e \<Rightarrow> service_command_base \<Rightarrow> bytes \<Rightarrow> (bytes \<times> service_command_base \<times> error_e) option" where
  "service_command_base_serialize e c buf =
     serialize_frame e c buf (COMMAND_HEADER_SIZE + 9) (\<lambda>buf. do {
       buf \<leftarrow> store e buf COMMAND_POSITION_PAYLOAD (svc_service (cmd_service c));
       buf \<leftarrow> store e buf (COMMAND_POSITION_PAYLOAD + 2) (svc_instance (cmd_service c));
       buf \<leftarrow> mem_put buf (COMMAND_POSITION_PAYLOAD + 4) (svc_major (cmd_service c));
       store e buf (COMMAND_POSITION_PAYLOAD + 5) (svc_minor (cmd_service c))
     })"

text \<open>
  The deserializer does not look at the error of \<open>command::deserialize\<close> before it reads the
  payload: on a foreign identifier it still overwrites the service.
\<close>

definition service_command_base_deserialize ::
  "endianess_e \<Rightarrow> bytes \<Rightarrow> service_command_base \<Rightarrow> (service_command_base \<times> error_e) option" where
  "service_command_base_deserialize e buf c =
     (if length buf < COMMAND_HEADER_SIZE + 9 then Some (c, ERROR_NOT_ENOUGH_BYTES)
      else do {
        (c, err) \<leftarrow> command_deserialize e buf c;
        s \<leftarrow> load e buf COMMAND_POSITION_PAYLOAD;
        i \<leftarrow> load e buf (COMMAND_POSITION_PAYLOAD + 2);
        mj \<leftarrow> mem_at buf (COMMAND_POSITION_PAYLOAD + 4);
        mn \<leftarrow> load e buf (COMMAND_POSITION_PAYLOAD + 5);
        Some (c\<lparr>cmd_service := \<lparr> svc_service = s, svc_instance = i, svc_major = mj, svc_minor = mn \<rparr>\<rparr>, err)
      })"

definition service_pay :: "endianess_e \<Rightarrow> service \<Rightarrow> bytes" where
  "service_pay e s = mem_of e (svc_service s) @ mem_of e (svc_instance s) @ [svc_major s] @ mem_of e (svc_minor s)"

lemma length_service_pay [simp]: "length (service_pay e s) = 9"
  by (simp add: service_pay_def)

lemma load_service [wire_simps]:
  "load e (service_pay e s @ rest) 0 = Some (svc_service s)"
  "load e (service_pay e s @ rest) 2 = Some (svc_instance s)"
  "mem_at (service_pay e s @ rest) 4 = Some (svc_major s)"
  "load e (service_pay e s @ rest) 5 = Some (svc_minor s)"
  by (simp_all add: service_pay_def wire_simps del: mem_at_Some)

lemma service_command_base_wire:
  "wire_command i service_command_base_serialize service_command_base_deserialize
     (service_command_base_new i) (\<lambda>_ _. True) (\<lambda>e c. service_pay e (cmd_service c))"
proof
  fix c :: service_command_base and e buf
  let ?pay = "service_pay e (cmd_service c)"
  show "service_command_base_serialize e c buf = Some (cmd_header e (sized ?pay c) @ ?pay, sized ?pay c, ERROR_OK)"
    unfolding service_command_base_serialize_def sized_def
    by (subst serialize_frame_bytes [where payload = ?pay])
      (simp_all add: wire_simps service_pay_def del: mem_put_Some)
  show "cmd_id c = i \<Longrightarrow> service_command_base_deserialize e (cmd_header e (sized ?pay c) @ ?pay) (service_command_base_new i)
      = Some (sized ?pay c, ERROR_OK)"
    using load_service [of e "cmd_service c" "[]"]
    by (simp add: service_command_base_deserialize_def command_deserialize_bytes service_command_base_new_def
        command_new_def sized_def wire_simps del: mem_at_Some load_Some)
  show "service_command_base_deserialize e buf c \<noteq> None"
    using command_deserialize_Some [of buf e c] by (auto simp: service_command_base_deserialize_def)
  show "length buf < 9 \<Longrightarrow> map_option snd (service_command_base_deserialize e buf c) = Some ERROR_NOT_ENOUGH_BYTES"
    by (simp add: service_command_base_deserialize_def)
qed

interpretation offer_service: wire_command OFFER_SERVICE_ID service_command_base_serialize
  service_command_base_deserialize offer_service_command_new "\<lambda>_ _. True" "\<lambda>e c. service_pay e (cmd_service c)"
  unfolding offer_service_command_new_def by (rule service_command_base_wire)

interpretation stop_offer_service: wire_command STOP_OFFER_SERVICE_ID service_command_base_serialize
  service_command_base_deserialize stop_offer_service_command_new "\<lambda>_ _. True" "\<lambda>e c. service_pay e (cmd_service c)"
  unfolding stop_offer_service_command_new_def by (rule service_command_base_wire)

section \<open>Subscriptions\<close>

record subscribe_command_base = command +
  sub_service :: u16
  sub_instance :: u16
  sub_eventgroup :: u16
  sub_major :: byte
  sub_event :: u16
  sub_pending :: u16

definition subscribe_command_base_new :: "id_e \<Rightarrow> 'a \<Rightarrow> 'a subscribe_command_base_scheme" where
  "subscribe_command_base_new i d = command_new i \<lparr> sub_service = 0xFFFF, sub_instance = 0xFFFF,
     sub_eventgroup = 0, sub_major = 0xFF, sub_event = 0xFFFF, sub_pending = 0, \<dots> = d \<rparr>"

definition expire_command_new :: subscribe_command_base where
  "expire_command_new = subscribe_command_base_new EXPIRE_ID ()"

definition unsubscribe_command_new :: subscribe_command_base where
  "unsubscribe_command_new = subscribe_command_base_new UNSUBSCRIBE_ID ()"

definition subscribe_command_base_serialize ::
  "endianess_e \<Rightarrow> 'a subscribe_command_base_scheme \<Rightarrow> bytes \<Rightarrow> (bytes \<times> error_e) option" where
  "subscribe_command_base_serialize e c buf = do {
     (buf, err) \<leftarrow> command_serialize e c buf;
     if err \<noteq> ERROR_OK then Some (buf, err)
     else do {
       buf \<leftarrow> store e buf COMMAND_POSITION_PAYLOAD (sub_service c);
       buf \<leftarrow> store e buf (COMMAND_POSITION_PAYLOAD + 2) (sub_instance c);
       buf \<leftarrow> store e buf (COMMAND_POSITION_PAYLOAD + 4) (sub_eventgroup c);
       buf \<leftarrow> mem_put buf (COMMAND_POSITION_PAYLOAD + 6) (sub_major c);
       buf \<leftarrow> store e buf (COMMAND_POSITION_PAYLOAD + 7) (sub_event c);
       buf \<leftarrow> store e buf (COMMAND_POSITION_PAYLOAD + 9) (sub_pending c);
       Some (buf, err)
     }
   }"

definition subscribe_command_base_deserialize ::
  "endianess_e \<Rightarrow> bytes \<Rightarrow> 'a subscribe_command_base_scheme \<Rightarrow> ('a subscribe_command_base_scheme \<times> error_e) option" where
  "subscribe_command_base_deserialize e buf c = do {
     (c, err) \<leftarrow> command_deserialize e buf c;
     if err \<noteq> ERROR_OK then Some (c, err)
     else do {
       s \<leftarrow> load e buf COMMAND_POSITION_PAYLOAD;
       i \<leftarrow> load e buf (COMMAND_POSITION_PAYLOAD + 2);
       g \<leftarrow> load e buf (COMMAND_POSITION_PAYLOAD + 4);
       mj \<leftarrow> mem_at buf (COMMAND_POSITION_PAYLOAD + 6);
       ev \<leftarrow> load e buf (COMMAND_POSITION_PAYLOAD + 7);
       p \<leftarrow> load e buf (COMMAND_POSITION_PAYLOAD + 9);
       Some (c\<lparr>sub_service := s, sub_instance := i, sub_eventgroup := g, sub_major := mj, sub_event := ev,
         sub_pending := p\<rparr>, err)
     }
   }"

text \<open>\<open>unsubscribe_command\<close> and \<open>expire_command\<close> have the same code.\<close>

definition unsubscribe_serialize ::
  "endianess_e \<Rightarrow> subscribe_command_base \<Rightarrow> bytes \<Rightarrow> (bytes \<times> subscribe_command_base \<times> error_e) option" where
  "unsubscribe_serialize e c buf = (let its_size = COMMAND_HEADER_SIZE + 11 in
     if its_size > MAX_COMMAND_SIZE then Some (buf, c, ERROR_MAX_COMMAND_SIZE_EXCEEDED)
     else do {
       let buf = vec_resize buf its_size 0;
       let c = c\<lparr>cmd_size := of_nat (its_size - COMMAND_HEADER_SIZE)\<rparr>;
       (buf, err) \<leftarrow> subscribe_command_base_serialize e c buf;
       Some (buf, c, err)
     })"

definition unsubscribe_deserialize ::
  "endianess_e \<Rightarrow> bytes \<Rightarrow> subscribe_command_base \<Rightarrow> (subscribe_command_base \<times> error_e) option" where
  "unsubscribe_deserialize e buf c =
     (if length buf < COMMAND_HEADER_SIZE + 11 then Some (c, ERROR_NOT_ENOUGH_BYTES)
      else subscribe_command_base_deserialize e buf c)"

definition expire_serialize ::
  "endianess_e \<Rightarrow> subscribe_command_base \<Rightarrow> bytes \<Rightarrow> (bytes \<times> subscribe_command_base \<times> error_e) option" where
  "expire_serialize e c buf = (let its_size = COMMAND_HEADER_SIZE + 11 in
     if its_size > MAX_COMMAND_SIZE then Some (buf, c, ERROR_MAX_COMMAND_SIZE_EXCEEDED)
     else do {
       let buf = vec_resize buf its_size 0;
       let c = c\<lparr>cmd_size := of_nat (its_size - COMMAND_HEADER_SIZE)\<rparr>;
       (buf, err) \<leftarrow> subscribe_command_base_serialize e c buf;
       Some (buf, c, err)
     })"

definition expire_deserialize ::
  "endianess_e \<Rightarrow> bytes \<Rightarrow> subscribe_command_base \<Rightarrow> (subscribe_command_base \<times> error_e) option" where
  "expire_deserialize e buf c =
     (if length buf < COMMAND_HEADER_SIZE + 11 then Some (c, ERROR_NOT_ENOUGH_BYTES)
      else subscribe_command_base_deserialize e buf c)"

definition subscribe_pay :: "endianess_e \<Rightarrow> 'a subscribe_command_base_scheme \<Rightarrow> bytes" where
  "subscribe_pay e c = mem_of e (sub_service c) @ mem_of e (sub_instance c) @ mem_of e (sub_eventgroup c) @ [sub_major c]
     @ mem_of e (sub_event c) @ mem_of e (sub_pending c)"

lemma length_subscribe_pay [simp]: "length (subscribe_pay e c) = 11"
  by (simp add: subscribe_pay_def)

lemma subscribe_command_base_serialize_bytes:
  "20 \<le> length buf \<Longrightarrow>
     subscribe_command_base_serialize e c buf = Some (cmd_header e c @ subscribe_pay e c @ drop 20 buf, ERROR_OK)"
  by (simp add: subscribe_command_base_serialize_def command_serialize_bytes subscribe_pay_def wire_simps del: mem_put_Some)

lemma subscribe_command_base_deserialize_bytes:
  "cmd_id c0 = cmd_id c \<Longrightarrow>
     subscribe_command_base_deserialize e (cmd_header e c @ subscribe_pay e c @ rest) c0 =
     Some (c\<lparr>subscribe_command_base.more := subscribe_command_base.more c0\<rparr>, ERROR_OK)"
  by (simp add: subscribe_command_base_deserialize_def command_deserialize_bytes subscribe_pay_def wire_simps
      del: mem_at_Some)

lemma subscribe_command_base_deserialize_total:
  "20 \<le> length buf \<Longrightarrow> subscribe_command_base_deserialize e buf c \<noteq> None"
  using command_deserialize_Some [of buf e c] by (auto simp: subscribe_command_base_deserialize_def)

lemma unsubscribe_wire:
  "wire_command i unsubscribe_serialize unsubscribe_deserialize (subscribe_command_base_new i ()) (\<lambda>_ _. True) subscribe_pay"
proof
  fix c :: subscribe_command_base and e buf
  show "unsubscribe_serialize e c buf = Some (cmd_header e (sized (subscribe_pay e c) c) @ subscribe_pay e c,
      sized (subscribe_pay e c) c, ERROR_OK)"
    by (simp add: unsubscribe_serialize_def subscribe_command_base_serialize_bytes sized_def Let_def subscribe_pay_def)
  have "subscribe_pay e (sized bs c) = subscribe_pay e c" for bs
    by (simp add: subscribe_pay_def sized_def)
  then show "cmd_id c = i \<Longrightarrow> unsubscribe_deserialize e (cmd_header e (sized (subscribe_pay e c) c) @ subscribe_pay e c)
      (subscribe_command_base_new i ()) = Some (sized (subscribe_pay e c) c, ERROR_OK)"
    using subscribe_command_base_deserialize_bytes [of "subscribe_command_base_new i ()" "sized (subscribe_pay e c) c" e "[]"]
    by (simp add: unsubscribe_deserialize_def subscribe_command_base_new_def command_new_def)
  show "unsubscribe_deserialize e buf c \<noteq> None"
    by (simp add: unsubscribe_deserialize_def subscribe_command_base_deserialize_total del: not_None_eq)
  show "length buf < 9 \<Longrightarrow> map_option snd (unsubscribe_deserialize e buf c) = Some ERROR_NOT_ENOUGH_BYTES"
    by (simp add: unsubscribe_deserialize_def)
qed

lemma expire_eq_unsubscribe:
  "expire_serialize = unsubscribe_serialize" "expire_deserialize = unsubscribe_deserialize"
  by (auto simp: fun_eq_iff expire_serialize_def unsubscribe_serialize_def expire_deserialize_def unsubscribe_deserialize_def)

interpretation unsubscribe: wire_command UNSUBSCRIBE_ID unsubscribe_serialize unsubscribe_deserialize
  unsubscribe_command_new "\<lambda>_ _. True" subscribe_pay
  unfolding unsubscribe_command_new_def by (rule unsubscribe_wire)

interpretation expire: wire_command EXPIRE_ID expire_serialize expire_deserialize
  expire_command_new "\<lambda>_ _. True" subscribe_pay
  unfolding expire_command_new_def expire_eq_unsubscribe by (rule unsubscribe_wire)

end
