(* ===== verification/Ordered.thy ===== *)
theory Ordered
  imports Prelude "HOL-Library.List_Lexorder" "HOL-Library.Product_Lexorder"
begin

text \<open>
  The ordered containers of the C++ library, \<open>std::set\<close> and \<open>std::map\<close>, as lists in iteration
  order. \<open>k\<close> gives the part of an element that its comparison looks at: \<open>insert\<close> and
  \<open>emplace\<close> keep an equivalent element that is already there, \<open>operator[]\<close> and
  \<open>insert_or_assign\<close> replace it.
\<close>

fun set_insert :: "('a \<Rightarrow> 'k::linorder) \<Rightarrow> 'a \<Rightarrow> 'a list \<Rightarrow> 'a list" where
  "set_insert k x [] = [x]"
| "set_insert k x (y # ys) =
     (if k x < k y then x # y # ys else if k x = k y then y # ys else y # set_insert k x ys)"

fun map_assign :: "('a \<Rightarrow> 'k::linorder) \<Rightarrow> 'a \<Rightarrow> 'a list \<Rightarrow> 'a list" where
  "map_assign k x [] = [x]"
| "map_assign k x (y # ys) =
     (if k x < k y then x # y # ys else if k x = k y then x # ys else y # map_assign k x ys)"

definition ordered :: "('a \<Rightarrow> 'k::linorder) \<Rightarrow> 'a list \<Rightarrow> bool" where
  "ordered k xs \<longleftrightarrow> sorted_wrt (<) (map k xs)"

lemma ordered_Nil [simp]: "ordered k []"
  by (simp add: ordered_def)

lemma ordered_Cons: "ordered k (x # xs) \<longleftrightarrow> (\<forall>y \<in> set xs. k x < k y) \<and> ordered k xs"
  by (simp add: ordered_def)

lemma ordered_append:
  "ordered k (xs @ ys) \<longleftrightarrow> ordered k xs \<and> ordered k ys \<and> (\<forall>x \<in> set xs. \<forall>y \<in> set ys. k x < k y)"
  by (auto simp: ordered_def sorted_wrt_append)

lemma keys_set_insert: "k ` set (set_insert k x xs) = insert (k x) (k ` set xs)"
  by (induction xs) auto

lemma set_set_insert: "set (set_insert k x xs) \<subseteq> insert x (set xs)"
  by (induction xs) auto

lemma set_set_insert_new: "k x \<notin> k ` set xs \<Longrightarrow> set (set_insert k x xs) = insert x (set xs)"
  by (induction xs) auto

lemma set_insert_old: "ordered k xs \<Longrightarrow> k x \<in> k ` set xs \<Longrightarrow> set_insert k x xs = xs"
proof (induction xs)
  case (Cons y ys)
  then show ?case by (fastforce simp: ordered_Cons)
qed simp

lemma ordered_set_insert: "ordered k xs \<Longrightarrow> ordered k (set_insert k x xs)"
proof (induction xs)
  case (Cons y ys)
  have "\<forall>z \<in> set (set_insert k x ys). k y < k z" if "\<not> k x < k y" "k x \<noteq> k y"
    using Cons.prems that set_set_insert [of k x ys] by (auto simp: ordered_Cons)
  then show ?case using Cons by (auto simp: ordered_Cons)
qed (simp add: ordered_Cons)

lemma keys_map_assign: "k ` set (map_assign k x xs) = insert (k x) (k ` set xs)"
  by (induction xs) auto

lemma ordered_map_assign: "ordered k xs \<Longrightarrow> ordered k (map_assign k x xs)"
proof (induction xs)
  case (Cons y ys)
  have "\<forall>z \<in> set (map_assign k x ys). k y < k z" if "\<not> k x < k y" "k x \<noteq> k y"
    using Cons.prems that keys_map_assign [of k x ys] unfolding ordered_Cons by (metis imageE imageI insertE linorder_neqE)
  then show ?case using Cons by (auto simp: ordered_Cons)
qed (simp add: ordered_Cons)

lemma set_insert_last: "(\<And>y. y \<in> set ys \<Longrightarrow> k y < k x) \<Longrightarrow> set_insert k x ys = ys @ [x]"
  by (induction ys) (force dest: less_not_sym)+

lemma map_assign_last: "(\<And>y. y \<in> set ys \<Longrightarrow> k y < k x) \<Longrightarrow> map_assign k x ys = ys @ [x]"
  by (induction ys) (force dest: less_not_sym)+

lemma map_of_map_assign: "map_of (map_assign fst (k, v) kvs) = (map_of kvs)(k \<mapsto> v)"
  by (induction kvs) auto

text \<open>Inserting the elements of an ordered container in order rebuilds it.\<close>

lemma set_insert_rebuild: "ordered k (ys @ xs) \<Longrightarrow> fold (set_insert k) xs ys = ys @ xs"
proof (induction xs arbitrary: ys)
  case (Cons x xs)
  then have "set_insert k x ys = ys @ [x]" by (intro set_insert_last) (auto simp: ordered_append)
  with Cons show ?case by simp
qed simp

lemma map_assign_rebuild: "ordered k (ys @ xs) \<Longrightarrow> fold (map_assign k) xs ys = ys @ xs"
proof (induction xs arbitrary: ys)
  case (Cons x xs)
  then have "map_assign k x ys = ys @ [x]" by (intro map_assign_last) (auto simp: ordered_append)
  with Cons show ?case by simp
qed simp

end
