(* ===== verification/Command_List.thy ===== *)
theory Command_List
  imports Command_Fixed Ordered
begin

text \<open>
  The command classes whose payload has a variable size and is not nested
  (\<open>protocol/src\<close>): client assignment by name, messages, lists of services, lists of
  credentials and event registrations.
\<close>

section \<open>Arrays in a vector\<close>

text \<open>
  The loops that write the elements of a container one after the other and that read a given
  number of them. An element function takes the offset and returns the next one.
\<close>

fun write_each :: "('a \<Rightarrow> bytes \<Rightarrow> nat \<Rightarrow> (bytes \<times> nat) option) \<Rightarrow> 'a list \<Rightarrow> bytes \<Rightarrow> nat \<Rightarrow> (bytes \<times> nat) option" where
  "write_each wr [] buf off = Some (buf, off)"
| "write_each wr (x # xs) buf off = do {
     (buf, off) \<leftarrow> wr x buf off;
     write_each wr xs buf off
   }"

fun read_times :: "(bytes \<Rightarrow> nat \<Rightarrow> ('a \<times> nat) option) \<Rightarrow> ('a \<Rightarrow> 'b \<Rightarrow> 'b) \<Rightarrow> nat \<Rightarrow> bytes \<Rightarrow> nat \<Rightarrow> 'b \<Rightarrow> ('b \<times> nat) option" where
  "read_times rd ins 0 buf off acc = Some (acc, off)"
| "read_times rd ins (Suc n) buf off acc = do {
     (x, off) \<leftarrow> rd buf off;
     read_times rd ins n buf off (ins x acc)
   }"

text \<open>An element writer that puts \<open>enc x\<close> at the offset, and a reader that undoes it.\<close>

definition writes :: "('a \<Rightarrow> bytes \<Rightarrow> nat \<Rightarrow> (bytes \<times> nat) option) \<Rightarrow> ('a \<Rightarrow> bytes) \<Rightarrow> 'a \<Rightarrow> bool" where
  "writes wr enc x \<longleftrightarrow> (\<forall>p rest. length (enc x) \<le> length rest \<longrightarrow>
     wr x (p @ rest) (length p) = Some (p @ enc x @ drop (length (enc x)) rest, length p + length (enc x)))"

definition reads :: "(bytes \<Rightarrow> nat \<Rightarrow> ('a \<times> nat) option) \<Rightarrow> ('a \<Rightarrow> bytes) \<Rightarrow> 'a \<Rightarrow> bool" where
  "reads rd enc x \<longleftrightarrow> (\<forall>p rest. rd (p @ enc x @ rest) (length p) = Some (x, length p + length (enc x)))"

definition reads_width :: "(bytes \<Rightarrow> nat \<Rightarrow> ('a \<times> nat) option) \<Rightarrow> nat \<Rightarrow> bool" where
  "reads_width rd w \<longleftrightarrow> (\<forall>buf off. off + w \<le> length buf \<longrightarrow> (\<exists>x. rd buf off = Some (x, off + w)))"

lemma writesI:
  "(\<And>p rest. length (enc x) \<le> length rest \<Longrightarrow>
      wr x (p @ rest) (length p) = Some (p @ enc x @ drop (length (enc x)) rest, length p + length (enc x))) \<Longrightarrow>
    writes wr enc x"
  by (simp add: writes_def)

lemma readsI:
  "(\<And>p rest. rd (p @ enc x @ rest) (length p) = Some (x, length p + length (enc x))) \<Longrightarrow> reads rd enc x"
  by (simp add: reads_def)

lemma write_each_bytes:
  assumes "\<And>x. x \<in> set xs \<Longrightarrow> writes wr enc x" and "length (concat (map enc xs)) \<le> length rest"
  shows "write_each wr xs (p @ rest) (length p) =
    Some (p @ concat (map enc xs) @ drop (length (concat (map enc xs))) rest, length p + length (concat (map enc xs)))"
  using assms
proof (induction xs arbitrary: p rest)
  case (Cons x xs)
  have "write_each wr xs ((p @ enc x) @ drop (length (enc x)) rest) (length (p @ enc x)) =
      Some ((p @ enc x) @ concat (map enc xs) @ drop (length (concat (map enc xs))) (drop (length (enc x)) rest),
        length (p @ enc x) + length (concat (map enc xs)))"
    using Cons.prems by (intro Cons.IH) auto
  moreover have "wr x (p @ rest) (length p) = Some (p @ enc x @ drop (length (enc x)) rest, length p + length (enc x))"
    using Cons.prems(1) [of x] Cons.prems(2) by (simp add: writes_def)
  ultimately show ?case by (simp add: add.assoc add.commute)
qed simp

lemma read_times_bytes:
  assumes "\<And>x. x \<in> set xs \<Longrightarrow> reads rd enc x"
  shows "read_times rd ins (length xs) (p @ concat (map enc xs) @ rest) (length p) acc =
    Some (fold ins xs acc, length p + length (concat (map enc xs)))"
  using assms
proof (induction xs arbitrary: p acc)
  case (Cons x xs)
  have "read_times rd ins (length xs) ((p @ enc x) @ concat (map enc xs) @ rest) (length (p @ enc x)) (ins x acc) =
      Some (fold ins xs (ins x acc), length (p @ enc x) + length (concat (map enc xs)))"
    using Cons.prems by (intro Cons.IH) auto
  moreover have "rd (p @ enc x @ concat (map enc xs) @ rest) (length p) = Some (x, length p + length (enc x))"
    using Cons.prems [of x] by (simp add: reads_def)
  ultimately show ?case by simp
qed simp

lemma read_times_total:
  assumes "reads_width rd w" and "off + n * w \<le> length buf"
  shows "\<exists>acc'. read_times rd ins n buf off acc = Some (acc', off + n * w)"
  using assms(2)
proof (induction n arbitrary: off acc)
  case (Suc n)
  then obtain x where x: "rd buf off = Some (x, off + w)"
    using assms(1) unfolding reads_width_def by (metis add_leD1 add_le_mono le_add1 mult_Suc add.assoc)
  with Suc.IH [of "off + w" "ins x acc"] Suc.prems show ?case by (simp add: add.assoc)
qed simp

lemma length_concat_map_const:
  "(\<And>x. x \<in> set xs \<Longrightarrow> length (f x) = w) \<Longrightarrow> length (concat (map f xs)) = length xs * w"
  by (induction xs) auto

section \<open>Client assignment\<close>

record assign_client_command = command +
  asg_name :: bytes

definition assign_client_command_new :: assign_client_command where
  "assign_client_command_new = command_new ASSIGN_CLIENT_ID \<lparr> asg_name = [] \<rparr>"

definition assign_client_serialize ::
  "endianess_e \<Rightarrow> assign_client_command \<Rightarrow> bytes \<Rightarrow> (bytes \<times> assign_client_command \<times> error_e) option" where
  "assign_client_serialize e c buf =
     serialize_frame e c buf (COMMAND_HEADER_SIZE + length (asg_name c))
       (\<lambda>buf. if asg_name c \<noteq> [] then mem_write buf COMMAND_POSITION_PAYLOAD (asg_name c) else Some buf)"

text \<open>
  The name is assigned from the range \<open>[&_buffer[9], &_buffer[_buffer.size() - 1])\<close>, which leaves
  out the last byte and is no range at all when the vector ends with the header.
\<close>

definition assign_client_deserialize ::
  "endianess_e \<Rightarrow> bytes \<Rightarrow> assign_client_command \<Rightarrow> (assign_client_command \<times> error_e) option" where
  "assign_client_deserialize e buf c =
     deserialize_frame e buf c COMMAND_HEADER_SIZE (\<lambda>c.
       if cmd_size c > 0 then do {
         name \<leftarrow> mem_range buf COMMAND_POSITION_PAYLOAD (length buf - 1);
         Some (c\<lparr>asg_name := name\<rparr>, ERROR_OK)
       }
       else Some (c, ERROR_OK))"

lemma assign_client_serialize_bytes:
  assumes "9 + length (asg_name c) \<le> MAX_COMMAND_SIZE"
  shows "assign_client_serialize e c buf =
    Some (cmd_header e (sized (asg_name c) c) @ asg_name c, sized (asg_name c) c, ERROR_OK)"
  unfolding assign_client_serialize_def sized_def using assms
  by (subst serialize_frame_bytes [where payload = "asg_name c"]) (auto simp: wire_simps)

lemma assign_client_deserialize_bytes:
  assumes "cmd_id c = ASSIGN_CLIENT_ID" "9 + length (asg_name c) \<le> MAX_COMMAND_SIZE"
  shows "assign_client_deserialize e (cmd_header e (sized (asg_name c) c) @ asg_name c) assign_client_command_new =
    Some ((sized (asg_name c) c)\<lparr>asg_name := butlast (asg_name c)\<rparr>, ERROR_OK)"
proof -
  have "of_nat (length (asg_name c)) = (0 :: u32) \<longleftrightarrow> asg_name c = []"
    using assms(2) by (auto simp: word_of_nat_eq_0_iff dest: dvd_imp_le)
  then show ?thesis
    unfolding assign_client_deserialize_def using assms
    by (subst deserialize_frame_bytes)
      (auto simp: assign_client_command_new_def command_new_def sized_def mem_range_def word_gt_0 wire_simps
        butlast_conv_take Suc_le_eq)
qed

section \<open>Messages\<close>

record send_command = command +
  send_instance :: u16
  send_reliable :: bool
  send_status :: byte
  send_target :: u16
  send_message :: bytes

text \<open>The other members are not initialised by the constructor.\<close>

definition send_command_new :: "id_e \<Rightarrow> u16 \<Rightarrow> bool \<Rightarrow> byte \<Rightarrow> u16 \<Rightarrow> send_command" where
  "send_command_new i a b s t = command_new i \<lparr> send_instance = a, send_reliable = b, send_status = s,
     send_target = t, send_message = [] \<rparr>"

definition send_serialize :: "endianess_e \<Rightarrow> send_command \<Rightarrow> bytes \<Rightarrow> (bytes \<times> send_command \<times> error_e) option" where
  "send_serialize e c buf =
     serialize_frame e c buf (COMMAND_HEADER_SIZE + 6 + length (send_message c)) (\<lambda>buf. do {
       buf \<leftarrow> store e buf COMMAND_POSITION_PAYLOAD (send_instance c);
       buf \<leftarrow> mem_put buf (COMMAND_POSITION_PAYLOAD + 2) (of_bool (send_reliable c));
       buf \<leftarrow> mem_put buf (COMMAND_POSITION_PAYLOAD + 3) (send_status c);
       buf \<leftarrow> store e buf (COMMAND_POSITION_PAYLOAD + 4) (send_target c);
       mem_write buf (COMMAND_POSITION_PAYLOAD + 6) (send_message c)
     })"

definition send_deserialize :: "endianess_e \<Rightarrow> bytes \<Rightarrow> send_command \<Rightarrow> (send_command \<times> error_e) option" where
  "send_deserialize e buf c =
     deserialize_frame e buf c (COMMAND_HEADER_SIZE + 6) (\<lambda>c. do {
       i \<leftarrow> load e buf COMMAND_POSITION_PAYLOAD;
       r \<leftarrow> mem_at buf (COMMAND_POSITION_PAYLOAD + 2);
       st \<leftarrow> mem_at buf (COMMAND_POSITION_PAYLOAD + 3);
       t \<leftarrow> load e buf (COMMAND_POSITION_PAYLOAD + 4);
       m \<leftarrow> mem_sub buf (COMMAND_POSITION_PAYLOAD + 6) (length buf - (COMMAND_POSITION_PAYLOAD + 6));
       Some (c\<lparr>send_instance := i, send_reliable := (r \<noteq> 0), send_status := st, send_target := t, send_message := m\<rparr>,
         ERROR_OK)
     })"

definition send_pay :: "endianess_e \<Rightarrow> send_command \<Rightarrow> bytes" where
  "send_pay e c = mem_of e (send_instance c) @ [of_bool (send_reliable c)] @ [send_status c] @ mem_of e (send_target c)
     @ send_message c"

interpretation send: wire_command i send_serialize send_deserialize "send_command_new i a b s t" "\<lambda>_ _. True" send_pay
  for i a b s t
  by (rule wire_commandI [OF send_serialize_def send_deserialize_def],
      simp_all add: wire_simps send_pay_def send_command_new_def command_new_def
        del: mem_put_Some mem_at_Some mem_write_Some) simp_all

section \<open>Lists of services\<close>

text \<open>\<open>std::set<service>\<close> compares the service and the instance only.\<close>

definition service_key :: "service \<Rightarrow> u16 \<times> u16" where
  "service_key s = (svc_service s, svc_instance s)"

definition service_write :: "endianess_e \<Rightarrow> service \<Rightarrow> bytes \<Rightarrow> nat \<Rightarrow> (bytes \<times> nat) option" where
  "service_write e s buf off = do {
     buf \<leftarrow> store e buf off (svc_service s);
     buf \<leftarrow> store e buf (off + 2) (svc_instance s);
     buf \<leftarrow> mem_put buf (off + 4) (svc_major s);
     buf \<leftarrow> store e buf (off + 5) (svc_minor s);
     Some (buf, off + 9)
   }"

definition service_read :: "endianess_e \<Rightarrow> bytes \<Rightarrow> nat \<Rightarrow> (service \<times> nat) option" where
  "service_read e buf off = do {
     s \<leftarrow> load e buf off;
     i \<leftarrow> load e buf (off + 2);
     mj \<leftarrow> mem_at buf (off + 4);
     mn \<leftarrow> load e buf (off + 5);
     Some (\<lparr> svc_service = s, svc_instance = i, svc_major = mj, svc_minor = mn \<rparr>, off + 9)
   }"

lemma writes_service: "writes (service_write e) (service_pay e) s"
  by (rule writesI) (simp add: service_write_def service_pay_def wire_simps del: mem_put_Some)

lemma reads_service: "reads (service_read e) (service_pay e) s"
  by (rule readsI) (simp add: service_read_def wire_simps del: mem_at_Some load_Some)

lemma reads_width_service: "reads_width (service_read e) 9"
  by (simp add: reads_width_def service_read_def)

record multiple_services_command_base = command +
  mul_services :: "service list"

definition multiple_services_command_base_new :: "id_e \<Rightarrow> multiple_services_command_base" where
  "multiple_services_command_base_new i = command_new i \<lparr> mul_services = [] \<rparr>"

definition request_service_command_new :: multiple_services_command_base where
  "request_service_command_new = multiple_services_command_base_new REQUEST_SERVICE_ID"

definition offered_services_response_command_new :: multiple_services_command_base where
  "offered_services_response_command_new = multiple_services_command_base_new OFFERED_SERVICES_RESPONSE_ID"

definition add_service :: "service \<Rightarrow> multiple_services_command_base \<Rightarrow> multiple_services_command_base" where
  "add_service s c = c\<lparr>mul_services := set_insert service_key s (mul_services c)\<rparr>"

definition multiple_services_serialize ::
  "endianess_e \<Rightarrow> multiple_services_command_base \<Rightarrow> bytes \<Rightarrow> (bytes \<times> multiple_services_command_base \<times> error_e) option" where
  "multiple_services_serialize e c buf =
     serialize_frame e c buf (COMMAND_HEADER_SIZE + length (mul_services c) * 9) (\<lambda>buf.
       map_option fst (write_each (service_write e) (mul_services c) buf COMMAND_POSITION_PAYLOAD))"

definition multiple_services_deserialize ::
  "endianess_e \<Rightarrow> bytes \<Rightarrow> multiple_services_command_base \<Rightarrow> (multiple_services_command_base \<times> error_e) option" where
  "multiple_services_deserialize e buf c =
     deserialize_frame e buf c COMMAND_HEADER_SIZE (\<lambda>c. do {
       let its_count = (length buf - COMMAND_POSITION_PAYLOAD) div 9;
       (ss, off) \<leftarrow> read_times (service_read e) (set_insert service_key) its_count buf COMMAND_POSITION_PAYLOAD (mul_services c);
       Some (c\<lparr>mul_services := ss\<rparr>, ERROR_OK)
     })"

definition multiple_services_pay :: "endianess_e \<Rightarrow> multiple_services_command_base \<Rightarrow> bytes" where
  "multiple_services_pay e c = concat (map (service_pay e) (mul_services c))"

lemma length_services: "length (concat (map (service_pay e) ss)) = length ss * 9"
  by (rule length_concat_map_const) simp

lemma write_services:
  "length rest = length ss * 9 \<Longrightarrow>
     write_each (service_write e) ss (p @ rest) (length p) = Some (p @ concat (map (service_pay e) ss), length p + length ss * 9)"
  using write_each_bytes [OF writes_service, where rest = rest] by (simp add: length_services)

lemma read_services:
  "read_times (service_read e) ins (length ss) (p @ concat (map (service_pay e) ss)) (length p) acc =
     Some (fold ins ss acc, length p + length ss * 9)"
  using read_times_bytes [OF reads_service, where rest = "[]"] by (simp add: length_services)

lemma multiple_services_wire:
  "wire_command i multiple_services_serialize multiple_services_deserialize (multiple_services_command_base_new i)
     (\<lambda>_ c. ordered service_key (mul_services c)) multiple_services_pay"
proof (rule wire_commandI [OF multiple_services_serialize_def multiple_services_deserialize_def])
  fix e c and h rest :: bytes
  assume "length h = 9" "length rest = length (multiple_services_pay e c)"
  then show "map_option fst (write_each (service_write e) (mul_services c) (h @ rest) COMMAND_POSITION_PAYLOAD)
      = Some (h @ multiple_services_pay e c)"
    using write_services [of rest "mul_services c" e h] by (simp add: multiple_services_pay_def length_services)
next
  fix e and c :: multiple_services_command_base and h :: bytes
  assume "length h = 9" "ordered service_key (mul_services c)"
  then have "read_times (service_read e) (set_insert service_key) (length (mul_services c)) (h @ multiple_services_pay e c) 9 []
      = Some (mul_services c, 9 + length (mul_services c) * 9)"
    using read_services [of e "set_insert service_key" "mul_services c" h "[]"]
      set_insert_rebuild [of service_key "[]" "mul_services c"]
    by (simp add: multiple_services_pay_def)
  moreover have "(length (h @ multiple_services_pay e c) - 9) div 9 = length (mul_services c)"
    using \<open>length h = 9\<close> by (simp add: multiple_services_pay_def length_services)
  ultimately show "(let its_count = (length (h @ multiple_services_pay e c) - COMMAND_POSITION_PAYLOAD) div 9 in
      read_times (service_read e) (set_insert service_key) its_count (h @ multiple_services_pay e c) COMMAND_POSITION_PAYLOAD
        (mul_services ((multiple_services_command_base_new i)\<lparr>cmd_id := cmd_id c, cmd_version := cmd_version c,
           cmd_client := cmd_client c, cmd_size := of_nat (length (multiple_services_pay e c))\<rparr>)) \<bind>
      (\<lambda>(ss, off). Some ((multiple_services_command_base_new i)\<lparr>cmd_id := cmd_id c, cmd_version := cmd_version c,
           cmd_client := cmd_client c, cmd_size := of_nat (length (multiple_services_pay e c)), mul_services := ss\<rparr>, ERROR_OK)))
      = Some (c\<lparr>cmd_size := of_nat (length (multiple_services_pay e c))\<rparr>, ERROR_OK)"
    by (simp add: Let_def multiple_services_command_base_new_def command_new_def del: length_append)
next
  fix e and buf :: bytes and c :: multiple_services_command_base assume "COMMAND_HEADER_SIZE \<le> length buf"
  then have "9 + (length buf - 9) div 9 * 9 \<le> length buf"
    using div_times_less_eq_dividend [of "length buf - 9" 9] by linarith
  from read_times_total [OF reads_width_service this, of e "set_insert service_key" "mul_services c"]
  show "(let its_count = (length buf - COMMAND_POSITION_PAYLOAD) div 9 in
      read_times (service_read e) (set_insert service_key) its_count buf COMMAND_POSITION_PAYLOAD (mul_services c) \<bind>
      (\<lambda>(ss, off). Some (c\<lparr>mul_services := ss\<rparr>, ERROR_OK))) \<noteq> None"
    by (elim exE) (simp add: Let_def)
qed (simp_all add: multiple_services_command_base_new_def command_new_def multiple_services_pay_def length_services)

interpretation request_service: wire_command REQUEST_SERVICE_ID multiple_services_serialize multiple_services_deserialize
  request_service_command_new "\<lambda>_ c. ordered service_key (mul_services c)" multiple_services_pay
  unfolding request_service_command_new_def by (rule multiple_services_wire)

interpretation offered_services_response: wire_command OFFERED_SERVICES_RESPONSE_ID multiple_services_serialize
  multiple_services_deserialize offered_services_response_command_new "\<lambda>_ c. ordered service_key (mul_services c)"
  multiple_services_pay
  unfolding offered_services_response_command_new_def by (rule multiple_services_wire)

lemma add_service_ordered:
  "ordered service_key (mul_services c) \<Longrightarrow> ordered service_key (mul_services (add_service s c))"
  by (simp add: add_service_def ordered_set_insert)

section \<open>Credentials\<close>

record update_security_credentials_command = command +
  sec_credentials :: "(u32 \<times> u32) list"

definition update_security_credentials_command_new :: update_security_credentials_command where
  "update_security_credentials_command_new = command_new UPDATE_SECURITY_CREDENTIALS_ID \<lparr> sec_credentials = [] \<rparr>"

definition credential_write :: "endianess_e \<Rightarrow> u32 \<times> u32 \<Rightarrow> bytes \<Rightarrow> nat \<Rightarrow> (bytes \<times> nat) option" where
  "credential_write e p buf off = do {
     buf \<leftarrow> store e buf off (fst p);
     buf \<leftarrow> store e buf (off + 4) (snd p);
     Some (buf, off + 8)
   }"

definition credential_read :: "endianess_e \<Rightarrow> bytes \<Rightarrow> nat \<Rightarrow> ((u32 \<times> u32) \<times> nat) option" where
  "credential_read e buf off = do {
     u \<leftarrow> load e buf off;
     g \<leftarrow> load e buf (off + 4);
     Some ((u, g), off + 8)
   }"

definition update_security_credentials_serialize ::
  "endianess_e \<Rightarrow> update_security_credentials_command \<Rightarrow> bytes \<Rightarrow>
     (bytes \<times> update_security_credentials_command \<times> error_e) option" where
  "update_security_credentials_serialize e c buf =
     serialize_frame e c buf (COMMAND_HEADER_SIZE + length (sec_credentials c) * 8) (\<lambda>buf.
       map_option fst (write_each (credential_write e) (sec_credentials c) buf COMMAND_HEADER_SIZE))"

definition update_security_credentials_deserialize ::
  "endianess_e \<Rightarrow> bytes \<Rightarrow> update_security_credentials_command \<Rightarrow> (update_security_credentials_command \<times> error_e) option" where
  "update_security_credentials_deserialize e buf c =
     deserialize_frame e buf c COMMAND_HEADER_SIZE (\<lambda>c.
       if COMMAND_HEADER_SIZE + unat (cmd_size c) > length buf then Some (c, ERROR_NOT_ENOUGH_BYTES)
       else do {
         let its_count = unat (cmd_size c) div 8;
         (cs, off) \<leftarrow> read_times (credential_read e) (set_insert (\<lambda>p. p)) its_count buf COMMAND_HEADER_SIZE (sec_credentials c);
         Some (c\<lparr>sec_credentials := cs\<rparr>, ERROR_OK)
       })"

definition credential_pay :: "endianess_e \<Rightarrow> u32 \<times> u32 \<Rightarrow> bytes" where
  "credential_pay e p = mem_of e (fst p) @ mem_of e (snd p)"

definition credentials_pay :: "endianess_e \<Rightarrow> update_security_credentials_command \<Rightarrow> bytes" where
  "credentials_pay e c = concat (map (credential_pay e) (sec_credentials c))"

lemma writes_credential: "writes (credential_write e) (credential_pay e) p"
  by (rule writesI) (simp add: credential_write_def credential_pay_def wire_simps)

lemma reads_credential: "reads (credential_read e) (credential_pay e) p"
  by (rule readsI) (simp add: credential_read_def credential_pay_def wire_simps del: load_Some)

lemma reads_width_credential: "reads_width (credential_read e) 8"
  by (simp add: reads_width_def credential_read_def)

lemma length_credentials: "length (concat (map (credential_pay e) ps)) = length ps * 8"
  by (rule length_concat_map_const) (simp add: credential_pay_def)

lemma write_credentials:
  "length rest = length ps * 8 \<Longrightarrow>
     write_each (credential_write e) ps (p @ rest) (length p) = Some (p @ concat (map (credential_pay e) ps), length p + length ps * 8)"
  using write_each_bytes [OF writes_credential, where rest = rest] by (simp add: length_credentials)

lemma read_credentials:
  "read_times (credential_read e) ins (length ps) (p @ concat (map (credential_pay e) ps)) (length p) acc =
     Some (fold ins ps acc, length p + length ps * 8)"
  using read_times_bytes [OF reads_credential, where rest = "[]"] by (simp add: length_credentials)

interpretation update_security_credentials: wire_command UPDATE_SECURITY_CREDENTIALS_ID
  update_security_credentials_serialize update_security_credentials_deserialize update_security_credentials_command_new
  "\<lambda>_ c. ordered (\<lambda>p. p) (sec_credentials c)" credentials_pay
proof
  fix c :: update_security_credentials_command and e and buf :: bytes
  let ?pay = "credentials_pay e c"
  assume c: "cmd_id c = UPDATE_SECURITY_CREDENTIALS_ID" "ordered (\<lambda>p. p) (sec_credentials c)"
    and len: "9 + length ?pay \<le> MAX_COMMAND_SIZE"
  have n: "length ?pay = length (sec_credentials c) * 8"
    by (simp add: credentials_pay_def length_credentials)
  have w: "write_each (credential_write e) (sec_credentials c) (h @ rest) 9 = Some (h @ ?pay, 9 + length ?pay)"
    if "length h = 9" "length rest = length (sec_credentials c) * 8" for h rest
    using write_credentials [of rest "sec_credentials c" e h] that by (simp add: credentials_pay_def length_credentials)
  show "update_security_credentials_serialize e c buf = Some (cmd_header e (sized ?pay c) @ ?pay, sized ?pay c, ERROR_OK)"
    unfolding update_security_credentials_serialize_def sized_def using len n
    by (subst serialize_frame_bytes [where payload = ?pay]) (auto simp: w)
  have r: "read_times (credential_read e) (set_insert (\<lambda>p. p)) (length (sec_credentials c)) (h @ ?pay) 9 [] =
      Some (sec_credentials c, 9 + length ?pay)" if "length h = 9" for h
    using read_credentials [of e "set_insert (\<lambda>p. p)" "sec_credentials c" h "[]"] that
      set_insert_rebuild [of "\<lambda>p. p" "[]" "sec_credentials c"] c(2)
    by (simp add: credentials_pay_def length_credentials)
  have u: "unat (of_nat (length (sec_credentials c) * 8) :: u32) = length (sec_credentials c) * 8"
    using len n by (intro unat_u32_of_nat) simp
  show "update_security_credentials_deserialize e (cmd_header e (sized ?pay c) @ ?pay) update_security_credentials_command_new
      = Some (sized ?pay c, ERROR_OK)"
    unfolding update_security_credentials_deserialize_def using c(1) n
    by (subst deserialize_frame_bytes)
      (simp_all add: update_security_credentials_command_new_def command_new_def sized_def u r del: of_nat_mult)
next
  fix e and buf :: bytes and c :: update_security_credentials_command
  have "\<exists>cs off. read_times (credential_read e) (set_insert (\<lambda>p. p)) (unat (cmd_size c') div 8) buf 9 (sec_credentials c') = Some (cs, off)"
    if "9 + unat (cmd_size c') \<le> length buf" for c' :: update_security_credentials_command
    using read_times_total [OF reads_width_credential, of 9 "unat (cmd_size c') div 8" buf] that
      div_times_less_eq_dividend [of "unat (cmd_size c')" 8] by (meson add_le_mono1 add_left_mono le_trans)
  then show "update_security_credentials_deserialize e buf c \<noteq> None"
    unfolding update_security_credentials_deserialize_def
    by (intro deserialize_frame_total) (force simp: Let_def not_less)+
  show "length buf < 9 \<Longrightarrow> map_option snd (update_security_credentials_deserialize e buf c) = Some ERROR_NOT_ENOUGH_BYTES"
    by (simp add: update_security_credentials_deserialize_def deserialize_frame_short)
qed

end
