(* ===== verification/Command_Events.thy ===== *)
theory Command_Events
  imports Command_List
begin

text \<open>
  Event registrations (\<open>protocol/src/register_event.cpp\<close>, \<open>register_events_command.cpp\<close>):
  a command carries a sequence of registrations of variable size, each with its set of
  event groups. Registrations are serialized into a vector of the size accumulated by
  \<open>add_registration\<close> and read until the vector is exhausted.
\<close>

record register_event =
  re_service :: u16
  re_instance :: u16
  re_event :: u16
  re_type :: byte
  re_provided :: bool
  re_reliability :: byte
  re_cyclic :: bool
  re_num :: u16
  re_groups :: "u16 list"

definition register_event_new :: register_event where
  "register_event_new = \<lparr> re_service = 0xFFFF, re_instance = 0xFFFF, re_event = 0xFFFF, re_type = 0xFF,
     re_provided = False, re_reliability = 0xFF, re_cyclic = False, re_num = 0, re_groups = [] \<rparr>"

definition set_eventgroups :: "u16 list \<Rightarrow> register_event \<Rightarrow> register_event" where
  "set_eventgroups gs r = r\<lparr>re_groups := gs, re_num := of_nat (length gs)\<rparr>"

definition group_write :: "endianess_e \<Rightarrow> u16 \<Rightarrow> bytes \<Rightarrow> nat \<Rightarrow> (bytes \<times> nat) option" where
  "group_write e g buf off = do {
     buf \<leftarrow> store e buf off g;
     Some (buf, off + 2)
   }"

definition group_read :: "endianess_e \<Rightarrow> bytes \<Rightarrow> nat \<Rightarrow> (u16 \<times> nat) option" where
  "group_read e buf off = do {
     g \<leftarrow> load e buf off;
     Some (g, off + 2)
   }"

text \<open>The static part of a registration has twelve bytes.\<close>

definition event_fields_store :: "endianess_e \<Rightarrow> register_event \<Rightarrow> bytes \<Rightarrow> nat \<Rightarrow> bytes option" where
  "event_fields_store e r buf off = do {
     buf \<leftarrow> store e buf off (re_service r);
     buf \<leftarrow> store e buf (off + 2) (re_instance r);
     buf \<leftarrow> store e buf (off + 4) (re_event r);
     buf \<leftarrow> mem_put buf (off + 6) (re_type r);
     buf \<leftarrow> mem_put buf (off + 7) (of_bool (re_provided r));
     buf \<leftarrow> mem_put buf (off + 8) (re_reliability r);
     buf \<leftarrow> mem_put buf (off + 9) (of_bool (re_cyclic r));
     store e buf (off + 10) (re_num r)
   }"

definition event_fields_load :: "endianess_e \<Rightarrow> bytes \<Rightarrow> nat \<Rightarrow> register_event \<Rightarrow> register_event option" where
  "event_fields_load e buf off r = do {
     s \<leftarrow> load e buf off;
     i \<leftarrow> load e buf (off + 2);
     ev \<leftarrow> load e buf (off + 4);
     t \<leftarrow> mem_at buf (off + 6);
     p \<leftarrow> mem_at buf (off + 7);
     rel \<leftarrow> mem_at buf (off + 8);
     cy \<leftarrow> mem_at buf (off + 9);
     n \<leftarrow> load e buf (off + 10);
     Some (r\<lparr>re_service := s, re_instance := i, re_event := ev, re_type := t, re_provided := (p \<noteq> 0),
       re_reliability := rel, re_cyclic := (cy \<noteq> 0), re_num := n\<rparr>)
   }"

definition register_event_serialize ::
  "endianess_e \<Rightarrow> register_event \<Rightarrow> bytes \<Rightarrow> nat \<Rightarrow> error_e \<Rightarrow> (bytes \<times> nat \<times> error_e) option" where
  "register_event_serialize e r buf off err =
     (if length buf < off + 12 then Some (buf, off, ERROR_NOT_ENOUGH_BYTES)
      else do {
        buf \<leftarrow> event_fields_store e r buf off;
        let off = off + 12;
        if length buf < off + unat (re_num r) * 2 then Some (buf, off, ERROR_NOT_ENOUGH_BYTES)
        else do {
          (buf, off) \<leftarrow> write_each (group_write e) (re_groups r) buf off;
          Some (buf, off, err)
        }
      })"

definition register_event_deserialize ::
  "endianess_e \<Rightarrow> bytes \<Rightarrow> nat \<Rightarrow> register_event \<Rightarrow> error_e \<Rightarrow> (register_event \<times> nat \<times> error_e) option" where
  "register_event_deserialize e buf off r err =
     (if length buf < off + 12 then Some (r, off, ERROR_NOT_ENOUGH_BYTES)
      else do {
        r \<leftarrow> event_fields_load e buf off r;
        let off = off + 12;
        if length buf < off + unat (re_num r) * 2 then Some (r, off, ERROR_NOT_ENOUGH_BYTES)
        else do {
          (gs, off) \<leftarrow> read_times (group_read e) (set_insert (\<lambda>g. g)) (unat (re_num r)) buf off [];
          Some (r\<lparr>re_groups := gs\<rparr>, off, err)
        }
      })"

record register_events_command = command +
  registrations :: "register_event list"

definition register_events_command_new :: register_events_command where
  "register_events_command_new = command_new REGISTER_EVENT_ID \<lparr> registrations = [] \<rparr>"

definition add_registration :: "register_event \<Rightarrow> register_events_command \<Rightarrow> bool \<times> register_events_command" where
  "add_registration r c =
     (let its_size = unat (cmd_size c) + COMMAND_HEADER_SIZE + 12 + unat (re_num r) * 2 in
      if its_size > MAX_COMMAND_SIZE then (False, c)
      else (True, c\<lparr>cmd_size := of_nat (its_size - COMMAND_HEADER_SIZE), registrations := registrations c @ [r]\<rparr>))"

fun registrations_serialize ::
  "endianess_e \<Rightarrow> register_event list \<Rightarrow> bytes \<Rightarrow> nat \<Rightarrow> error_e \<Rightarrow> (bytes \<times> error_e) option" where
  "registrations_serialize e [] buf off err = Some (buf, err)"
| "registrations_serialize e (r # rs) buf off err = do {
     (buf, off, err) \<leftarrow> register_event_serialize e r buf off err;
     if err \<noteq> ERROR_OK then Some (buf, err) else registrations_serialize e rs buf off err
   }"

definition register_events_serialize ::
  "endianess_e \<Rightarrow> register_events_command \<Rightarrow> bytes \<Rightarrow> (bytes \<times> register_events_command \<times> error_e) option" where
  "register_events_serialize e c buf =
     (if unat (cmd_size c) + COMMAND_HEADER_SIZE > MAX_COMMAND_SIZE then Some (buf, c, ERROR_MAX_COMMAND_SIZE_EXCEEDED)
      else do {
        let buf = vec_resize buf (unat (cmd_size c) + COMMAND_HEADER_SIZE) 0;
        (buf, err) \<leftarrow> command_serialize e c buf;
        if err \<noteq> ERROR_OK then Some (buf, c, err)
        else do {
          (buf, err) \<leftarrow> registrations_serialize e (registrations c) buf COMMAND_HEADER_SIZE err;
          Some (buf, c, err)
        }
      })"

text \<open>The loop \<open>while (its_offset < _buffer.size())\<close>; \<^term>\<open>None\<close> also stands for a loop that does not end.\<close>

partial_function (option) registrations_deserialize ::
  "endianess_e \<Rightarrow> bytes \<Rightarrow> nat \<Rightarrow> register_event list \<Rightarrow> error_e \<Rightarrow> (register_event list \<times> error_e) option" where
  "registrations_deserialize e buf off rs err =
     (if off < length buf then do {
        (r, off, err) \<leftarrow> register_event_deserialize e buf off register_event_new err;
        if err \<noteq> ERROR_OK then Some (rs, err) else registrations_deserialize e buf off (rs @ [r]) err
      }
      else Some (rs, err))"

declare registrations_deserialize.simps [code]

definition register_events_deserialize ::
  "endianess_e \<Rightarrow> bytes \<Rightarrow> register_events_command \<Rightarrow> (register_events_command \<times> error_e) option" where
  "register_events_deserialize e buf c = (let c = c\<lparr>registrations := []\<rparr> in
     deserialize_frame e buf c COMMAND_HEADER_SIZE (\<lambda>c. do {
       (rs, err) \<leftarrow> registrations_deserialize e buf COMMAND_HEADER_SIZE (registrations c) ERROR_OK;
       Some (c\<lparr>registrations := rs\<rparr>, err)
     }))"

section \<open>One registration\<close>

definition event_fields_pay :: "endianess_e \<Rightarrow> register_event \<Rightarrow> bytes" where
  "event_fields_pay e r = mem_of e (re_service r) @ mem_of e (re_instance r) @ mem_of e (re_event r) @ [re_type r]
     @ [of_bool (re_provided r)] @ [re_reliability r] @ [of_bool (re_cyclic r)] @ mem_of e (re_num r)"

definition register_event_pay :: "endianess_e \<Rightarrow> register_event \<Rightarrow> bytes" where
  "register_event_pay e r = event_fields_pay e r @ concat (map (mem_of e) (re_groups r))"

text \<open>A registration whose counter matches its event groups.\<close>

definition register_event_ok :: "register_event \<Rightarrow> bool" where
  "register_event_ok r \<longleftrightarrow> ordered (\<lambda>g. g) (re_groups r) \<and> unat (re_num r) = length (re_groups r)"

lemma set_eventgroups_ok: "ordered (\<lambda>g. g) gs \<Longrightarrow> length gs < 65536 \<Longrightarrow> register_event_ok (set_eventgroups gs r)"
  by (simp add: register_event_ok_def set_eventgroups_def unat_of_nat take_bit_nat_eq_self)

lemma length_groups: "length (concat (map (mem_of e) gs)) = length (gs :: u16 list) * 2"
  by (rule length_concat_map_const) simp

lemma length_event_fields_pay [simp]: "length (event_fields_pay e r) = 12"
  by (simp add: event_fields_pay_def)

lemma length_register_event_pay: "length (register_event_pay e r) = 12 + length (re_groups r) * 2"
  by (simp add: register_event_pay_def length_groups)

lemma writes_group: "writes (group_write e) (mem_of e) g"
  by (rule writesI) (simp add: group_write_def wire_simps)

lemma reads_group: "reads (group_read e) (mem_of e) g"
  by (rule readsI) (simp add: group_read_def wire_simps del: load_Some)

lemma reads_width_group: "reads_width (group_read e) 2"
  by (simp add: reads_width_def group_read_def)

lemma event_fields_store_bytes:
  "12 \<le> length rest \<Longrightarrow> event_fields_store e r (p @ rest) (length p) = Some (p @ event_fields_pay e r @ drop 12 rest)"
  by (simp add: event_fields_store_def event_fields_pay_def wire_simps del: mem_put_Some)

lemma event_fields_load_bytes:
  "event_fields_load e (p @ event_fields_pay e r @ rest) (length p) r0 = Some (r\<lparr>re_groups := re_groups r0\<rparr>)"
  by (simp add: event_fields_load_def event_fields_pay_def wire_simps del: mem_at_Some load_Some)

lemma event_fields_load_total: "off + 12 \<le> length buf \<Longrightarrow> \<exists>r'. event_fields_load e buf off r = Some r'"
  by (simp add: event_fields_load_def)

lemma register_event_serialize_bytes:
  assumes "register_event_ok r" "length (register_event_pay e r) \<le> length rest"
  shows "register_event_serialize e r (p @ rest) (length p) err =
    Some (p @ register_event_pay e r @ drop (length (register_event_pay e r)) rest,
      length p + length (register_event_pay e r), err)"
proof -
  have len: "12 + length (re_groups r) * 2 \<le> length rest" using assms(2) by (simp add: length_register_event_pay)
  have "unat (re_num r) = length (re_groups r)" using assms(1) by (simp add: register_event_ok_def)
  moreover have "write_each (group_write e) (re_groups r) (p @ event_fields_pay e r @ drop 12 rest) (length p + 12) =
     Some (p @ register_event_pay e r @ drop (length (register_event_pay e r)) rest, length p + length (register_event_pay e r))"
    using write_each_bytes [of "re_groups r" "group_write e" "mem_of e" "drop 12 rest" "p @ event_fields_pay e r",
        OF writes_group] len
    by (simp add: length_groups register_event_pay_def add.commute)
  ultimately show ?thesis
    using len unfolding register_event_serialize_def by (simp add: event_fields_store_bytes Let_def)
qed

lemma register_event_deserialize_bytes:
  assumes "register_event_ok r"
  shows "register_event_deserialize e (p @ register_event_pay e r @ rest) (length p) r0 err =
    Some (r, length p + length (register_event_pay e r), err)"
proof -
  have n: "unat (re_num r) = length (re_groups r)" using assms by (simp add: register_event_ok_def)
  have "read_times (group_read e) (set_insert (\<lambda>g. g)) (length (re_groups r))
      (p @ event_fields_pay e r @ concat (map (mem_of e) (re_groups r)) @ rest) (length p + 12) [] =
      Some (re_groups r, length p + length (register_event_pay e r))"
    using read_times_bytes [of "re_groups r" "group_read e" "mem_of e" "set_insert (\<lambda>g. g)" "p @ event_fields_pay e r" rest "[]",
        OF reads_group] assms set_insert_rebuild [of "\<lambda>g. g" "[]" "re_groups r"]
    by (simp add: length_groups length_register_event_pay register_event_ok_def)
  then show ?thesis
    by (simp add: register_event_deserialize_def register_event_pay_def event_fields_load_bytes n Let_def length_groups)
qed

lemma register_event_deserialize_total:
  assumes "off < length buf"
  obtains r' off' where "register_event_deserialize e buf off r err = Some (r', off', err)" "off < off'"
  | r' off' where "register_event_deserialize e buf off r err = Some (r', off', ERROR_NOT_ENOUGH_BYTES)"
proof (cases "length buf < off + 12")
  case True
  then show ?thesis using that(2) by (simp add: register_event_deserialize_def)
next
  case False
  then obtain r' where r': "event_fields_load e buf off r = Some r'"
    using event_fields_load_total [of off buf e r] by auto
  show ?thesis
  proof (cases "length buf < off + 12 + unat (re_num r') * 2")
    case True
    then show ?thesis using that(2) False r' by (simp add: register_event_deserialize_def Let_def)
  next
    case lenok: False
    then obtain gs where "read_times (group_read e) (set_insert (\<lambda>g. g)) (unat (re_num r')) buf (off + 12) [] =
        Some (gs, off + 12 + unat (re_num r') * 2)"
      using read_times_total [OF reads_width_group, of "off + 12" "unat (re_num r')" buf e "set_insert (\<lambda>g. g)" "[]"] by auto
    then show ?thesis
      using that(1) False lenok r' by (simp add: register_event_deserialize_def Let_def)
  qed
qed

section \<open>The command\<close>

definition register_events_pay :: "endianess_e \<Rightarrow> register_events_command \<Rightarrow> bytes" where
  "register_events_pay e c = concat (map (register_event_pay e) (registrations c))"

text \<open>The size of the payload, and the invariant that \<open>add_registration\<close> maintains.\<close>

definition registrations_size :: "register_event list \<Rightarrow> nat" where
  "registrations_size rs = sum_list (map (\<lambda>r. 12 + length (re_groups r) * 2) rs)"

definition register_events_ok :: "register_events_command \<Rightarrow> bool" where
  "register_events_ok c \<longleftrightarrow> list_all register_event_ok (registrations c) \<and>
     unat (cmd_size c) = registrations_size (registrations c) \<and> 9 + registrations_size (registrations c) \<le> MAX_COMMAND_SIZE"

lemma length_registrations: "length (concat (map (register_event_pay e) rs)) = registrations_size rs"
  by (induction rs) (simp_all add: registrations_size_def length_register_event_pay)

lemma add_registration_ok:
  assumes "register_events_ok c" "register_event_ok r"
  shows "register_events_ok (snd (add_registration r c))"
proof -
  let ?n = "registrations_size (registrations c) + 12 + length (re_groups r) * 2"
  have n: "?n = registrations_size (registrations c @ [r])" by (simp add: registrations_size_def)
  have c: "unat (cmd_size c) = registrations_size (registrations c)" "unat (re_num r) = length (re_groups r)"
    using assms by (simp_all add: register_events_ok_def register_event_ok_def)
  show ?thesis
  proof (cases "9 + ?n \<le> MAX_COMMAND_SIZE")
    case True
    then have "unat (of_nat (registrations_size (registrations c @ [r])) :: u32) = registrations_size (registrations c @ [r])"
      using n by (intro unat_u32_of_nat) simp
    then show ?thesis
      using assms True c unfolding register_events_ok_def add_registration_def
      using n by (simp add: Let_def add.commute add.left_commute)
  next
    case False
    then show ?thesis using assms c by (simp add: add_registration_def)
  qed
qed

lemma registrations_serialize_bytes:
  assumes "list_all register_event_ok rs" "length rest = registrations_size rs"
  shows "registrations_serialize e rs (p @ rest) (length p) ERROR_OK = Some (p @ concat (map (register_event_pay e) rs), ERROR_OK)"
  using assms
proof (induction rs arbitrary: p rest)
  case (Cons r rs)
  let ?b = "register_event_pay e r"
  have len: "length ?b \<le> length rest" "length (drop (length ?b) rest) = registrations_size rs"
    using Cons.prems(2) by (simp_all add: registrations_size_def length_register_event_pay)
  have "registrations_serialize e rs ((p @ ?b) @ drop (length ?b) rest) (length (p @ ?b)) ERROR_OK =
      Some ((p @ ?b) @ concat (map (register_event_pay e) rs), ERROR_OK)"
    using Cons.prems(1) len(2) by (intro Cons.IH) simp_all
  then show ?case
    using register_event_serialize_bytes [of r e rest p ERROR_OK] Cons.prems(1) len(1) by simp
qed (simp add: registrations_size_def)

lemma registrations_deserialize_bytes:
  assumes "list_all register_event_ok rs"
  shows "registrations_deserialize e (p @ concat (map (register_event_pay e) rs)) (length p) acc ERROR_OK =
    Some (acc @ rs, ERROR_OK)"
  using assms
proof (induction rs arbitrary: p acc)
  case (Cons r rs)
  let ?b = "register_event_pay e r" and ?q = "concat (map (register_event_pay e) rs)"
  have "registrations_deserialize e ((p @ ?b) @ ?q) (length (p @ ?b)) (acc @ [r]) ERROR_OK = Some ((acc @ [r]) @ rs, ERROR_OK)"
    using Cons.prems by (intro Cons.IH) simp
  moreover have "length p < length (p @ ?b @ ?q)" by (simp add: length_register_event_pay)
  moreover have "register_event_deserialize e (p @ ?b @ ?q) (length p) register_event_new ERROR_OK =
      Some (r, length p + length ?b, ERROR_OK)"
    using Cons.prems by (intro register_event_deserialize_bytes) simp
  ultimately show ?case by (subst registrations_deserialize.simps) simp
qed (simp add: registrations_deserialize.simps)

lemma registrations_deserialize_total: "\<exists>rs' err'. registrations_deserialize e buf off rs ERROR_OK = Some (rs', err')"
proof (induction "length buf - off" arbitrary: off rs rule: less_induct)
  case less
  show ?case
  proof (cases "off < length buf")
    case True
    then show ?thesis
    proof (cases rule: register_event_deserialize_total [where e = e and r = register_event_new and err = ERROR_OK])
      case (1 r' off')
      then have "\<exists>rs' err'. registrations_deserialize e buf off' (rs @ [r']) ERROR_OK = Some (rs', err')"
        using True by (intro less) simp
      then show ?thesis using 1 True by (subst registrations_deserialize.simps) simp
    next
      case (2 r' off')
      then show ?thesis using True by (subst registrations_deserialize.simps) simp
    qed
  qed (simp add: registrations_deserialize.simps)
qed

interpretation register_events: wire_command REGISTER_EVENT_ID register_events_serialize register_events_deserialize
  register_events_command_new "\<lambda>_. register_events_ok" register_events_pay
proof
  fix c :: register_events_command and e and buf :: bytes
  let ?pay = "register_events_pay e c"
  assume c: "cmd_id c = REGISTER_EVENT_ID" "register_events_ok c"
  have n: "length ?pay = registrations_size (registrations c)"
    by (simp add: register_events_pay_def length_registrations)
  have sz: "sized ?pay c = c"
  proof -
    have "of_nat (registrations_size (registrations c)) = cmd_size c"
      using c(2) of_nat_unat [of "cmd_size c", where 'a = u32] by (simp add: register_events_ok_def)
    then show ?thesis using n by (simp add: sized_def)
  qed
  have w: "registrations_serialize e (registrations c) (cmd_header e c @ rest) 9 ERROR_OK = Some (cmd_header e c @ ?pay, ERROR_OK)"
    if "length rest = registrations_size (registrations c)" for rest
    using registrations_serialize_bytes [of "registrations c" rest e "cmd_header e c"] that c(2)
    by (simp add: register_events_ok_def register_events_pay_def)
  show "register_events_serialize e c buf = Some (cmd_header e (sized ?pay c) @ ?pay, sized ?pay c, ERROR_OK)"
    using c(2) unfolding sz register_events_serialize_def
    by (simp add: register_events_ok_def command_serialize_bytes w)
  have "registrations_deserialize e (cmd_header e c @ ?pay) 9 [] ERROR_OK = Some (registrations c, ERROR_OK)"
    using registrations_deserialize_bytes [of "registrations c" e "cmd_header e c" "[]"] c(2)
    by (simp add: register_events_ok_def register_events_pay_def)
  then show "register_events_deserialize e (cmd_header e (sized ?pay c) @ ?pay) register_events_command_new =
      Some (sized ?pay c, ERROR_OK)"
    unfolding sz register_events_deserialize_def Let_def using c(1)
    by (subst deserialize_frame_bytes) (simp_all add: register_events_command_new_def command_new_def)
next
  fix e and buf :: bytes and c :: register_events_command
  show "register_events_deserialize e buf c \<noteq> None"
    unfolding register_events_deserialize_def Let_def
  proof (rule deserialize_frame_total)
    fix c' :: register_events_command
    show "(registrations_deserialize e buf COMMAND_HEADER_SIZE (registrations c') ERROR_OK \<bind>
        (\<lambda>(rs, err). Some (c'\<lparr>registrations := rs\<rparr>, err))) \<noteq> None"
      using registrations_deserialize_total [of e buf 9 "registrations c'"] by auto
  qed simp
  show "length buf < 9 \<Longrightarrow> map_option snd (register_events_deserialize e buf c) = Some ERROR_NOT_ENOUGH_BYTES"
    by (simp add: register_events_deserialize_def deserialize_frame_short)
qed

lemma add_registrations:
  assumes "register_events_ok c" "list_all register_event_ok rs" "9 + registrations_size (registrations c @ rs) \<le> MAX_COMMAND_SIZE"
  shows "register_events_ok (fold (\<lambda>r c. snd (add_registration r c)) rs c)
    \<and> registrations (fold (\<lambda>r c. snd (add_registration r c)) rs c) = registrations c @ rs
    \<and> cmd_id (fold (\<lambda>r c. snd (add_registration r c)) rs c) = cmd_id c"
  using assms
proof (induction rs arbitrary: c)
  case (Cons r rs)
  let ?c = "snd (add_registration r c)"
  have "unat (cmd_size c) = registrations_size (registrations c)" "unat (re_num r) = length (re_groups r)"
    using Cons.prems by (simp_all add: register_events_ok_def register_event_ok_def)
  moreover have "registrations_size (registrations c @ r # rs) =
      registrations_size (registrations c) + (12 + length (re_groups r) * 2) + registrations_size rs"
    by (simp add: registrations_size_def)
  ultimately have c: "registrations ?c = registrations c @ [r]" "cmd_id ?c = cmd_id c"
    using Cons.prems(3) by (simp_all add: add_registration_def Let_def)
  show ?case
    using Cons.IH [of ?c] add_registration_ok [of c r] Cons.prems c by simp
qed simp

text \<open>
  C34. Registrations collected with \<open>add_registration\<close> reach the routing manager: as long as they
  fit into one command, the serialized command is well framed and its deserialization gives
  the same registrations in the same order.
\<close>

theorem register_events_transfer:
  assumes "list_all register_event_ok rs" "9 + registrations_size rs \<le> MAX_COMMAND_SIZE"
  shows "\<exists>c bs. fold (\<lambda>r c. snd (add_registration r c)) rs register_events_command_new = c
    \<and> register_events_serialize e c buf = Some (bs, c, ERROR_OK) \<and> one_command e bs
    \<and> register_events_deserialize e bs register_events_command_new = Some (c, ERROR_OK) \<and> registrations c = rs"
proof -
  let ?c = "fold (\<lambda>r c. snd (add_registration r c)) rs register_events_command_new"
  have "register_events_ok register_events_command_new" "registrations register_events_command_new = []"
    by (simp_all add: register_events_ok_def register_events_command_new_def command_new_def registrations_size_def)
  with add_registrations [of register_events_command_new rs] assms
  have c: "register_events_ok ?c" "registrations ?c = rs" "cmd_id ?c = REGISTER_EVENT_ID"
    by (simp_all add: register_events_command_new_def command_new_def)
  have n: "length (register_events_pay e ?c) = registrations_size rs"
    by (simp add: register_events_pay_def length_registrations c(2))
  have "of_nat (registrations_size rs) = cmd_size ?c"
    using c(1,2) of_nat_unat [of "cmd_size ?c", where 'a = u32] by (simp add: register_events_ok_def)
  then have "sized (register_events_pay e ?c) ?c = ?c" using n by (simp add: sized_def)
  then show ?thesis
    using register_events.transfer [of ?c e buf] c n assms(2) by auto
qed

theorem register_events_transfer_witness:
  "\<exists>c bs. fold (\<lambda>r c. snd (add_registration r c)) [set_eventgroups [1, 5] register_event_new, register_event_new] register_events_command_new = c
    \<and> register_events_serialize LE c [1, 2] = Some (bs, c, ERROR_OK) \<and> one_command LE bs
    \<and> register_events_deserialize LE bs register_events_command_new = Some (c, ERROR_OK)
    \<and> registrations c = [set_eventgroups [1, 5] register_event_new, register_event_new]"
  by (rule register_events_transfer)
    (simp_all add: register_event_ok_def set_eventgroups_def register_event_new_def ordered_def registrations_size_def)

end
