(* ===== verification/Command_Config.thy ===== *)
theory Command_Config
  imports Command_List
begin

text \<open>
  The configuration exchange (\<open>protocol/src/config_command.cpp\<close>): a list of key/value strings,
  each preceded by its length. The reader counts down the size field of the header.
\<close>

record config_command = command +
  configs :: "(bytes \<times> bytes) list"

definition config_command_new :: config_command where
  "config_command_new = command_new CONFIG_ID \<lparr> configs = [] \<rparr>"

definition config_insert :: "bytes \<Rightarrow> bytes \<Rightarrow> config_command \<Rightarrow> config_command" where
  "config_insert k v c = c\<lparr>configs := map_assign fst (k, v) (configs c)\<rparr>"

definition config_contains :: "bytes \<Rightarrow> config_command \<Rightarrow> bool" where
  "config_contains k c \<longleftrightarrow> k \<in> set (map fst (configs c))"

text \<open>\<open>std::map::at\<close> throws for an absent key: \<^term>\<open>None\<close>.\<close>

definition config_at :: "bytes \<Rightarrow> config_command \<Rightarrow> bytes option" where
  "config_at k c = map_of (configs c) k"

definition config_size :: "(bytes \<times> bytes) list \<Rightarrow> nat" where
  "config_size kvs = COMMAND_HEADER_SIZE + sum_list (map (\<lambda>(k, v). 8 + length k + length v) kvs)"

definition string_write :: "endianess_e \<Rightarrow> bytes \<Rightarrow> bytes \<Rightarrow> nat \<Rightarrow> (bytes \<times> nat) option" where
  "string_write e s buf pos = do {
     let n = (of_nat (length s) :: u32);
     buf \<leftarrow> store e buf pos n;
     buf \<leftarrow> mem_write buf (pos + 4) s;
     Some (buf, pos + 4 + unat n)
   }"

definition entry_write :: "endianess_e \<Rightarrow> bytes \<times> bytes \<Rightarrow> bytes \<Rightarrow> nat \<Rightarrow> (bytes \<times> nat) option" where
  "entry_write e kv buf pos = do {
     (buf, pos) \<leftarrow> string_write e (fst kv) buf pos;
     string_write e (snd kv) buf pos
   }"

definition config_serialize :: "endianess_e \<Rightarrow> config_command \<Rightarrow> bytes \<Rightarrow> (bytes \<times> config_command \<times> error_e) option" where
  "config_serialize e c buf = serialize_frame e c buf (config_size (configs c)) (\<lambda>buf.
     map_option fst (write_each (entry_write e) (configs c) buf COMMAND_POSITION_PAYLOAD))"

text \<open>
  The lambda \<open>read\<close>: the string it returns (\<^term>\<open>None\<close> when it sets \<open>failed\<close>), the read position and
  the remaining size. The length is copied into the first four bytes of a zeroed \<open>size_t\<close>.
\<close>

definition config_read :: "endianess_e \<Rightarrow> bytes \<Rightarrow> nat \<Rightarrow> nat \<Rightarrow> (bytes option \<times> nat \<times> nat) option" where
  "config_read e buf pos remaining =
     (if remaining < 4 then Some (None, pos, remaining)
      else do {
        bs \<leftarrow> mem_sub buf pos 4;
        let sz = unat (of_mem e (bs @ [0, 0, 0, 0]) :: u64);
        let remaining = remaining - 4;
        let pos = pos + 4;
        if remaining < sz \<or> length buf < pos + sz then Some (None, pos, remaining)
        else do {
          v \<leftarrow> (if sz > 0 then mem_range buf pos (pos + sz) else Some []);
          Some (Some v, pos + sz, remaining - sz)
        }
      })"

partial_function (option) config_loop ::
  "endianess_e \<Rightarrow> bytes \<Rightarrow> nat \<Rightarrow> nat \<Rightarrow> (bytes \<times> bytes) list \<Rightarrow> ((bytes \<times> bytes) list \<times> error_e) option" where
  "config_loop e buf pos remaining kvs =
     (if remaining > 0 then do {
        (k, pos, remaining) \<leftarrow> config_read e buf pos remaining;
        case k of None \<Rightarrow> Some (kvs, ERROR_NOT_ENOUGH_BYTES)
        | Some k \<Rightarrow> do {
            (v, pos, remaining) \<leftarrow> config_read e buf pos remaining;
            case v of None \<Rightarrow> Some (kvs, ERROR_NOT_ENOUGH_BYTES)
            | Some v \<Rightarrow> config_loop e buf pos remaining (map_assign fst (k, v) kvs)
          }
      }
      else Some (kvs, ERROR_OK))"

declare config_loop.simps [code]

definition config_deserialize :: "endianess_e \<Rightarrow> bytes \<Rightarrow> config_command \<Rightarrow> (config_command \<times> error_e) option" where
  "config_deserialize e buf c = deserialize_frame e buf c COMMAND_HEADER_SIZE (\<lambda>c.
     if cmd_version c \<noteq> 0 then Some (c, ERROR_UNKNOWN)
     else if length buf < COMMAND_HEADER_SIZE + unat (cmd_size c) then Some (c, ERROR_NOT_ENOUGH_BYTES)
     else do {
       (kvs, err) \<leftarrow> config_loop e buf COMMAND_POSITION_PAYLOAD (unat (cmd_size c)) (configs c);
       Some (c\<lparr>configs := kvs\<rparr>, err)
     })"

section \<open>Strings\<close>

definition string_pay :: "endianess_e \<Rightarrow> bytes \<Rightarrow> bytes" where
  "string_pay e s = mem_of e (of_nat (length s) :: u32) @ s"

definition entry_pay :: "endianess_e \<Rightarrow> bytes \<times> bytes \<Rightarrow> bytes" where
  "entry_pay e kv = string_pay e (fst kv) @ string_pay e (snd kv)"

definition config_pay :: "endianess_e \<Rightarrow> config_command \<Rightarrow> bytes" where
  "config_pay e c = concat (map (entry_pay e) (configs c))"

lemma length_string_pay [simp]: "length (string_pay e s) = 4 + length s"
  by (simp add: string_pay_def)

lemma length_entry_pay [simp]: "length (entry_pay e kv) = 8 + length (fst kv) + length (snd kv)"
  by (simp add: entry_pay_def)

lemma length_config_entries: "9 + length (concat (map (entry_pay e) kvs)) = config_size kvs"
  by (induction kvs) (auto simp: config_size_def)

lemma writes_string: "length s \<le> MAX_COMMAND_SIZE \<Longrightarrow> writes (string_write e) (string_pay e) s"
  by (rule writesI) (simp add: string_write_def string_pay_def wire_simps unat_u32_of_nat Let_def add.commute)

lemma writes_entry:
  assumes "length (fst kv) + length (snd kv) \<le> MAX_COMMAND_SIZE"
  shows "writes (entry_write e) (entry_pay e) kv"
proof (rule writesI)
  fix p rest :: bytes
  let ?a = "string_pay e (fst kv)" and ?b = "string_pay e (snd kv)"
  assume len: "length (entry_pay e kv) \<le> length rest"
  have "string_write e (fst kv) (p @ rest) (length p) = Some (p @ ?a @ drop (length ?a) rest, length p + length ?a)"
    using writes_string [of "fst kv" e] assms len by (simp add: writes_def)
  moreover have "string_write e (snd kv) ((p @ ?a) @ drop (length ?a) rest) (length (p @ ?a)) =
      Some ((p @ ?a) @ ?b @ drop (length ?b) (drop (length ?a) rest), length (p @ ?a) + length ?b)"
    using writes_string [of "snd kv" e, unfolded writes_def, rule_format, of "drop (length ?a) rest" "p @ ?a"] assms len by simp
  ultimately show "entry_write e kv (p @ rest) (length p) =
      Some (p @ entry_pay e kv @ drop (length (entry_pay e kv)) rest, length p + length (entry_pay e kv))"
    by (simp add: entry_write_def entry_pay_def ac_simps)
qed

lemma entry_fits: "kv \<in> set kvs \<Longrightarrow> length (fst kv) + length (snd kv) \<le> config_size kvs"
  by (induction kvs) (auto simp: config_size_def)

text \<open>On a little-endian host the length of a string is read back.\<close>

lemma le_word_zeros: "le_word (bs @ replicate n 0) = (le_word bs :: 'a::len word)"
proof (induction bs)
  case Nil
  show ?case by (induction n) simp_all
qed simp

lemma bit_le_word_wide:
  "bit (le_word (le_bytes n w) :: 'b::len word) k \<longleftrightarrow> k < LENGTH('b) \<and> k < 8 * n \<and> bit w k" for w :: "'a::len word"
proof (induction n arbitrary: w k)
  case (Suc n)
  have "bit (le_word (le_bytes (Suc n) w) :: 'b word) k \<longleftrightarrow>
      (k < LENGTH('b) \<and> k < 8 \<and> bit w k) \<or>
      (k < LENGTH('b) \<and> 8 \<le> k \<and> k - 8 < LENGTH('b) \<and> k - 8 < 8 * n \<and> bit w (8 + (k - 8)))"
    by (auto simp: bit_or_iff bit_push_bit_iff bit_unsigned_iff Suc bit_drop_bit_eq dest: bit_imp_le_length)
  also have "\<dots> \<longleftrightarrow> k < LENGTH('b) \<and> k < 8 * Suc n \<and> bit w k"
    by (auto dest: bit_imp_le_length simp: not_less)
  finally show ?case .
qed simp

lemma string_length_LE:
  assumes "n \<le> MAX_COMMAND_SIZE"
  shows "unat (of_mem LE (mem_of LE (of_nat n :: u32) @ [0, 0, 0, 0]) :: u64) = n"
proof -
  let ?w = "of_nat n :: u32"
  have "(le_word (le_bytes 4 ?w) :: u64) = ucast ?w"
    by (rule bit_eqI) (auto simp: bit_le_word_wide bit_unsigned_iff dest: bit_imp_le_length)
  moreover have "le_bytes 4 ?w @ [0, 0, 0, 0] = le_bytes 4 ?w @ replicate 4 0"
    by (simp add: numeral_eq_Suc)
  ultimately have "(of_mem LE (mem_of LE ?w @ [0, 0, 0, 0]) :: u64) = ucast ?w"
    using le_word_zeros [of "le_bytes 4 ?w" 4, where 'a = 64] by (simp add: of_mem_def mem_of_def)
  then show ?thesis using assms by (simp add: unat_ucast_up unat_u32_of_nat)
qed

lemma config_read_ok:
  assumes "4 \<le> remaining" "mem_sub buf pos 4 = Some bs" "unat (of_mem e (bs @ [0, 0, 0, 0]) :: u64) = n"
    and "n \<le> remaining - 4" "pos + 4 + n \<le> length buf"
  shows "config_read e buf pos remaining = Some (Some (take n (drop (pos + 4) buf)), pos + 4 + n, remaining - 4 - n)"
proof -
  have "mem_range buf (pos + 4) (pos + 4 + n) = Some (take n (drop (pos + 4) buf))"
    using assms(5) by (simp add: mem_range_def)
  then show ?thesis using assms by (simp add: config_read_def Let_def)
qed

lemma config_read_string:
  assumes "4 + length s \<le> remaining" "length s \<le> MAX_COMMAND_SIZE"
  shows "config_read LE (p @ string_pay LE s @ rest) (length p) remaining =
    Some (Some s, length p + length (string_pay LE s), remaining - length (string_pay LE s))"
proof -
  have "mem_sub (p @ string_pay LE s @ rest) (length p) 4 = Some (mem_of LE (of_nat (length s) :: u32))"
    by (simp add: string_pay_def mem_sub_def)
  from config_read_ok [OF _ this string_length_LE, of remaining] assms
  show ?thesis by (simp add: string_pay_def)
qed

section \<open>The command\<close>

lemma config_loop_bytes:
  assumes "config_size kvs \<le> MAX_COMMAND_SIZE" "remaining = length (concat (map (entry_pay LE) kvs))"
  shows "config_loop LE (p @ concat (map (entry_pay LE) kvs)) (length p) remaining acc =
    Some (fold (map_assign fst) kvs acc, ERROR_OK)"
  using assms
proof (induction kvs arbitrary: p acc remaining)
  case Nil
  then show ?case by (simp add: config_loop.simps)
next
  case (Cons kv kvs)
  let ?a = "string_pay LE (fst kv)" and ?b = "string_pay LE (snd kv)" and ?q = "concat (map (entry_pay LE) kvs)"
  let ?buf = "p @ ?a @ ?b @ ?q"
  have sz: "config_size kvs \<le> MAX_COMMAND_SIZE" "length (fst kv) + length (snd kv) \<le> MAX_COMMAND_SIZE"
    using Cons.prems(1) by (auto simp: config_size_def split: prod.splits)
  have r: "remaining = length ?a + length ?b + length ?q" "0 < remaining" using Cons.prems(2) by auto
  have "config_read LE (p @ ?a @ (?b @ ?q)) (length p) remaining = Some (Some (fst kv), length p + length ?a, remaining - length ?a)"
    using r sz by (intro config_read_string) auto
  moreover have "config_read LE ((p @ ?a) @ ?b @ ?q) (length (p @ ?a)) (remaining - length ?a) =
      Some (Some (snd kv), length (p @ ?a) + length ?b, remaining - length ?a - length ?b)"
    using r sz by (intro config_read_string) auto
  moreover have "config_loop LE ((p @ entry_pay LE kv) @ ?q) (length (p @ entry_pay LE kv)) (length ?q) (map_assign fst kv acc) =
      Some (fold (map_assign fst) kvs (map_assign fst kv acc), ERROR_OK)"
    using sz by (intro Cons.IH) simp_all
  ultimately have "config_loop LE ?buf (length p) remaining acc = Some (fold (map_assign fst) kvs (map_assign fst kv acc), ERROR_OK)"
    using r by (subst config_loop.simps) (simp add: entry_pay_def add.assoc)
  then show ?case by (simp add: entry_pay_def [of LE kv])
qed

text \<open>A read stays in the vector, fails or consumes at least four bytes.\<close>

lemma config_read_total:
  assumes "pos + remaining \<le> length buf"
  obtains s pos' remaining' where "config_read e buf pos remaining = Some (Some s, pos', remaining')"
      "remaining' < remaining" "pos' + remaining' \<le> length buf"
  | pos' remaining' where "config_read e buf pos remaining = Some (None, pos', remaining')"
proof (cases "remaining < 4")
  case True
  then show ?thesis using that(2) by (simp add: config_read_def)
next
  case False
  define sz where "sz = unat (of_mem e (take 4 (drop pos buf) @ [0, 0, 0, 0]) :: u64)"
  show ?thesis
  proof (cases "remaining - 4 < sz \<or> length buf < pos + 4 + sz")
    case True
    then have "config_read e buf pos remaining = Some (None, pos + 4, remaining - 4)"
      using False assms by (auto simp: config_read_def Let_def sz_def)
    then show ?thesis by (rule that(2))
  next
    case room: False
    then have "config_read e buf pos remaining = Some (Some (take sz (drop (pos + 4) buf)), pos + 4 + sz, remaining - 4 - sz)"
      using False assms by (intro config_read_ok [where bs = "take 4 (drop pos buf)"]) (auto simp: sz_def)
    then show ?thesis using room False assms by (elim that(1)) linarith+
  qed
qed

lemma config_loop_total: "pos + remaining \<le> length buf \<Longrightarrow> \<exists>kvs' err. config_loop e buf pos remaining kvs = Some (kvs', err)"
proof (induction remaining arbitrary: pos kvs rule: less_induct)
  case (less remaining)
  show ?case
  proof (cases "remaining > 0")
    case True
    from less.prems show ?thesis
    proof (cases rule: config_read_total [where e = e])
      case k: (1 k pos1 rem1)
      from k(3) show ?thesis
      proof (cases rule: config_read_total [where e = e])
        case v: (1 v pos2 rem2)
        have "\<exists>kvs' err. config_loop e buf pos2 rem2 (map_assign fst (k, v) kvs) = Some (kvs', err)"
          using k(2) v(2,3) by (intro less.IH) simp_all
        then show ?thesis using True k(1) v(1) by (subst config_loop.simps) simp
      next
        case (2 pos2 rem2)
        then show ?thesis using True k(1) by (subst config_loop.simps) simp
      qed
    next
      case (2 pos1 rem1)
      then show ?thesis using True by (subst config_loop.simps) simp
    qed
  qed (simp add: config_loop.simps)
qed

definition config_ok :: "endianess_e \<Rightarrow> config_command \<Rightarrow> bool" where
  "config_ok e c \<longleftrightarrow> e = LE \<and> cmd_version c = 0 \<and> ordered fst (configs c)"

interpretation config: wire_command CONFIG_ID config_serialize config_deserialize config_command_new config_ok config_pay
proof
  fix c :: config_command and e and buf :: bytes
  let ?pay = "config_pay e c"
  assume c: "cmd_id c = CONFIG_ID" "config_ok e c" and len: "9 + length ?pay \<le> MAX_COMMAND_SIZE"
  have n: "config_size (configs c) = 9 + length ?pay"
    using length_config_entries [of e "configs c"] by (simp add: config_pay_def)
  have e: "e = LE" using c(2) by (simp add: config_ok_def)
  have "writes (entry_write e) (entry_pay e) kv" if "kv \<in> set (configs c)" for kv
    using entry_fits [OF that] len n by (intro writes_entry) simp
  then have w: "write_each (entry_write e) (configs c) (h @ rest) 9 = Some (h @ ?pay, 9 + length ?pay)"
    if "length h = 9" "length rest = length ?pay" for h rest
    using write_each_bytes [of "configs c" "entry_write e" "entry_pay e" rest h] that by (simp add: config_pay_def)
  show "config_serialize e c buf = Some (cmd_header e (sized ?pay c) @ ?pay, sized ?pay c, ERROR_OK)"
    unfolding config_serialize_def sized_def using len n
    by (subst serialize_frame_bytes [where payload = ?pay]) (auto simp: w)
  have "config_loop e (h @ ?pay) 9 (length ?pay) [] = Some (configs c, ERROR_OK)" if "length h = 9" for h
    using config_loop_bytes [of "configs c" "length ?pay" h "[]"] that len n c(2) map_assign_rebuild [of fst "[]" "configs c"]
    by (simp add: config_pay_def config_ok_def)
  moreover have "unat (of_nat (length ?pay) :: u32) = length ?pay" using len by (intro unat_u32_of_nat) simp
  ultimately show "config_deserialize e (cmd_header e (sized ?pay c) @ ?pay) config_command_new = Some (sized ?pay c, ERROR_OK)"
    unfolding config_deserialize_def using c
    by (subst deserialize_frame_bytes) (simp_all add: config_command_new_def command_new_def sized_def config_ok_def)
next
  fix e and buf :: bytes and c :: config_command
  show "config_deserialize e buf c \<noteq> None"
    unfolding config_deserialize_def
  proof (rule deserialize_frame_total)
    fix c' :: config_command
    show "(if cmd_version c' \<noteq> 0 then Some (c', ERROR_UNKNOWN)
       else if length buf < COMMAND_HEADER_SIZE + unat (cmd_size c') then Some (c', ERROR_NOT_ENOUGH_BYTES)
       else config_loop e buf COMMAND_POSITION_PAYLOAD (unat (cmd_size c')) (configs c') \<bind>
         (\<lambda>(kvs, err). Some (c'\<lparr>configs := kvs\<rparr>, err))) \<noteq> None"
      using config_loop_total [of 9 "unat (cmd_size c')" buf e "configs c'"] by auto
  qed simp
  show "length buf < 9 \<Longrightarrow> map_option snd (config_deserialize e buf c) = Some ERROR_NOT_ENOUGH_BYTES"
    by (simp add: config_deserialize_def deserialize_frame_short)
qed

lemma config_insert_ordered:
  "ordered fst (configs c) \<Longrightarrow> ordered fst (configs (config_insert k v c))"
  by (simp add: config_insert_def ordered_map_assign)


lemma config_inserts_at:
  "map_of (configs (fold (\<lambda>(k, v). config_insert k v) kvs c)) = map_of (configs c) ++ map_of (rev kvs)"
  by (induction kvs arbitrary: c) (auto simp: config_insert_def map_of_map_assign split_def fun_eq_iff map_add_def split: option.splits)

lemma config_inserts_ok:
  assumes "config_ok e c" "cmd_id c = CONFIG_ID"
  shows "config_ok e (fold (\<lambda>(k, v). config_insert k v) kvs c) \<and> cmd_id (fold (\<lambda>(k, v). config_insert k v) kvs c) = CONFIG_ID"
  using assms
proof (induction kvs arbitrary: c)
  case (Cons kv kvs)
  obtain k v where kv: "kv = (k, v)" by (cases kv)
  have "config_ok e (config_insert k v c)" "cmd_id (config_insert k v c) = CONFIG_ID"
    using Cons.prems by (auto simp: config_ok_def config_insert_def ordered_map_assign)
  from Cons.IH [OF this] show ?case by (simp add: kv)
qed simp

text \<open>
  C35. The configuration a peer receives: on a little-endian machine, after any sequence of
  \<open>insert\<close> calls the serialized command is read back and \<open>at\<close> answers for every key with the value
  inserted last, as long as the command fits into the size field.
\<close>

theorem config_transfer:
  assumes "config_size (configs (fold (\<lambda>(k, v). config_insert k v) kvs config_command_new)) \<le> MAX_COMMAND_SIZE"
  shows "\<exists>bs c c'. config_serialize LE (fold (\<lambda>(k, v). config_insert k v) kvs config_command_new) buf = Some (bs, c, ERROR_OK)
    \<and> one_command LE bs \<and> config_deserialize LE bs config_command_new = Some (c', ERROR_OK)
    \<and> (\<lambda>k. config_at k c') = map_of (rev kvs)"
proof -
  let ?c = "fold (\<lambda>(k, v). config_insert k v) kvs config_command_new"
  have "config_ok LE config_command_new" "cmd_id config_command_new = CONFIG_ID" "configs config_command_new = []"
    by (simp_all add: config_ok_def config_command_new_def command_new_def)
  with config_inserts_ok [of LE config_command_new kvs] config_inserts_at [of kvs config_command_new]
  have "config_ok LE ?c" "cmd_id ?c = CONFIG_ID" "map_of (configs ?c) = map_of (rev kvs)" by simp_all
  moreover have "9 + length (config_pay LE ?c) \<le> MAX_COMMAND_SIZE"
    using assms length_config_entries [of LE "configs ?c"] by (simp add: config_pay_def)
  ultimately show ?thesis
    using config.transfer [of ?c LE buf] by (auto simp: config_at_def sized_def)
qed

theorem config_transfer_witness:
  "\<exists>bs c c'. config_serialize LE (fold (\<lambda>(k, v). config_insert k v) [([2], [9]), ([1], [7, 7]), ([2], [8])] config_command_new) [] = Some (bs, c, ERROR_OK)
    \<and> one_command LE bs \<and> config_deserialize LE bs config_command_new = Some (c', ERROR_OK)
    \<and> (\<lambda>k. config_at k c') = map_of (rev [([2], [9]), ([1], [7, 7]), ([2], [8])])"
  by (rule config_transfer) (simp add: config_insert_def config_command_new_def command_new_def config_size_def)

end
