(* ===== verification/Command_Subscribe.thy ===== *)
theory Command_Subscribe
  imports Command_List
begin

text \<open>
  Subscriptions with a debounce filter (\<open>protocol/src/subscribe_command.cpp\<close>). The filter
  follows the twenty bytes of a plain subscription: two flags, the interval, a run of
  ignored bytes (index and mask, nine bytes each) and a last flag.
\<close>

record debounce_filter =
  flt_on_change :: bool
  flt_resets_interval :: bool
  flt_interval :: u64
  flt_ignore :: "(u64 \<times> byte) list"
  flt_send_after :: bool

definition debounce_filter_new :: debounce_filter where
  "debounce_filter_new = \<lparr> flt_on_change = False, flt_resets_interval = False, flt_interval = - 1, flt_ignore = [],
     flt_send_after = False \<rparr>"

record subscribe_command = subscribe_command_base +
  sub_filter :: "debounce_filter option"

definition subscribe_command_new :: subscribe_command where
  "subscribe_command_new = subscribe_command_base_new SUBSCRIBE_ID \<lparr> sub_filter = None \<rparr>"

definition ignore_write :: "endianess_e \<Rightarrow> u64 \<times> byte \<Rightarrow> bytes \<Rightarrow> nat \<Rightarrow> (bytes \<times> nat) option" where
  "ignore_write e p buf off = do {
     buf \<leftarrow> store e buf off (fst p);
     buf \<leftarrow> mem_put buf (off + 8) (snd p);
     Some (buf, off + 9)
   }"

definition filter_write :: "endianess_e \<Rightarrow> debounce_filter \<Rightarrow> bytes \<Rightarrow> nat \<Rightarrow> bytes option" where
  "filter_write e f buf off = do {
     buf \<leftarrow> mem_put buf off (of_bool (flt_on_change f));
     buf \<leftarrow> mem_put buf (off + 1) (of_bool (flt_resets_interval f));
     buf \<leftarrow> store e buf (off + 2) (flt_interval f);
     (buf, off) \<leftarrow> write_each (ignore_write e) (flt_ignore f) buf (off + 10);
     mem_put buf off (of_bool (flt_send_after f))
   }"

definition subscribe_serialize :: "endianess_e \<Rightarrow> subscribe_command \<Rightarrow> bytes \<Rightarrow> (bytes \<times> subscribe_command \<times> error_e) option" where
  "subscribe_serialize e c buf =
     (let its_offset = COMMAND_HEADER_SIZE + 11;
          its_size = (case sub_filter c of None \<Rightarrow> its_offset | Some f \<Rightarrow> its_offset + 10 + length (flt_ignore f) * 9 + 1)
      in if its_size > MAX_COMMAND_SIZE then Some (buf, c, ERROR_MAX_COMMAND_SIZE_EXCEEDED)
         else do {
           let buf = vec_resize buf its_size 0;
           let c = c\<lparr>cmd_size := of_nat (its_size - COMMAND_HEADER_SIZE)\<rparr>;
           (buf, err) \<leftarrow> subscribe_command_base_serialize e c buf;
           if err \<noteq> ERROR_OK then Some (buf, c, err)
           else case sub_filter c of None \<Rightarrow> Some (buf, c, err)
             | Some f \<Rightarrow> do {
                 buf \<leftarrow> filter_write e f buf its_offset;
                 Some (buf, c, err)
               }
         })"

text \<open>
  \<open>memcpy\<close> of a byte into a \<open>bool\<close>: only 0 and 1 are values of the type, any other byte leaves an
  object whose use is undefined.
\<close>

definition mem_bool :: "byte \<Rightarrow> bool option" where
  "mem_bool b = (if b = 0 then Some False else if b = 1 then Some True else None)"

text \<open>The run of ignored bytes: its entries, the offset behind it, and whether a key came twice.\<close>

function ignore_loop ::
  "endianess_e \<Rightarrow> bytes \<Rightarrow> nat \<Rightarrow> (u64 \<times> byte) list \<Rightarrow> ((u64 \<times> byte) list \<times> nat \<times> error_e) option" where
  "ignore_loop e buf off acc =
     (if length buf - off \<ge> 9 then do {
        k \<leftarrow> load e buf off;
        if k \<in> set (map fst acc) then Some (acc, off, ERROR_MALFORMED)
        else do {
          v \<leftarrow> mem_at buf (off + 8);
          ignore_loop e buf (off + 9) (set_insert fst (k, v) acc)
        }
      }
      else Some (acc, off, ERROR_OK))"
  by pat_completeness auto
termination by (relation "measure (\<lambda>(e, buf, off, acc). length buf - off)") auto

declare ignore_loop.simps [simp del]

definition subscribe_deserialize :: "endianess_e \<Rightarrow> bytes \<Rightarrow> subscribe_command \<Rightarrow> (subscribe_command \<times> error_e) option" where
  "subscribe_deserialize e buf c = (let its_size = COMMAND_HEADER_SIZE + 11 in
     if its_size > length buf then Some (c, ERROR_NOT_ENOUGH_BYTES)
     else do {
       (c, err) \<leftarrow> command_deserialize e buf c;
       if err \<noteq> ERROR_OK then Some (c, err)
       else do {
         (c, err) \<leftarrow> subscribe_command_base_deserialize e buf c;
         if err \<noteq> ERROR_OK then Some (c, err)
         else if length buf - its_size \<ge> 10 then do {
           on_change \<leftarrow> mem_at buf its_size \<bind> mem_bool;
           resets \<leftarrow> mem_at buf (its_size + 1) \<bind> mem_bool;
           interval \<leftarrow> load e buf (its_size + 2);
           (ignore, off, err) \<leftarrow> ignore_loop e buf (its_size + 10) [];
           let f = debounce_filter_new\<lparr>flt_on_change := on_change, flt_resets_interval := resets, flt_interval := interval,
             flt_ignore := ignore\<rparr>;
           if err \<noteq> ERROR_OK then Some (c\<lparr>sub_filter := Some f\<rparr>, err)
           else do {
             after \<leftarrow> mem_at buf off \<bind> mem_bool;
             Some (c\<lparr>sub_filter := Some (f\<lparr>flt_send_after := after\<rparr>)\<rparr>, err)
           }
         }
         else Some (c, err)
       }
     })"

section \<open>The bytes of a filter\<close>

definition ignore_pay :: "endianess_e \<Rightarrow> u64 \<times> byte \<Rightarrow> bytes" where
  "ignore_pay e p = mem_of e (fst p) @ [snd p]"

definition ignores_pay :: "endianess_e \<Rightarrow> (u64 \<times> byte) list \<Rightarrow> bytes" where
  "ignores_pay e ps = concat (map (ignore_pay e) ps)"

definition filter_pay :: "endianess_e \<Rightarrow> debounce_filter \<Rightarrow> bytes" where
  "filter_pay e f = [of_bool (flt_on_change f)] @ [of_bool (flt_resets_interval f)] @ mem_of e (flt_interval f)
     @ ignores_pay e (flt_ignore f) @ [of_bool (flt_send_after f)]"

definition subscribe_filter_pay :: "endianess_e \<Rightarrow> subscribe_command \<Rightarrow> bytes" where
  "subscribe_filter_pay e c = subscribe_pay e c @ (case sub_filter c of None \<Rightarrow> [] | Some f \<Rightarrow> filter_pay e f)"

definition subscribe_ok :: "subscribe_command \<Rightarrow> bool" where
  "subscribe_ok c \<longleftrightarrow> (case sub_filter c of None \<Rightarrow> True | Some f \<Rightarrow> ordered fst (flt_ignore f))"

lemma mem_bool_of_bool [simp]: "mem_bool (of_bool b) = Some b"
  by (simp add: mem_bool_def)

lemma writes_ignore: "writes (ignore_write e) (ignore_pay e) p"
  by (rule writesI) (simp add: ignore_write_def ignore_pay_def wire_simps del: mem_put_Some)

lemma length_ignores [simp]: "length (ignores_pay e ps) = length ps * 9"
  unfolding ignores_pay_def by (rule length_concat_map_const) (simp add: ignore_pay_def)

lemma length_filter_pay: "length (filter_pay e f) = 10 + length (flt_ignore f) * 9 + 1"
  by (simp add: filter_pay_def)

lemma filter_write_bytes:
  assumes "length rest = length (filter_pay e f)"
  shows "filter_write e f (p @ rest) (length p) = Some (p @ filter_pay e f)"
proof -
  let ?h = "[of_bool (flt_on_change f)] @ [of_bool (flt_resets_interval f)] @ mem_of e (flt_interval f)"
  have "write_each (ignore_write e) (flt_ignore f) (p @ ?h @ drop 10 rest) (length p + 10) =
      Some (p @ ?h @ ignores_pay e (flt_ignore f) @ drop (length (flt_ignore f) * 9) (drop 10 rest),
        length p + 10 + length (flt_ignore f) * 9)"
    using write_each_bytes [of "flt_ignore f" "ignore_write e" "ignore_pay e" "drop 10 rest" "p @ ?h", OF writes_ignore] assms
      length_ignores [of e "flt_ignore f"]
    by (simp add: ignores_pay_def length_filter_pay)
  then show ?thesis
    using assms unfolding filter_write_def filter_pay_def by (simp add: wire_simps del: mem_put_Some)
qed

lemma ignore_loop_bytes:
  assumes "ordered fst (acc @ ps)"
  shows "ignore_loop e (p @ ignores_pay e ps @ [b]) (length p) acc = Some (acc @ ps, length p + length ps * 9, ERROR_OK)"
  using assms
proof (induction ps arbitrary: p acc)
  case Nil
  then show ?case by (simp add: ignore_loop.simps ignores_pay_def)
next
  case (Cons x ps)
  let ?buf = "p @ ignore_pay e x @ ignores_pay e ps @ [b]"
  have "load e ?buf (length p) = Some (fst x)" "mem_at ?buf (length p + 8) = Some (snd x)"
    by (simp_all add: ignore_pay_def wire_simps del: mem_at_Some load_Some)
  moreover have "fst x \<notin> set (map fst acc)" "set_insert fst x acc = acc @ [x]"
    using Cons.prems by (auto simp: ordered_append intro: set_insert_last)
  moreover have "ignore_loop e ((p @ ignore_pay e x) @ ignores_pay e ps @ [b]) (length (p @ ignore_pay e x)) (acc @ [x]) =
      Some ((acc @ [x]) @ ps, length (p @ ignore_pay e x) + length ps * 9, ERROR_OK)"
    using Cons.prems by (intro Cons.IH) simp
  moreover have "ignores_pay e (x # ps) = ignore_pay e x @ ignores_pay e ps" by (simp add: ignores_pay_def)
  moreover have "length (ignore_pay e x) = 9" by (simp add: ignore_pay_def)
  ultimately show ?case by (subst ignore_loop.simps) simp
qed

lemma subscribe_pay_cong [simp]:
  "subscribe_pay e (c\<lparr>cmd_size := n\<rparr>) = subscribe_pay e c" "subscribe_pay e (sized bs c) = subscribe_pay e c"
  by (simp_all add: subscribe_pay_def sized_def)

lemma subscribe_serialize_bytes:
  assumes "9 + length (subscribe_filter_pay e c) \<le> MAX_COMMAND_SIZE"
  shows "subscribe_serialize e c buf = Some (cmd_header e (sized (subscribe_filter_pay e c) c) @ subscribe_filter_pay e c,
    sized (subscribe_filter_pay e c) c, ERROR_OK)"
proof (cases "sub_filter c")
  case None
  then show ?thesis
    by (simp add: subscribe_serialize_def subscribe_filter_pay_def subscribe_command_base_serialize_bytes sized_def Let_def)
next
  case (Some f)
  define n where "n = length (subscribe_filter_pay e c)"
  have n: "n = 11 + 10 + length (flt_ignore f) * 9 + 1"
    using Some by (simp add: n_def subscribe_filter_pay_def length_filter_pay)
  let ?c = "c\<lparr>cmd_size := of_nat n\<rparr>"
  have "subscribe_command_base_serialize e ?c (vec_resize buf (9 + n) 0) =
      Some (cmd_header e ?c @ subscribe_pay e c @ drop 20 (vec_resize buf (9 + n) 0), ERROR_OK)"
    using n by (subst subscribe_command_base_serialize_bytes) simp_all
  moreover have "filter_write e f ((cmd_header e ?c @ subscribe_pay e c) @ drop 20 (vec_resize buf (9 + n) 0))
      (length (cmd_header e ?c @ subscribe_pay e c)) = Some ((cmd_header e ?c @ subscribe_pay e c) @ filter_pay e f)"
    using n by (intro filter_write_bytes) (simp add: length_filter_pay)
  ultimately show ?thesis
    using assms Some n unfolding subscribe_serialize_def n_def [symmetric]
    by (simp add: Let_def sized_def subscribe_filter_pay_def length_filter_pay add.assoc)
qed

lemma subscribe_base_read:
  fixes c c0 :: subscribe_command
  assumes "cmd_id c0 = cmd_id c"
  shows "command_deserialize e (cmd_header e c @ subscribe_pay e c @ rest) c0 = Some (c1, ERROR_OK) \<Longrightarrow>
    subscribe_command_base_deserialize e (cmd_header e c @ subscribe_pay e c @ rest) c1 =
      Some (c\<lparr>sub_filter := sub_filter c0\<rparr>, ERROR_OK)"
  using assms subscribe_command_base_deserialize_bytes [of c1 c e rest]
  by (cases c; cases c0) (simp add: command_deserialize_bytes, auto)

lemma subscribe_deserialize_bytes:
  assumes "cmd_id c = SUBSCRIBE_ID" "subscribe_ok c"
  shows "subscribe_deserialize e (cmd_header e c @ subscribe_filter_pay e c) subscribe_command_new = Some (c, ERROR_OK)"
proof -
  define rest where "rest = (case sub_filter c of None \<Rightarrow> [] | Some f \<Rightarrow> filter_pay e f)"
  define buf where "buf = cmd_header e c @ subscribe_pay e c @ rest"
  have id: "cmd_id subscribe_command_new = cmd_id c"
    using assms(1) by (simp add: subscribe_command_new_def subscribe_command_base_new_def command_new_def)
  obtain c1 where c1: "command_deserialize e buf subscribe_command_new = Some (c1, ERROR_OK)"
    unfolding buf_def using command_deserialize_bytes [of subscribe_command_new c e] id by auto
  have c2: "subscribe_command_base_deserialize e buf c1 = Some (c\<lparr>sub_filter := None\<rparr>, ERROR_OK)"
    using subscribe_base_read [OF id, of e rest c1] c1 unfolding buf_def
    by (simp add: subscribe_command_new_def subscribe_command_base_new_def command_new_def)
  show ?thesis
  proof (cases "sub_filter c")
    case None
    then have "length buf = 20" "c\<lparr>sub_filter := None\<rparr> = c" by (simp_all add: buf_def rest_def)
    then show ?thesis using c1 c2 None
      unfolding subscribe_deserialize_def subscribe_filter_pay_def rest_def [symmetric] buf_def [symmetric] by simp
  next
    case (Some f)
    let ?p = "cmd_header e c @ subscribe_pay e c"
    let ?h = "[of_bool (flt_on_change f)] @ [of_bool (flt_resets_interval f)] @ mem_of e (flt_interval f)"
    have buf: "buf = ?p @ ?h @ ignores_pay e (flt_ignore f) @ [of_bool (flt_send_after f)]"
      using Some by (simp add: buf_def rest_def filter_pay_def)
    have len: "length buf = 31 + length (flt_ignore f) * 9" by (simp add: buf)
    have loop: "ignore_loop e buf 30 [] = Some (flt_ignore f, 30 + length (flt_ignore f) * 9, ERROR_OK)"
      using ignore_loop_bytes [of "[]" "flt_ignore f" e "?p @ ?h" "of_bool (flt_send_after f)"] assms(2) Some
      by (simp add: subscribe_ok_def buf)
    have "mem_at buf 20 = Some (of_bool (flt_on_change f))" "mem_at buf 21 = Some (of_bool (flt_resets_interval f))"
      "load e buf 22 = Some (flt_interval f)" "mem_at buf (30 + length (flt_ignore f) * 9) = Some (of_bool (flt_send_after f))"
      unfolding buf by (simp_all add: wire_simps del: mem_at_Some load_Some)
    moreover have "c\<lparr>sub_filter := Some \<lparr>flt_on_change = flt_on_change f, flt_resets_interval = flt_resets_interval f,
        flt_interval = flt_interval f, flt_ignore = flt_ignore f, flt_send_after = flt_send_after f\<rparr>\<rparr> = c"
      using Some by (cases c; cases f) simp
    ultimately show ?thesis
      using c1 c2 loop len
      unfolding subscribe_deserialize_def subscribe_filter_pay_def rest_def [symmetric] buf_def [symmetric]
      by (simp add: debounce_filter_new_def Let_def del: mem_at_Some load_Some)
  qed
qed

interpretation subscribe: wire_codec SUBSCRIBE_ID subscribe_serialize subscribe_deserialize subscribe_command_new
  "\<lambda>_. subscribe_ok" subscribe_filter_pay
proof
  fix c :: subscribe_command and e and buf :: bytes
  let ?pay = "subscribe_filter_pay e c"
  assume c: "cmd_id c = SUBSCRIBE_ID" "subscribe_ok c" and len: "9 + length ?pay \<le> MAX_COMMAND_SIZE"
  show "subscribe_serialize e c buf = Some (cmd_header e (sized ?pay c) @ ?pay, sized ?pay c, ERROR_OK)"
    using len by (rule subscribe_serialize_bytes)
  have "subscribe_ok (sized ?pay c)" "subscribe_filter_pay e (sized ?pay c) = ?pay"
    using c(2) by (simp_all add: subscribe_ok_def subscribe_filter_pay_def) (simp_all add: sized_def)
  then show "subscribe_deserialize e (cmd_header e (sized ?pay c) @ ?pay) subscribe_command_new = Some (sized ?pay c, ERROR_OK)"
    using subscribe_deserialize_bytes [of "sized ?pay c" e] c(1) by simp
next
  fix e and buf :: bytes and c :: subscribe_command
  show "length buf < 9 \<Longrightarrow> map_option snd (subscribe_deserialize e buf c) = Some ERROR_NOT_ENOUGH_BYTES"
    by (simp add: subscribe_deserialize_def)
qed

section \<open>Truncated filters\<close>

text \<open>The guard of the filter counts ten bytes but eleven are read.\<close>

lemma subscribe_overread:
  assumes "length buf = 30" "buf ! 0 = SUBSCRIBE_ID" "cmd_id c = SUBSCRIBE_ID"
  shows "subscribe_deserialize e buf c = None"
proof -
  obtain c1 where c1: "command_deserialize e buf c = Some (c1, ERROR_OK)" "cmd_id c1 = SUBSCRIBE_ID"
    using command_deserialize_match [of buf c e] assms by auto
  obtain c2 where "subscribe_command_base_deserialize e buf c1 = Some (c2, ERROR_OK)"
    using command_deserialize_match [of buf c1 e] assms c1(2) by (auto simp: subscribe_command_base_deserialize_def)
  moreover have "ignore_loop e buf 30 [] = Some ([], 30, ERROR_OK)" using assms(1) by (simp add: ignore_loop.simps)
  moreover have "mem_at buf 30 = None" using assms(1) by (simp add: mem_at_eq_None)
  ultimately show ?thesis
    using assms(1) c1(1) by (auto simp: subscribe_deserialize_def Let_def split: Option.bind_splits)
qed

end
