(* ===== verification/Command_Routing.thy ===== *)
theory Command_Routing
  imports Command_List
begin

text \<open>
  Routing information (\<open>protocol/src/routing_info_entry.cpp\<close>, \<open>routing_info_command.cpp\<close>): the
  routing host tells its clients which clients and services are there. An entry holds a
  client, its address and port when it has one, and for service entries a list of services.

  \<open>boost::asio::ip::address\<close> is not part of the sources; the operations of it that the code
  calls are the fields of the argument \<open>A\<close>.
\<close>

record 'a asio_address =
  addr_default :: 'a
  is_unspecified :: "'a \<Rightarrow> bool"
  is_v4 :: "'a \<Rightarrow> bool"
  v4_to_bytes :: "'a \<Rightarrow> bytes"
  v6_to_bytes :: "'a \<Rightarrow> bytes"
  address_v4 :: "bytes \<Rightarrow> 'a"
  address_v6 :: "bytes \<Rightarrow> 'a"

abbreviation RIE_ADD_CLIENT :: byte where "RIE_ADD_CLIENT \<equiv> 0x00"
abbreviation RIE_DELETE_CLIENT :: byte where "RIE_DELETE_CLIENT \<equiv> 0x01"
abbreviation RIE_ADD_SERVICE_INSTANCE :: byte where "RIE_ADD_SERVICE_INSTANCE \<equiv> 0x02"
abbreviation RIE_DELETE_SERVICE_INSTANCE :: byte where "RIE_DELETE_SERVICE_INSTANCE \<equiv> 0x04"
abbreviation RIE_UNKNOWN :: byte where "RIE_UNKNOWN \<equiv> 0xFF"

record 'a routing_info_entry =
  rie_type :: byte
  rie_client :: u16
  rie_address :: 'a
  rie_port :: u16
  rie_services :: "service list"

text \<open>The constructor leaves \<open>client_\<close> uninitialised: the argument \<open>cl\<close>.\<close>

definition routing_info_entry_new :: "'a asio_address \<Rightarrow> u16 \<Rightarrow> 'a routing_info_entry" where
  "routing_info_entry_new A cl = \<lparr> rie_type = RIE_UNKNOWN, rie_client = cl, rie_address = addr_default A, rie_port = 0,
     rie_services = [] \<rparr>"

text \<open>The bytes of the address and the port, absent for an unspecified address.\<close>

definition address_size :: "'a asio_address \<Rightarrow> 'a \<Rightarrow> nat" where
  "address_size A a = (if is_unspecified A a then 0 else if is_v4 A a then 4 + 2 else 16 + 2)"

definition entry_get_size :: "'a asio_address \<Rightarrow> 'a routing_info_entry \<Rightarrow> nat" where
  "entry_get_size A r = 7 + address_size A (rie_address r)
     + (if rie_type r > RIE_DELETE_CLIENT then 4 + 4 + length (rie_services r) * 9 else 0)"

definition address_write :: "'a asio_address \<Rightarrow> endianess_e \<Rightarrow> 'a routing_info_entry \<Rightarrow> bytes \<Rightarrow> nat \<Rightarrow> (bytes \<times> nat) option" where
  "address_write A e r buf idx =
     (if is_unspecified A (rie_address r) then Some (buf, idx)
      else do {
        (buf, idx) \<leftarrow> (if is_v4 A (rie_address r)
          then map_option (\<lambda>b. (b, idx + 4)) (mem_write buf idx (v4_to_bytes A (rie_address r)))
          else map_option (\<lambda>b. (b, idx + 16)) (mem_write buf idx (v6_to_bytes A (rie_address r))));
        buf \<leftarrow> store e buf idx (rie_port r);
        Some (buf, idx + 2)
      })"

text \<open>The size field, the client size of service entries, and the client.\<close>

definition client_write :: "'a asio_address \<Rightarrow> endianess_e \<Rightarrow> 'a routing_info_entry \<Rightarrow> bytes \<Rightarrow> nat \<Rightarrow> (bytes \<times> nat) option" where
  "client_write A e r buf idx = do {
     buf \<leftarrow> store e buf idx (of_nat (entry_get_size A r - 4 - 1) :: u32);
     let idx = idx + 4;
     let its_client_size = (2 + of_nat (address_size A (rie_address r)) :: u32);
     (buf, idx) \<leftarrow> (if rie_type r > RIE_DELETE_CLIENT
       then map_option (\<lambda>b. (b, idx + 4)) (store e buf idx its_client_size) else Some (buf, idx));
     buf \<leftarrow> store e buf idx (rie_client r);
     Some (buf, idx + 2)
   }"

definition services_write :: "endianess_e \<Rightarrow> 'a routing_info_entry \<Rightarrow> bytes \<Rightarrow> nat \<Rightarrow> error_e \<Rightarrow> (bytes \<times> nat \<times> error_e) option" where
  "services_write e r buf idx err = do {
     let its_size = length (rie_services r) * 9;
     if its_size > MAX_COMMAND_SIZE then Some (buf, idx, ERROR_MALFORMED)
     else do {
       buf \<leftarrow> store e buf idx (of_nat its_size :: u32);
       (buf, idx) \<leftarrow> write_each (service_write e) (rie_services r) buf (idx + 4);
       Some (buf, idx, err)
     }
   }"

definition routing_info_entry_serialize ::
  "'a asio_address \<Rightarrow> endianess_e \<Rightarrow> 'a routing_info_entry \<Rightarrow> bytes \<Rightarrow> nat \<Rightarrow> error_e \<Rightarrow> (bytes \<times> nat \<times> error_e) option" where
  "routing_info_entry_serialize A e r buf idx err = do {
     buf \<leftarrow> mem_put buf idx (rie_type r);
     if entry_get_size A r - 4 - 1 > MAX_COMMAND_SIZE then Some (buf, idx + 1, ERROR_MALFORMED)
     else do {
       (buf, idx) \<leftarrow> client_write A e r buf (idx + 1);
       (buf, idx) \<leftarrow> address_write A e r buf idx;
       if rie_type r > RIE_DELETE_CLIENT then services_write e r buf idx err
       else Some (buf, idx, err)
     }
   }"

text \<open>
  The address part of \<open>deserialize\<close>: \<open>None\<close> inside is the malformed size. \<open>its_address_size\<close>
  is computed in 32 bits.
\<close>

definition address_read ::
  "'a asio_address \<Rightarrow> endianess_e \<Rightarrow> u32 \<Rightarrow> bytes \<Rightarrow> nat \<Rightarrow> 'a routing_info_entry \<Rightarrow> ('a routing_info_entry \<times> nat) option option" where
  "address_read A e its_client_size buf idx r =
     (if its_client_size > 2 then do {
        let its_address_size = its_client_size - 4;
        if its_address_size = 4 then do {
          bs \<leftarrow> mem_sub buf idx 4;
          p \<leftarrow> load e buf (idx + 4);
          Some (Some (r\<lparr>rie_address := address_v4 A bs, rie_port := p\<rparr>, idx + 4 + 2))
        }
        else if its_address_size = 16 then do {
          bs \<leftarrow> mem_sub buf idx 16;
          p \<leftarrow> load e buf (idx + 16);
          Some (Some (r\<lparr>rie_address := address_v6 A bs, rie_port := p\<rparr>, idx + 16 + 2))
        }
        else Some None
      }
      else Some (Some (r, idx)))"

definition services_read ::
  "endianess_e \<Rightarrow> bytes \<Rightarrow> nat \<Rightarrow> 'a routing_info_entry \<Rightarrow> error_e \<Rightarrow> ('a routing_info_entry \<times> nat \<times> error_e) option" where
  "services_read e buf idx r err =
     (if length buf < idx + 4 then Some (r, idx, ERROR_NOT_ENOUGH_BYTES)
      else do {
        its_size \<leftarrow> (load e buf idx :: u32 option);
        let idx = idx + 4;
        if length buf < idx + unat its_size then Some (r, idx, ERROR_NOT_ENOUGH_BYTES)
        else do {
          (ss, idx) \<leftarrow> read_times (service_read e) (\<lambda>s acc. acc @ [s]) (unat its_size div 9) buf idx (rie_services r);
          Some (r\<lparr>rie_services := ss\<rparr>, idx, err)
        }
      })"

definition client_read :: "endianess_e \<Rightarrow> byte \<Rightarrow> bytes \<Rightarrow> nat \<Rightarrow> (u32 \<times> u16 \<times> nat) option" where
  "client_read e t buf idx = do {
     its_size \<leftarrow> load e buf idx;
     let idx = idx + 4;
     (its_client_size, idx) \<leftarrow> (if t > RIE_DELETE_CLIENT
       then map_option (\<lambda>n. (n, idx + 4)) (load e buf idx) else Some (its_size, idx));
     cl \<leftarrow> load e buf idx;
     Some (its_client_size, cl, idx + 2)
   }"

definition routing_info_entry_deserialize ::
  "'a asio_address \<Rightarrow> endianess_e \<Rightarrow> bytes \<Rightarrow> nat \<Rightarrow> 'a routing_info_entry \<Rightarrow> error_e \<Rightarrow>
     ('a routing_info_entry \<times> nat \<times> error_e) option" where
  "routing_info_entry_deserialize A e buf idx r err =
     (if length buf < idx + 7 then Some (r, idx, ERROR_NOT_ENOUGH_BYTES)
      else do {
        t \<leftarrow> mem_at buf idx;
        let r = r\<lparr>rie_type := t\<rparr>;
        if t = RIE_UNKNOWN then Some (r, idx + 1, ERROR_MALFORMED)
        else do {
          (its_client_size, cl, idx) \<leftarrow> client_read e t buf (idx + 1);
          let r = r\<lparr>rie_client := cl\<rparr>;
          a \<leftarrow> address_read A e its_client_size buf idx r;
          case a of None \<Rightarrow> Some (r, idx, ERROR_MALFORMED)
          | Some (r, idx) \<Rightarrow>
              if t > RIE_DELETE_CLIENT then services_read e buf idx r err
              else Some (r, idx, err)
        }
      })"

record 'a routing_info_command = command +
  ri_entries :: "'a routing_info_entry list"

definition routing_info_command_new :: "'a routing_info_command" where
  "routing_info_command_new = command_new ROUTING_INFO_ID \<lparr> ri_entries = [] \<rparr>"

fun entries_serialize ::
  "'a asio_address \<Rightarrow> endianess_e \<Rightarrow> 'a routing_info_entry list \<Rightarrow> bytes \<Rightarrow> nat \<Rightarrow> error_e \<Rightarrow> (bytes \<times> error_e) option" where
  "entries_serialize A e [] buf idx err = Some (buf, err)"
| "entries_serialize A e (r # rs) buf idx err = do {
     (buf, idx, err) \<leftarrow> routing_info_entry_serialize A e r buf idx err;
     if err \<noteq> ERROR_OK then Some ([], err) else entries_serialize A e rs buf idx err
   }"

text \<open>The total size is not compared with the range of the size field.\<close>

definition routing_info_serialize ::
  "'a asio_address \<Rightarrow> endianess_e \<Rightarrow> 'a routing_info_command \<Rightarrow> bytes \<Rightarrow> (bytes \<times> 'a routing_info_command \<times> error_e) option" where
  "routing_info_serialize A e c buf = do {
     let its_size = COMMAND_HEADER_SIZE + sum_list (map (entry_get_size A) (ri_entries c));
     let buf = vec_resize buf its_size 0;
     let c = c\<lparr>cmd_size := of_nat (its_size - COMMAND_HEADER_SIZE)\<rparr>;
     (buf, err) \<leftarrow> command_serialize e c buf;
     if err \<noteq> ERROR_OK then Some (buf, c, err)
     else do {
       (buf, err) \<leftarrow> entries_serialize A e (ri_entries c) buf COMMAND_HEADER_SIZE err;
       Some (buf, c, err)
     }
   }"

partial_function (option) entries_deserialize ::
  "'a asio_address \<Rightarrow> endianess_e \<Rightarrow> u16 \<Rightarrow> bytes \<Rightarrow> nat \<Rightarrow> 'a routing_info_entry list \<Rightarrow> error_e \<Rightarrow>
     ('a routing_info_entry list \<times> error_e) option" where
  "entries_deserialize A e cl buf idx rs err =
     (if idx < length buf then do {
        (r, idx, err) \<leftarrow> routing_info_entry_deserialize A e buf idx (routing_info_entry_new A cl) err;
        if err = ERROR_OK then entries_deserialize A e cl buf idx (rs @ [r]) err else Some (rs, err)
      }
      else Some (rs, err))"

declare entries_deserialize.simps [code]

definition routing_info_deserialize ::
  "'a asio_address \<Rightarrow> u16 \<Rightarrow> endianess_e \<Rightarrow> bytes \<Rightarrow> 'a routing_info_command \<Rightarrow> ('a routing_info_command \<times> error_e) option" where
  "routing_info_deserialize A cl e buf c = deserialize_frame e buf c COMMAND_HEADER_SIZE (\<lambda>c. do {
     (rs, err) \<leftarrow> entries_deserialize A e cl buf COMMAND_HEADER_SIZE (ri_entries c) ERROR_OK;
     Some (c\<lparr>ri_entries := rs\<rparr>, err)
   })"

section \<open>One entry\<close>

definition address_pay :: "'a asio_address \<Rightarrow> endianess_e \<Rightarrow> 'a routing_info_entry \<Rightarrow> bytes" where
  "address_pay A e r =
     (if is_unspecified A (rie_address r) then []
      else (if is_v4 A (rie_address r) then v4_to_bytes A (rie_address r) else v6_to_bytes A (rie_address r))
        @ mem_of e (rie_port r))"

definition rie_services_pay :: "endianess_e \<Rightarrow> 'a routing_info_entry \<Rightarrow> bytes" where
  "rie_services_pay e r = mem_of e (of_nat (length (rie_services r) * 9) :: u32) @ concat (map (service_pay e) (rie_services r))"

definition client_pay :: "'a asio_address \<Rightarrow> endianess_e \<Rightarrow> 'a routing_info_entry \<Rightarrow> bytes" where
  "client_pay A e r = mem_of e (of_nat (entry_get_size A r - 5) :: u32)
     @ (if rie_type r > RIE_DELETE_CLIENT then mem_of e (2 + of_nat (address_size A (rie_address r)) :: u32) else [])
     @ mem_of e (rie_client r)"

definition rie_pay :: "'a asio_address \<Rightarrow> endianess_e \<Rightarrow> 'a routing_info_entry \<Rightarrow> bytes" where
  "rie_pay A e r = [rie_type r] @ client_pay A e r @ address_pay A e r
     @ (if rie_type r > RIE_DELETE_CLIENT then rie_services_pay e r else [])"

text \<open>
  An address that the byte forms represent, with the port only next to an address; services
  only in service entries.
\<close>

definition address_ok :: "'a asio_address \<Rightarrow> 'a routing_info_entry \<Rightarrow> bool" where
  "address_ok A r \<longleftrightarrow> (let a = rie_address r in
     if is_unspecified A a then a = addr_default A \<and> rie_port r = 0
     else if is_v4 A a then length (v4_to_bytes A a) = 4 \<and> address_v4 A (v4_to_bytes A a) = a
     else length (v6_to_bytes A a) = 16 \<and> address_v6 A (v6_to_bytes A a) = a)"

definition rie_ok :: "'a asio_address \<Rightarrow> 'a routing_info_entry \<Rightarrow> bool" where
  "rie_ok A r \<longleftrightarrow> address_ok A r \<and> rie_type r \<noteq> RIE_UNKNOWN \<and> entry_get_size A r \<le> MAX_COMMAND_SIZE \<and>
     (rie_type r \<le> RIE_DELETE_CLIENT \<longrightarrow> rie_services r = [])"

lemma length_address_pay: "address_ok A r \<Longrightarrow> length (address_pay A e r) = address_size A (rie_address r)"
  by (auto simp: address_ok_def address_pay_def address_size_def Let_def)

lemma length_rie_services_pay: "length (rie_services_pay e r) = 4 + length (rie_services r) * 9"
  by (simp add: rie_services_pay_def length_services)

lemma length_rie_pay: "address_ok A r \<Longrightarrow> length (rie_pay A e r) = entry_get_size A r"
  by (simp add: rie_pay_def client_pay_def entry_get_size_def length_address_pay length_rie_services_pay)

lemma address_write_bytes:
  assumes "address_ok A r" "length (address_pay A e r) \<le> length rest"
  shows "address_write A e r (p @ rest) (length p) =
    Some (p @ address_pay A e r @ drop (length (address_pay A e r)) rest, length p + length (address_pay A e r))"
  using assms by (auto simp: address_ok_def address_write_def address_pay_def wire_simps Let_def add.commute)

lemma address_size_word:
  "(2 :: u32) < 2 + of_nat (address_size A a) \<longleftrightarrow> \<not> is_unspecified A a"
  "\<not> is_unspecified A a \<Longrightarrow> (2 + of_nat (address_size A a) - 4 :: u32) = (if is_v4 A a then 4 else 16)"
  by (simp_all add: address_size_def)

lemma address_read_bytes:
  assumes "address_ok A r" "rie_address r0 = addr_default A" "rie_port r0 = 0"
  shows "address_read A e (2 + of_nat (address_size A (rie_address r))) (p @ address_pay A e r @ rest) (length p) r0 =
    Some (Some (r0\<lparr>rie_address := rie_address r, rie_port := rie_port r\<rparr>, length p + length (address_pay A e r)))"
proof (cases "is_unspecified A (rie_address r)")
  case True
  with assms have "rie_address r = addr_default A" "rie_port r = 0" by (simp_all add: address_ok_def)
  with assms(2,3) have "r0\<lparr>rie_address := rie_address r, rie_port := rie_port r\<rparr> = r0" by (cases r0) simp
  then show ?thesis using True by (simp add: address_read_def address_size_word address_pay_def)
next
  case False
  let ?a = "rie_address r"
  define bs where "bs = (if is_v4 A ?a then v4_to_bytes A ?a else v6_to_bytes A ?a)"
  define n where "n = (if is_v4 A ?a then 4 else 16 :: nat)"
  have pay: "address_pay A e r = bs @ mem_of e (rie_port r)" using False by (simp add: address_pay_def bs_def)
  have bs: "length bs = n" "(if is_v4 A ?a then address_v4 A bs else address_v6 A bs) = ?a"
    using assms(1) False by (auto simp: address_ok_def bs_def n_def Let_def)
  have "mem_sub (p @ bs @ mem_of e (rie_port r) @ rest) (length p) n = Some bs"
    "load e (p @ bs @ mem_of e (rie_port r) @ rest) (length p + n) = Some (rie_port r)"
    using bs(1) by (simp_all add: mem_sub_def wire_simps del: load_Some)
  then show ?thesis
    using bs False address_size_word [of A ?a] by (auto simp: address_read_def pay n_def Let_def split: if_splits)
qed

lemma client_write_bytes:
  "length (client_pay A e r) \<le> length rest \<Longrightarrow> client_write A e r (p @ rest) (length p) =
     Some (p @ client_pay A e r @ drop (length (client_pay A e r)) rest, length p + length (client_pay A e r))"
  by (cases "RIE_DELETE_CLIENT < rie_type r") (simp_all add: client_write_def client_pay_def wire_simps Let_def)

lemma client_read_bytes:
  assumes "rie_ok A r"
  shows "client_read e (rie_type r) (p @ client_pay A e r @ rest) (length p) =
    Some (2 + of_nat (address_size A (rie_address r)), rie_client r, length p + length (client_pay A e r))"
  by (simp add: client_read_def client_pay_def wire_simps entry_get_size_def del: load_Some)

lemma services_write_bytes:
  assumes "length (rie_services r) * 9 \<le> MAX_COMMAND_SIZE" "length (rie_services_pay e r) \<le> length rest"
  shows "services_write e r (p @ rest) (length p) err =
    Some (p @ rie_services_pay e r @ drop (length (rie_services_pay e r)) rest, length p + length (rie_services_pay e r), err)"
proof -
  let ?n = "mem_of e (of_nat (length (rie_services r) * 9) :: u32)"
  have "write_each (service_write e) (rie_services r) (p @ ?n @ drop 4 rest) (length p + 4) =
      Some (p @ rie_services_pay e r @ drop (length (rie_services_pay e r)) rest, length p + length (rie_services_pay e r))"
    using write_each_bytes [of "rie_services r" "service_write e" "service_pay e" "drop 4 rest" "p @ ?n", OF writes_service] assms(2)
    by (simp add: length_rie_services_pay length_services) (simp add: rie_services_pay_def add.commute)
  then show ?thesis
    using assms by (simp add: services_write_def wire_simps length_rie_services_pay Let_def del: of_nat_mult)
qed

lemma services_read_bytes:
  assumes "length (rie_services r) * 9 \<le> MAX_COMMAND_SIZE" "rie_services r0 = []"
  shows "services_read e (p @ rie_services_pay e r @ rest) (length p) r0 err =
    Some (r0\<lparr>rie_services := rie_services r\<rparr>, length p + length (rie_services_pay e r), err)"
proof -
  let ?n = "mem_of e (of_nat (length (rie_services r) * 9) :: u32)" and ?ss = "concat (map (service_pay e) (rie_services r))"
  have "fold (\<lambda>s acc. acc @ [s]) ss acc = acc @ ss" for ss acc :: "service list"
    by (induction ss arbitrary: acc) simp_all
  then have "read_times (service_read e) (\<lambda>s acc. acc @ [s]) (length (rie_services r)) (p @ ?n @ ?ss @ rest) (length p + 4) [] =
      Some (rie_services r, length p + length (rie_services_pay e r))"
    using read_times_bytes [of "rie_services r" "service_read e" "service_pay e" "\<lambda>s acc. acc @ [s]" "p @ ?n" rest "[]",
        OF reads_service] by (simp add: length_rie_services_pay length_services)
  moreover have "load e (p @ ?n @ ?ss @ rest) (length p) = Some (of_nat (length (rie_services r) * 9) :: u32)"
    by (simp add: wire_simps del: load_Some of_nat_mult)
  ultimately show ?thesis
    using assms unat_u32_of_nat [OF assms(1)]
    by (simp add: services_read_def rie_services_pay_def length_services Let_def del: of_nat_mult)
qed

lemma rie_serialize_bytes:
  assumes "rie_ok A r" "length (rie_pay A e r) \<le> length rest"
  shows "routing_info_entry_serialize A e r (p @ rest) (length p) err =
    Some (p @ rie_pay A e r @ drop (length (rie_pay A e r)) rest, length p + length (rie_pay A e r), err)"
proof -
  let ?h = "p @ [rie_type r]" and ?c = "client_pay A e r" and ?a = "address_pay A e r"
  have ok: "address_ok A r" "entry_get_size A r \<le> MAX_COMMAND_SIZE" using assms(1) by (simp_all add: rie_ok_def)
  have "mem_put (p @ rest) (length p) (rie_type r) = Some (?h @ drop 1 rest)"
    using assms(2) by (simp add: wire_simps rie_pay_def del: mem_put_Some)
  moreover have "client_write A e r (?h @ drop 1 rest) (length p + 1) =
      Some ((?h @ ?c) @ drop (1 + length ?c) rest, length (?h @ ?c))"
    using client_write_bytes [of A e r "drop 1 rest" ?h] assms(2) by (simp add: rie_pay_def add.commute)
  moreover have "address_write A e r ((?h @ ?c) @ drop (1 + length ?c) rest) (length (?h @ ?c)) =
      Some ((?h @ ?c @ ?a) @ drop (1 + length ?c + length ?a) rest, length (?h @ ?c @ ?a))"
    using address_write_bytes [OF ok(1), of e "drop (1 + length ?c) rest" "?h @ ?c"] assms(2) by (simp add: rie_pay_def add.commute)
  moreover have "services_write e r ((?h @ ?c @ ?a) @ drop (1 + length ?c + length ?a) rest) (length (?h @ ?c @ ?a)) err =
      Some (p @ rie_pay A e r @ drop (length (rie_pay A e r)) rest, length p + length (rie_pay A e r), err)"
    if "rie_type r > RIE_DELETE_CLIENT"
    using services_write_bytes [of r e "drop (1 + length ?c + length ?a) rest" "?h @ ?c @ ?a" err] assms(2) ok(2) that
    by (simp add: rie_pay_def entry_get_size_def add.commute add.left_commute)
  ultimately show ?thesis
    using ok(2) by (auto simp: routing_info_entry_serialize_def rie_pay_def)
qed

lemma rie_deserialize_bytes:
  assumes "rie_ok A r"
  shows "routing_info_entry_deserialize A e (p @ rie_pay A e r @ rest) (length p) (routing_info_entry_new A cl) err =
    Some (r, length p + length (rie_pay A e r), err)"
proof -
  let ?h = "p @ [rie_type r]" and ?c = "client_pay A e r" and ?a = "address_pay A e r"
    and ?s = "if rie_type r > RIE_DELETE_CLIENT then rie_services_pay e r else []"
  let ?r0 = "(routing_info_entry_new A cl)\<lparr>rie_type := rie_type r, rie_client := rie_client r\<rparr>"
  have ok: "address_ok A r" "entry_get_size A r \<le> MAX_COMMAND_SIZE" "rie_type r \<noteq> RIE_UNKNOWN"
    "rie_type r \<le> RIE_DELETE_CLIENT \<Longrightarrow> rie_services r = []" using assms by (simp_all add: rie_ok_def)
  have buf: "p @ rie_pay A e r @ rest = ?h @ ?c @ ?a @ ?s @ rest" by (simp add: rie_pay_def)
  have "mem_at (?h @ ?c @ ?a @ ?s @ rest) (length p) = Some (rie_type r)" by (simp add: mem_at_def nth_append)
  moreover have "client_read e (rie_type r) (?h @ ?c @ ?a @ ?s @ rest) (length p + 1) =
      Some (2 + of_nat (address_size A (rie_address r)), rie_client r, length (?h @ ?c))"
    using client_read_bytes [OF assms, of e ?h "?a @ ?s @ rest"] by simp
  moreover have "address_read A e (2 + of_nat (address_size A (rie_address r))) (?h @ ?c @ ?a @ ?s @ rest) (length (?h @ ?c)) ?r0 =
      Some (Some (?r0\<lparr>rie_address := rie_address r, rie_port := rie_port r\<rparr>, length (?h @ ?c @ ?a)))"
    using address_read_bytes [OF ok(1), of ?r0 e "?h @ ?c" "?s @ rest"] by (simp add: routing_info_entry_new_def)
  moreover have "services_read e (?h @ ?c @ ?a @ rie_services_pay e r @ rest) (length (?h @ ?c @ ?a))
        (?r0\<lparr>rie_address := rie_address r, rie_port := rie_port r\<rparr>) err = Some (r, length p + length (rie_pay A e r), err)"
    if "rie_type r > RIE_DELETE_CLIENT"
    using services_read_bytes [of r "?r0\<lparr>rie_address := rie_address r, rie_port := rie_port r\<rparr>" e "?h @ ?c @ ?a" rest err]
      ok(2) that by (simp add: rie_pay_def entry_get_size_def routing_info_entry_new_def)
  moreover have "?r0\<lparr>rie_address := rie_address r, rie_port := rie_port r\<rparr> = r" if "\<not> rie_type r > RIE_DELETE_CLIENT"
    using ok(4) that by (cases r) (simp add: routing_info_entry_new_def not_less)
  moreover have "length p + 7 \<le> length (?h @ ?c @ ?a @ ?s @ rest)" by (simp add: client_pay_def)
  ultimately show ?thesis
    unfolding buf using ok(3) by (simp add: routing_info_entry_deserialize_def rie_pay_def)
qed

section \<open>The command\<close>

definition routing_info_pay :: "'a asio_address \<Rightarrow> endianess_e \<Rightarrow> 'a routing_info_command \<Rightarrow> bytes" where
  "routing_info_pay A e c = concat (map (rie_pay A e) (ri_entries c))"

definition routing_info_ok :: "'a asio_address \<Rightarrow> 'a routing_info_command \<Rightarrow> bool" where
  "routing_info_ok A c \<longleftrightarrow> list_all (rie_ok A) (ri_entries c)"

lemma length_ries: "list_all (rie_ok A) rs \<Longrightarrow> length (concat (map (rie_pay A e) rs)) = sum_list (map (entry_get_size A) rs)"
  by (induction rs) (simp_all add: length_rie_pay rie_ok_def)

lemma entries_serialize_bytes:
  assumes "list_all (rie_ok A) rs" "length rest = length (concat (map (rie_pay A e) rs))"
  shows "entries_serialize A e rs (p @ rest) (length p) ERROR_OK = Some (p @ concat (map (rie_pay A e) rs), ERROR_OK)"
  using assms
proof (induction rs arbitrary: p rest)
  case (Cons r rs)
  let ?b = "rie_pay A e r"
  have "entries_serialize A e rs ((p @ ?b) @ drop (length ?b) rest) (length (p @ ?b)) ERROR_OK =
      Some ((p @ ?b) @ concat (map (rie_pay A e) rs), ERROR_OK)"
    using Cons.prems by (intro Cons.IH) simp_all
  then show ?case
    using rie_serialize_bytes [of A r e rest p ERROR_OK] Cons.prems by simp
qed simp

lemma entries_deserialize_bytes:
  assumes "list_all (rie_ok A) rs"
  shows "entries_deserialize A e cl (p @ concat (map (rie_pay A e) rs)) (length p) acc ERROR_OK = Some (acc @ rs, ERROR_OK)"
  using assms
proof (induction rs arbitrary: p acc)
  case (Cons r rs)
  let ?b = "rie_pay A e r" and ?q = "concat (map (rie_pay A e) rs)"
  have "entries_deserialize A e cl ((p @ ?b) @ ?q) (length (p @ ?b)) (acc @ [r]) ERROR_OK = Some ((acc @ [r]) @ rs, ERROR_OK)"
    using Cons.prems by (intro Cons.IH) simp
  moreover have "length p < length (p @ ?b @ ?q)" by (simp add: rie_pay_def)
  moreover have "routing_info_entry_deserialize A e (p @ ?b @ ?q) (length p) (routing_info_entry_new A cl) ERROR_OK =
      Some (r, length p + length ?b, ERROR_OK)"
    using Cons.prems by (intro rie_deserialize_bytes) simp
  ultimately show ?case by (subst entries_deserialize.simps) simp
qed (simp add: entries_deserialize.simps)

interpretation routing_info: wire_codec ROUTING_INFO_ID "routing_info_serialize A" "routing_info_deserialize A cl"
  routing_info_command_new "\<lambda>_. routing_info_ok A" "routing_info_pay A" for A :: "'a asio_address" and cl
proof
  fix c :: "'a routing_info_command" and e and buf :: bytes
  let ?pay = "routing_info_pay A e c"
  assume c: "cmd_id c = ROUTING_INFO_ID" "routing_info_ok A c"
  have n: "sum_list (map (entry_get_size A) (ri_entries c)) = length ?pay"
    using c(2) by (simp add: routing_info_pay_def routing_info_ok_def length_ries)
  have "entries_serialize A e (ri_entries c) (h @ rest) 9 ERROR_OK = Some (h @ ?pay, ERROR_OK)"
    if "length h = 9" "length rest = length ?pay" for h rest
    using entries_serialize_bytes [of A "ri_entries c" rest e h] that c(2) by (simp add: routing_info_ok_def routing_info_pay_def)
  then show "routing_info_serialize A e c buf = Some (cmd_header e (sized ?pay c) @ ?pay, sized ?pay c, ERROR_OK)"
    by (simp add: routing_info_serialize_def n command_serialize_bytes sized_def Let_def)
  have "entries_deserialize A e cl (h @ ?pay) 9 [] ERROR_OK = Some (ri_entries c, ERROR_OK)" if "length h = 9" for h
    using entries_deserialize_bytes [of A "ri_entries c" e cl h "[]"] that c(2) by (simp add: routing_info_ok_def routing_info_pay_def)
  then show "routing_info_deserialize A cl e (cmd_header e (sized ?pay c) @ ?pay) routing_info_command_new =
      Some (sized ?pay c, ERROR_OK)"
    unfolding routing_info_deserialize_def using c(1)
    by (subst deserialize_frame_bytes) (simp_all add: routing_info_command_new_def command_new_def sized_def)
next
  fix e and buf :: bytes and c :: "'a routing_info_command"
  show "length buf < 9 \<Longrightarrow> map_option snd (routing_info_deserialize A cl e buf c) = Some ERROR_NOT_ENOUGH_BYTES"
    by (simp add: routing_info_deserialize_def deserialize_frame_short)
qed

section \<open>Truncated service entries\<close>

text \<open>
  The guard of an entry counts seven bytes, but a service entry has eleven before its address:
  a command that ends after them makes the reader leave the vector.
\<close>

lemma routing_info_overread:
  assumes "length buf = 16" "buf ! 0 = ROUTING_INFO_ID" "buf ! 9 = RIE_ADD_SERVICE_INSTANCE" "cmd_id c = ROUTING_INFO_ID"
  shows "routing_info_deserialize A cl e buf c = None"
proof -
  obtain c1 where "command_deserialize e buf c = Some (c1, ERROR_OK)"
    using command_deserialize_match [of buf c e] assms by auto
  moreover have "client_read e RIE_ADD_SERVICE_INSTANCE buf 10 = None"
    using assms(1) load_eq_None [of e buf 14, where 'a = 32] by (simp add: client_read_def)
  then have "entries_deserialize A e cl buf 9 rs ERROR_OK = None" for rs
    using assms(1,3) by (subst entries_deserialize.simps) (simp add: routing_info_entry_deserialize_def)
  ultimately show ?thesis
    using assms(1) by (simp add: routing_info_deserialize_def deserialize_frame_def)
qed

text \<open>
  C36. Routing information reaches the applications: for every behaviour of
  \<open>boost::asio::ip::address\<close> in which the byte form of an address gives the address back, a command whose
  entries hold such addresses is serialized into one well framed command, and the receiver
  reads the same entries, whatever its uninitialised members held.
\<close>

theorem routing_info_transfer:
  assumes "cmd_id c = ROUTING_INFO_ID" "list_all (rie_ok A) (ri_entries c)"
    and "9 + sum_list (map (entry_get_size A) (ri_entries c)) \<le> MAX_COMMAND_SIZE"
  shows "\<exists>bs c'. routing_info_serialize A e c buf = Some (bs, c', ERROR_OK) \<and> one_command e bs
    \<and> routing_info_deserialize A cl e bs routing_info_command_new = Some (c', ERROR_OK) \<and> ri_entries c' = ri_entries c"
proof -
  have "length (routing_info_pay A e c) = sum_list (map (entry_get_size A) (ri_entries c))"
    using assms(2) by (simp add: routing_info_pay_def length_ries)
  then show ?thesis
    using routing_info.transfer [of c A e buf cl] assms by (auto simp: routing_info_ok_def sized_def)
qed

text \<open>An address as its bytes: four for version 4, sixteen for version 6, none when unspecified.\<close>

definition address_bytes :: "bytes asio_address" where
  "address_bytes = \<lparr> addr_default = [], is_unspecified = (\<lambda>a. a = []), is_v4 = (\<lambda>a. length a = 4),
     v4_to_bytes = (\<lambda>a. a), v6_to_bytes = (\<lambda>a. a), address_v4 = (\<lambda>bs. bs), address_v6 = (\<lambda>bs. bs) \<rparr>"

definition example_routing_info :: "bytes routing_info_command" where
  "example_routing_info = command_new ROUTING_INFO_ID \<lparr> ri_entries =
     [\<lparr> rie_type = RIE_ADD_CLIENT, rie_client = 3, rie_address = [127, 0, 0, 1], rie_port = 8, rie_services = [] \<rparr>,
      \<lparr> rie_type = RIE_ADD_SERVICE_INSTANCE, rie_client = 4, rie_address = [], rie_port = 0, rie_services = [service_new] \<rparr>] \<rparr>"

theorem routing_info_transfer_witness:
  "\<exists>bs c'. routing_info_serialize address_bytes LE example_routing_info [] = Some (bs, c', ERROR_OK) \<and> one_command LE bs
    \<and> routing_info_deserialize address_bytes 0x99 LE bs routing_info_command_new = Some (c', ERROR_OK)
    \<and> ri_entries c' = ri_entries example_routing_info"
  by (rule routing_info_transfer)
    (simp_all add: example_routing_info_def command_new_def rie_ok_def address_ok_def address_bytes_def entry_get_size_def address_size_def word_le_nat_alt)

end
