(* ===== verification/Policy.thy ===== *)
theory Policy
  imports Bithelper
begin

text \<open>
  Security policies on the wire (\<open>security/src/policy.cpp\<close>): the parser and the printer of a
  policy for one user, with the services it may request and offer.

  The containers of a policy are interval sets and interval maps of \<open>boost::icl\<close>, which is not
  part of the sources. The operations that the code uses are the fields of the argument \<open>I\<close>:
  the empty containers, adding a closed interval (with the value it maps to), and the
  elements that iteration yields, each interval as its \<open>lower()\<close> and \<open>upper()\<close>.

  A cursor is the pair of the pointer \<open>_data\<close>, as a position, and the remaining \<open>_size\<close>. A parser
  returns \<^term>\<open>None\<close> when it would read outside the buffer or not end, and \<^term>\<open>Some None\<close> when
  the C++ function returns \<open>false\<close>.
\<close>

type_synonym cursor = "nat \<times> u32"
type_synonym interval = "u16 \<times> u16"

record ('s, 'm, 'r, 'o, 'c) icl =
  iset_empty :: 's
  iset_insert :: "interval \<Rightarrow> 's \<Rightarrow> 's"
  iset_elems :: "'s \<Rightarrow> interval list"
  imap_empty :: 'm
  imap_add :: "interval \<Rightarrow> 's \<Rightarrow> 'm \<Rightarrow> 'm"
  imap_elems :: "'m \<Rightarrow> (interval \<times> 's) list"
  req_add :: "u16 \<Rightarrow> 'm \<Rightarrow> 'r \<Rightarrow> 'r"
  req_elems :: "'r \<Rightarrow> (interval \<times> 'm) list"
  off_add :: "u16 \<Rightarrow> 's \<Rightarrow> 'o \<Rightarrow> 'o"
  cred_add :: "u32 \<Rightarrow> u32 \<Rightarrow> 'c \<Rightarrow> 'c"
  cred_elems :: "'c \<Rightarrow> ((u32 \<times> u32) \<times> (u32 \<times> u32) list) list"

record ('r, 'o, 'c) policy =
  pol_credentials :: 'c
  pol_allow_who :: bool
  pol_requests :: 'r
  pol_offers :: 'o
  pol_allow_what :: bool

section \<open>Reading\<close>

definition policy_deserialize_u16 :: "bytes \<Rightarrow> cursor \<Rightarrow> (u16 \<times> cursor) option option" where
  "policy_deserialize_u16 buf st =
     (if snd st < 2 then Some None
      else do {
        v \<leftarrow> read_be buf (fst st);
        Some (Some (v, fst st + 2, snd st - 2))
      })"

definition policy_deserialize_u32 :: "bytes \<Rightarrow> cursor \<Rightarrow> (u32 \<times> cursor) option option" where
  "policy_deserialize_u32 buf st =
     (if snd st < 4 then Some None
      else do {
        v \<leftarrow> read_be buf (fst st);
        Some (Some (v, fst st + 4, snd st - 4))
      })"

text \<open>Sequencing: \<open>if (its_result == false) return false;\<close>.\<close>

definition and_then :: "('a \<times> cursor) option option \<Rightarrow> ('a \<Rightarrow> cursor \<Rightarrow> 'b option option) \<Rightarrow> 'b option option" where
  "and_then r f = (case r of None \<Rightarrow> None | Some None \<Rightarrow> Some None | Some (Some (v, st)) \<Rightarrow> f v st)"

lemma and_then_cong [fundef_cong]:
  "r = r' \<Longrightarrow> (\<And>v st. r' = Some (Some (v, st)) \<Longrightarrow> f v st = f' v st) \<Longrightarrow> and_then r f = and_then r' f'"
  by (auto simp: and_then_def split: option.splits)

lemma and_then_simps [simp]:
  "and_then None f = None" "and_then (Some None) f = Some None" "and_then (Some (Some (v, st))) f = f v st"
  by (simp_all add: and_then_def)

definition deserialize_uid_gid :: "bytes \<Rightarrow> cursor \<Rightarrow> ((u32 \<times> u32) \<times> cursor) option option" where
  "deserialize_uid_gid buf st =
     and_then (policy_deserialize_u32 buf st) (\<lambda>uid st.
     and_then (policy_deserialize_u32 buf st) (\<lambda>gid st. Some (Some ((uid, gid), st))))"

definition item_values :: "u32 \<Rightarrow> u32 \<Rightarrow> bytes \<Rightarrow> cursor \<Rightarrow> (interval \<times> cursor) option option" where
  "item_values its_type its_length buf st =
     (if its_type = 1 \<and> its_length = 2 then
        and_then (policy_deserialize_u16 buf st) (\<lambda>low st. Some (Some ((low, low), st)))
      else if its_type = 2 \<and> its_length = 4 then
        and_then (policy_deserialize_u16 buf st) (\<lambda>low st.
        and_then (policy_deserialize_u16 buf st) (\<lambda>high st.
          if low > high then Some None else Some (Some ((low, high), st))))
      else Some (Some ((0, 0), st)))"

definition deserialize_id_item :: "bytes \<Rightarrow> cursor \<Rightarrow> (interval \<times> cursor) option option" where
  "deserialize_id_item buf st =
     and_then (policy_deserialize_u32 buf st) (\<lambda>its_length st.
     and_then (policy_deserialize_u32 buf st) (\<lambda>its_type st.
     and_then (item_values its_type its_length buf st) (\<lambda>(low, high) st.
       let low = (if low = 0xFFFF \<and> high = 0xFFFF then 1 else low) in
       if low \<noteq> 0 then Some (Some ((low, high), st)) else Some None)))"

text \<open>
  The loops over arrays: \<open>while (0 < its_length) { ...; its_length -= (its_current_size - _size); }\<close>,
  with the length in 32 bits. \<open>item\<close> reads one element and \<open>step\<close> adds it to what was read
  so far. A failure returns no cursor.
\<close>

partial_function (option) array_loop ::
  "(cursor \<Rightarrow> ('x \<times> cursor) option option) \<Rightarrow> ('x \<Rightarrow> 'a \<Rightarrow> 'a) \<Rightarrow> u32 \<Rightarrow> 'a \<Rightarrow> cursor \<Rightarrow> ('a \<times> cursor option) option" where
  "array_loop item step len acc st =
     (if 0 < len then do {
        r \<leftarrow> item st;
        case r of None \<Rightarrow> Some (acc, None)
        | Some (x, st') \<Rightarrow> array_loop item step (len - (snd st - snd st')) (step x acc) st'
      }
      else Some (acc, Some st))"

declare array_loop.simps [code]

text \<open>A local container is dropped when the loop fails.\<close>

definition local_result :: "('a \<times> cursor option) option \<Rightarrow> ('a \<times> cursor) option option" where
  "local_result r = map_option (\<lambda>(acc, st). map_option (Pair acc) st) r"

definition deserialize_id_item_list ::
  "('s, 'm, 'r, 'o, 'c) icl \<Rightarrow> bytes \<Rightarrow> cursor \<Rightarrow> ('s \<times> cursor) option option" where
  "deserialize_id_item_list I buf st =
     and_then (policy_deserialize_u32 buf st) (\<lambda>its_length st.
       local_result (array_loop (deserialize_id_item buf) (iset_insert I) its_length (iset_empty I) st))"

text \<open>One element of the array of \<open>deserialize_ids\<close>: instances and methods.\<close>

definition instances_methods ::
  "('s, 'm, 'r, 'o, 'c) icl \<Rightarrow> bytes \<Rightarrow> cursor \<Rightarrow> (('s \<times> 's) \<times> cursor) option option" where
  "instances_methods I buf st =
     and_then (deserialize_id_item_list I buf st) (\<lambda>its_instances st.
     and_then (deserialize_id_item_list I buf st) (\<lambda>its_methods st. Some (Some ((its_instances, its_methods), st))))"

definition deserialize_ids :: "('s, 'm, 'r, 'o, 'c) icl \<Rightarrow> bytes \<Rightarrow> cursor \<Rightarrow> ('m \<times> cursor) option option" where
  "deserialize_ids I buf st =
     and_then (policy_deserialize_u32 buf st) (\<lambda>its_array_length st.
       local_result (array_loop (instances_methods I buf)
         (\<lambda>im m. fold (\<lambda>i m. imap_add I i (snd im) m) (iset_elems I (fst im)) m) its_array_length (imap_empty I) st))"

definition service_allowed :: "u16 \<Rightarrow> bool" where
  "service_allowed s \<longleftrightarrow> \<not> (s = 0 \<or> s = 0xFFFF)"

definition request_item :: "('s, 'm, 'r, 'o, 'c) icl \<Rightarrow> bytes \<Rightarrow> cursor \<Rightarrow> ((u16 \<times> 'm) \<times> cursor) option option" where
  "request_item I buf st =
     and_then (policy_deserialize_u16 buf st) (\<lambda>its_service st.
       if \<not> service_allowed its_service then Some None
       else and_then (deserialize_ids I buf st) (\<lambda>its_ids st. Some (Some ((its_service, its_ids), st))))"

definition offer_item :: "('s, 'm, 'r, 'o, 'c) icl \<Rightarrow> bytes \<Rightarrow> cursor \<Rightarrow> ((u16 \<times> 's) \<times> cursor) option option" where
  "offer_item I buf st =
     and_then (policy_deserialize_u16 buf st) (\<lambda>its_service st.
       if \<not> service_allowed its_service then Some None
       else and_then (deserialize_id_item_list I buf st) (\<lambda>its_set st. Some (Some ((its_service, its_set), st))))"

text \<open>The members filled by the loops stay when a loop fails.\<close>

definition policy_offers ::
  "('s, 'm, 'r, 'o, 'c) icl \<Rightarrow> bytes \<Rightarrow> ('r, 'o, 'c) policy \<Rightarrow> cursor \<Rightarrow> (('r, 'o, 'c) policy \<times> cursor option) option" where
  "policy_offers I buf p st = do {
     r \<leftarrow> policy_deserialize_u32 buf st;
     case r of None \<Rightarrow> Some (p, None)
     | Some (len, st) \<Rightarrow> do {
         (os, st) \<leftarrow> array_loop (offer_item I buf) (\<lambda>x os. off_add I (fst x) (snd x) os) len (pol_offers p) st;
         Some (p\<lparr>pol_offers := os\<rparr>, st)
       }
   }"

definition policy_requests ::
  "('s, 'm, 'r, 'o, 'c) icl \<Rightarrow> bytes \<Rightarrow> ('r, 'o, 'c) policy \<Rightarrow> cursor \<Rightarrow> (('r, 'o, 'c) policy \<times> cursor option) option" where
  "policy_requests I buf p st = do {
     r \<leftarrow> policy_deserialize_u32 buf st;
     case r of None \<Rightarrow> Some (p, None)
     | Some (len, st) \<Rightarrow> do {
         (rs, st) \<leftarrow> array_loop (request_item I buf) (\<lambda>x rs. req_add I (fst x) (snd x) rs) len (pol_requests p) st;
         Some (p\<lparr>pol_requests := rs\<rparr>, st)
       }
   }"

definition policy_deserialize ::
  "('s, 'm, 'r, 'o, 'c) icl \<Rightarrow> bytes \<Rightarrow> cursor \<Rightarrow> ('r, 'o, 'c) policy \<Rightarrow> (('r, 'o, 'c) policy \<times> cursor option) option" where
  "policy_deserialize I buf st p = do {
     r \<leftarrow> deserialize_uid_gid buf st;
     case r of None \<Rightarrow> Some (p, None)
     | Some ((uid, gid), st) \<Rightarrow> do {
         let p = p\<lparr>pol_credentials := cred_add I uid gid (pol_credentials p), pol_allow_who := True, pol_allow_what := True\<rparr>;
         (p, r) \<leftarrow> policy_requests I buf p st;
         case r of None \<Rightarrow> Some (p, None)
         | Some st \<Rightarrow> policy_offers I buf p st
       }
   }"

section \<open>Writing\<close>

definition policy_serialize_u16 :: "u16 \<Rightarrow> bytes \<Rightarrow> bytes" where
  "policy_serialize_u16 v data = data @ be_bytes 2 v"

definition policy_serialize_u32 :: "u32 \<Rightarrow> bytes \<Rightarrow> bytes" where
  "policy_serialize_u32 v data = data @ be_bytes 4 v"

definition policy_serialize_u32_at :: "u32 \<Rightarrow> bytes \<Rightarrow> nat \<Rightarrow> bytes option" where
  "policy_serialize_u32_at v data pos = write_be v data pos"

definition serialize_interval :: "interval \<Rightarrow> bytes \<Rightarrow> bytes" where
  "serialize_interval i data =
     (if fst i = snd i then policy_serialize_u16 (fst i) (policy_serialize_u32 1 (policy_serialize_u32 2 data))
      else policy_serialize_u16 (snd i) (policy_serialize_u16 (fst i) (policy_serialize_u32 2 (policy_serialize_u32 4 data))))"

definition serialize_interval_set :: "interval list \<Rightarrow> bytes \<Rightarrow> bytes option" where
  "serialize_interval_set is data = do {
     let its_pos = length data;
     let data = policy_serialize_u32 0 data;
     let data = fold serialize_interval is data;
     policy_serialize_u32_at (of_nat (length data - its_pos - 4)) data its_pos
   }"

fun serialize_instances :: "('s, 'm, 'r, 'o, 'c) icl \<Rightarrow> (interval \<times> 's) list \<Rightarrow> bytes \<Rightarrow> bytes option" where
  "serialize_instances I [] data = Some data"
| "serialize_instances I (x # xs) data = do {
     data \<leftarrow> serialize_interval_set (iset_elems I (iset_insert I (fst x) (iset_empty I))) data;
     data \<leftarrow> serialize_interval_set (iset_elems I (snd x)) data;
     serialize_instances I xs data
   }"

definition serialize_service :: "('s, 'm, 'r, 'o, 'c) icl \<Rightarrow> 'm \<Rightarrow> u16 \<Rightarrow> bytes \<Rightarrow> bytes option" where
  "serialize_service I m its_service data = do {
     let data = policy_serialize_u16 its_service data;
     let its_pos = length data;
     let data = policy_serialize_u32 0 data;
     data \<leftarrow> serialize_instances I (imap_elems I m) data;
     policy_serialize_u32_at (of_nat (length data - its_pos - 4)) data its_pos
   }"

text \<open>
  \<open>for (auto its_service = lower; its_service <= upper; its_service++)\<close> with a 16 bit counter.
\<close>

partial_function (option) service_range :: "(u16 \<Rightarrow> bytes \<Rightarrow> bytes option) \<Rightarrow> u16 \<Rightarrow> u16 \<Rightarrow> bytes \<Rightarrow> bytes option" where
  "service_range body s upper data =
     (if s \<le> upper then do {
        data \<leftarrow> body s data;
        service_range body (s + 1) upper data
      }
      else Some data)"

declare service_range.simps [code]

fun serialize_requests :: "('s, 'm, 'r, 'o, 'c) icl \<Rightarrow> (interval \<times> 'm) list \<Rightarrow> bytes \<Rightarrow> bytes option" where
  "serialize_requests I [] data = Some data"
| "serialize_requests I (x # xs) data = do {
     data \<leftarrow> service_range (serialize_service I (snd x)) (fst (fst x)) (snd (fst x)) data;
     serialize_requests I xs data
   }"

text \<open>The user and the group, if the policy is for one of each.\<close>

definition policy_uid_gid :: "('s, 'm, 'r, 'o, 'c) icl \<Rightarrow> ('r, 'o, 'c) policy \<Rightarrow> (u32 \<times> u32) option" where
  "policy_uid_gid I p =
     (case cred_elems I (pol_credentials p) of
        [((ul, uu), [(gl, gu)])] \<Rightarrow> if ul \<noteq> uu then None else if gl \<noteq> gu then None else Some (ul, gl)
      | _ \<Rightarrow> None)"

text \<open>\<open>false\<close> is the value \<^term>\<open>Some None\<close>.\<close>

definition policy_serialize :: "('s, 'm, 'r, 'o, 'c) icl \<Rightarrow> ('r, 'o, 'c) policy \<Rightarrow> bytes \<Rightarrow> bytes option option" where
  "policy_serialize I p data =
     (case policy_uid_gid I p of None \<Rightarrow> Some None
      | Some (uid, gid) \<Rightarrow> do {
          let data = policy_serialize_u32 gid (policy_serialize_u32 uid data);
          let its_requests_pos = length data;
          let data = policy_serialize_u32 0 data;
          data \<leftarrow> serialize_requests I (req_elems I (pol_requests p)) data;
          data \<leftarrow> policy_serialize_u32_at (of_nat (length data - its_requests_pos - 4)) data its_requests_pos;
          Some (Some (policy_serialize_u32 0 data))
        })"

section \<open>Every input is read to an end\<close>

text \<open>
  A cursor inside the buffer, and a result that fails or moves such a cursor on by at least
  \<open>k\<close> bytes.
\<close>

definition cursor_ok :: "bytes \<Rightarrow> cursor \<Rightarrow> bool" where
  "cursor_ok buf st \<longleftrightarrow> fst st + unat (snd st) \<le> length buf"

definition moves :: "nat \<Rightarrow> bytes \<Rightarrow> cursor \<Rightarrow> ('a \<times> cursor) option option \<Rightarrow> bool" where
  "moves k buf st r \<longleftrightarrow> r = Some None \<or>
     (\<exists>v st'. r = Some (Some (v, st')) \<and> cursor_ok buf st' \<and> unat (snd st') + k \<le> unat (snd st))"

lemma moves_Some [simp]:
  "moves k buf st (Some None)"
  "moves k buf st (Some (Some (v, st'))) \<longleftrightarrow> cursor_ok buf st' \<and> unat (snd st') + k \<le> unat (snd st)"
  by (auto simp: moves_def)

lemma moves_and_then:
  assumes "moves j buf st r"
    and "\<And>v st'. r = Some (Some (v, st')) \<Longrightarrow> cursor_ok buf st' \<Longrightarrow> unat (snd st') + j \<le> unat (snd st) \<Longrightarrow> moves k buf st' (f v st')"
  shows "moves (j + k) buf st (and_then r f)"
  using assms(1) unfolding moves_def [of j]
proof (elim disjE exE conjE)
  fix v st' assume "r = Some (Some (v, st'))" "cursor_ok buf st'" "unat (snd st') + j \<le> unat (snd st)"
  with assms(2) [of v st'] show ?thesis by (auto simp: moves_def)
qed simp

lemma moves_weaken: "moves j buf st r \<Longrightarrow> k \<le> j \<Longrightarrow> moves k buf st r"
  unfolding moves_def by fastforce

lemma moves_trans: "moves k buf st' r \<Longrightarrow> unat (snd st') \<le> unat (snd st) \<Longrightarrow> moves k buf st r"
  unfolding moves_def by (elim disjE exE conjE) (auto intro: le_trans)

lemma moves_seq:
  "moves j buf st r \<Longrightarrow> (\<And>v st'. cursor_ok buf st' \<Longrightarrow> moves 0 buf st' (f v st')) \<Longrightarrow> moves j buf st (and_then r f)"
  using moves_and_then [of j buf st r 0 f] by simp

lemma moves_cases:
  assumes "moves k buf st r"
  obtains (fails) "r = Some None"
  | (moves) v st' where "r = Some (Some (v, st'))" "cursor_ok buf st'" "unat (snd st') + k \<le> unat (snd st)"
  using assms unfolding moves_def by blast

lemma moves_u16: "cursor_ok buf st \<Longrightarrow> moves 2 buf st (policy_deserialize_u16 buf st)"
  by (cases "snd st < 2") (auto simp: policy_deserialize_u16_def cursor_ok_def read_be_def not_less unat_sub word_le_nat_alt)

lemma moves_u32: "cursor_ok buf st \<Longrightarrow> moves 4 buf st (policy_deserialize_u32 buf st)"
  by (cases "snd st < 4") (auto simp: policy_deserialize_u32_def cursor_ok_def read_be_def not_less unat_sub word_le_nat_alt)

lemma moves_done: "cursor_ok buf st \<Longrightarrow> moves 0 buf st (Some (Some (v, st)))"
  by simp

lemma moves_item_values: "cursor_ok buf st \<Longrightarrow> moves 0 buf st (item_values t n buf st)"
  unfolding item_values_def
  by (simp, intro conjI impI moves_weaken [OF moves_seq [OF moves_u16]] le0; simp)

lemma moves_id_item:
  assumes "cursor_ok buf st"
  shows "moves 8 buf st (deserialize_id_item buf st)"
proof -
  have "moves (4 + (4 + 0)) buf st (deserialize_id_item buf st)"
    unfolding deserialize_id_item_def
    by (intro moves_and_then [OF moves_u32] assms moves_seq [OF moves_item_values]) (auto simp: Let_def)
  then show ?thesis by simp
qed

text \<open>A loop returns, and a cursor that it returns is in the buffer and not further from its end.\<close>

definition returns :: "bytes \<Rightarrow> cursor \<Rightarrow> ('a \<times> cursor option) option \<Rightarrow> bool" where
  "returns buf st r \<longleftrightarrow> (\<exists>x st'. r = Some (x, st') \<and> (\<forall>c. st' = Some c \<longrightarrow> cursor_ok buf c \<and> unat (snd c) \<le> unat (snd st)))"

lemma returns_Some [simp]:
  "returns buf st (Some (x, None))"
  "returns buf st (Some (x, Some c)) \<longleftrightarrow> cursor_ok buf c \<and> unat (snd c) \<le> unat (snd st)"
  by (simp add: returns_def) (cases c, simp add: returns_def)

lemma returns_update: "returns buf st r \<Longrightarrow> returns buf st (r \<bind> (\<lambda>(x, st). Some (g x, st)))"
  unfolding returns_def by (elim exE conjE) simp

lemma returns_trans: "returns buf st' r \<Longrightarrow> unat (snd st') \<le> unat (snd st) \<Longrightarrow> returns buf st r"
  unfolding returns_def by (elim exE conjE) (auto intro: le_trans)

lemma returns_array_loop:
  assumes item: "\<And>st. cursor_ok buf st \<Longrightarrow> moves k buf st (item st)" and "0 < k" "cursor_ok buf st"
  shows "returns buf st (array_loop item step len acc st)"
  using assms(3)
proof (induction "unat (snd st)" arbitrary: st len acc rule: less_induct)
  case less
  from item [OF less.prems] show ?case
  proof (cases rule: moves_cases)
    case fails
    then show ?thesis using less.prems by (subst array_loop.simps) simp
  next
    case (moves x st')
    then have "returns buf st' (array_loop item step (len - (snd st - snd st')) (step x acc) st')"
      using assms(2) by (intro less.hyps) simp_all
    with moves less.prems show ?thesis by (subst array_loop.simps) (simp add: returns_trans [of buf st' _ st])
  qed
qed

lemma moves_local_result: "returns buf st r \<Longrightarrow> moves 0 buf st (local_result r)"
  unfolding returns_def
proof (elim exE conjE)
  fix x st' assume "r = Some (x, st')" "\<forall>c. st' = Some c \<longrightarrow> cursor_ok buf c \<and> unat (snd c) \<le> unat (snd st)"
  then show ?thesis by (cases st') (simp_all add: local_result_def)
qed

lemma moves_id_item_list: "cursor_ok buf st \<Longrightarrow> moves 4 buf st (deserialize_id_item_list I buf st)"
  unfolding deserialize_id_item_list_def
  by (intro moves_seq [OF moves_u32] moves_local_result returns_array_loop [OF moves_id_item]) simp_all

lemma moves_instances_methods:
  assumes "cursor_ok buf st"
  shows "moves 8 buf st (instances_methods I buf st)"
proof -
  have "moves (4 + (4 + 0)) buf st (instances_methods I buf st)"
    unfolding instances_methods_def by (intro moves_and_then [OF moves_id_item_list] assms moves_done)
  then show ?thesis by simp
qed

lemma moves_ids: "cursor_ok buf st \<Longrightarrow> moves 4 buf st (deserialize_ids I buf st)"
  unfolding deserialize_ids_def
  by (intro moves_seq [OF moves_u32] moves_local_result returns_array_loop [OF moves_instances_methods]) simp_all

lemma moves_request_item: "cursor_ok buf st \<Longrightarrow> moves 2 buf st (request_item I buf st)"
  unfolding request_item_def
  by (intro moves_seq [OF moves_u16]) (auto intro: moves_weaken [OF moves_seq [OF moves_ids]])

lemma moves_offer_item: "cursor_ok buf st \<Longrightarrow> moves 2 buf st (offer_item I buf st)"
  unfolding offer_item_def
  by (intro moves_seq [OF moves_u16]) (auto intro: moves_weaken [OF moves_seq [OF moves_id_item_list]])

lemma returns_array:
  assumes "cursor_ok buf st" and "\<And>n st'. cursor_ok buf st' \<Longrightarrow> returns buf st' (f n st')"
  shows "returns buf st (policy_deserialize_u32 buf st \<bind> (\<lambda>r. case r of None \<Rightarrow> Some (x, None) | Some (n, st) \<Rightarrow> f n st))"
  using moves_u32 [OF assms(1)]
proof (cases rule: moves_cases)
  case (moves n st')
  then show ?thesis using assms(2) [of st' n] by (simp add: returns_trans [of buf st' _ st])
qed simp

lemma returns_policy_requests: "cursor_ok buf st \<Longrightarrow> returns buf st (policy_requests I buf p st)"
  unfolding policy_requests_def
  by (intro returns_array returns_update returns_array_loop [OF moves_request_item]) simp_all

lemma returns_policy_offers: "cursor_ok buf st \<Longrightarrow> returns buf st (policy_offers I buf p st)"
  unfolding policy_offers_def
  by (intro returns_array returns_update returns_array_loop [OF moves_offer_item]) simp_all

lemma policy_deserialize_returns:
  assumes "cursor_ok buf st"
  shows "returns buf st (policy_deserialize I buf st p)"
proof -
  have "moves (4 + (4 + 0)) buf st (deserialize_uid_gid buf st)"
    unfolding deserialize_uid_gid_def by (intro moves_and_then [OF moves_u32] assms moves_done)
  then show ?thesis
  proof (cases rule: moves_cases)
    case fails
    then show ?thesis by (simp add: policy_deserialize_def)
  next
    case (moves ug st')
    obtain u g where 2: "deserialize_uid_gid buf st = Some (Some ((u, g), st'))" "cursor_ok buf st'"
      using moves by (cases ug) simp
    let ?p = "p\<lparr>pol_credentials := cred_add I u g (pol_credentials p), pol_allow_who := True, pol_allow_what := True\<rparr>"
    from returns_policy_requests [OF 2(2), of I ?p] obtain p' r where
      r: "policy_requests I buf ?p st' = Some (p', r)"
        "\<And>c. r = Some c \<Longrightarrow> cursor_ok buf c \<and> unat (snd c) \<le> unat (snd st')"
      unfolding returns_def by blast
    show ?thesis
    proof (cases r)
      case None
      then show ?thesis using 2(1) r(1) by (simp add: policy_deserialize_def)
    next
      case (Some c)
      then show ?thesis
        using 2(1) moves(3) r returns_trans [OF returns_policy_offers, of buf c st I p'] by (simp add: policy_deserialize_def)
    qed
  qed
qed

section \<open>The bytes of a policy\<close>

definition interval_bytes :: "interval \<Rightarrow> bytes" where
  "interval_bytes i =
     (if fst i = snd i then be_bytes 4 (2 :: u32) @ be_bytes 4 (1 :: u32) @ be_bytes 2 (fst i)
      else be_bytes 4 (4 :: u32) @ be_bytes 4 (2 :: u32) @ be_bytes 2 (fst i) @ be_bytes 2 (snd i))"

text \<open>An array is preceded by its length in bytes.\<close>

definition array_bytes :: "bytes \<Rightarrow> bytes" where
  "array_bytes bs = be_bytes 4 (of_nat (length bs) :: u32) @ bs"

definition set_bytes :: "interval list \<Rightarrow> bytes" where
  "set_bytes is = array_bytes (concat (map interval_bytes is))"

definition instance_bytes :: "('s, 'm, 'r, 'o, 'c) icl \<Rightarrow> interval \<times> 's \<Rightarrow> bytes" where
  "instance_bytes I x = set_bytes (iset_elems I (iset_insert I (fst x) (iset_empty I))) @ set_bytes (iset_elems I (snd x))"

definition ids_bytes :: "('s, 'm, 'r, 'o, 'c) icl \<Rightarrow> 'm \<Rightarrow> bytes" where
  "ids_bytes I m = array_bytes (concat (map (instance_bytes I) (imap_elems I m)))"

definition service_bytes :: "('s, 'm, 'r, 'o, 'c) icl \<Rightarrow> u16 \<times> 'm \<Rightarrow> bytes" where
  "service_bytes I x = be_bytes 2 (fst x) @ ids_bytes I (snd x)"

text \<open>The services that the serializer runs through.\<close>

definition service_list :: "interval \<Rightarrow> u16 list" where
  "service_list i = map of_nat [unat (fst i) ..< Suc (unat (snd i))]"

definition expand :: "(interval \<times> 'm) list \<Rightarrow> (u16 \<times> 'm) list" where
  "expand xs = concat (map (\<lambda>x. map (\<lambda>s. (s, snd x)) (service_list (fst x))) xs)"

definition policy_bytes :: "('s, 'm, 'r, 'o, 'c) icl \<Rightarrow> u32 \<Rightarrow> u32 \<Rightarrow> (u16 \<times> 'm) list \<Rightarrow> bytes" where
  "policy_bytes I uid gid reqs = be_bytes 4 uid @ be_bytes 4 gid @ array_bytes (concat (map (service_bytes I) reqs))
     @ array_bytes []"

lemma length_array_bytes [simp]: "length (array_bytes bs) = 4 + length bs"
  by (simp add: array_bytes_def)

lemma patch_size:
  "policy_serialize_u32_at v (data @ be_bytes 4 w @ bs) (length data) = Some (data @ be_bytes 4 v @ bs)" for w :: u32
  by (simp add: policy_serialize_u32_at_def write_be_def mem_write_def)

lemma fold_serialize_interval: "fold serialize_interval is data = data @ concat (map interval_bytes is)"
  by (induction "is" arbitrary: data)
    (simp_all add: serialize_interval_def interval_bytes_def policy_serialize_u32_def policy_serialize_u16_def)

lemma serialize_interval_set_bytes: "serialize_interval_set is data = Some (data @ set_bytes is)"
  using patch_size [of _ data 0 "concat (map interval_bytes is)"]
  by (simp add: serialize_interval_set_def policy_serialize_u32_def fold_serialize_interval set_bytes_def array_bytes_def Let_def)

lemma serialize_instances_bytes:
  "serialize_instances I xs data = Some (data @ concat (map (instance_bytes I) xs))"
  by (induction xs arbitrary: data) (simp_all add: serialize_interval_set_bytes instance_bytes_def)

lemma serialize_service_bytes: "serialize_service I m s data = Some (data @ service_bytes I (s, m))"
  using patch_size [of _ "data @ be_bytes 2 s" 0 "concat (map (instance_bytes I) (imap_elems I m))"]
  by (simp add: serialize_service_def policy_serialize_u16_def policy_serialize_u32_def serialize_instances_bytes service_bytes_def
      ids_bytes_def array_bytes_def Let_def)

lemma unat_u16_max: "w \<noteq> 0xFFFF \<Longrightarrow> unat w < 65535" for w :: u16
  using unsigned_less [of w, where 'a = nat] by (cases "unat w = 65535") (simp_all add: word_unat_eq_iff)

lemma service_range_bytes:
  assumes body: "\<And>s data. body s data = Some (data @ f s)" and "upper \<noteq> 0xFFFF"
  shows "service_range body s upper data = Some (data @ concat (map f (service_list (s, upper))))"
proof (induction "Suc (unat upper) - unat s" arbitrary: s data)
  case 0
  then show ?case by (subst service_range.simps) (simp add: service_list_def word_le_nat_alt)
next
  case (Suc n)
  have up: "unat upper < 65535"
    using assms(2) by (rule unat_u16_max)
  have s: "unat s \<le> unat upper" using Suc.hyps(2) by simp
  then have s1: "unat (s + 1) = Suc (unat s)" using up by (simp add: unat_word_ariths)
  have "service_list (s, upper) = s # service_list (s + 1, upper)"
    unfolding service_list_def fst_conv snd_conv s1 using s by (subst upt_conv_Cons) simp_all
  moreover have "service_range body (s + 1) upper (data @ f s) = Some ((data @ f s) @ concat (map f (service_list (s + 1, upper))))"
    using Suc.hyps(2) s1 by (intro Suc.hyps(1)) simp
  ultimately show ?case
    using s by (subst service_range.simps) (simp add: body word_le_nat_alt)
qed

lemma serialize_requests_bytes:
  assumes "\<And>x. x \<in> set xs \<Longrightarrow> snd (fst x) \<noteq> 0xFFFF"
  shows "serialize_requests I xs data = Some (data @ concat (map (service_bytes I) (expand xs)))"
  using assms
proof (induction xs arbitrary: data)
  case (Cons x xs)
  have "service_range (serialize_service I (snd x)) (fst (fst x)) (snd (fst x)) data =
      Some (data @ concat (map (\<lambda>s. service_bytes I (s, snd x)) (service_list (fst x))))"
    using service_range_bytes [of "serialize_service I (snd x)", OF serialize_service_bytes, of "snd (fst x)" "fst (fst x)" data]
      Cons.prems [of x] by simp
  with Cons show ?case by (simp add: expand_def comp_def)
qed (simp add: expand_def)

lemma policy_serialize_bytes:
  assumes "policy_uid_gid I p = Some (uid, gid)"
    and "\<And>x. x \<in> set (req_elems I (pol_requests p)) \<Longrightarrow> snd (fst x) \<noteq> 0xFFFF"
  shows "policy_serialize I p data = Some (Some (data @ policy_bytes I uid gid (expand (req_elems I (pol_requests p)))))"
  using assms(1) patch_size [of _ "data @ be_bytes 4 uid @ be_bytes 4 gid" 0]
    serialize_requests_bytes [of "req_elems I (pol_requests p)" I, OF assms(2)]
  by (simp add: policy_serialize_def policy_serialize_u32_def policy_bytes_def array_bytes_def Let_def)

text \<open>A service range that reaches the largest identifier is never left.\<close>

lemma service_range_ends:
  assumes "service_range body s upper data = Some r"
  shows "upper \<noteq> 0xFFFF"
proof (rule service_range.raw_induct [where P = "\<lambda>body s upper data r. upper \<noteq> 0xFFFF", OF _ assms])
  fix f :: "(u16 \<Rightarrow> bytes \<Rightarrow> bytes option) \<Rightarrow> u16 \<Rightarrow> u16 \<Rightarrow> bytes \<Rightarrow> bytes option" and body and s upper :: u16 and data r
  assume IH: "\<And>body s upper data r. f body s upper data = Some r \<Longrightarrow> upper \<noteq> 0xFFFF"
    and "(if s \<le> upper then body s data \<bind> f body (s + 1) upper else Some data) = Some r"
  moreover have "s \<le> 0xFFFF" using unsigned_less [of s, where 'a = nat] by (simp add: word_le_nat_alt)
  ultimately show "upper \<noteq> 0xFFFF" by (auto split: if_splits Option.bind_splits)
qed

lemma service_range_diverges: "service_range body s 0xFFFF data = None"
  using service_range_ends [of body s "0xFFFF" data] by (cases "service_range body s 0xFFFF data") auto

section \<open>Reading back\<close>

text \<open>\<open>f\<close> reads \<open>v\<close> from a cursor that stands before the bytes \<open>bs\<close>, and moves it behind them.\<close>

definition reads_as :: "(bytes \<Rightarrow> cursor \<Rightarrow> ('a \<times> cursor) option option) \<Rightarrow> bytes \<Rightarrow> 'a \<Rightarrow> bool" where
  "reads_as f bs v \<longleftrightarrow> (\<forall>buf pos n. mem_sub buf pos (length bs) = Some bs \<longrightarrow> length bs \<le> unat n \<longrightarrow>
     f buf (pos, n) = Some (Some (v, pos + length bs, n - of_nat (length bs))))"

lemma reads_asD:
  "reads_as f bs v \<Longrightarrow> mem_sub buf pos (length bs) = Some bs \<Longrightarrow> length bs \<le> unat n \<Longrightarrow>
     f buf (pos, n) = Some (Some (v, pos + length bs, n - of_nat (length bs)))"
  by (simp add: reads_as_def)

lemma mem_sub_split:
  assumes "mem_sub buf pos (length (a @ b)) = Some (a @ b)"
  shows "mem_sub buf pos (length a) = Some a" "mem_sub buf (pos + length a) (length b) = Some b"
proof -
  from assms have "pos + length a + length b \<le> length buf" and t: "take (length a + length b) (drop pos buf) = a @ b"
    by (auto simp: mem_sub_def split: if_splits)
  moreover have "take (length a) (drop pos buf) = a" using arg_cong [OF t, of "take (length a)"] by simp
  moreover have "take (length b) (drop (pos + length a) buf) = b"
    using arg_cong [OF t, of "drop (length a)"] by (simp add: drop_take add.commute)
  ultimately show "mem_sub buf pos (length a) = Some a" "mem_sub buf (pos + length a) (length b) = Some b"
    by simp_all
qed

lemma unat_below: "k \<le> unat n \<Longrightarrow> unat (of_nat k :: u32) = k" for n :: u32
  using unsigned_less [of n, where 'a = nat] by (simp add: unat_of_nat take_bit_nat_eq_self)

lemma unat_after: "k \<le> unat n \<Longrightarrow> unat (n - of_nat k) = unat n - k" for n :: u32
  by (simp add: unat_sub word_le_nat_alt unat_below)

lemma reads_as_seq:
  assumes "reads_as f a x" "reads_as (g x) b y"
  shows "reads_as (\<lambda>buf st. and_then (f buf st) (\<lambda>v st. g v buf st)) (a @ b) y"
  unfolding reads_as_def
proof (intro allI impI)
  fix buf pos and n :: u32 assume m: "mem_sub buf pos (length (a @ b)) = Some (a @ b)" and l: "length (a @ b) \<le> unat n"
  have "f buf (pos, n) = Some (Some (x, pos + length a, n - of_nat (length a)))"
    using reads_asD [OF assms(1) mem_sub_split(1) [OF m]] l by simp
  moreover have "g x buf (pos + length a, n - of_nat (length a)) =
      Some (Some (y, pos + length a + length b, n - of_nat (length a) - of_nat (length b)))"
    using l by (intro reads_asD [OF assms(2) mem_sub_split(2) [OF m]]) (simp add: unat_after)
  ultimately show "and_then (f buf (pos, n)) (\<lambda>v st. g v buf st) =
      Some (Some (y, pos + length (a @ b), n - of_nat (length (a @ b))))"
    by (simp add: add.assoc diff_diff_eq)
qed

lemma reads_as_done: "reads_as (\<lambda>buf st. Some (Some (v, st))) [] v"
  by (simp add: reads_as_def)

lemma reads_u16: "reads_as policy_deserialize_u16 (be_bytes 2 v) v"
  by (auto simp: reads_as_def policy_deserialize_u16_def read_be_def word_less_nat_alt be_word_be_bytes)

lemma reads_u32: "reads_as policy_deserialize_u32 (be_bytes 4 v) v"
  by (auto simp: reads_as_def policy_deserialize_u32_def read_be_def word_less_nat_alt be_word_be_bytes)

text \<open>An interval that the parser accepts and leaves as it is.\<close>

definition interval_ok :: "interval \<Rightarrow> bool" where
  "interval_ok i \<longleftrightarrow> fst i \<noteq> 0 \<and> fst i \<le> snd i \<and> fst i \<noteq> 0xFFFF"

lemma reads_item_values:
  assumes "fst i \<le> snd i"
  shows "fst i = snd i \<Longrightarrow> reads_as (item_values 1 2) (be_bytes 2 (fst i)) i"
    and "reads_as (item_values 2 4) (be_bytes 2 (fst i) @ be_bytes 2 (snd i)) i"
proof -
  have "reads_as (\<lambda>buf st. and_then (policy_deserialize_u16 buf st) (\<lambda>low st. Some (Some ((low, low), st))))
      (be_bytes 2 (fst i) @ []) (fst i, fst i)"
    by (rule reads_as_seq [where g = "\<lambda>low buf st. Some (Some ((low, low), st))", OF reads_u16 reads_as_done])
  then show "fst i = snd i \<Longrightarrow> reads_as (item_values 1 2) (be_bytes 2 (fst i)) i"
    by (cases i) (simp add: item_values_def [abs_def])
  have "reads_as (\<lambda>buf st. if fst i > snd i then Some None else Some (Some ((fst i, snd i), st))) [] i"
    using reads_as_done [of i] by (simp add: leD [OF assms])
  then have "reads_as (\<lambda>buf st. and_then (policy_deserialize_u16 buf st) (\<lambda>high st. if fst i > high then Some None else Some (Some ((fst i, high), st))))
      (be_bytes 2 (snd i) @ []) i"
    by (rule reads_as_seq [where g = "\<lambda>high buf st. if fst i > high then Some None else Some (Some ((fst i, high), st))", OF reads_u16])
  then have "reads_as (\<lambda>buf st. and_then (policy_deserialize_u16 buf st) (\<lambda>low st. and_then (policy_deserialize_u16 buf st)
      (\<lambda>high st. if low > high then Some None else Some (Some ((low, high), st))))) (be_bytes 2 (fst i) @ (be_bytes 2 (snd i) @ [])) i"
    by (rule reads_as_seq [where g = "\<lambda>low buf st. and_then (policy_deserialize_u16 buf st)
          (\<lambda>high st. if low > high then Some None else Some (Some ((low, high), st)))", OF reads_u16])
  then show "reads_as (item_values 2 4) (be_bytes 2 (fst i) @ be_bytes 2 (snd i)) i"
    by (simp add: item_values_def [abs_def])
qed

lemma reads_interval:
  assumes "interval_ok i"
  shows "reads_as deserialize_id_item (interval_bytes i) i"
proof -
  let ?check = "\<lambda>(low, high) st. let low = (if low = (0xFFFF :: u16) \<and> high = (0xFFFF :: u16) then 1 else low) in
       if low \<noteq> 0 then Some (Some ((low, high), st)) else Some None"
  have check: "reads_as (\<lambda>buf. ?check i) [] i"
    using assms reads_as_done [of i] by (cases i) (auto simp: interval_ok_def Let_def)
  have "reads_as deserialize_id_item (be_bytes 4 n @ be_bytes 4 t @ v @ []) i" if v: "reads_as (item_values t n) v i" for n t v
    unfolding deserialize_id_item_def [abs_def]
    by (rule reads_as_seq [where g = "\<lambda>n buf st. and_then (policy_deserialize_u32 buf st) (\<lambda>t st. and_then (item_values t n buf st) ?check)", OF reads_u32],
        rule reads_as_seq [where g = "\<lambda>t buf st. and_then (item_values t n buf st) ?check", OF reads_u32],
        rule reads_as_seq [where g = "\<lambda>v buf. ?check v", OF v check])
  from this [OF reads_item_values(1)] this [OF reads_item_values(2)] show ?thesis
    using assms by (auto simp: interval_ok_def interval_bytes_def)
qed

text \<open>Arrays: every element is read by \<open>item\<close>, and the loop folds them.\<close>

lemma array_loop_reads:
  assumes "\<And>x. x \<in> set xs \<Longrightarrow> reads_as item (enc x) (dec x) \<and> enc x \<noteq> []"
    and "mem_sub buf pos (length (concat (map enc xs))) = Some (concat (map enc xs))"
    and "length (concat (map enc xs)) \<le> unat n"
  shows "array_loop (item buf) step (of_nat (length (concat (map enc xs)))) acc (pos, n) =
    Some (fold step (map dec xs) acc, Some (pos + length (concat (map enc xs)), n - of_nat (length (concat (map enc xs)))))"
  using assms
proof (induction xs arbitrary: acc pos n)
  case Nil
  then show ?case by (simp add: array_loop.simps)
next
  case (Cons x xs)
  let ?a = "enc x" and ?b = "concat (map enc xs)"
  have m: "mem_sub buf pos (length (?a @ ?b)) = Some (?a @ ?b)" and l: "length (?a @ ?b) \<le> unat n"
    using Cons.prems by simp_all
  have x: "reads_as item ?a (dec x)" "?a \<noteq> []" using Cons.prems(1) by auto
  have "item buf (pos, n) = Some (Some (dec x, pos + length ?a, n - of_nat (length ?a)))"
    using reads_asD [OF x(1) mem_sub_split(1) [OF m]] l by simp
  moreover have "array_loop (item buf) step (of_nat (length ?b)) (step (dec x) acc) (pos + length ?a, n - of_nat (length ?a)) =
      Some (fold step (map dec xs) (step (dec x) acc), Some (pos + length ?a + length ?b, n - of_nat (length ?a) - of_nat (length ?b)))"
    using Cons.prems(1) mem_sub_split(2) [OF m] l by (intro Cons.IH) (simp_all add: unat_after)
  moreover have "0 < (of_nat (length (?a @ ?b)) :: u32)"
    using unat_below [OF l] x(2) unfolding word_less_nat_alt by (simp del: of_nat_add)
  ultimately show ?case
    by (subst array_loop.simps) (simp add: add.assoc diff_diff_eq)
qed

lemma reads_array:
  assumes "\<And>x. x \<in> set xs \<Longrightarrow> reads_as item (enc x) (dec x) \<and> enc x \<noteq> []"
  shows "reads_as (\<lambda>buf st. and_then (policy_deserialize_u32 buf st) (\<lambda>len st. local_result (array_loop (item buf) step len acc st)))
    (array_bytes (concat (map enc xs))) (fold step (map dec xs) acc)"
  unfolding array_bytes_def
proof (rule reads_as_seq [where g = "\<lambda>len buf st. local_result (array_loop (item buf) step len acc st)", OF reads_u32])
  show "reads_as (\<lambda>buf st. local_result (array_loop (item buf) step (of_nat (length (concat (map enc xs)))) acc st))
      (concat (map enc xs)) (fold step (map dec xs) acc)"
    unfolding reads_as_def
    by (intro allI impI) (simp add: array_loop_reads [of xs item enc dec, OF assms] local_result_def)
qed

section \<open>The policy\<close>

text \<open>
  What the round trip needs of the interval containers, for the values of one policy: a set
  made of one interval yields that interval, and adding the elements of a set or a map to an
  empty one gives it back.
\<close>

definition set_rebuilds :: "('s, 'm, 'r, 'o, 'c) icl \<Rightarrow> 's \<Rightarrow> bool" where
  "set_rebuilds I s \<longleftrightarrow> list_all interval_ok (iset_elems I s) \<and> fold (iset_insert I) (iset_elems I s) (iset_empty I) = s"

definition map_rebuilds :: "('s, 'm, 'r, 'o, 'c) icl \<Rightarrow> 'm \<Rightarrow> bool" where
  "map_rebuilds I m \<longleftrightarrow>
     list_all (\<lambda>x. interval_ok (fst x) \<and> iset_elems I (iset_insert I (fst x) (iset_empty I)) = [fst x] \<and> set_rebuilds I (snd x))
       (imap_elems I m)
     \<and> fold (\<lambda>x m. imap_add I (fst x) (snd x) m) (imap_elems I m) (imap_empty I) = m"

definition policy_rebuilds ::
  "('s, 'm, 'r, 'o, 'c) icl \<Rightarrow> ('r, 'o, 'c) policy \<Rightarrow> ('r, 'o, 'c) policy \<Rightarrow> u32 \<Rightarrow> u32 \<Rightarrow> bool" where
  "policy_rebuilds I p0 p uid gid \<longleftrightarrow>
     policy_uid_gid I p = Some (uid, gid) \<and> cred_add I uid gid (pol_credentials p0) = pol_credentials p
     \<and> list_all (\<lambda>x. fst (fst x) \<noteq> 0 \<and> snd (fst x) \<noteq> 0xFFFF \<and> map_rebuilds I (snd x)) (req_elems I (pol_requests p))
     \<and> fold (\<lambda>x rs. req_add I (fst x) (snd x) rs) (expand (req_elems I (pol_requests p))) (pol_requests p0) = pol_requests p
     \<and> pol_offers p = pol_offers p0 \<and> pol_allow_who p \<and> pol_allow_what p"

lemma reads_set:
  assumes "set_rebuilds I s"
  shows "reads_as (deserialize_id_item_list I) (set_bytes (iset_elems I s)) s"
proof -
  have "reads_as deserialize_id_item (interval_bytes i) i \<and> interval_bytes i \<noteq> []" if "i \<in> set (iset_elems I s)" for i
    using that assms reads_interval [of i] by (auto simp: set_rebuilds_def list_all_iff interval_bytes_def be_bytes_def le_bytes_numeral)
  from reads_array [of "iset_elems I s" deserialize_id_item interval_bytes "\<lambda>i. i" "iset_insert I" "iset_empty I", OF this]
  show ?thesis
    using assms by (simp add: deserialize_id_item_list_def [abs_def] set_bytes_def set_rebuilds_def)
qed

lemma reads_map:
  assumes "map_rebuilds I m"
  shows "reads_as (deserialize_ids I) (ids_bytes I m) m"
proof -
  let ?dec = "\<lambda>x. (iset_insert I (fst x) (iset_empty I), snd x)"
  have "reads_as (instances_methods I) (instance_bytes I x) (?dec x) \<and> instance_bytes I x \<noteq> []" if "x \<in> set (imap_elems I m)" for x
  proof -
    have x: "interval_ok (fst x)" "iset_elems I (iset_insert I (fst x) (iset_empty I)) = [fst x]" "set_rebuilds I (snd x)"
      using that assms by (auto simp: map_rebuilds_def list_all_iff)
    then have "set_rebuilds I (iset_insert I (fst x) (iset_empty I))" by (simp add: set_rebuilds_def)
    note r = reads_set [OF this] reads_set [OF x(3)]
    have "reads_as (instances_methods I) (set_bytes (iset_elems I (iset_insert I (fst x) (iset_empty I)))
        @ set_bytes (iset_elems I (snd x)) @ []) (?dec x)"
      unfolding instances_methods_def [abs_def]
      by (rule reads_as_seq [where g = "\<lambda>a buf st. and_then (deserialize_id_item_list I buf st) (\<lambda>b st. Some (Some ((a, b), st)))", OF r(1)],
          rule reads_as_seq [where g = "\<lambda>b buf st. Some (Some ((iset_insert I (fst x) (iset_empty I), b), st))", OF r(2) reads_as_done])
    then show ?thesis
      by (auto simp: instance_bytes_def set_bytes_def array_bytes_def be_bytes_def le_bytes_numeral)
  qed
  from reads_array [of "imap_elems I m" "instances_methods I" "instance_bytes I" ?dec
      "\<lambda>im m. fold (\<lambda>i m. imap_add I i (snd im) m) (iset_elems I (fst im)) m" "imap_empty I", OF this]
  have "reads_as (deserialize_ids I) (ids_bytes I m)
      (fold (\<lambda>im m. fold (\<lambda>i m. imap_add I i (snd im) m) (iset_elems I (fst im)) m) (map ?dec (imap_elems I m)) (imap_empty I))"
    by (simp add: deserialize_ids_def [abs_def] ids_bytes_def)
  moreover have "fold (\<lambda>im m. fold (\<lambda>i m. imap_add I i (snd im) m) (iset_elems I (fst im)) m) (map ?dec xs) acc =
      fold (\<lambda>x m. imap_add I (fst x) (snd x) m) xs acc" if "set xs \<subseteq> set (imap_elems I m)" for xs acc
    using that assms by (induction xs arbitrary: acc) (auto simp: map_rebuilds_def list_all_iff)
  ultimately show ?thesis using assms by (simp add: map_rebuilds_def)
qed

lemma reads_request:
  assumes "service_allowed (fst x)" "map_rebuilds I (snd x)"
  shows "reads_as (request_item I) (service_bytes I x) x"
proof -
  have "reads_as (\<lambda>buf st. if \<not> service_allowed (fst x) then Some None
      else and_then (deserialize_ids I buf st) (\<lambda>ids st. Some (Some ((fst x, ids), st)))) (ids_bytes I (snd x) @ []) (fst x, snd x)"
    using assms(1) reads_as_seq [where g = "\<lambda>ids buf st. Some (Some ((fst x, ids), st))", OF reads_map [OF assms(2)] reads_as_done]
    by simp
  from reads_as_seq [where g = "\<lambda>s buf st. if \<not> service_allowed s then Some None
      else and_then (deserialize_ids I buf st) (\<lambda>ids st. Some (Some ((s, ids), st)))", OF reads_u16 this]
  show ?thesis by (simp add: request_item_def [abs_def] service_bytes_def)
qed

lemma service_list_allowed:
  assumes "fst i \<noteq> 0" "snd i \<noteq> 0xFFFF" "s \<in> set (service_list i)"
  shows "service_allowed s"
proof -
  obtain k where k: "s = of_nat k" "unat (fst i) \<le> k" "k \<le> unat (snd i)"
    using assms(3) by (auto simp: service_list_def)
  have k': "0 < k" "k < 65535"
    using k assms(1) unat_u16_max [OF assms(2)] unat_gt_0 [of "fst i"] by linarith+
  then have "unat s = k" unfolding k(1) by (simp add: unat_of_nat take_bit_nat_eq_self)
  then show ?thesis unfolding service_allowed_def using k' by auto
qed

lemma reads_requests:
  assumes "policy_rebuilds I p0 p uid gid" and "x \<in> set (expand (req_elems I (pol_requests p)))"
  shows "reads_as (request_item I) (service_bytes I x) x \<and> service_bytes I x \<noteq> []"
proof -
  obtain y where y: "y \<in> set (req_elems I (pol_requests p))" "fst x \<in> set (service_list (fst y))" "snd x = snd y"
    using assms(2) by (auto simp: expand_def)
  with assms(1) have "service_allowed (fst x)" "map_rebuilds I (snd x)"
    using service_list_allowed [of "fst y" "fst x"] by (auto simp: policy_rebuilds_def list_all_iff)
  then show ?thesis using reads_request [of x I] by (auto simp: service_bytes_def be_bytes_def le_bytes_numeral)
qed

lemma policy_deserialize_reads:
  assumes reb: "policy_rebuilds I p0 p uid gid"
    and bs: "bs = policy_bytes I uid gid (expand (req_elems I (pol_requests p)))"
    and m: "mem_sub buf pos (length bs) = Some bs" and n: "length bs \<le> unat n"
  shows "policy_deserialize I buf (pos, n) p0 = Some (p, Some (pos + length bs, n - of_nat (length bs)))"
proof -
  let ?u = "be_bytes 4 uid @ be_bytes 4 gid" and ?rs = "concat (map (service_bytes I) (expand (req_elems I (pol_requests p))))"
  let ?r = "be_bytes 4 (of_nat (length ?rs) :: u32)" and ?o = "be_bytes 4 (0 :: u32)"
  have bs': "bs = ?u @ ?r @ ?rs @ ?o" by (simp add: bs policy_bytes_def array_bytes_def)
  have m1: "mem_sub buf pos (length ?u) = Some ?u" "mem_sub buf (pos + 8) (length (?r @ ?rs @ ?o)) = Some (?r @ ?rs @ ?o)"
    using mem_sub_split [of buf pos ?u "?r @ ?rs @ ?o"] m by (simp_all add: bs')
  have m2: "mem_sub buf (pos + 8) (length ?r) = Some ?r" "mem_sub buf (pos + 12) (length (?rs @ ?o)) = Some (?rs @ ?o)"
    using mem_sub_split [OF m1(2)] by (simp_all add: add.commute)
  have m3: "mem_sub buf (pos + 12) (length ?rs) = Some ?rs" "mem_sub buf (pos + 12 + length ?rs) (length ?o) = Some ?o"
    using mem_sub_split [OF m2(2)] by simp_all
  have l: "16 + length ?rs \<le> unat n" using n by (simp add: bs')
  have "reads_as deserialize_uid_gid (be_bytes 4 uid @ be_bytes 4 gid @ []) (uid, gid)"
    unfolding deserialize_uid_gid_def [abs_def]
    by (rule reads_as_seq [where g = "\<lambda>u buf st. and_then (policy_deserialize_u32 buf st) (\<lambda>g st. Some (Some ((u, g), st)))", OF reads_u32],
        rule reads_as_seq [where g = "\<lambda>g buf st. Some (Some ((uid, g), st))", OF reads_u32 reads_as_done])
  from reads_asD [OF this, of buf pos n]
  have u: "deserialize_uid_gid buf (pos, n) = Some (Some ((uid, gid), pos + 8, n - 8))" using m1(1) l by simp
  have n8: "unat (n - 8) = unat n - 8" "unat (n - 12) = unat n - 12"
    using unat_after [of 8 n] unat_after [of 12 n] l by simp_all
  have r: "policy_deserialize_u32 buf (pos + 8, n - 8) = Some (Some (of_nat (length ?rs), pos + 12, n - 12))"
    using reads_asD [OF reads_u32 m2(1), of "n - 8"] l n8 by simp
  have "array_loop (request_item I buf) (\<lambda>x rs. req_add I (fst x) (snd x) rs) (of_nat (length ?rs)) (pol_requests p0) (pos + 12, n - 12) =
      Some (fold (\<lambda>x rs. req_add I (fst x) (snd x) rs) (map (\<lambda>x. x) (expand (req_elems I (pol_requests p)))) (pol_requests p0),
        Some (pos + 12 + length ?rs, n - 12 - of_nat (length ?rs)))"
    using l n8 by (intro array_loop_reads reads_requests [OF reb] m3(1)) simp_all
  then have rl: "array_loop (request_item I buf) (\<lambda>x rs. req_add I (fst x) (snd x) rs) (of_nat (length ?rs)) (pol_requests p0) (pos + 12, n - 12) =
      Some (pol_requests p, Some (pos + 12 + length ?rs, n - 12 - of_nat (length ?rs)))"
    using reb by (simp add: policy_rebuilds_def)
  have o: "policy_deserialize_u32 buf (pos + 12 + length ?rs, n - 12 - of_nat (length ?rs)) =
      Some (Some (0, pos + 16 + length ?rs, n - 16 - of_nat (length ?rs)))"
    using reads_asD [OF reads_u32 m3(2), of "n - 12 - of_nat (length ?rs)"] l n8 unat_after [of "length ?rs" "n - 12"]
    by (simp add: algebra_simps)
  show ?thesis
    using u r rl o reb unfolding policy_deserialize_def policy_requests_def policy_offers_def
    by (simp add: policy_rebuilds_def array_loop.simps [of _ _ 0] bs' algebra_simps)
qed

text \<open>
  C22. The policy parser is safe on every input: whatever the bytes, \<open>deserialize\<close> ends, with or without success,
  and reads only the \<open>_size\<close> bytes at \<open>_data\<close>; the four nested array loops, which count down an
  unsigned length by what was consumed, always run out.
\<close>

theorem policy_deserialize_safe:
  assumes "pos + unat n \<le> length buf"
  shows "\<exists>p r. policy_deserialize I buf (pos, n) p0 = Some (p, r)
    \<and> (r = None \<or> (\<exists>pos' n'. r = Some (pos', n') \<and> pos' + unat n' \<le> length buf \<and> n' \<le> n))"
proof -
  have "returns buf (pos, n) (policy_deserialize I buf (pos, n) p0)"
    using assms by (intro policy_deserialize_returns) (simp add: cursor_ok_def)
  then obtain p r where r: "policy_deserialize I buf (pos, n) p0 = Some (p, r)"
      "\<And>c. r = Some c \<Longrightarrow> cursor_ok buf c \<and> unat (snd c) \<le> unat n"
    unfolding returns_def by auto
  show ?thesis
  proof (cases r)
    case (Some c)
    then show ?thesis using r by (cases c) (auto simp: cursor_ok_def word_le_nat_alt)
  qed (use r(1) in simp)
qed

text \<open>Interval containers as the lists of what was inserted.\<close>

definition icl_lists :: "(interval list, (interval \<times> interval list) list, (interval \<times> (interval \<times> interval list) list) list,
    (interval \<times> interval list) list, ((u32 \<times> u32) \<times> (u32 \<times> u32) list) list) icl" where
  "icl_lists = \<lparr> iset_empty = [], iset_insert = (\<lambda>i s. s @ [i]), iset_elems = (\<lambda>s. s),
     imap_empty = [], imap_add = (\<lambda>i s m. m @ [(i, s)]), imap_elems = (\<lambda>m. m),
     req_add = (\<lambda>s m r. r @ [((s, s), m)]), req_elems = (\<lambda>r. r), off_add = (\<lambda>s is os. os @ [((s, s), is)]),
     cred_add = (\<lambda>u g c. c @ [((u, u), [(g, g)])]), cred_elems = (\<lambda>c. c) \<rparr>"

theorem policy_deserialize_safe_witness:
  "\<exists>p r. policy_deserialize icl_lists (replicate 12 0xFF) (2, 10)
       \<lparr> pol_credentials = [], pol_allow_who = False, pol_requests = [], pol_offers = [], pol_allow_what = False \<rparr> = Some (p, r)
    \<and> (r = None \<or> (\<exists>pos' n'. r = Some (pos', n') \<and> pos' + unat n' \<le> length (replicate 12 (0xFF :: byte)) \<and> n' \<le> 10))"
  by (rule policy_deserialize_safe) simp

end
