(* ===== verification/Command_Security.thy ===== *)
theory Command_Security
  imports Command_List Policy "HOL-Library.Multiset"
begin

text \<open>
  The commands that carry security policies (\<open>protocol/src/update_security_policy_command.cpp\<close>,
  \<open>distribute_security_policies_command.cpp\<close>), over the policies of \<open>Policy\<close>. As there, \<open>I\<close>
  stands for the interval containers of \<open>boost::icl\<close>. \<open>p0\<close> is a default-constructed policy. The set of
  shared pointers that a command collects is ordered by address: it is a list of addresses with their objects in
  iteration order, and \<open>alloc\<close> is the address of a new object when those of the list are in use.
\<close>

section \<open>One policy\<close>

record ('r, 'o, 'c) update_security_policy_command = command +
  usp_update_id :: u32
  usp_policy :: "('r, 'o, 'c) policy option"

definition update_security_policy_command_new :: "bool \<Rightarrow> u32 \<Rightarrow> ('r, 'o, 'c) update_security_policy_command" where
  "update_security_policy_command_new is_internal x =
     command_new (if is_internal then UPDATE_SECURITY_POLICY_INT_ID else UPDATE_SECURITY_POLICY_ID)
       \<lparr> usp_update_id = x, usp_policy = None \<rparr>"

text \<open>
  \<open>policy::serialize\<close> returns \<open>true\<close> for success; the command treats \<open>true\<close> as the error. A
  policy that fails to serialize leaves no bytes.
\<close>

definition update_security_policy_serialize ::
  "('s, 'm, 'r, 'o, 'c) icl \<Rightarrow> endianess_e \<Rightarrow> ('r, 'o, 'c) update_security_policy_command \<Rightarrow> bytes \<Rightarrow>
     (bytes \<times> ('r, 'o, 'c) update_security_policy_command \<times> error_e) option" where
  "update_security_policy_serialize I e c buf = do {
     r \<leftarrow> (case usp_policy c of None \<Rightarrow> Some None | Some p \<Rightarrow> policy_serialize I p []);
     case r of Some its_policy_data \<Rightarrow> Some (buf, c, ERROR_UNKNOWN)
     | None \<Rightarrow>
         serialize_frame e c buf (COMMAND_HEADER_SIZE + 4 + length ([] :: bytes)) (\<lambda>buf. do {
           buf \<leftarrow> store e buf COMMAND_HEADER_SIZE (usp_update_id c);
           mem_write buf (COMMAND_HEADER_SIZE + 4) []
         })
   }"

definition update_security_policy_deserialize ::
  "('s, 'm, 'r, 'o, 'c) icl \<Rightarrow> ('r, 'o, 'c) policy \<Rightarrow> endianess_e \<Rightarrow> bytes \<Rightarrow> ('r, 'o, 'c) update_security_policy_command \<Rightarrow>
     (('r, 'o, 'c) update_security_policy_command \<times> error_e) option" where
  "update_security_policy_deserialize I p0 e buf c =
     deserialize_frame e buf c (COMMAND_HEADER_SIZE + 4) (\<lambda>c. do {
       x \<leftarrow> load e buf COMMAND_POSITION_PAYLOAD;
       let its_policy_size = (of_nat (length buf - COMMAND_HEADER_SIZE - 4) :: u32);
       if its_policy_size = 0 then Some (c\<lparr>usp_update_id := x, usp_policy := None\<rparr>, ERROR_UNKNOWN)
       else do {
         (p, r) \<leftarrow> policy_deserialize I buf (COMMAND_HEADER_SIZE + 4, its_policy_size) p0;
         if r = None then Some (c\<lparr>usp_update_id := x, usp_policy := None\<rparr>, ERROR_UNKNOWN)
         else Some (c\<lparr>usp_update_id := x, usp_policy := Some p\<rparr>, ERROR_OK)
       }
     })"

section \<open>All policies\<close>

record ('r, 'o, 'c) distribute_security_policies_command = command +
  dsp_payload :: bytes
  dsp_policies :: "(nat \<times> ('r, 'o, 'c) policy) list"

definition distribute_security_policies_command_new :: "('r, 'o, 'c) distribute_security_policies_command" where
  "distribute_security_policies_command_new =
     command_new DISTRIBUTE_SECURITY_POLICIES_ID \<lparr> dsp_payload = [], dsp_policies = [] \<rparr>"

definition set_payloads ::
  "endianess_e \<Rightarrow> (u32 \<times> bytes) list \<Rightarrow> ('r, 'o, 'c) distribute_security_policies_command \<Rightarrow>
     ('r, 'o, 'c) distribute_security_policies_command" where
  "set_payloads e ps c = c\<lparr>dsp_payload := dsp_payload c @ mem_of e (of_nat (length ps) :: u32)
     @ concat (map (\<lambda>p. mem_of e (of_nat (length (snd p)) :: u32) @ snd p) ps)\<rparr>"

text \<open>Without payload the code clears four bytes behind a vector that holds the header only.\<close>

definition distribute_serialize ::
  "endianess_e \<Rightarrow> ('r, 'o, 'c) distribute_security_policies_command \<Rightarrow> bytes \<Rightarrow>
     (bytes \<times> ('r, 'o, 'c) distribute_security_policies_command \<times> error_e) option" where
  "distribute_serialize e c buf =
     serialize_frame e c buf (COMMAND_HEADER_SIZE + min (length (dsp_payload c)) 4294967295) (\<lambda>buf.
       if dsp_payload c = [] then mem_write buf COMMAND_HEADER_SIZE [0, 0, 0, 0]
       else mem_write buf COMMAND_HEADER_SIZE (dsp_payload c))"

fun policies_loop ::
  "('s, 'm, 'r, 'o, 'c) icl \<Rightarrow> ('r, 'o, 'c) policy \<Rightarrow> (nat list \<Rightarrow> nat) \<Rightarrow> endianess_e \<Rightarrow> nat \<Rightarrow> bytes \<Rightarrow> nat \<Rightarrow>
     (nat \<times> ('r, 'o, 'c) policy) list \<Rightarrow> ((nat \<times> ('r, 'o, 'c) policy) list \<times> error_e) option" where
  "policies_loop I p0 alloc e 0 buf off acc = Some (acc, ERROR_OK)"
| "policies_loop I p0 alloc e (Suc n) buf off acc =
     (if off + 4 > length buf then Some ([], ERROR_NOT_ENOUGH_BYTES)
      else do {
        its_policy_size \<leftarrow> (load e buf off :: u32 option);
        let off = off + 4;
        if off + unat its_policy_size > length buf then Some ([], ERROR_NOT_ENOUGH_BYTES)
        else if its_policy_size = 0 then Some ([], ERROR_UNKNOWN)
        else do {
          (p, r) \<leftarrow> policy_deserialize I buf (off, its_policy_size) p0;
          if r = None then Some ([], ERROR_UNKNOWN)
          else policies_loop I p0 alloc e n buf (off + unat its_policy_size) (set_insert fst (alloc (map fst acc), p) acc)
        }
      })"

definition distribute_deserialize ::
  "('s, 'm, 'r, 'o, 'c) icl \<Rightarrow> ('r, 'o, 'c) policy \<Rightarrow> (nat list \<Rightarrow> nat) \<Rightarrow> endianess_e \<Rightarrow> bytes \<Rightarrow>
     ('r, 'o, 'c) distribute_security_policies_command \<Rightarrow> (('r, 'o, 'c) distribute_security_policies_command \<times> error_e) option" where
  "distribute_deserialize I p0 alloc e buf c =
     deserialize_frame e buf c (COMMAND_HEADER_SIZE + 4) (\<lambda>c. do {
       its_policies_count \<leftarrow> (load e buf COMMAND_HEADER_SIZE :: u32 option);
       (ps, err) \<leftarrow> policies_loop I p0 alloc e (unat its_policies_count) buf (COMMAND_HEADER_SIZE + 4) (dsp_policies c);
       Some (c\<lparr>dsp_policies := ps\<rparr>, err)
     })"

section \<open>Results\<close>

text \<open>No policy that can be serialized is ever sent.\<close>

lemma update_security_policy_never_sent:
  assumes "usp_policy c = Some p" "policy_uid_gid I p = Some ug"
    and "\<And>x. x \<in> set (req_elems I (pol_requests p)) \<Longrightarrow> snd (fst x) \<noteq> 0xFFFF"
  shows "update_security_policy_serialize I e c buf = Some (buf, c, ERROR_UNKNOWN)"
proof -
  obtain uid gid where "ug = (uid, gid)" by (cases ug)
  with policy_serialize_bytes [of I p uid gid "[]"] assms show ?thesis
    by (simp add: update_security_policy_serialize_def)
qed

lemma update_security_policy_deserialize_total: "update_security_policy_deserialize I p0 e buf c \<noteq> None"
  unfolding update_security_policy_deserialize_def
proof (rule deserialize_frame_total)
  fix c' :: "('a, 'b, 'c) update_security_policy_command"
  let ?n = "of_nat (length buf - COMMAND_HEADER_SIZE - 4) :: u32"
  assume len: "COMMAND_HEADER_SIZE + 4 \<le> length buf"
  have "unat ?n \<le> length buf - COMMAND_HEADER_SIZE - 4" by (simp add: unat_of_nat take_bit_nat_less_eq_self)
  then have "cursor_ok buf (COMMAND_HEADER_SIZE + 4, ?n)" using len by (simp add: cursor_ok_def)
  from policy_deserialize_returns [OF this, of I p0] obtain p r where
    "policy_deserialize I buf (COMMAND_HEADER_SIZE + 4, ?n) p0 = Some (p, r)" unfolding returns_def by blast
  then show "(load e buf COMMAND_POSITION_PAYLOAD \<bind> (\<lambda>x. let its_policy_size = ?n in
      if its_policy_size = 0 then Some (c'\<lparr>usp_update_id := x, usp_policy := None\<rparr>, ERROR_UNKNOWN)
      else policy_deserialize I buf (COMMAND_HEADER_SIZE + 4, its_policy_size) p0 \<bind> (\<lambda>(p, r).
        if r = None then Some (c'\<lparr>usp_update_id := x, usp_policy := None\<rparr>, ERROR_UNKNOWN)
        else Some (c'\<lparr>usp_update_id := x, usp_policy := Some p\<rparr>, ERROR_OK)))) \<noteq> None"
    using len by (simp add: Let_def)
qed simp

lemma distribute_without_payload:
  "dsp_payload c = [] \<Longrightarrow> distribute_serialize e c buf = None"
  by (simp add: distribute_serialize_def serialize_frame_def command_serialize_bytes mem_write_def Let_def)

lemma policies_loop_total: "\<exists>ps err. policies_loop I p0 alloc e n buf off acc = Some (ps, err)"
proof (induction n arbitrary: off acc)
  case (Suc n)
  show ?case
  proof (cases "off + 4 > length buf")
    case False
    then obtain w :: u32 where w: "load e buf off = Some w" by simp
    show ?thesis
    proof (cases "off + 4 + unat w > length buf \<or> w = 0")
      case True
      then show ?thesis using False w by auto
    next
      case ok: False
      then have "cursor_ok buf (off + 4, w)" by (simp add: cursor_ok_def)
      from policy_deserialize_returns [OF this, of I p0] obtain p r where
        "policy_deserialize I buf (off + 4, w) p0 = Some (p, r)" unfolding returns_def by blast
      then show ?thesis using False w ok Suc.IH [of "off + 4 + unat w" "set_insert fst (alloc (map fst acc), p) acc"] by (cases r) auto
    qed
  qed simp
qed simp

lemma distribute_deserialize_total: "distribute_deserialize I p0 alloc e buf c \<noteq> None"
  unfolding distribute_deserialize_def
proof (rule deserialize_frame_total)
  fix c' :: "('a, 'b, 'c) distribute_security_policies_command"
  assume len: "COMMAND_HEADER_SIZE + 4 \<le> length buf"
  obtain w :: u32 where w: "load e buf 9 = Some w" using len by simp
  obtain ps err where "policies_loop I p0 alloc e (unat w) buf 13 (dsp_policies c') = Some (ps, err)"
    using policies_loop_total by blast
  with w show "(load e buf COMMAND_HEADER_SIZE \<bind> (\<lambda>its_policies_count.
      policies_loop I p0 alloc e (unat (its_policies_count :: u32)) buf (COMMAND_HEADER_SIZE + 4) (dsp_policies c') \<bind>
      (\<lambda>(ps, err). Some (c'\<lparr>dsp_policies := ps\<rparr>, err)))) \<noteq> None"
    by simp
qed simp

text \<open>The bytes of a policy that the receiver rebuilds.\<close>

definition policy_wire :: "('s, 'm, 'r, 'o, 'c) icl \<Rightarrow> ('r, 'o, 'c) policy \<Rightarrow> ('r, 'o, 'c) policy \<Rightarrow> bytes \<Rightarrow> bool" where
  "policy_wire I p0 p bs \<longleftrightarrow> (\<exists>uid gid. policy_rebuilds I p0 p uid gid \<and>
     bs = policy_bytes I uid gid (expand (req_elems I (pol_requests p))))"

lemma policy_wire_serialize:
  assumes "policy_wire I p0 p bs"
  shows "policy_serialize I p [] = Some (Some bs)"
proof -
  obtain uid gid where "policy_rebuilds I p0 p uid gid" "bs = policy_bytes I uid gid (expand (req_elems I (pol_requests p)))"
    using assms unfolding policy_wire_def by blast
  then show ?thesis
    using policy_serialize_bytes [of I p uid gid "[]"] by (auto simp: policy_rebuilds_def list_all_iff)
qed

lemma policy_wire_nonempty: "policy_wire I p0 p bs \<Longrightarrow> 16 \<le> length bs"
  by (auto simp: policy_wire_def policy_bytes_def)

text \<open>What is inserted under fresh addresses, in iteration order.\<close>

lemma mset_set_insert_new: "k x \<notin> k ` set xs \<Longrightarrow> mset (set_insert k x xs) = add_mset x (mset xs)"
  by (induction xs) auto

lemma mset_insert_alloc:
  assumes "\<And>live. alloc live \<notin> set live"
  shows "mset (map snd (set_insert fst (alloc (map fst acc), p) acc)) = add_mset p (mset (map snd acc))"
proof -
  have "alloc (map fst acc) \<notin> fst ` set acc" using assms [of "map fst acc"] by simp
  then have "mset (set_insert fst (alloc (map fst acc), p) acc) = add_mset (alloc (map fst acc), p) (mset acc)"
    by (intro mset_set_insert_new) simp
  then show ?thesis by (simp only: mset_map image_mset_add_mset snd_conv)
qed

lemma policies_loop_reads:
  assumes "list_all2 (policy_wire I p0) ps bss" and "length (concat bss) \<le> MAX_COMMAND_SIZE"
    and alloc: "\<And>live. alloc live \<notin> set live" and "ordered fst acc"
  shows "\<exists>acc'. policies_loop I p0 alloc e (length bss) (h @ concat (map (\<lambda>bs. mem_of e (of_nat (length bs) :: u32) @ bs) bss)) (length h) acc =
      Some (acc', ERROR_OK) \<and> ordered fst acc' \<and> mset (map snd acc') = mset (map snd acc) + mset ps"
  using assms(1,2,4)
proof (induction ps bss arbitrary: h acc rule: list_all2_induct)
  case Nil
  then show ?case by simp
next
  case (Cons p ps bs bss)
  let ?n = "mem_of e (of_nat (length bs) :: u32)" and ?q = "concat (map (\<lambda>bs. mem_of e (of_nat (length bs) :: u32) @ bs) bss)"
  let ?buf = "h @ ?n @ bs @ ?q" and ?acc = "set_insert fst (alloc (map fst acc), p) acc"
  have u: "unat (of_nat (length bs) :: u32) = length bs" using Cons.prems by (intro unat_u32_of_nat) simp
  have ne: "16 \<le> length bs" using policy_wire_nonempty [OF Cons.hyps(1)] .
  obtain uid gid where w: "policy_rebuilds I p0 p uid gid" "bs = policy_bytes I uid gid (expand (req_elems I (pol_requests p)))"
    using Cons.hyps(1) unfolding policy_wire_def by blast
  have "mem_sub ?buf (length h + 4) (length bs) = Some bs" by (simp add: mem_sub_def)
  from policy_deserialize_reads [OF w this, of "of_nat (length bs)"]
  have d: "policy_deserialize I ?buf (length h + 4, of_nat (length bs)) p0 = Some (p, Some (length h + 4 + length bs, 0))"
    using u by simp
  have "length (concat bss) \<le> MAX_COMMAND_SIZE" "ordered fst ?acc" using Cons.prems ordered_set_insert [of fst acc] by simp_all
  from Cons.IH [OF this, of "h @ ?n @ bs"] obtain acc' where
    "policies_loop I p0 alloc e (length bss) ((h @ ?n @ bs) @ ?q) (length (h @ ?n @ bs)) ?acc = Some (acc', ERROR_OK)"
    "ordered fst acc'" "mset (map snd acc') = mset (map snd acc) + mset (p # ps)"
    using mset_insert_alloc [OF alloc, of acc p] by auto
  moreover have "load e ?buf (length h) = Some (of_nat (length bs) :: u32)" by (simp add: wire_simps del: load_Some)
  moreover have "(of_nat (length bs) :: u32) \<noteq> 0" using u ne by auto
  ultimately show ?case using d u by (simp add: Let_def add.assoc)
qed

text \<open>The payloads of serialized policies, distributed and read.\<close>

lemma distribute_transfer:
  assumes pols: "list_all2 (policy_wire I p0) ps (map snd kbs)"
    and len: "13 + length (concat (map (\<lambda>p. mem_of e (of_nat (length (snd p)) :: u32) @ snd p) kbs)) \<le> MAX_COMMAND_SIZE"
    and c: "c = set_payloads e kbs distribute_security_policies_command_new" and alloc: "\<And>live. alloc live \<notin> set live"
  shows "\<exists>bs c' qs. distribute_serialize e c buf = Some (bs, c', ERROR_OK) \<and> one_command e bs \<and>
    map_option (\<lambda>(d, err). (dsp_policies d, err)) (distribute_deserialize I p0 alloc e bs distribute_security_policies_command_new) =
      Some (qs, ERROR_OK) \<and> ordered fst qs \<and> mset (map snd qs) = mset ps"
proof -
  let ?bss = "map snd kbs" and ?enc = "\<lambda>bs. mem_of e (of_nat (length bs) :: u32) @ bs"
  let ?cnt = "mem_of e (of_nat (length kbs) :: u32)" and ?q = "concat (map ?enc ?bss)"
  let ?pay = "?cnt @ ?q"
  have pay: "dsp_payload c = ?pay" by (simp add: c set_payloads_def distribute_security_policies_command_new_def command_new_def comp_def)
  have n: "9 + length ?pay \<le> MAX_COMMAND_SIZE" using len by (simp add: comp_def)
  let ?c = "sized ?pay c"
  have "length ?cnt \<noteq> 0" by simp
  then have ne: "?cnt \<noteq> []" by (metis list.size(3))
  have ser: "distribute_serialize e c buf = Some (cmd_header e ?c @ ?pay, ?c, ERROR_OK)"
    using n unfolding distribute_serialize_def pay sized_def
    by (subst serialize_frame_bytes [where payload = ?pay]) (use ne in \<open>auto simp: wire_simps\<close>)
  have cat: "length (concat bss) + 4 * length bss = length (concat (map ?enc bss))" for bss by (induction bss) simp_all
  have small: "length (concat ?bss) + 4 * length ?bss \<le> MAX_COMMAND_SIZE" using cat [of ?bss] n by simp
  then have cnt: "unat (of_nat (length kbs) :: u32) = length kbs" by (simp add: unat_u32_of_nat)
  obtain qs where loop: "policies_loop I p0 alloc e (length kbs) ((cmd_header e ?c @ ?cnt) @ ?q) (length (cmd_header e ?c @ ?cnt)) [] =
      Some (qs, ERROR_OK)" "ordered fst qs" "mset (map snd qs) = mset ps"
    using policies_loop_reads [OF pols _ alloc, of "[]" e "cmd_header e ?c @ ?cnt"] small by auto
  have id: "cmd_id distribute_security_policies_command_new = cmd_id ?c"
    by (simp add: c set_payloads_def distribute_security_policies_command_new_def command_new_def)
  have "distribute_deserialize I p0 alloc e (cmd_header e ?c @ ?pay) distribute_security_policies_command_new \<bind>
      (\<lambda>(d, err). Some (dsp_policies d, err)) = Some (qs, ERROR_OK)"
    unfolding distribute_deserialize_def using loop(1) cnt
    by (subst deserialize_frame_bytes [OF id])
      (simp_all add: wire_simps distribute_security_policies_command_new_def command_new_def del: load_Some)
  then have "map_option (\<lambda>(d, err). (dsp_policies d, err)) (distribute_deserialize I p0 alloc e (cmd_header e ?c @ ?pay)
      distribute_security_policies_command_new) = Some (qs, ERROR_OK)"
    by (auto split: Option.bind_splits)
  then show ?thesis using ser one_command_header [OF n] loop(2,3) by blast
qed

lemma policy_serialize_offers [simp]: "policy_serialize I (p\<lparr>pol_offers := x\<rparr>) data = policy_serialize I p data"
proof -
  have e: "pol_credentials (p\<lparr>pol_offers := x\<rparr>) = pol_credentials p" "pol_requests (p\<lparr>pol_offers := x\<rparr>) = pol_requests p" by simp_all
  show ?thesis unfolding policy_serialize_def policy_uid_gid_def e ..
qed

text \<open>
  C21. The security policies of the routing manager reach the applications: the command filled with the serialized
  policies is read back as the same policies, each as often as it was sent, under distinct
  addresses in the order of which the receiver iterates over them. What a policy offers is not sent: the received policies have no
  offers. The policies allow, they are for one user and group id, and their services lie in 0x0001 to 0xFFFE. This holds for every
  behaviour of \<open>boost::icl\<close> in which the other containers of the policies are rebuilt by inserting their elements, for
  payloads that fit a command, and for every allocator that gives a new object an address not in use.
\<close>

theorem distribute_roundtrip:
  assumes "list_all2 (\<lambda>p kb. (\<exists>uid gid. policy_rebuilds I p0 (p\<lparr>pol_offers := pol_offers p0\<rparr>) uid gid) \<and>
      policy_serialize I p [] = Some (Some (snd kb))) ps kbs"
    and "13 + sum_list (map (\<lambda>kb. 4 + length (snd kb)) kbs) \<le> MAX_COMMAND_SIZE" and "\<And>live. alloc live \<notin> set live"
  shows "\<exists>bs c' d. distribute_serialize e (set_payloads e kbs distribute_security_policies_command_new) buf = Some (bs, c', ERROR_OK)
    \<and> one_command e bs \<and> distribute_deserialize I p0 alloc e bs distribute_security_policies_command_new = Some (d, ERROR_OK)
    \<and> ordered fst (dsp_policies d) \<and> mset (map snd (dsp_policies d)) = mset (map (\<lambda>p. p\<lparr>pol_offers := pol_offers p0\<rparr>) ps)"
proof -
  let ?bare = "\<lambda>p. p\<lparr>pol_offers := pol_offers p0\<rparr>"
  have "policy_wire I p0 (?bare p) (snd kb)"
    if "policy_rebuilds I p0 (?bare p) uid gid" "policy_serialize I p [] = Some (Some (snd kb))" for p kb uid gid
    using that policy_serialize_bytes [of I "?bare p" uid gid "[]"] by (auto simp: policy_wire_def policy_rebuilds_def list_all_iff)
  then have "list_all2 (policy_wire I p0) (map ?bare ps) (map snd kbs)"
    using assms(1) unfolding list_all2_map1 list_all2_map2 by (auto elim!: list_all2_mono)
  moreover have "length (concat (map (\<lambda>p. mem_of e (of_nat (length (snd p)) :: u32) @ snd p) kbs)) = sum_list (map (\<lambda>kb. 4 + length (snd kb)) kbs)"
    by (induction kbs) simp_all
  ultimately show ?thesis
    using distribute_transfer [of I p0 "map ?bare ps" kbs e _ alloc buf] assms(2,3) by fastforce
qed

definition example_policy where
  "example_policy = \<lparr> pol_credentials = [((1000, 1000), [(100, 100)])], pol_allow_who = True,
     pol_requests = [((0x1234, 0x1234), [((1, 2), [(0x8001, 0x8001), (0x10, 0x20)])])],
     pol_offers = ([((7, 7), [(1, 1)])] :: (interval \<times> interval list) list), pol_allow_what = True \<rparr>"

definition empty_policy where
  "empty_policy = \<lparr> pol_credentials = ([] :: ((u32 \<times> u32) \<times> (u32 \<times> u32) list) list), pol_allow_who = False,
     pol_requests = ([] :: (interval \<times> (interval \<times> interval list) list) list),
     pol_offers = ([] :: (interval \<times> interval list) list), pol_allow_what = False \<rparr>"

lemma service_list_single [simp]: "service_list (s, s) = [s]"
  by (simp add: service_list_def)

lemma example_policy_rebuilds: "policy_rebuilds icl_lists empty_policy (example_policy\<lparr>pol_offers := []\<rparr>) 1000 100"
  by (simp add: policy_rebuilds_def policy_uid_gid_def map_rebuilds_def set_rebuilds_def interval_ok_def expand_def
      icl_lists_def example_policy_def empty_policy_def word_le_nat_alt)

lemma example_policy_bytes: "\<exists>bs. policy_serialize icl_lists example_policy [] = Some (Some bs) \<and> length bs < 100"
proof -
  have "policy_uid_gid icl_lists example_policy = Some (1000, 100)"
    by (simp add: policy_uid_gid_def icl_lists_def example_policy_def)
  from policy_serialize_bytes [OF this, of "[]"] show ?thesis
    by (simp add: icl_lists_def example_policy_def policy_bytes_def expand_def service_bytes_def ids_bytes_def instance_bytes_def
        set_bytes_def array_bytes_def interval_bytes_def)
qed

text \<open>An allocator that reuses the lowest addresses last.\<close>

definition example_alloc :: "nat list \<Rightarrow> nat" where
  "example_alloc live = Suc (fold max live 0)"

lemma fold_max: "x \<in> insert y (set xs) \<Longrightarrow> x \<le> fold max xs (y :: nat)"
proof (induction xs arbitrary: x y)
  case (Cons a xs)
  have "max a y \<le> fold max xs (max a y)" by (rule Cons.IH) simp
  moreover have "x \<le> fold max xs (max a y)" if "x \<in> set xs" using that by (intro Cons.IH) simp
  ultimately show ?case using Cons.prems by auto
qed simp

lemma example_alloc_fresh: "example_alloc live \<notin> set live"
proof
  assume "example_alloc live \<in> set live"
  then have "example_alloc live \<le> fold max live 0" by (intro fold_max) simp
  then show False by (simp add: example_alloc_def)
qed

theorem distribute_roundtrip_witness:
  "\<exists>kb bs c' d. distribute_serialize LE (set_payloads LE [kb, kb] distribute_security_policies_command_new) [] = Some (bs, c', ERROR_OK)
    \<and> one_command LE bs \<and> distribute_deserialize icl_lists empty_policy example_alloc LE bs distribute_security_policies_command_new = Some (d, ERROR_OK)
    \<and> ordered fst (dsp_policies d)
    \<and> mset (map snd (dsp_policies d)) = mset (map (\<lambda>p. p\<lparr>pol_offers := pol_offers empty_policy\<rparr>) [example_policy, example_policy])"
proof -
  obtain bs where bs: "policy_serialize icl_lists example_policy [] = Some (Some bs)" "length bs < 100"
    using example_policy_bytes by blast
  have "pol_offers empty_policy = []" by (simp add: empty_policy_def)
  then show ?thesis
    using bs example_policy_rebuilds example_alloc_fresh
    by (intro exI [where x = "(0, bs)"] distribute_roundtrip) auto
qed

end
