(* ===== verification/Protocol.thy ===== *)
theory Protocol
  imports Command_Events Command_Config Command_Subscribe Command_Routing Command_Security
begin

text \<open>
  The command protocol between the applications and the routing manager as a whole: which
  classes of \<open>src/vsomeip/implementation/protocol\<close> transfer their members, and which
  deserializers stay inside the vector they are given.
\<close>

text \<open>
  C14. The commands between application and routing manager arrive as they were sent: for every
  class named here, \<open>serialize\<close> succeeds on any old buffer with one well framed command, and
  \<open>deserialize\<close> on a fresh object gives every member back, on hosts of either byte order. The payload fits the
  32 bit command size. The sets of services and credentials, and the ignored bytes of an event filter, have to be in
  iteration order.
\<close>

theorem protocol_transfer:
  "(\<forall>i. transfers i simple_command_serialize simple_command_deserialize (simple_command_new i) (\<lambda>_ _. True) (\<lambda>_ _. []))
   \<and> (\<forall>x. transfers ASSIGN_CLIENT_ACK_ID assign_client_ack_serialize assign_client_ack_deserialize
        (assign_client_ack_command_new x) (\<lambda>_ _. True) assign_client_ack_pay)
   \<and> transfers REGISTER_APPLICATION_ID register_application_serialize register_application_deserialize
        register_application_command_new (\<lambda>_ _. True) register_application_pay
   \<and> transfers OFFER_SERVICE_ID service_command_base_serialize service_command_base_deserialize
        offer_service_command_new (\<lambda>_ _. True) (\<lambda>e c. service_pay e (cmd_service c))
   \<and> transfers STOP_OFFER_SERVICE_ID service_command_base_serialize service_command_base_deserialize
        stop_offer_service_command_new (\<lambda>_ _. True) (\<lambda>e c. service_pay e (cmd_service c))
   \<and> transfers REQUEST_SERVICE_ID multiple_services_serialize multiple_services_deserialize
        request_service_command_new (\<lambda>_ c. ordered service_key (mul_services c)) multiple_services_pay
   \<and> transfers RELEASE_SERVICE_ID release_service_serialize release_service_deserialize
        release_service_command_new (\<lambda>_ _. True) release_service_pay
   \<and> transfers SUBSCRIBE_ID subscribe_serialize subscribe_deserialize
        subscribe_command_new (\<lambda>_. subscribe_ok) subscribe_filter_pay
   \<and> transfers UNSUBSCRIBE_ID unsubscribe_serialize unsubscribe_deserialize unsubscribe_command_new (\<lambda>_ _. True) subscribe_pay
   \<and> transfers EXPIRE_ID expire_serialize expire_deserialize expire_command_new (\<lambda>_ _. True) subscribe_pay
   \<and> transfers SUBSCRIBE_ACK_ID subscribe_ack_command_base_serialize subscribe_ack_command_base_deserialize
        subscribe_ack_command_new (\<lambda>_ _. True) subscribe_ack_command_base_pay
   \<and> transfers SUBSCRIBE_NACK_ID subscribe_ack_command_base_serialize subscribe_ack_command_base_deserialize
        subscribe_nack_command_new (\<lambda>_ _. True) subscribe_ack_command_base_pay
   \<and> transfers UNSUBSCRIBE_ACK_ID unsubscribe_ack_serialize unsubscribe_ack_deserialize
        unsubscribe_ack_command_new (\<lambda>_ _. True) unsubscribe_ack_pay
   \<and> transfers UNREGISTER_EVENT_ID unregister_event_serialize unregister_event_deserialize
        unregister_event_command_new (\<lambda>_ _. True) unregister_event_pay
   \<and> (\<forall>i a b s t. transfers i send_serialize send_deserialize (send_command_new i a b s t) (\<lambda>_ _. True) send_pay)
   \<and> (\<forall>x. transfers RESEND_PROVIDED_EVENTS_ID resend_provided_events_serialize resend_provided_events_deserialize
        (resend_provided_events_command_new x) (\<lambda>_ _. True) resend_provided_events_pay)
   \<and> (\<forall>x. transfers OFFERED_SERVICES_REQUEST_ID offered_services_request_serialize offered_services_request_deserialize
        (offered_services_request_command_new x) (\<lambda>_ _. True) offered_services_request_pay)
   \<and> transfers OFFERED_SERVICES_RESPONSE_ID multiple_services_serialize multiple_services_deserialize
        offered_services_response_command_new (\<lambda>_ c. ordered service_key (mul_services c)) multiple_services_pay
   \<and> transfers UPDATE_SECURITY_CREDENTIALS_ID update_security_credentials_serialize update_security_credentials_deserialize
        update_security_credentials_command_new (\<lambda>_ c. ordered (\<lambda>p. p) (sec_credentials c)) credentials_pay
   \<and> (\<forall>x y z. transfers REMOVE_SECURITY_POLICY_ID remove_security_policy_serialize remove_security_policy_deserialize
        (remove_security_policy_command_new x y z) (\<lambda>_ _. True) remove_security_policy_pay)
   \<and> (\<forall>x. transfers UPDATE_SECURITY_POLICY_RESPONSE_ID security_policy_response_command_base_serialize
        security_policy_response_command_base_deserialize (update_security_policy_response_command_new x) (\<lambda>_ _. True)
        security_policy_response_command_base_pay)
   \<and> (\<forall>x. transfers REMOVE_SECURITY_POLICY_RESPONSE_ID security_policy_response_command_base_serialize
        security_policy_response_command_base_deserialize (remove_security_policy_response_command_new x) (\<lambda>_ _. True)
        security_policy_response_command_base_pay)"
  by (intro conjI allI simple.class_transfers assign_client_ack.class_transfers register_application.class_transfers
      offer_service.class_transfers stop_offer_service.class_transfers request_service.class_transfers
      release_service.class_transfers subscribe.class_transfers unsubscribe.class_transfers expire.class_transfers
      subscribe_ack.class_transfers subscribe_nack.class_transfers unsubscribe_ack.class_transfers
      unregister_event.class_transfers send.class_transfers resend_provided_events.class_transfers
      offered_services_request.class_transfers offered_services_response.class_transfers
      update_security_credentials.class_transfers remove_security_policy.class_transfers
      update_security_policy_response.class_transfers remove_security_policy_response.class_transfers
      config.class_transfers)

text \<open>
  C15. Memory safety of the deserializers: whatever bytes a peer sends and whatever the object
  held before, these deserializers return with a result code and never access the vector out
  of bounds; the loops over registrations, configurations, policies and their nested arrays
  always end. (\<open>subscribe_command\<close>, \<open>routing_info_command\<close> and \<open>assign_client_command\<close> are not in the
  list: they do read out of bounds.)
\<close>

theorem protocol_stays_inside:
  "stays_inside simple_command_deserialize \<and> stays_inside assign_client_ack_deserialize
   \<and> stays_inside register_application_deserialize \<and> stays_inside service_command_base_deserialize
   \<and> stays_inside multiple_services_deserialize \<and> stays_inside release_service_deserialize
   \<and> stays_inside unsubscribe_deserialize \<and> stays_inside expire_deserialize
   \<and> stays_inside subscribe_ack_command_base_deserialize \<and> stays_inside unsubscribe_ack_deserialize
   \<and> stays_inside unregister_event_deserialize \<and> stays_inside send_deserialize
   \<and> stays_inside resend_provided_events_deserialize \<and> stays_inside offered_services_request_deserialize
   \<and> stays_inside update_security_credentials_deserialize \<and> stays_inside remove_security_policy_deserialize
   \<and> stays_inside security_policy_response_command_base_deserialize \<and> stays_inside register_events_deserialize
   \<and> stays_inside config_deserialize \<and> stays_inside (update_security_policy_deserialize I p0)
   \<and> stays_inside (distribute_deserialize I p0 alloc)"
proof -
  have "stays_inside (update_security_policy_deserialize I p0)"
    using update_security_policy_deserialize_total [of I p0] unfolding stays_inside_def by auto
  moreover have "stays_inside (distribute_deserialize I p0 alloc)"
    using distribute_deserialize_total [of I p0 alloc] unfolding stays_inside_def by auto
  ultimately show ?thesis
    by (intro conjI simple.class_stays_inside assign_client_ack.class_stays_inside register_application.class_stays_inside
        offer_service.class_stays_inside request_service.class_stays_inside release_service.class_stays_inside
        unsubscribe.class_stays_inside expire.class_stays_inside subscribe_ack.class_stays_inside
        unsubscribe_ack.class_stays_inside unregister_event.class_stays_inside send.class_stays_inside
        resend_provided_events.class_stays_inside offered_services_request.class_stays_inside
        update_security_credentials.class_stays_inside remove_security_policy.class_stays_inside
        update_security_policy_response.class_stays_inside register_events.class_stays_inside config.class_stays_inside)
qed

end
