(* ===== verification/Client_Id.thy ===== *)
theory Client_Id
  imports Ordered
begin

text \<open>
  The client identifiers of \<open>src/vsomeip/implementation/utility/src/utility.cpp\<close>: the routing
  manager hands them out to the applications of a network. \<open>data__\<close> holds for each network the
  identifier assigned last and the identifiers in use with the name of their application, in
  iteration order. The masks are computed from the configuration at the first call and kept
  in static variables; a process has one configuration, so they are computed from it here.
\<close>

abbreviation VSOMEIP_CLIENT_UNSET :: u16 where "VSOMEIP_CLIENT_UNSET \<equiv> 0xFFFF"

record configuration =
  get_network :: bytes
  get_diagnosis_address :: u16
  get_diagnosis_mask :: u16
  is_configured_client_id :: "u16 \<Rightarrow> bool"

record data_t =
  next_client :: u16
  used_clients :: "(u16 \<times> bytes) list"

type_synonym client_data = "bytes \<Rightarrow> data_t option"

definition data_t_new :: data_t where
  "data_t_new = \<lparr> next_client = VSOMEIP_CLIENT_UNSET, used_clients = [] \<rparr>"

text \<open>The number of one bits, \<open>__builtin_popcount\<close>.\<close>

definition popcount :: "u16 \<Rightarrow> nat" where
  "popcount w = length (filter (bit w) [0..<16])"

definition get_max_client_number :: "configuration \<Rightarrow> u16" where
  "get_max_client_number cfg =
     fold (\<lambda>var its_max_clients. its_max_clients OR push_bit var 1) [0..<popcount (NOT (get_diagnosis_mask cfg))] 0"

definition its_client_mask :: "configuration \<Rightarrow> u16" where
  "its_client_mask cfg = NOT (get_diagnosis_mask cfg)"

definition its_smallest_client :: "configuration \<Rightarrow> u16" where
  "its_smallest_client cfg = push_bit 8 (get_diagnosis_address cfg) AND get_diagnosis_mask cfg"

definition its_biggest_client :: "configuration \<Rightarrow> u16" where
  "its_biggest_client cfg = its_smallest_client cfg OR its_client_mask cfg"

text \<open>The increment of the loop: the diagnosis address bits stay, the other bits count.\<close>

definition increase_client :: "u16 \<Rightarrow> u16 \<Rightarrow> u16" where
  "increase_client m n = (n AND NOT m) OR (((n OR NOT m) + 1) AND m)"

text \<open>The loop over the identifiers: the last one reached, and whether it is free.\<close>

function client_loop :: "u16 \<Rightarrow> u16 \<Rightarrow> (u16 \<Rightarrow> bool) \<Rightarrow> u16 \<Rightarrow> u16 \<Rightarrow> u16 \<times> bool" where
  "client_loop m its_max taken increase_count n =
     (let n = increase_client m n in
      if increase_count = its_max then (n, False)
      else if taken n then client_loop m its_max taken (increase_count + 1) n
      else (n, True))"
  by pat_completeness auto
termination
proof (relation "measure (\<lambda>(m, its_max, taken, k, n). unat (its_max - k))")
  fix its_max k :: u16 assume "k \<noteq> its_max"
  then have "unat (its_max - k) \<noteq> 0" by (simp add: unat_eq_0)
  then have "unat (its_max - k - 1) < unat (its_max - k)" by (subst unat_sub) (simp_all add: word_le_nat_alt)
  then show "((m, its_max, taken, k + 1, n'), m, its_max, taken, k, n) \<in> measure (\<lambda>(m, its_max, taken, k, n). unat (its_max - k))"
    for m n n' and taken :: "u16 \<Rightarrow> bool"
    by (simp add: diff_diff_eq)
qed simp

declare client_loop.simps [simp del]

definition unavailable :: "configuration \<Rightarrow> data_t \<Rightarrow> u16 \<Rightarrow> bool" where
  "unavailable cfg r n \<longleftrightarrow> map_of (used_clients r) n \<noteq> None \<or> is_configured_client_id cfg n"

definition request_client_id :: "configuration \<Rightarrow> bytes \<Rightarrow> u16 \<Rightarrow> client_data \<Rightarrow> u16 \<times> client_data" where
  "request_client_id cfg name client data =
     (case data (get_network cfg) of None \<Rightarrow> (VSOMEIP_CLIENT_UNSET, data)
      | Some r \<Rightarrow>
          let r = (if next_client r = VSOMEIP_CLIENT_UNSET then r\<lparr>next_client := its_smallest_client cfg\<rparr> else r);
              found = map_of (used_clients r) client
          in if client \<noteq> VSOMEIP_CLIENT_UNSET \<and> found = None
             then (client, data(get_network cfg \<mapsto> r\<lparr>used_clients := map_assign fst (client, name) (used_clients r)\<rparr>))
             else if client \<noteq> VSOMEIP_CLIENT_UNSET \<and> found = Some name
             then (client, data(get_network cfg \<mapsto> r))
             else let start = (if next_client r = its_biggest_client cfg then its_smallest_client cfg else next_client r);
                      (n, free) = client_loop (its_client_mask cfg) (get_max_client_number cfg)
                        (unavailable cfg r) 0 start
                  in if \<not> free then (VSOMEIP_CLIENT_UNSET, data(get_network cfg \<mapsto> r\<lparr>next_client := n\<rparr>))
                     else (n, data(get_network cfg \<mapsto>
                       r\<lparr>next_client := n, used_clients := map_assign fst (n, name) (used_clients r)\<rparr>)))"

definition release_client_id :: "bytes \<Rightarrow> u16 \<Rightarrow> client_data \<Rightarrow> client_data" where
  "release_client_id network client data =
     (case data network of None \<Rightarrow> data
      | Some r \<Rightarrow> data(network \<mapsto> r\<lparr>used_clients := filter (\<lambda>c. fst c \<noteq> client) (used_clients r)\<rparr>))"

definition get_used_client_ids :: "bytes \<Rightarrow> client_data \<Rightarrow> u16 list" where
  "get_used_client_ids network data = (case data network of None \<Rightarrow> [] | Some r \<Rightarrow> map fst (used_clients r))"

definition reset_client_ids :: "bytes \<Rightarrow> client_data \<Rightarrow> client_data" where
  "reset_client_ids network data =
     (case data network of None \<Rightarrow> data
      | Some r \<Rightarrow> data(network \<mapsto> r\<lparr>used_clients := [], next_client := VSOMEIP_CLIENT_UNSET\<rparr>))"


section \<open>Identifiers of the configured range\<close>

definition in_range :: "configuration \<Rightarrow> u16 \<Rightarrow> bool" where
  "in_range cfg x \<longleftrightarrow> x AND get_diagnosis_mask cfg = its_smallest_client cfg"

text \<open>The invariant of the data of a network: the last identifier is in the range, the map is ordered.\<close>

definition data_ok :: "configuration \<Rightarrow> data_t \<Rightarrow> bool" where
  "data_ok cfg r \<longleftrightarrow> (next_client r = VSOMEIP_CLIENT_UNSET \<or> in_range cfg (next_client r)) \<and> ordered fst (used_clients r)"

lemma increase_client_keeps: "increase_client m n AND NOT m = n AND NOT m"
  by (rule bit_word_eqI) (auto simp: increase_client_def bit_simps)

lemma increase_client_range: "in_range cfg n \<Longrightarrow> in_range cfg (increase_client (its_client_mask cfg) n)"
  using increase_client_keeps [of "NOT (get_diagnosis_mask cfg)" n] by (simp add: in_range_def its_client_mask_def)

lemma smallest_in_range: "in_range cfg (its_smallest_client cfg)"
  by (simp add: in_range_def its_smallest_client_def and.assoc)

lemma client_loop_safe:
  assumes "client_loop (its_client_mask cfg) mx taken k n = (n', free)" "in_range cfg n"
  shows "in_range cfg n' \<and> (free \<longrightarrow> \<not> taken n')"
  using assms
proof (induction "its_client_mask cfg" mx taken k n rule: client_loop.induct)
  case (1 mx taken k n)
  let ?n = "increase_client (its_client_mask cfg) n"
  have r: "in_range cfg ?n" using 1(3) by (rule increase_client_range)
  show ?case
  proof (cases "k \<noteq> mx \<and> taken ?n")
    case True
    then show ?thesis using 1(1) [OF refl _ _ _ r] 1(2) client_loop.simps [of "its_client_mask cfg" mx taken k n] by (simp add: Let_def)
  next
    case False
    then show ?thesis using 1(2) r client_loop.simps [of "its_client_mask cfg" mx taken k n] by (auto simp: Let_def split: if_splits)
  qed
qed

lemma client_loop_fails:
  "snd (client_loop m mx taken k n) \<longleftrightarrow> (\<exists>i. 1 \<le> i \<and> i \<le> unat (mx - k) \<and> \<not> taken ((increase_client m ^^ i) n))"
proof (induction "unat (mx - k)" arbitrary: k n)
  case 0
  then have "k = mx" by (simp add: unat_eq_0)
  then show ?case by (subst client_loop.simps) (simp add: Let_def)
next
  case (Suc u)
  let ?n = "increase_client m n"
  have ne: "k \<noteq> mx" using Suc.hyps(2) by auto
  have u: "u = unat (mx - (k + 1))"
  proof -
    have "unat (mx - k - 1) = unat (mx - k) - 1" using Suc.hyps(2) by (subst unat_sub) (simp_all add: word_le_nat_alt)
    then show ?thesis using Suc.hyps(2) by (simp add: diff_diff_eq)
  qed
  have "(\<exists>i. 1 \<le> i \<and> i \<le> Suc u \<and> \<not> taken ((increase_client m ^^ i) n)) \<longleftrightarrow>
      \<not> taken ?n \<or> (\<exists>i. 1 \<le> i \<and> i \<le> u \<and> \<not> taken ((increase_client m ^^ i) ?n))"
  proof -
    have "(\<exists>i. 1 \<le> i \<and> i \<le> Suc u \<and> P i) \<longleftrightarrow> P 1 \<or> (\<exists>i. 1 \<le> i \<and> i \<le> u \<and> P (Suc i))" for P
      by (metis One_nat_def Suc_le_mono le_SucI le_add1 le_zero_eq not0_implies_Suc not_less_eq_eq order_refl plus_1_eq_Suc)
    from this [of "\<lambda>i. \<not> taken ((increase_client m ^^ i) n)"] show ?thesis by (simp add: funpow_Suc_right del: funpow.simps(2))
  qed
  then show ?case
    using Suc.hyps(1) [OF u, of ?n] Suc.hyps(2) ne u by (subst client_loop.simps) (auto simp: Let_def)
qed


text \<open>A mask of contiguous low bits: the identifiers of the range follow one another.\<close>

lemma take_bit_add_u16: "take_bit b (x + y :: u16) = take_bit b (take_bit b x + take_bit b y)"
  by transfer (simp add: take_bit_add ac_simps)

lemma take_bit_plus: "take_bit b x = take_bit b y \<Longrightarrow> take_bit b (x + z) = take_bit b (y + z :: u16)"
  using take_bit_add_u16 [of b x z] take_bit_add_u16 [of b y z] by simp

lemma increase_client_mask:
  "increase_client (mask b) n = (n AND NOT (mask b)) OR take_bit b (n + 1)"
proof -
  have "take_bit b (n OR NOT (mask b)) = take_bit b n" by (rule bit_word_eqI) (auto simp: bit_simps)
  then have "take_bit b ((n OR NOT (mask b)) + 1) = take_bit b (n + 1)" by (rule take_bit_plus)
  then show ?thesis by (simp add: increase_client_def take_bit_eq_mask [symmetric])
qed

lemma increase_client_mask_power:
  "(increase_client (mask b) ^^ i) n = (n AND NOT (mask b)) OR take_bit b (n + of_nat i)"
proof (induction i)
  case 0
  show ?case by (rule bit_word_eqI) (auto simp: bit_simps)
next
  case (Suc i)
  let ?x = "(n AND NOT (mask b)) OR take_bit b (n + of_nat i)"
  have "?x AND NOT (mask b) = n AND NOT (mask b)" by (rule bit_word_eqI) (auto simp: bit_simps)
  moreover have "take_bit b ?x = take_bit b (n + of_nat i)" by (rule bit_word_eqI) (auto simp: bit_simps)
  then have "take_bit b (?x + 1) = take_bit b (n + of_nat i + 1)" by (rule take_bit_plus)
  ultimately have "increase_client (mask b) ?x = (n AND NOT (mask b)) OR take_bit b (n + of_nat i + 1)"
    by (simp only: increase_client_mask)
  then show ?case unfolding funpow.simps comp_def Suc by (simp only: of_nat_Suc ac_simps)
qed

lemma filter_upt_less: "b \<le> n \<Longrightarrow> filter (\<lambda>i. i < b) [0..<n] = [0..<b]"
  by (induction n) (auto simp: le_Suc_eq not_less)

lemma popcount_mask: "b \<le> 16 \<Longrightarrow> popcount (mask b) = b"
proof -
  assume "b \<le> 16"
  moreover have "filter (bit (mask b :: u16)) [0..<16] = filter (\<lambda>i. i < b) [0..<16]"
    by (rule filter_cong) (auto simp: bit_simps)
  ultimately show ?thesis by (simp add: popcount_def filter_upt_less)
qed

lemma fold_bits: "fold (\<lambda>var m. m OR push_bit var 1) [0..<b] (0 :: u16) = mask b"
proof (induction b)
  case (Suc b)
  have "mask b OR push_bit b 1 = (mask (Suc b) :: u16)"
    by (rule bit_word_eqI) (auto simp: bit_simps)
  with Suc show ?case by simp
qed simp

lemma get_max_client_number_mask:
  "get_diagnosis_mask cfg = NOT (mask b) \<Longrightarrow> b \<le> 16 \<Longrightarrow> get_max_client_number cfg = mask b"
  unfolding get_max_client_number_def by (subst fold_bits [symmetric]) (simp add: popcount_mask)

lemma unat_mask_u16: "b \<le> 16 \<Longrightarrow> unat (mask b :: u16) = 2 ^ b - 1"
proof -
  assume "b \<le> 16"
  then have "uint (mask b :: u16) = mask b" by (simp add: uint_mask_eq min_def)
  then have "nat (uint (mask b :: u16)) = mask b" by (simp only: nat_mask_eq)
  then show ?thesis by (simp only: unat_eq_nat_uint mask_eq_exp_minus_1)
qed

lemma in_range_reached:
  assumes "get_diagnosis_mask cfg = NOT (mask b)" "b \<le> 16" "in_range cfg n"
  shows "in_range cfg x \<and> x \<noteq> n \<longleftrightarrow> (\<exists>i. 1 \<le> i \<and> i \<le> unat (mask b :: u16) \<and> x = (increase_client (mask b) ^^ i) n)"
proof -
  have n: "n AND NOT (mask b) = its_smallest_client cfg" using assms by (simp add: in_range_def)
  have split: "y = (y AND NOT (mask b)) OR take_bit b y" for y :: u16 by (rule bit_word_eqI) (auto simp: bit_simps)
  show ?thesis
  proof safe
    assume x: "in_range cfg x" "x \<noteq> n"
    let ?i = "unat (take_bit b (x - n))"
    have hi: "x AND NOT (mask b) = n AND NOT (mask b)" using x(1) assms(1) n by (simp add: in_range_def)
    have "take_bit b (n + of_nat ?i) = take_bit b x"
      using take_bit_add_u16 [of b n "x - n"] take_bit_add_u16 [of b n "take_bit b (x - n)"] by simp
    then have eq: "x = (increase_client (mask b) ^^ ?i) n"
      using split [of x] hi by (simp add: increase_client_mask_power)
    have "?i \<noteq> 0" using eq x(2) by (metis funpow_0)
    moreover have "?i \<le> unat (mask b :: u16)"
    proof -
      have "?i < 2 ^ b" by (simp add: unsigned_take_bit_eq)
      then show ?thesis using assms(2) by (simp add: unat_mask_u16)
    qed
    ultimately have "1 \<le> ?i \<and> ?i \<le> unat (mask b :: u16) \<and> x = (increase_client (mask b) ^^ ?i) n" using eq by simp
    then show "\<exists>i\<ge>1. i \<le> unat (mask b :: u16) \<and> x = (increase_client (mask b) ^^ i) n" ..
  next
    fix i
    have "in_range cfg ((increase_client (its_client_mask cfg) ^^ i) n)"
      using increase_client_range [of cfg] assms(3) by (induction i) simp_all
    then show "in_range cfg ((increase_client (mask b) ^^ i) n)" using assms(1) by (simp add: its_client_mask_def)
    assume i: "1 \<le> i" "i \<le> unat (mask b :: u16)" and eq: "(increase_client (mask b) ^^ i) n = n"
    have "take_bit b ((n AND NOT (mask b)) OR take_bit b w) = take_bit b w" for w
      by (rule bit_word_eqI) (auto simp: bit_simps)
    from this [of "n + of_nat i"] have "take_bit b (n + of_nat i) = take_bit b n"
      using eq unfolding increase_client_mask_power by argo
    then have "take_bit b (n + of_nat i + (- n)) = take_bit b (n + (- n))" by (rule take_bit_plus)
    then have "take_bit b (of_nat i :: u16) = 0" by simp
    then have "take_bit b (unat (of_nat i :: u16)) = 0" by (metis unsigned_0 unsigned_take_bit_eq)
    moreover have small: "i < 2 ^ b" using i assms(2) by (simp add: unat_mask_u16 Suc_le_eq less_diff_conv)
    moreover have "(2 :: nat) ^ b \<le> 2 ^ 16" using assms(2) by (intro power_increasing) simp_all
    ultimately show False using i(1) by (simp add: unat_of_nat take_bit_nat_eq_self)
  qed
qed


section \<open>Allocation\<close>

text \<open>Where the search of a request starts.\<close>

definition search_start :: "configuration \<Rightarrow> data_t \<Rightarrow> u16" where
  "search_start cfg r =
     (let n = (if next_client r = VSOMEIP_CLIENT_UNSET then its_smallest_client cfg else next_client r)
      in if n = its_biggest_client cfg then its_smallest_client cfg else n)"

lemma search_start_in_range: "data_ok cfg r \<Longrightarrow> in_range cfg (search_start cfg r)"
  by (auto simp: search_start_def data_ok_def Let_def smallest_in_range)

text \<open>The three outcomes of a request.\<close>

lemma request_predefined:
  assumes "data (get_network cfg) = Some r" "client \<noteq> VSOMEIP_CLIENT_UNSET"
    and "map_of (used_clients r) client = None \<or> map_of (used_clients r) client = Some name"
  shows "\<exists>r'. request_client_id cfg name client data = (client, data(get_network cfg \<mapsto> r'))
    \<and> next_client r' = (if next_client r = VSOMEIP_CLIENT_UNSET then its_smallest_client cfg else next_client r)
    \<and> used_clients r' = (if map_of (used_clients r) client = None then map_assign fst (client, name) (used_clients r) else used_clients r)"
  using assms by (auto simp: request_client_id_def Let_def)

lemma request_search:
  assumes "data (get_network cfg) = Some r"
    and "client = VSOMEIP_CLIENT_UNSET \<or> (\<exists>other. map_of (used_clients r) client = Some other \<and> other \<noteq> name)"
    and "client_loop (its_client_mask cfg) (get_max_client_number cfg) (unavailable cfg r) 0 (search_start cfg r) = (n, free)"
  shows "\<exists>r'. request_client_id cfg name client data = (if free then n else VSOMEIP_CLIENT_UNSET, data(get_network cfg \<mapsto> r'))
    \<and> next_client r' = n \<and> used_clients r' = (if free then map_assign fst (n, name) (used_clients r) else used_clients r)"
proof -
  have c: "\<not> (client \<noteq> VSOMEIP_CLIENT_UNSET \<and> map_of (used_clients r) client = None)"
    "\<not> (client \<noteq> VSOMEIP_CLIENT_UNSET \<and> map_of (used_clients r) client = Some name)" using assms(2) by auto
  let ?r = "if next_client r = VSOMEIP_CLIENT_UNSET then r\<lparr>next_client := its_smallest_client cfg\<rparr> else r"
  have r: "used_clients ?r = used_clients r" "unavailable cfg ?r = unavailable cfg r"
    "(if next_client ?r = its_biggest_client cfg then its_smallest_client cfg else next_client ?r) = search_start cfg r"
    by (simp_all add: fun_eq_iff unavailable_def search_start_def)
  have "request_client_id cfg name client data = (if \<not> free then (VSOMEIP_CLIENT_UNSET, data(get_network cfg \<mapsto> ?r\<lparr>next_client := n\<rparr>))
      else (n, data(get_network cfg \<mapsto> ?r\<lparr>next_client := n, used_clients := map_assign fst (n, name) (used_clients r)\<rparr>)))"
    unfolding request_client_id_def assms(1) option.case Let_def r if_not_P [OF c(1)] if_not_P [OF c(2)] assms(3) by simp
  then show ?thesis by (cases free) auto
qed

text \<open>
  C19. A client identifier that is in use is never taken away: whatever an application asks for, the entries of the
  other applications stay. An identifier that is returned belongs to the name afterwards; it was
  unused, or it was asked for under the same name. An identifier that the routing manager chose
  lies in the range of the diagnosis address and is not reserved for a configured application.
\<close>

theorem request_client_id_safe:
  assumes "data (get_network cfg) = Some r" "data_ok cfg r" "request_client_id cfg name client data = (c, data')"
  shows "\<exists>r'. data' = data(get_network cfg \<mapsto> r') \<and> data_ok cfg r'
    \<and> (\<forall>x. map_of (used_clients r) x \<noteq> None \<longrightarrow> map_of (used_clients r') x = map_of (used_clients r) x)
    \<and> (c \<noteq> VSOMEIP_CLIENT_UNSET \<longrightarrow> map_of (used_clients r') = (map_of (used_clients r))(c \<mapsto> name)
        \<and> (c = client \<and> map_of (used_clients r) c \<in> {None, Some name}
           \<or> in_range cfg c \<and> \<not> is_configured_client_id cfg c \<and> map_of (used_clients r) c = None))"
proof (cases "client \<noteq> VSOMEIP_CLIENT_UNSET \<and> (map_of (used_clients r) client = None \<or> map_of (used_clients r) client = Some name)")
  case True
  then obtain r' where "request_client_id cfg name client data = (client, data(get_network cfg \<mapsto> r'))"
      "next_client r' = (if next_client r = VSOMEIP_CLIENT_UNSET then its_smallest_client cfg else next_client r)"
      "used_clients r' = (if map_of (used_clients r) client = None then map_assign fst (client, name) (used_clients r) else used_clients r)"
    using request_predefined [of data cfg r client name] assms(1) by blast
  then show ?thesis
    using True assms(2,3) smallest_in_range [of cfg]
    by (intro exI [of _ r']) (auto simp: data_ok_def map_of_map_assign ordered_map_assign fun_eq_iff)
next
  case False
  obtain n free where l: "client_loop (its_client_mask cfg) (get_max_client_number cfg) (unavailable cfg r) 0 (search_start cfg r) = (n, free)"
    by fastforce
  have n: "in_range cfg n" "free \<Longrightarrow> \<not> unavailable cfg r n"
    using client_loop_safe [OF l search_start_in_range [OF assms(2)]] by simp_all
  have "client = VSOMEIP_CLIENT_UNSET \<or> (\<exists>other. map_of (used_clients r) client = Some other \<and> other \<noteq> name)"
    using False by (cases "map_of (used_clients r) client") auto
  from request_search [of data cfg r client name, OF assms(1) this l] obtain r' where
    "request_client_id cfg name client data = (if free then n else VSOMEIP_CLIENT_UNSET, data(get_network cfg \<mapsto> r'))"
    "next_client r' = n" "used_clients r' = (if free then map_assign fst (n, name) (used_clients r) else used_clients r)"
    by blast
  then show ?thesis
    using n assms(2,3) by (intro exI [of _ r']) (auto simp: data_ok_def map_of_map_assign ordered_map_assign unavailable_def)
qed


definition example_configuration :: configuration where
  "example_configuration = \<lparr> get_network = [1], get_diagnosis_address = 1, get_diagnosis_mask = 0xFF00,
     is_configured_client_id = (\<lambda>c. c = 0x0105) \<rparr>"

lemma example_data_ok:
  "data_ok example_configuration \<lparr> next_client = 0x0102, used_clients = [(0x0103, [65]), (0x0104, [66])] \<rparr>"
  by (simp add: data_ok_def in_range_def example_configuration_def its_smallest_client_def ordered_def)

theorem request_client_id_safe_witness:
  "\<exists>r'. snd (request_client_id example_configuration [67] 0x0104
      [get_network example_configuration \<mapsto> \<lparr> next_client = 0x0102, used_clients = [(0x0103, [65]), (0x0104, [66])] \<rparr>]) =
      [get_network example_configuration \<mapsto> r'] \<and> data_ok example_configuration r' \<and> map_of (used_clients r') 0x0104 = Some [66]"
proof -
  let ?r = "\<lparr> next_client = 0x0102, used_clients = [(0x0103, [65]), (0x0104, [66])] \<rparr>" and ?net = "get_network example_configuration"
  let ?res = "request_client_id example_configuration [67] 0x0104 [?net \<mapsto> ?r]"
  have "[?net \<mapsto> ?r] ?net = Some ?r" by simp
  from request_client_id_safe [of "[?net \<mapsto> ?r]" example_configuration ?r "[67]" "0x0104" "fst ?res" "snd ?res",
      OF this example_data_ok prod.collapse [symmetric]]
  obtain r' where r': "snd ?res = [?net \<mapsto> ?r](?net \<mapsto> r')" "data_ok example_configuration r'"
      "\<forall>x. map_of (used_clients ?r) x \<noteq> None \<longrightarrow> map_of (used_clients r') x = map_of (used_clients ?r) x" by blast
  moreover have "map_of (used_clients ?r) 0x0104 = Some [66]" by simp
  then have "map_of (used_clients r') 0x0104 = Some [66]" using r'(3) by force
  ultimately show ?thesis by auto
qed

text \<open>
  C20. The search is complete: with a diagnosis mask of high bits the routing manager answers
  \<open>VSOMEIP_CLIENT_UNSET\<close> exactly when every identifier of the range is in use or reserved, apart from the
  one where the search starts, which it does not look at.
\<close>

theorem request_client_id_complete:
  assumes "get_diagnosis_mask cfg = NOT (mask b)" "b \<le> 16" "its_biggest_client cfg \<noteq> VSOMEIP_CLIENT_UNSET"
    and "data (get_network cfg) = Some r" "data_ok cfg r"
    and "client = VSOMEIP_CLIENT_UNSET \<or> (\<exists>other. map_of (used_clients r) client = Some other \<and> other \<noteq> name)"
  shows "fst (request_client_id cfg name client data) = VSOMEIP_CLIENT_UNSET \<longleftrightarrow>
    (\<forall>x. in_range cfg x \<longrightarrow> x = search_start cfg r \<or> map_of (used_clients r) x \<noteq> None \<or> is_configured_client_id cfg x)"
proof -
  obtain n free where l: "client_loop (its_client_mask cfg) (get_max_client_number cfg) (unavailable cfg r) 0 (search_start cfg r) = (n, free)"
    by fastforce
  note start = search_start_in_range [OF assms(5)]
  have m: "its_client_mask cfg = mask b" "get_max_client_number cfg = mask b"
    using assms(1,2) by (simp_all add: its_client_mask_def get_max_client_number_mask)
  have big: "n \<noteq> VSOMEIP_CLIENT_UNSET"
  proof
    assume "n = VSOMEIP_CLIENT_UNSET"
    moreover have "VSOMEIP_CLIENT_UNSET = - 1" by simp
    ultimately have "get_diagnosis_mask cfg = its_smallest_client cfg"
      using client_loop_safe [OF l start] by (simp add: in_range_def)
    then have "its_biggest_client cfg = - 1" by (metis its_biggest_client_def its_client_mask_def bit.disj_cancel_right)
    then show False using assms(3) by simp
  qed
  have "fst (request_client_id cfg name client data) = (if free then n else VSOMEIP_CLIENT_UNSET)"
    using request_search [of data cfg r client name, OF assms(4,6) l] by auto
  then have "fst (request_client_id cfg name client data) = VSOMEIP_CLIENT_UNSET \<longleftrightarrow> \<not> free" using big by simp
  also have "\<dots> \<longleftrightarrow> \<not> (\<exists>i. 1 \<le> i \<and> i \<le> unat (mask b :: u16) \<and> \<not> unavailable cfg r ((increase_client (mask b) ^^ i) (search_start cfg r)))"
    using client_loop_fails [of "mask b" "mask b" "unavailable cfg r" 0 "search_start cfg r"] l by (simp add: m)
  also have "\<dots> \<longleftrightarrow> (\<forall>x. in_range cfg x \<and> x \<noteq> search_start cfg r \<longrightarrow> unavailable cfg r x)"
    unfolding in_range_reached [OF assms(1,2) start] by blast
  finally show ?thesis unfolding unavailable_def by blast
qed


theorem request_client_id_complete_witness:
  "fst (request_client_id example_configuration [67] VSOMEIP_CLIENT_UNSET
      [get_network example_configuration \<mapsto> \<lparr> next_client = 0x0102, used_clients = [(0x0103, [65]), (0x0104, [66])] \<rparr>]) \<noteq> VSOMEIP_CLIENT_UNSET"
proof -
  let ?r = "\<lparr> next_client = 0x0102, used_clients = [(0x0103, [65]), (0x0104, [66])] \<rparr>"
  have "get_diagnosis_mask example_configuration = NOT (mask 8)" "its_biggest_client example_configuration \<noteq> VSOMEIP_CLIENT_UNSET"
    by (simp_all add: example_configuration_def its_biggest_client_def its_smallest_client_def its_client_mask_def mask_eq_exp_minus_1)
  moreover have "(8 :: nat) \<le> 16" by simp
  moreover have "[get_network example_configuration \<mapsto> ?r] (get_network example_configuration) = Some ?r" by simp
  moreover have "in_range example_configuration 0x0106 \<and> 0x0106 \<noteq> search_start example_configuration ?r
      \<and> map_of (used_clients ?r) 0x0106 = None \<and> \<not> is_configured_client_id example_configuration 0x0106"
    by (simp add: in_range_def example_configuration_def its_smallest_client_def search_start_def its_biggest_client_def its_client_mask_def)
  ultimately show ?thesis
    using request_client_id_complete [of example_configuration 8 "[get_network example_configuration \<mapsto> ?r]" ?r VSOMEIP_CLIENT_UNSET "[67]"]
      example_data_ok by blast
qed

end
