(* ===== verification/Uds_Server.thy ===== *)
theory Uds_Server
  imports Command_List Client_Id Command_Fixed
begin

text \<open>
  The server side of the local transport, \<open>local_uds_server_endpoint_impl.cpp\<close>: commands travel over a
  Unix domain stream socket between a start tag and an end tag; the connection object finds them again
  in what the socket delivers. The socket, the io context and the host objects behind the interfaces
  \<open>routing_host\<close>, \<open>configuration\<close> and \<open>policy_manager\<close> are the environment: what the endpoint
  asks them for are the fields of \<open>env\<close>, what it tells them the entries of a list of actions.
  A vector has as many elements as it has capacity: the code only ever reserves and resizes to the
  same size, or shrinks to fit. Sizes do not wrap around at 64 bits.
\<close>

datatype asio_error = No_error | Operation_aborted | Eof | Timed_out | Bad_descriptor | Connection_reset | No_descriptors | Other_error

type_synonym sec_client = "u32 \<times> u32"

datatype action =
  On_message bytes u16 sec_client
| Add_known_client u16 bytes
| Async_write nat bytes
| Store_mapping u16 sec_client
| Remove_mapping u16
| Async_accept
| Accept_later

record env =
  is_routing_endpoint :: bool
  is_security_enabled :: bool
  env_configuration :: configuration
  max_message_size :: u32
  buffer_shrink_threshold :: u32
  check_credentials :: "u16 \<Rightarrow> sec_client \<Rightarrow> bool"
  check_routing_credentials :: "u16 \<Rightarrow> sec_client \<Rightarrow> bool"

record connection =
  recv_buffer :: bytes
  recv_buffer_size :: nat
  missing_capacity :: u32
  shrink_count :: u32
  bound_client :: u16
  bound_client_host :: bytes
  bound_sec_client :: sec_client
  assigned_client :: bool
  is_stopped :: bool
  socket_open :: bool
  pending_read :: "nat option"

text \<open>\<open>pending_read\<close> is the length of the read that \<open>start\<close> has scheduled at \<open>recv_buffer_[recv_buffer_size_]\<close>.\<close>

record server =
  connections :: "(u16 \<times> nat) list"
  client_ids :: client_data
  sending_blocked :: bool
  actions :: "action list"

abbreviation MESSAGE_SIZE_UNLIMITED :: u32 where "MESSAGE_SIZE_UNLIMITED \<equiv> 0xFFFFFFFF"
abbreviation TAG_SIZE :: nat where "TAG_SIZE \<equiv> 4"
abbreviation VSOMEIP_ROUTING_CLIENT :: u16 where "VSOMEIP_ROUTING_CLIENT \<equiv> 0"

definition its_start_tag :: bytes where "its_start_tag = [0x67, 0x37, 0x6D, 0x07]"
definition its_end_tag :: bytes where "its_end_tag = [0x07, 0x6D, 0x37, 0x67]"

text \<open>The size of the first read: a command header, an instance and two flags, and the two tags.\<close>

definition recv_buffer_size_initial :: nat where
  "recv_buffer_size_initial = COMMAND_HEADER_SIZE + 2 + 1 + 1 + 8"

definition connection_new :: "env \<Rightarrow> connection" where
  "connection_new E = \<lparr> recv_buffer = replicate recv_buffer_size_initial 0, recv_buffer_size = 0, missing_capacity = 0,
     shrink_count = 0, bound_client = VSOMEIP_CLIENT_UNSET, bound_client_host = [], bound_sec_client = (0xFFFFFFFF, 0xFFFFFFFF),
     assigned_client = (is_routing_endpoint E \<and> \<not> is_security_enabled E), is_stopped = True, socket_open = True,
     pending_read = None \<rparr>"

definition emit :: "action \<Rightarrow> server \<Rightarrow> server" where
  "emit a s = s\<lparr>actions := actions s @ [a]\<rparr>"

text \<open>Framing, on the server and on the client endpoint.\<close>

definition frame :: "bytes \<Rightarrow> bytes" where
  "frame buf = its_start_tag @ buf @ its_end_tag"

section \<open>Connections of the server\<close>

definition add_connection :: "u16 \<Rightarrow> nat \<Rightarrow> server \<Rightarrow> bool \<times> server" where
  "add_connection client i s =
     (if map_of (connections s) client = None then (True, s\<lparr>connections := map_assign fst (client, i) (connections s)\<rparr>)
      else (False, s))"

definition remove_connection :: "u16 \<Rightarrow> server \<Rightarrow> server" where
  "remove_connection client s = s\<lparr>connections := filter (\<lambda>p. fst p \<noteq> client) (connections s)\<rparr>"

definition server_send :: "endianess_e \<Rightarrow> bytes \<Rightarrow> server \<Rightarrow> (bool \<times> server) option" where
  "server_send e data s =
     (if sending_blocked s then Some (False, s)
      else do {
        its_client \<leftarrow> load e data COMMAND_HEADER_SIZE;
        case map_of (connections s) its_client of None \<Rightarrow> Some (False, s)
        | Some i \<Rightarrow> Some (True, emit (Async_write i (frame data)) s)
      })"

definition send_client_identifier :: "endianess_e \<Rightarrow> u16 \<Rightarrow> server \<Rightarrow> server option" where
  "send_client_identifier e client s = do {
     let its_command = (assign_client_ack_command_new client)\<lparr>cmd_client := VSOMEIP_ROUTING_CLIENT\<rparr>;
     (its_buffer, _, its_error) \<leftarrow> assign_client_ack_serialize e its_command [];
     if its_error \<noteq> ERROR_OK then Some s
     else map_option snd (server_send e its_buffer s)
   }"

definition assign_client :: "env \<Rightarrow> endianess_e \<Rightarrow> bytes \<Rightarrow> server \<Rightarrow> (u16 \<times> server) option" where
  "assign_client E e data s = do {
     (its_command, its_error) \<leftarrow> assign_client_deserialize e data assign_client_command_new;
     if its_error \<noteq> ERROR_OK then Some (VSOMEIP_CLIENT_UNSET, s)
     else let (client, ids) = request_client_id (env_configuration E) (asg_name its_command) (cmd_client its_command) (client_ids s)
          in Some (client, s\<lparr>client_ids := ids\<rparr>)
   }"

section \<open>Reading\<close>

text \<open>\<open>connection::start\<close>: grow or shrink the buffer and schedule the next read.\<close>

definition connection_start :: "env \<Rightarrow> connection \<Rightarrow> connection" where
  "connection_start E c =
     (if \<not> socket_open c then c
      else if recv_buffer_size c > length (recv_buffer c) then c
      else let left = length (recv_buffer c) - recv_buffer_size c;
               (c, left) =
                 (if missing_capacity c \<noteq> 0 then
                    let required = recv_buffer_size c + unat (missing_capacity c)
                    in (c\<lparr>recv_buffer := (if length (recv_buffer c) < required then vec_resize (recv_buffer c) required 0 else recv_buffer c),
                          missing_capacity := 0\<rparr>, unat (missing_capacity c))
                  else if buffer_shrink_threshold E \<noteq> 0 \<and> shrink_count c > buffer_shrink_threshold E \<and> recv_buffer_size c = 0 then
                    (c\<lparr>recv_buffer := vec_resize (recv_buffer c) recv_buffer_size_initial 0, shrink_count := 0\<rparr>, recv_buffer_size_initial)
                  else (c, left))
           in c\<lparr>is_stopped := False, pending_read := Some left\<rparr>)"

definition connection_stop :: "connection \<Rightarrow> connection" where
  "connection_stop c = c\<lparr>is_stopped := True\<rparr>"

definition calculate_shrink_count :: "env \<Rightarrow> connection \<Rightarrow> connection" where
  "calculate_shrink_count E c =
     (if buffer_shrink_threshold E \<noteq> 0 \<and> length (recv_buffer c) \<noteq> recv_buffer_size_initial then
        if recv_buffer_size c < length (recv_buffer c) div 2 then c\<lparr>shrink_count := shrink_count c + 1\<rparr>
        else c\<lparr>shrink_count := 0\<rparr>
      else c)"

text \<open>The two search loops: the first position from \<open>i\<close> on where the tag is, or where it no longer fits.\<close>

function find_tag :: "bytes \<Rightarrow> bytes \<Rightarrow> nat \<Rightarrow> nat \<Rightarrow> nat option" where
  "find_tag tag buf i lim =
     (if i + 3 < lim then do {
        w \<leftarrow> mem_sub buf i TAG_SIZE;
        if w = tag then Some i else find_tag tag buf (i + 1) lim
      }
      else Some i)"
  by pat_completeness auto
termination
  by (relation "measure (\<lambda>(tag, buf, i, lim). lim - i)") auto

declare find_tag.simps [simp del]


text \<open>
  A complete command: it registers the client on the routing endpoint, or goes to the host, or is
  dropped because the client is not yet known. The flag tells that \<open>receive_cbk\<close> returns at once.
\<close>

definition register_client ::
  "env \<Rightarrow> endianess_e \<Rightarrow> nat \<Rightarrow> bytes \<Rightarrow> connection \<Rightarrow> server \<Rightarrow> (bool \<times> connection \<times> server) option" where
  "register_client E e i bs c s = do {
     (its_client, s) \<leftarrow> assign_client E e bs s;
     let (added, s) = add_connection its_client i s;
     if \<not> added then Some (True, connection_stop c, s)
     else do {
       let s = emit (Add_known_client its_client (bound_client_host c)) s;
       if is_security_enabled E \<and> \<not> check_credentials E its_client (bound_sec_client c) then
         let s = remove_connection its_client s;
             s = s\<lparr>client_ids := release_client_id (get_network (env_configuration E)) its_client (client_ids s)\<rparr>
         in Some (True, connection_stop c, s)
       else do {
         s \<leftarrow> send_client_identifier e its_client s;
         Some (False, c\<lparr>bound_client := its_client, assigned_client := True\<rparr>, s)
       }
     }
   }"

definition handle_command ::
  "env \<Rightarrow> endianess_e \<Rightarrow> sec_client \<Rightarrow> nat \<Rightarrow> byte \<Rightarrow> bytes \<Rightarrow> connection \<Rightarrow> server \<Rightarrow> (bool \<times> connection \<times> server) option" where
  "handle_command E e ug i b bs c s =
     (if is_routing_endpoint E \<and> b = ASSIGN_CLIENT_ID then register_client E e i bs c s
      else if \<not> is_routing_endpoint E \<or> assigned_client c then Some (False, c, emit (On_message bs (bound_client c) ug) s)
      else Some (False, c, s))"

datatype verdict = Found | Incomplete | Garbage | Aborted

text \<open>No complete command: move what is left to the front of the buffer, or report garbage.\<close>

definition no_command :: "bool \<Rightarrow> nat \<Rightarrow> connection \<Rightarrow> (verdict \<times> connection) option" where
  "no_command message_is_empty gap c =
     (if gap \<noteq> 0 then do {
        rest \<leftarrow> mem_sub (recv_buffer c) gap (recv_buffer_size c);
        buf \<leftarrow> mem_write (recv_buffer c) 0 rest;
        let c = c\<lparr>recv_buffer := buf\<rparr>;
        Some (Incomplete,
          if missing_capacity c \<noteq> 0 \<and> unat (missing_capacity c) \<le> length (recv_buffer c) - recv_buffer_size c
          then c\<lparr>missing_capacity := 0\<rparr> else c)
      }
      else Some (if message_is_empty then Garbage else Incomplete, c))"

text \<open>What the connection still misses when the end tag is not there; the flag is \<open>message_is_empty\<close>.\<close>

definition incomplete_command :: "nat \<Rightarrow> nat \<Rightarrow> u32 \<Rightarrow> connection \<Rightarrow> bool \<times> nat \<times> connection" where
  "incomplete_command gap its_start its_command_size c =
     (let n = recv_buffer_size c in
      if its_start - gap + unat its_command_size + COMMAND_HEADER_SIZE + TAG_SIZE > n then
        (False, gap, c\<lparr>missing_capacity := of_nat its_start - of_nat gap + its_command_size
           + of_nat (COMMAND_HEADER_SIZE + TAG_SIZE) - of_nat n\<rparr>)
      else if n < COMMAND_HEADER_SIZE + TAG_SIZE then
        (False, gap, c\<lparr>missing_capacity := of_nat (COMMAND_HEADER_SIZE + TAG_SIZE - n)\<rparr>)
      else (True, 0, c\<lparr>recv_buffer_size := 0, missing_capacity := 0\<rparr>))"

text \<open>The second half of an iteration: the search has ended at \<open>its_end\<close>.\<close>

definition take_command ::
  "env \<Rightarrow> endianess_e \<Rightarrow> sec_client \<Rightarrow> nat \<Rightarrow> nat \<Rightarrow> nat \<Rightarrow> u32 \<Rightarrow> nat \<Rightarrow> connection \<Rightarrow> server \<Rightarrow> (verdict \<times> nat \<times> connection \<times> server) option" where
  "take_command E e ug i gap its_start its_command_size its_end c s = do {
     let buf = recv_buffer c;
     complete \<leftarrow> (if recv_buffer_size c + gap < its_end + 4 then Some False
       else map_option (\<lambda>w. w = its_end_tag) (mem_sub buf its_end TAG_SIZE));
     let (message_is_empty, gap, c) = (if complete then (False, gap, c) else incomplete_command gap its_start its_command_size c);
     if \<not> message_is_empty \<and> its_end + 3 < recv_buffer_size c + gap then do {
       b \<leftarrow> mem_at buf its_start;
       bs \<leftarrow> mem_range buf its_start its_end;
       (stopped, c, s) \<leftarrow> handle_command E e ug i b bs c s;
       if stopped then Some (Aborted, gap, c, s)
       else do {
         let c = calculate_shrink_count E c;
         Some (Found, its_end + 4,
           c\<lparr>recv_buffer_size := recv_buffer_size c - (its_end + 4 - gap), missing_capacity := 0\<rparr>, s)
       }
     }
     else do { (v, c) \<leftarrow> no_command message_is_empty gap c; Some (v, gap, c, s) }
   }"

definition receive_iteration ::
  "env \<Rightarrow> endianess_e \<Rightarrow> sec_client \<Rightarrow> nat \<Rightarrow> nat \<Rightarrow> connection \<Rightarrow> server \<Rightarrow> (verdict \<times> nat \<times> connection \<times> server) option" where
  "receive_iteration E e ug i gap c s = do {
     let buf = recv_buffer c;
     let lim = recv_buffer_size c + gap;
     its_start \<leftarrow> find_tag its_start_tag buf gap lim;
     if its_start + 3 = lim then do { (v, c) \<leftarrow> no_command True gap c; Some (v, gap, c, s) }
     else do {
       let its_start = its_start + 4;
       let sized = (its_start + COMMAND_POSITION_SIZE + 3 < lim);
       its_command_size \<leftarrow> (if sized then read_uint32_le e buf (its_start + COMMAND_POSITION_SIZE) else Some 0);
       let its_end = (if sized then its_start + COMMAND_POSITION_SIZE + 3 + unat its_command_size else its_start);
       if its_command_size \<noteq> 0 \<and> max_message_size E \<noteq> MESSAGE_SIZE_UNLIMITED \<and> its_command_size > max_message_size E then
         Some (Aborted, gap, c\<lparr>recv_buffer := vec_resize buf recv_buffer_size_initial 0\<rparr>, s)
       else do {
         its_end \<leftarrow> find_tag its_end_tag buf its_end lim;
         take_command E e ug i gap its_start its_command_size its_end c s
       }
     }
   }"

partial_function (option) receive_loop ::
  "env \<Rightarrow> endianess_e \<Rightarrow> sec_client \<Rightarrow> nat \<Rightarrow> nat \<Rightarrow> connection \<Rightarrow> server \<Rightarrow> (verdict \<times> connection \<times> server) option" where
  "receive_loop E e ug i gap c s = do {
     (v, gap, c, s) \<leftarrow> receive_iteration E e ug i gap c s;
     if v = Found \<and> recv_buffer_size c > 0 then receive_loop E e ug i gap c s
     else Some (v, c, s)
   }"

declare receive_loop.simps [code]

definition shutdown_and_close :: "connection \<Rightarrow> connection" where
  "shutdown_and_close c = c\<lparr>socket_open := False\<rparr>"

definition receive_cbk ::
  "env \<Rightarrow> endianess_e \<Rightarrow> asio_error \<Rightarrow> nat \<Rightarrow> sec_client \<Rightarrow> nat \<Rightarrow> connection \<Rightarrow> server \<Rightarrow> (connection \<times> server) option" where
  "receive_cbk E e err n ug i c s =
     (if err = Operation_aborted then
        if is_routing_endpoint E \<and> bound_client c \<noteq> VSOMEIP_CLIENT_UNSET then
          Some (c\<lparr>bound_client := VSOMEIP_CLIENT_UNSET\<rparr>,
                s\<lparr>client_ids := release_client_id (get_network (env_configuration E)) (bound_client c) (client_ids s)\<rparr>)
        else Some (c, s)
      else do {
        (v, c, s) \<leftarrow> (if err = No_error \<and> 0 < n
          then receive_loop E e ug i 0 (c\<lparr>recv_buffer_size := recv_buffer_size c + n\<rparr>) s
          else Some (Incomplete, c, s));
        if v = Aborted then Some (c, s)
        else if is_stopped c \<or> v = Garbage \<or> err \<in> {Eof, Timed_out, Bad_descriptor, Connection_reset} then
          Some (shutdown_and_close c,
            if bound_client c \<noteq> VSOMEIP_CLIENT_UNSET
            then emit (Remove_mapping (bound_client c)) (remove_connection (bound_client c) s) else s)
        else Some (connection_start E c, s)
      })"

text \<open>The socket writes what it has, at most the length of the pending read, and calls back.\<close>

definition receive_data ::
  "env \<Rightarrow> endianess_e \<Rightarrow> sec_client \<Rightarrow> nat \<Rightarrow> bytes \<Rightarrow> connection \<Rightarrow> server \<Rightarrow> (connection \<times> server) option" where
  "receive_data E e ug i bs c s = do {
     buf \<leftarrow> mem_write (recv_buffer c) (recv_buffer_size c) bs;
     receive_cbk E e No_error (length bs) ug i (c\<lparr>recv_buffer := buf, pending_read := None\<rparr>) s
   }"


section \<open>Accepting connections\<close>

definition server_start :: "bool \<Rightarrow> server \<Rightarrow> server" where
  "server_start acceptor_open s = (if acceptor_open then emit Async_accept s else s)"

text \<open>The credentials of the peer are client identifier, user, group and host name, if they were received.\<close>

definition accept_checked ::
  "env \<Rightarrow> u16 \<times> u32 \<times> u32 \<times> bytes \<Rightarrow> nat \<Rightarrow> connection \<Rightarrow> server \<Rightarrow> connection \<times> server" where
  "accept_checked E creds i c s =
     (let (its_client, uid, gid, host) = creds in
      if \<not> check_routing_credentials E its_client (uid, gid) then (shutdown_and_close c, s)
      else if is_routing_endpoint E then
        (connection_start E (c\<lparr>bound_sec_client := (uid, gid), bound_client_host := host\<rparr>), s)
      else if map_of (connections s) its_client \<noteq> None then (shutdown_and_close c, s)
      else let s = emit (Add_known_client its_client host) s in
        if \<not> check_credentials E its_client (uid, gid) then (shutdown_and_close c, s)
        else (connection_start E (c\<lparr>bound_client := its_client, bound_client_host := host\<rparr>), snd (add_connection its_client i s)))"

definition accept_unchecked :: "env \<Rightarrow> u16 \<times> u32 \<times> u32 \<times> bytes \<Rightarrow> connection \<Rightarrow> server \<Rightarrow> connection \<times> server" where
  "accept_unchecked E creds c s =
     (let (its_client, uid, gid, host) = creds;
          s = emit (Store_mapping its_client (uid, gid)) s
      in if is_routing_endpoint E then (connection_start E (c\<lparr>bound_client_host := host\<rparr>), s)
         else (connection_start E (c\<lparr>bound_client := its_client, bound_client_host := host\<rparr>), emit (Add_known_client its_client host) s))"

definition accept_cbk ::
  "env \<Rightarrow> bool \<Rightarrow> asio_error \<Rightarrow> (u16 \<times> u32 \<times> u32 \<times> bytes) option \<Rightarrow> nat \<Rightarrow> connection \<Rightarrow> server \<Rightarrow> connection \<times> server" where
  "accept_cbk E acceptor_open err creds i c s =
     (let s = (if err \<notin> {Bad_descriptor, Operation_aborted, No_descriptors} then server_start acceptor_open s
               else if err = No_descriptors then emit Accept_later s else s)
      in if err \<noteq> No_error then (c, s)
         else case creds of None \<Rightarrow> (shutdown_and_close c, s)
           | Some cr \<Rightarrow> if is_security_enabled E then accept_checked E cr i c s else accept_unchecked E cr c s)"

text \<open>Leaving: the connections are objects in a store, the map of the server refers to them.\<close>

definition disconnect_from :: "u16 \<Rightarrow> (nat \<Rightarrow> connection) \<Rightarrow> server \<Rightarrow> (nat \<Rightarrow> connection) \<times> server" where
  "disconnect_from client objs s =
     (case map_of (connections s) client of None \<Rightarrow> (objs, s)
      | Some i \<Rightarrow> (objs(i := connection_stop (objs i)), remove_connection client s))"

definition server_stop :: "(nat \<Rightarrow> connection) \<Rightarrow> server \<Rightarrow> (nat \<Rightarrow> connection) \<times> server" where
  "server_stop objs s =
     (fold (\<lambda>p objs. objs(snd p := connection_stop (objs (snd p)))) (connections s) objs, s\<lparr>connections := []\<rparr>)"

end
