(* ===== verification/Uds_Stream.thy ===== *)
theory Uds_Stream
  imports Uds_Server
begin

text \<open>
  What the connection of the local server endpoint makes of a byte stream: the search for the tags, complete and
  incomplete frames, the loop over the receive buffer and the sequence of reads; and where the stream breaks.
\<close>

section \<open>Searching for the tags\<close>

lemma find_tag_here: "i + 4 \<le> lim \<Longrightarrow> mem_sub buf i 4 = Some tag \<Longrightarrow> find_tag tag buf i lim = Some i"
  by (subst find_tag.simps) simp

lemma find_tag_stop: "lim \<le> i + 3 \<Longrightarrow> find_tag tag buf i lim = Some i"
  by (subst find_tag.simps) simp

lemma find_tag_step:
  "i + 4 \<le> lim \<Longrightarrow> mem_sub buf i 4 = Some w \<Longrightarrow> w \<noteq> tag \<Longrightarrow> find_tag tag buf i lim = find_tag tag buf (i + 1) lim"
  by (subst find_tag.simps) simp

lemma find_tag_absent:
  assumes "lim \<le> length buf" "\<And>j. i \<le> j \<Longrightarrow> j + 4 \<le> lim \<Longrightarrow> take 4 (drop j buf) \<noteq> tag"
  shows "\<exists>j. find_tag tag buf i lim = Some j \<and> i \<le> j \<and> lim \<le> j + 3"
  using assms(2)
proof (induction "lim - i" arbitrary: i rule: less_induct)
  case less
  show ?case
  proof (cases "i + 4 \<le> lim")
    case True
    have "\<exists>j. find_tag tag buf (i + 1) lim = Some j \<and> i + 1 \<le> j \<and> lim \<le> j + 3"
      using True less.prems by (intro less.hyps) auto
    moreover have "find_tag tag buf i lim = find_tag tag buf (i + 1) lim"
      using True assms(1) less.prems [of i] by (intro find_tag_step) auto
    ultimately show ?thesis by auto
  qed (auto simp: find_tag_stop)
qed

section \<open>Commands in a stream\<close>

lemma length_tags [simp]: "length its_start_tag = 4" "length its_end_tag = 4"
  by (simp_all add: its_start_tag_def its_end_tag_def)

lemma length_frame [simp]: "length (frame cmd) = length cmd + 8"
  by (simp add: frame_def)

lemma frame_not_Nil [simp]: "frame cmd \<noteq> []"
  by (simp add: frame_def its_start_tag_def)

lemma frame_split:
  assumes "frame cmd = w @ v" "4 \<le> length w"
  obtains u where "w = its_start_tag @ u" "cmd @ its_end_tag = u @ v"
proof
  have "take 4 w = its_start_tag" using arg_cong [OF assms(1), of "take 4"] assms(2) by (simp add: frame_def)
  then show "w = its_start_tag @ drop 4 w" by (metis append_take_drop_id)
  show "cmd @ its_end_tag = drop 4 w @ v" using arg_cong [OF assms(1), of "drop 4"] assms(2) by (simp add: frame_def)
qed

lemma read_uint32_le_load: "read_uint32_le e buf i = load LE buf i"
  by (simp add: read_host_independent read_le_def load_def of_mem_def [abs_def])

text \<open>
  A command that the receiver can take: well framed, not larger than the limits, and without the
  end tag in its first eight bytes, which are searched as long as the size field is incomplete.
\<close>

definition acceptable :: "env \<Rightarrow> bytes \<Rightarrow> bool" where
  "acceptable E cmd \<longleftrightarrow> one_command LE cmd \<and> length cmd \<le> 4294967287
     \<and> (max_message_size E = MESSAGE_SIZE_UNLIMITED \<or> length cmd - 9 \<le> unat (max_message_size E))
     \<and> list_all (\<lambda>j. take 4 (drop j cmd) \<noteq> its_end_tag) [0..<5]"

text \<open>Commands that go to the host: all of them, except that the routing endpoint registers clients itself.\<close>

definition passed_on :: "env \<Rightarrow> connection \<Rightarrow> bytes \<Rightarrow> bool" where
  "passed_on E c cmd \<longleftrightarrow> is_routing_endpoint E \<longrightarrow> assigned_client c \<and> cmd ! 0 \<noteq> ASSIGN_CLIENT_ID"

lemma end_tag_not_shifted: "take 4 (drop (length cmd - 1) (cmd @ its_end_tag @ q)) \<noteq> its_end_tag" if "cmd \<noteq> []"
proof -
  have "cmd = butlast cmd @ [last cmd]" using that by simp
  then have "drop (length cmd - 1) (cmd @ its_end_tag @ q) = last cmd # its_end_tag @ q"
    by (metis append.assoc append_Cons append_Nil append_eq_conv_conj length_butlast)
  then show ?thesis by (simp add: its_end_tag_def)
qed

lemma acceptable_size:
  assumes "acceptable E cmd"
  shows "9 \<le> length cmd" "load LE cmd 5 = Some (of_nat (length cmd - 9) :: u32)"
    "unat (of_nat (length cmd - 9) :: u32) = length cmd - 9"
    "max_message_size E = MESSAGE_SIZE_UNLIMITED \<or> \<not> of_nat (length cmd - 9) > max_message_size E"
proof -
  show "9 \<le> length cmd" "load LE cmd 5 = Some (of_nat (length cmd - 9) :: u32)"
    using assms by (simp_all add: acceptable_def one_command_def)
  show u: "unat (of_nat (length cmd - 9) :: u32) = length cmd - 9"
    using assms unfolding acceptable_def by (intro unat_u32_of_nat) linarith
  show "max_message_size E = MESSAGE_SIZE_UNLIMITED \<or> \<not> of_nat (length cmd - 9) > max_message_size E"
    using assms u by (auto simp: acceptable_def word_less_nat_alt)
qed


text \<open>The two halves of an iteration.\<close>

lemma receive_iteration_sized:
  assumes "find_tag its_start_tag (recv_buffer c) gap (recv_buffer_size c + gap) = Some gap" "12 < recv_buffer_size c"
    and "read_uint32_le e (recv_buffer c) (gap + 9) = Some w"
    and "max_message_size E = MESSAGE_SIZE_UNLIMITED \<or> \<not> w > max_message_size E"
    and "find_tag its_end_tag (recv_buffer c) (gap + 12 + unat w) (recv_buffer_size c + gap) = Some j"
  shows "receive_iteration E e ug i gap c s = take_command E e ug i gap (gap + 4) w j c s"
proof -
  have "gap + 3 \<noteq> recv_buffer_size c + gap" "gap + 4 + 5 + 3 < recv_buffer_size c + gap" "gap + 4 + 5 = gap + 9" "gap + 4 + 5 + 3 = gap + 12"
    using assms(2) by simp_all
  with assms show ?thesis unfolding receive_iteration_def Let_def by (auto simp: ac_simps)
qed

lemma receive_iteration_unsized:
  assumes "find_tag its_start_tag (recv_buffer c) gap (recv_buffer_size c + gap) = Some gap" "recv_buffer_size c \<le> 12" "recv_buffer_size c \<noteq> 3"
    and "find_tag its_end_tag (recv_buffer c) (gap + 4) (recv_buffer_size c + gap) = Some j"
  shows "receive_iteration E e ug i gap c s = take_command E e ug i gap (gap + 4) 0 j c s"
proof -
  have "gap + 3 \<noteq> recv_buffer_size c + gap" "\<not> gap + 4 + 5 + 3 < recv_buffer_size c + gap" using assms(2,3) by simp_all
  with assms show ?thesis unfolding receive_iteration_def Let_def by simp
qed

lemma take_command_incomplete:
  assumes "recv_buffer_size c + gap \<le> j + 3" "incomplete_command gap st w c = (False, gap, c\<lparr>missing_capacity := m\<rparr>)"
  shows "take_command E e ug i gap st w j c s = map_option (\<lambda>(v, c). (v, gap, c, s)) (no_command False gap (c\<lparr>missing_capacity := m\<rparr>))"
  using assms unfolding take_command_def
  by (cases "no_command False gap (c\<lparr>missing_capacity := m\<rparr>)") (simp_all add: Let_def split_def)

text \<open>The iteration on a window that starts with a complete frame.\<close>

lemma handle_command_passed:
  assumes "passed_on E c cmd" "cmd \<noteq> []"
  shows "handle_command E e ug i (cmd ! 0) cmd c s = Some (False, c, emit (On_message cmd (bound_client c) ug) s)"
  using assms by (auto simp: handle_command_def passed_on_def)

lemma calculate_shrink_count_other:
  "\<exists>k. calculate_shrink_count E c = c\<lparr>shrink_count := k\<rparr>"
  unfolding calculate_shrink_count_def by (metis connection.surjective connection.update_convs(4))

lemma receive_iteration_found:
  assumes buf: "recv_buffer c = p @ frame cmd @ w @ q" and gap: "length p = gap" and n: "recv_buffer_size c = length (frame cmd @ w)"
    and ok: "acceptable E cmd" "passed_on E c cmd"
  shows "\<exists>k. receive_iteration E e ug i gap c s =
    Some (Found, gap + length (frame cmd), c\<lparr>shrink_count := k, recv_buffer_size := length w, missing_capacity := 0\<rparr>,
      emit (On_message cmd (bound_client c) ug) s)"
proof -
  note sz = acceptable_size [OF ok(1)]
  let ?buf = "recv_buffer c" and ?lim = "recv_buffer_size c + gap" and ?L = "length cmd"
  have lim: "?lim = gap + ?L + 8 + length w" using n by simp
  have start: "find_tag its_start_tag ?buf gap ?lim = Some gap"
    unfolding buf by (rule find_tag_here) (use lim gap in \<open>simp_all add: frame_def mem_sub_def\<close>)
  have "(load LE ?buf (gap + 9) :: u32 option) = load LE (cmd @ its_end_tag @ w @ q) 5"
    unfolding buf frame_def using gap sz(1) by (simp add: wire_simps del: load_Some)
  also have "\<dots> = load LE cmd 5"
    using sz(1) by (simp add: load_def)
  finally have size: "read_uint32_le e ?buf (gap + 9) = Some (of_nat (?L - 9))"
    using sz(2) by (simp add: read_uint32_le_load)
  have d: "drop (gap + ?L + 3) ?buf = drop (?L - 1) (cmd @ its_end_tag @ w @ q)"
    unfolding buf frame_def using gap sz(1) by simp
  have "cmd \<noteq> []" using sz(1) by auto
  note shifted = end_tag_not_shifted [OF this, of "w @ q"]
  have "find_tag its_end_tag ?buf (gap + ?L + 3) ?lim = find_tag its_end_tag ?buf (gap + ?L + 3 + 1) ?lim"
    by (rule find_tag_step) (use lim shifted d buf gap in \<open>simp_all add: mem_sub_def\<close>)
  moreover have tag: "mem_sub ?buf (gap + ?L + 4) 4 = Some its_end_tag" using buf gap by (simp add: frame_def mem_sub_def)
  then have "find_tag its_end_tag ?buf (gap + ?L + 4) ?lim = Some (gap + ?L + 4)"
    by (intro find_tag_here) (use lim in simp_all)
  ultimately have stop: "find_tag its_end_tag ?buf (gap + ?L + 3) ?lim = Some (gap + ?L + 4)" by (simp add: add.commute)
  have cmd: "mem_at ?buf (gap + 4) = Some (cmd ! 0)" "mem_range ?buf (gap + 4) (gap + ?L + 4) = Some cmd"
    using buf gap sz(1) \<open>cmd \<noteq> []\<close> by (simp_all add: frame_def mem_range_def mem_sub_def mem_at_def nth_append)
  obtain k where k: "calculate_shrink_count E c = c\<lparr>shrink_count := k\<rparr>" using calculate_shrink_count_other by blast
  have "receive_iteration E e ug i gap c s = take_command E e ug i gap (gap + 4) (of_nat (?L - 9)) (gap + ?L + 4) c s"
    using start size stop sz n by (intro receive_iteration_sized) (simp_all add: add.commute)
  also have "\<dots> = Some (Found, gap + ?L + 8, c\<lparr>shrink_count := k, recv_buffer_size := length w, missing_capacity := 0\<rparr>,
      emit (On_message cmd (bound_client c) ug) s)"
    using tag cmd n handle_command_passed [OF ok(2) \<open>cmd \<noteq> []\<close>, of e ug i s] by (simp add: take_command_def Let_def k)
  finally show ?thesis by (intro exI [of _ k]) (simp add: add.assoc)
qed


section \<open>Incomplete commands\<close>

text \<open>What a connection asks for after \<open>n\<close> bytes of the frame of a command.\<close>

definition wanted :: "bytes \<Rightarrow> nat \<Rightarrow> nat" where
  "wanted cmd n = (if n < 13 then 17 else length (frame cmd)) - n"

lemma end_tag_not_early:
  assumes buf: "recv_buffer c = p @ w @ q" "length p = gap" "recv_buffer_size c = length w"
    and w: "frame cmd = w @ v" "length w \<le> 12" and ok: "acceptable E cmd"
  shows "\<exists>j. find_tag its_end_tag (recv_buffer c) (gap + 4) (recv_buffer_size c + gap) = Some j \<and> recv_buffer_size c + gap \<le> j + 3"
proof -
  have "take 4 (drop j (recv_buffer c)) \<noteq> its_end_tag" if "gap + 4 \<le> j" "j + 4 \<le> recv_buffer_size c + gap" for j
  proof -
    have j: "j - gap - 4 < 5" "j - gap + 4 \<le> length w" using that buf w(2) by simp_all
    have "take 4 (drop j (recv_buffer c)) = take 4 (drop (j - gap) (w @ v))"
      using buf that j by simp
    also have "\<dots> = take 4 (drop (j - gap - 4) (cmd @ its_end_tag))"
      using that by (simp add: w(1) [symmetric] frame_def drop_append)
    also have "\<dots> = take 4 (drop (j - gap - 4) cmd)"
      using j acceptable_size(1) [OF ok] by simp
    finally show ?thesis using ok j(1) by (simp add: acceptable_def list_all_iff)
  qed
  then show ?thesis using find_tag_absent [of "recv_buffer_size c + gap" "recv_buffer c" "gap + 4" its_end_tag] buf by auto
qed

lemma receive_iteration_short:
  assumes buf: "recv_buffer c = p @ w @ q" "length p = gap" "recv_buffer_size c = length w"
    and w: "frame cmd = w @ v" "length w \<le> 12" "length w \<noteq> 3" and ok: "acceptable E cmd"
  shows "receive_iteration E e ug i gap c s =
    map_option (\<lambda>(v, c). (v, gap, c, s)) (no_command False gap (c\<lparr>missing_capacity := of_nat (wanted cmd (length w))\<rparr>))"
proof -
  let ?buf = "recv_buffer c" and ?lim = "recv_buffer_size c + gap"
  have start: "find_tag its_start_tag ?buf gap ?lim = Some gap"
  proof (cases "length w < 4")
    case True
    then show ?thesis using buf by (intro find_tag_stop) simp
  next
    case False
    then obtain u where "w = its_start_tag @ u" using frame_split [OF w(1)] by force
    then show ?thesis using buf False by (intro find_tag_here) (simp_all add: mem_sub_def)
  qed
  obtain j where j: "find_tag its_end_tag ?buf (gap + 4) ?lim = Some j" "?lim \<le> j + 3"
    using end_tag_not_early [OF buf w(1,2) ok] by blast
  have "(17 :: u32) - of_nat (length w) = of_nat (17 - length w)" using w(2) by (simp add: of_nat_diff)
  then have "incomplete_command gap (gap + 4) 0 c = (False, gap, c\<lparr>missing_capacity := of_nat (wanted cmd (length w))\<rparr>)"
    using buf w(2) by (simp add: incomplete_command_def wanted_def)
  with start j buf w(2,3) show ?thesis
    by (subst receive_iteration_unsized [of c gap j]) (simp_all add: take_command_incomplete)
qed


lemma receive_iteration_long:
  assumes buf: "recv_buffer c = p @ w @ q" "length p = gap" "recv_buffer_size c = length w"
    and w: "frame cmd = w @ v" "v \<noteq> []" "12 < length w" and ok: "acceptable E cmd"
  shows "receive_iteration E e ug i gap c s =
    map_option (\<lambda>(v, c). (v, gap, c, s)) (no_command False gap (c\<lparr>missing_capacity := of_nat (wanted cmd (length w))\<rparr>))"
proof -
  let ?buf = "recv_buffer c" and ?lim = "recv_buffer_size c + gap" and ?L = "length cmd"
  note sz = acceptable_size [OF ok]
  have len: "length w < ?L + 8" using arg_cong [OF w(1), of length] w(2) by (cases v) simp_all
  obtain u where u: "w = its_start_tag @ u" "cmd @ its_end_tag = u @ v"
    using frame_split [OF w(1)] w(3) by auto
  have start: "find_tag its_start_tag ?buf gap ?lim = Some gap"
    using buf u(1) w(3) by (intro find_tag_here) (simp_all add: mem_sub_def)
  have "(load LE ?buf (gap + 9) :: u32 option) = load LE (u @ q) 5"
    unfolding buf u(1) using buf(2) w(3) u(1) by (simp add: wire_simps del: load_Some)
  also have "\<dots> = load LE (cmd @ its_end_tag) 5"
    using w(3) u sz(1) by (simp add: load_def)
  also have "\<dots> = load LE cmd 5" using sz(1) by (simp add: load_def)
  finally have size: "read_uint32_le e ?buf (gap + 9) = Some (of_nat (?L - 9))"
    using sz(2) by (simp add: read_uint32_le_load)
  obtain j where j: "find_tag its_end_tag ?buf (gap + ?L + 3) ?lim = Some j" "?lim \<le> j + 3"
  proof (cases "length w = ?L + 7")
    case True
    have ul: "length u = ?L + 3" using True u(1) by simp
    have "take 4 (drop (gap + ?L + 3) ?buf) = take 4 (drop (?L - 1) (u @ q))" using buf u(1) sz(1) by simp
    also have "\<dots> = take 4 (drop (?L - 1) (u @ v))" using ul sz(1) by simp
    also have "\<dots> \<noteq> its_end_tag" using end_tag_not_shifted [of cmd "[]"] sz(1) u(2) by force
    finally have "find_tag its_end_tag ?buf (gap + ?L + 3) ?lim = find_tag its_end_tag ?buf (gap + ?L + 3 + 1) ?lim"
      using buf True by (intro find_tag_step [where w = "take 4 (drop (gap + ?L + 3) ?buf)"]) simp_all
    also have "\<dots> = Some (gap + ?L + 4)" using buf True by (subst find_tag_stop) simp_all
    finally show ?thesis using that buf True by simp
  next
    case False
    then show ?thesis using len buf that [of "gap + ?L + 3"] by (simp add: find_tag_stop)
  qed
  have "of_nat (gap + 4) - of_nat gap + of_nat (?L - 9) + of_nat 13 - of_nat (length w) = (of_nat (?L + 8 - length w) :: u32)"
  proof -
    have "(of_nat (gap + 4) - of_nat gap + of_nat (?L - 9) + of_nat 13 :: u32) = of_nat (?L + 8)" using sz(1) by (simp add: of_nat_diff)
    then show ?thesis using len by (simp add: of_nat_diff)
  qed
  then have "incomplete_command gap (gap + 4) (of_nat (?L - 9)) c = (False, gap, c\<lparr>missing_capacity := of_nat (wanted cmd (length w))\<rparr>)"
    using buf w(3) len sz(1,3) by (simp add: incomplete_command_def wanted_def)
  note inc = this
  have pos: "gap + 12 + unat (of_nat (?L - 9) :: u32) = gap + ?L + 3" using sz(1,3) by simp
  have "receive_iteration E e ug i gap c s = take_command E e ug i gap (gap + 4) (of_nat (?L - 9)) j c s"
    by (rule receive_iteration_sized [OF start _ size sz(4), unfolded pos, OF _ j(1)]) (use buf(3) w(3) in simp)
  then show ?thesis using take_command_incomplete [OF j(2) inc] by simp
qed


text \<open>Three bytes are too few to look for the start tag and are left alone.\<close>

lemma receive_iteration_three:
  assumes "recv_buffer_size c = 3"
  shows "receive_iteration E e ug i gap c s = map_option (\<lambda>(v, c). (v, gap, c, s)) (no_command True gap c)"
proof -
  have "find_tag its_start_tag (recv_buffer c) gap (recv_buffer_size c + gap) = Some gap"
    using assms by (intro find_tag_stop) simp
  then show ?thesis using assms by (cases "no_command True gap c") (auto simp: receive_iteration_def Let_def split_def)
qed

text \<open>
  What the loop leaves behind: the incomplete frame \<open>w\<close> is at the front of the buffer, and the connection
  asks for more or has room for more.
\<close>

definition holds_back :: "connection \<Rightarrow> connection \<Rightarrow> bytes \<Rightarrow> bool" where
  "holds_back c c' w \<longleftrightarrow> recv_buffer_size c' = length w \<and> take (length w) (recv_buffer c') = w
     \<and> length (recv_buffer c') = length (recv_buffer c)
     \<and> (missing_capacity c' = 0 \<longrightarrow> length w < length (recv_buffer c'))
     \<and> (is_stopped c' = is_stopped c \<and> socket_open c' = socket_open c \<and> bound_client c' = bound_client c
        \<and> assigned_client c' = assigned_client c)"

lemma no_command_front:
  assumes "take (length w) (recv_buffer c) = w" "recv_buffer_size c = length w" "missing_capacity c \<noteq> 0"
  shows "no_command False 0 c = Some (Incomplete, c) \<and> holds_back c c w"
  using assms by (simp add: no_command_def holds_back_def)

lemma no_command_shift:
  assumes buf: "recv_buffer c = p @ w @ q" "length p = gap" "recv_buffer_size c = length w" and "0 < gap"
  shows "\<exists>c'. no_command b gap c = Some (Incomplete, c') \<and> holds_back c c' w"
proof -
  let ?buf = "w @ drop (length w) (recv_buffer c)"
  have "mem_sub (recv_buffer c) gap (recv_buffer_size c) = Some w" "mem_write (recv_buffer c) 0 w = Some ?buf"
    using buf by (simp_all add: mem_sub_def mem_write_def)
  moreover have "length ?buf = length (recv_buffer c)" "length w < length (recv_buffer c)" using buf assms(4) by simp_all
  ultimately show ?thesis
    using buf(3) assms(4)
    by (cases "missing_capacity c \<noteq> 0 \<and> unat (missing_capacity c) \<le> length (recv_buffer c) - recv_buffer_size c")
      (auto simp: no_command_def holds_back_def Let_def)
qed

lemma wanted_positive:
  assumes "acceptable E cmd" "frame cmd = w @ v" "v \<noteq> []"
  shows "(of_nat (wanted cmd (length w)) :: u32) \<noteq> 0" "0 < wanted cmd (length w)" "unat (of_nat (wanted cmd (length w)) :: u32) = wanted cmd (length w)"
proof -
  have "length w + length v = length cmd + 8" using arg_cong [OF assms(2), of length] by simp
  moreover have "1 \<le> length v" using assms(3) by (cases v) simp_all
  ultimately have "length w < length cmd + 8" by linarith
  moreover have "9 \<le> length cmd" "length cmd \<le> 4294967287" using assms(1) acceptable_size(1) by (simp_all add: acceptable_def)
  ultimately have w: "0 < wanted cmd (length w)" "wanted cmd (length w) \<le> 4294967295" unfolding wanted_def length_frame by auto
  then show "unat (of_nat (wanted cmd (length w)) :: u32) = wanted cmd (length w)" "0 < wanted cmd (length w)"
    by (simp_all add: unat_u32_of_nat)
  with w show "(of_nat (wanted cmd (length w)) :: u32) \<noteq> 0" by (metis unsigned_0 less_irrefl)
qed

lemma receive_iteration_incomplete:
  assumes buf: "recv_buffer c = p @ w @ q" "length p = gap" "recv_buffer_size c = length w"
    and w: "frame cmd = w @ v" "v \<noteq> []" and ok: "acceptable E cmd" and three: "0 < gap \<or> length w \<noteq> 3"
  shows "\<exists>c'. receive_iteration E e ug i gap c s = Some (Incomplete, gap, c', s) \<and> holds_back c c' w"
proof (cases "length w = 3")
  case True
  then show ?thesis
    using no_command_shift [OF buf, of True] three buf(3) by (auto simp: receive_iteration_three)
next
  case False
  let ?c = "c\<lparr>missing_capacity := of_nat (wanted cmd (length w))\<rparr>"
  have it: "receive_iteration E e ug i gap c s = map_option (\<lambda>(v, c). (v, gap, c, s)) (no_command False gap ?c)"
    using receive_iteration_short [OF buf w(1) _ False ok] receive_iteration_long [OF buf w _ ok] by fastforce
  have "\<exists>c'. no_command False gap ?c = Some (Incomplete, c') \<and> holds_back ?c c' w"
  proof (cases "gap = 0")
    case True
    then show ?thesis using no_command_front [of w ?c] buf wanted_positive(1) [OF ok w] by auto
  next
    case False
    then show ?thesis using no_command_shift [of ?c p w q gap False] buf by simp
  qed
  then show ?thesis using it by (auto simp: holds_back_def)
qed


section \<open>The loop over a window\<close>

text \<open>An incomplete frame of the next command, or nothing.\<close>

definition incomplete :: "bytes list \<Rightarrow> bytes \<Rightarrow> bool" where
  "incomplete cmds w \<longleftrightarrow> w = [] \<or> (\<exists>v. cmds \<noteq> [] \<and> frame (hd cmds) = w @ v \<and> v \<noteq> [])"

lemma receive_loop_window:
  assumes "recv_buffer c = p @ concat (map frame cmds) @ w @ q" "length p = gap"
    and "recv_buffer_size c = length (concat (map frame cmds) @ w)" "0 < recv_buffer_size c"
    and "incomplete rest w" "list_all (acceptable E) (cmds @ rest)" "list_all (passed_on E c) cmds"
    and "0 < gap \<or> cmds \<noteq> [] \<or> length w \<noteq> 3" "0 < length (recv_buffer c)"
  shows "\<exists>v c'. receive_loop E e ug i gap c s = Some (v, c', s\<lparr>actions := actions s @ map (\<lambda>cmd. On_message cmd (bound_client c) ug) cmds\<rparr>)
    \<and> v \<in> {Found, Incomplete} \<and> holds_back c c' w"
  using assms
proof (induction cmds arbitrary: p gap c s)
  case Nil
  then have ne: "w \<noteq> []" by auto
  then obtain v where w: "frame (hd rest) = w @ v" "v \<noteq> []" "acceptable E (hd rest)"
    using Nil.prems(5,6) by (auto simp: incomplete_def list_all_iff)
  from receive_iteration_incomplete [of c p w q gap "hd rest" v E e ug i s, OF _ _ _ w] Nil.prems
  obtain c' where "receive_iteration E e ug i gap c s = Some (Incomplete, gap, c', s)" "holds_back c c' w" by auto
  then show ?case by (subst receive_loop.simps) simp
next
  case (Cons cmd cmds)
  let ?w = "concat (map frame cmds) @ w"
  from receive_iteration_found [of c p cmd ?w q gap E e ug i s] Cons.prems
  obtain k where it: "receive_iteration E e ug i gap c s = Some (Found, gap + length (frame cmd),
      c\<lparr>shrink_count := k, recv_buffer_size := length ?w, missing_capacity := 0\<rparr>, emit (On_message cmd (bound_client c) ug) s)"
    by auto
  let ?c = "c\<lparr>shrink_count := k, recv_buffer_size := length ?w, missing_capacity := 0\<rparr>"
  show ?case
  proof (cases "?w = []")
    case True
    then have "holds_back c ?c w" using Cons.prems(9) by (simp add: holds_back_def)
    then show ?thesis using it True by (subst receive_loop.simps) (simp add: emit_def)
  next
    case False
    have "\<exists>v c'. receive_loop E e ug i (gap + length (frame cmd)) ?c (emit (On_message cmd (bound_client c) ug) s) =
        Some (v, c', (emit (On_message cmd (bound_client c) ug) s)\<lparr>actions := actions (emit (On_message cmd (bound_client c) ug) s)
          @ map (\<lambda>cmd. On_message cmd (bound_client ?c) ug) cmds\<rparr>) \<and> v \<in> {Found, Incomplete} \<and> holds_back ?c c' w"
      using Cons.prems False by (intro Cons.IH [of _ "p @ frame cmd"]) (auto simp: passed_on_def list_all_iff)
    then show ?thesis using it False by (subst receive_loop.simps) (auto simp: emit_def holds_back_def)
  qed
qed

section \<open>Listening\<close>

text \<open>
  The state between two reads: the incomplete frame \<open>w\<close> is buffered, and a read of at least one byte
  behind it is pending, inside the buffer.
\<close>

definition listening :: "connection \<Rightarrow> bytes \<Rightarrow> bool" where
  "listening c w \<longleftrightarrow> socket_open c \<and> \<not> is_stopped c \<and> missing_capacity c = 0
     \<and> recv_buffer_size c = length w \<and> take (length w) (recv_buffer c) = w
     \<and> (case pending_read c of None \<Rightarrow> False | Some left \<Rightarrow> 0 < left \<and> length w + left \<le> length (recv_buffer c))"

lemma connection_start_listening:
  assumes "socket_open c" "recv_buffer_size c = length w" "take (length w) (recv_buffer c) = w"
    and "missing_capacity c = 0 \<longrightarrow> length w < length (recv_buffer c)"
  shows "listening (connection_start E c) w \<and> bound_client (connection_start E c) = bound_client c
    \<and> assigned_client (connection_start E c) = assigned_client c"
proof -
  have len: "length w \<le> length (recv_buffer c)" using arg_cong [OF assms(3), of length] by simp
  show ?thesis
  proof (cases "missing_capacity c = 0")
    case True
    then show ?thesis using assms len
      by (auto simp: connection_start_def listening_def Let_def recv_buffer_size_initial_def vec_resize_def)
  next
    case False
    then have "0 < unat (missing_capacity c)" by (simp add: unat_gt_0)
    moreover have "take (length w) (vec_resize (recv_buffer c) (length w + unat (missing_capacity c)) 0) = w"
      if "length (recv_buffer c) < length w + unat (missing_capacity c)"
      using that assms(3) len by (simp add: vec_resize_grow)
    ultimately show ?thesis using False assms len by (auto simp: connection_start_def listening_def Let_def)
  qed
qed

lemma receive_data_listening:
  assumes c: "listening c w" and bs: "bs \<noteq> []" "length bs \<le> the (pending_read c)"
    and split: "w @ bs = concat (map frame cmds) @ w'" and rest: "incomplete rest w'"
    and ok: "list_all (acceptable E) (cmds @ rest)" "list_all (passed_on E c) cmds"
    and three: "length (w @ bs) \<noteq> 3"
  shows "\<exists>c'. receive_data E e ug i bs c s = Some (c', s\<lparr>actions := actions s @ map (\<lambda>cmd. On_message cmd (bound_client c) ug) cmds\<rparr>)
    \<and> listening c' w' \<and> bound_client c' = bound_client c \<and> assigned_client c' = assigned_client c"
proof -
  obtain left where l: "pending_read c = Some left" "length w + left \<le> length (recv_buffer c)"
    using c by (auto simp: listening_def split: option.splits)
  define q where "q = drop (length w + length bs) (recv_buffer c)"
  have "mem_write (recv_buffer c) (recv_buffer_size c) bs = Some (w @ bs @ q)"
    using c l bs(2) by (simp add: listening_def q_def mem_write_def)
  moreover define c1 where "c1 = c\<lparr>recv_buffer := w @ bs @ q, pending_read := None, recv_buffer_size := length (w @ bs)\<rparr>"
  have buf: "recv_buffer c1 = [] @ concat (map frame cmds) @ w' @ q" using split by (simp add: c1_def flip: append_assoc)
  have pass: "passed_on E c1 = passed_on E c" by (simp add: fun_eq_iff passed_on_def c1_def)
  have short: "cmds \<noteq> [] \<or> length w' \<noteq> 3" using arg_cong [OF split, of length] three by (cases cmds) simp_all
  have "0 < length bs" using bs(1) by simp
  then have "\<exists>v c'. receive_loop E e ug i 0 c1 s = Some (v, c', s\<lparr>actions := actions s @ map (\<lambda>cmd. On_message cmd (bound_client c1) ug) cmds\<rparr>)
    \<and> v \<in> {Found, Incomplete} \<and> holds_back c1 c' w'"
    using rest ok pass short by (intro receive_loop_window [OF buf]) (auto simp: c1_def simp flip: split)
  then obtain v c2 where loop: "receive_loop E e ug i 0 c1 s = Some (v, c2, s\<lparr>actions := actions s @ map (\<lambda>cmd. On_message cmd (bound_client c) ug) cmds\<rparr>)"
    "v \<in> {Found, Incomplete}" "holds_back c1 c2 w'" by (auto simp: c1_def)
  have "listening (connection_start E c2) w' \<and> bound_client (connection_start E c2) = bound_client c2
    \<and> assigned_client (connection_start E c2) = assigned_client c2"
    using loop(3) c by (intro connection_start_listening) (auto simp: holds_back_def listening_def c1_def)
  moreover have "\<not> is_stopped c2" using loop(3) c by (simp add: holds_back_def listening_def c1_def)
  ultimately show ?thesis
    using loop c bs(1) by (auto simp: receive_data_def receive_cbk_def c1_def listening_def holds_back_def)
qed


section \<open>The stream\<close>

lemma split_frames:
  assumes "p @ q = concat (map frame cmds)"
  shows "\<exists>done rest w. cmds = done @ rest \<and> p = concat (map frame done) @ w \<and> w @ q = concat (map frame rest) \<and> incomplete rest w"
  using assms
proof (induction cmds arbitrary: p)
  case Nil
  then show ?case by (simp add: incomplete_def)
next
  case (Cons cmd cmds)
  have complete: ?case if us: "p = frame cmd @ us" "us @ q = concat (map frame cmds)" for us
  proof -
    from Cons.IH [OF us(2)] obtain "done" rest w where
      "cmds = done @ rest" "us = concat (map frame done) @ w" "w @ q = concat (map frame rest)" "incomplete rest w" by blast
    with us(1) have "cmd # cmds = (cmd # done) @ rest \<and> p = concat (map frame (cmd # done)) @ w
      \<and> w @ q = concat (map frame rest) \<and> incomplete rest w" by simp
    then show ?thesis by blast
  qed
  from Cons.prems obtain us where "p = frame cmd @ us \<and> us @ q = concat (map frame cmds) \<or> p @ us = frame cmd \<and> q = us @ concat (map frame cmds)"
    by (auto simp: append_eq_append_conv2)
  then show ?case
  proof (elim disjE conjE)
    assume us: "p @ us = frame cmd" "q = us @ concat (map frame cmds)"
    show ?thesis
    proof (cases "us = []")
      case True
      then show ?thesis using us complete [of "[]"] by simp
    next
      case False
      then have "incomplete (cmd # cmds) p" unfolding incomplete_def using us(1) by auto
      then have "cmd # cmds = [] @ (cmd # cmds) \<and> p = concat (map frame []) @ p \<and> p @ q = concat (map frame (cmd # cmds)) \<and> incomplete (cmd # cmds) p"
        using Cons.prems by simp
      then show ?thesis by blast
    qed
  qed (rule complete)
qed

text \<open>The chunks that the socket delivers one after the other, each with its own callback.\<close>

fun receive_chunks ::
  "env \<Rightarrow> endianess_e \<Rightarrow> sec_client \<Rightarrow> nat \<Rightarrow> bytes list \<Rightarrow> connection \<times> server \<Rightarrow> (connection \<times> server) option" where
  "receive_chunks E e ug i [] (c, s) = Some (c, s)"
| "receive_chunks E e ug i (bs # chunks) (c, s) =
     (if pending_read c = None then None
      else do { (c, s) \<leftarrow> receive_data E e ug i bs c s; receive_chunks E e ug i chunks (c, s) })"

text \<open>What the socket does: a chunk is not empty and no longer than the pending read.\<close>

fun reads_fit :: "env \<Rightarrow> endianess_e \<Rightarrow> sec_client \<Rightarrow> nat \<Rightarrow> bytes list \<Rightarrow> connection \<times> server \<Rightarrow> bool" where
  "reads_fit E e ug i [] (c, s) \<longleftrightarrow> True"
| "reads_fit E e ug i (bs # chunks) (c, s) \<longleftrightarrow>
     bs \<noteq> [] \<and> (case pending_read c of None \<Rightarrow> True | Some left \<Rightarrow> length bs \<le> left)
     \<and> (case receive_data E e ug i bs c s of None \<Rightarrow> True | Some cs \<Rightarrow> reads_fit E e ug i chunks cs)"

text \<open>
  Exactly three bytes in the buffer: the search for the start tag cannot begin, and the connection is closed as if
  it had received garbage, even if they are the start of a frame. \<open>after_close\<close> is what that does to the server.
\<close>

definition after_close :: "u16 \<Rightarrow> server \<Rightarrow> server" where
  "after_close b s = (if b \<noteq> VSOMEIP_CLIENT_UNSET then emit (Remove_mapping b) (remove_connection b s) else s)"

lemma uds_three_bytes:
  assumes "listening c w" "length (w @ bs) = 3" "bs \<noteq> []" "length bs \<le> the (pending_read c)"
  shows "\<exists>c'. receive_data E e ug i bs c s = Some (c', after_close (bound_client c) s) \<and> \<not> socket_open c'"
proof -
  obtain left where l: "pending_read c = Some left" "length w + left \<le> length (recv_buffer c)"
    using assms(1) by (auto simp: listening_def split: option.splits)
  let ?buf = "take (length w) (recv_buffer c) @ bs @ drop (length w + length bs) (recv_buffer c)"
  have "mem_write (recv_buffer c) (recv_buffer_size c) bs = Some ?buf"
    using assms l by (simp add: listening_def mem_write_def)
  moreover let ?c = "c\<lparr>recv_buffer := ?buf, pending_read := None, recv_buffer_size := 3\<rparr>"
  have "receive_iteration E e ug i 0 ?c s = Some (Garbage, 0, ?c, s)"
    by (subst receive_iteration_three) (simp_all add: no_command_def)
  then have "receive_loop E e ug i 0 ?c s = Some (Garbage, ?c, s)" by (subst receive_loop.simps) simp
  ultimately show ?thesis
    using assms by (simp add: receive_data_def receive_cbk_def listening_def shutdown_and_close_def after_close_def)
qed

text \<open>
  The outcome of a sequence of reads: \<open>done\<close> are the commands that have arrived and \<open>w\<close> the start of the next frame.
  Either all reads took place and the connection listens, or a read left exactly three bytes and
  the connection is closed.
\<close>

definition outcome ::
  "env \<Rightarrow> endianess_e \<Rightarrow> sec_client \<Rightarrow> nat \<Rightarrow> bytes list \<Rightarrow> connection \<Rightarrow> server \<Rightarrow> nat \<Rightarrow> bytes list \<Rightarrow> bytes \<Rightarrow> bool" where
  "outcome E e ug i chunks c s n done w \<longleftrightarrow>
     (\<exists>c'. let s' = s\<lparr>actions := actions s @ map (\<lambda>cmd. On_message cmd (bound_client c) ug) done\<rparr> in
        n = length chunks \<and> receive_chunks E e ug i chunks (c, s) = Some (c', s') \<and> listening c' w \<or>
        n \<le> length chunks \<and> length w = 3 \<and> \<not> socket_open c' \<and>
        receive_chunks E e ug i (take n chunks) (c, s) = Some (c', after_close (bound_client c) s'))"

lemma outcome_Cons:
  assumes "pending_read c \<noteq> None"
    and "receive_data E e ug i bs c s = Some (c1, s\<lparr>actions := actions s @ map (\<lambda>cmd. On_message cmd (bound_client c) ug) done\<rparr>)"
    and "bound_client c1 = bound_client c"
    and "outcome E e ug i chunks c1 (s\<lparr>actions := actions s @ map (\<lambda>cmd. On_message cmd (bound_client c) ug) done\<rparr>) n done2 w"
  shows "outcome E e ug i (bs # chunks) c s (Suc n) (done @ done2) w"
  using assms by (auto simp: outcome_def Let_def)

lemma receive_chunks_any:
  assumes "listening c w" "incomplete cmds w" "w @ concat chunks @ q = concat (map frame cmds)"
    and "list_all (acceptable E) cmds" "list_all (passed_on E c) cmds" "reads_fit E e ug i chunks (c, s)"
  shows "\<exists>n done rest w'. cmds = done @ rest \<and> w @ concat (take n chunks) = concat (map frame done) @ w' \<and> incomplete rest w'
    \<and> outcome E e ug i chunks c s n done w'"
  using assms
proof (induction chunks arbitrary: c s w cmds)
  case Nil
  then have "cmds = [] @ cmds \<and> w @ concat (take 0 []) = concat (map frame []) @ w \<and> incomplete cmds w \<and> outcome E e ug i [] c s 0 [] w"
    by (auto simp: outcome_def Let_def)
  then show ?case by blast
next
  case (Cons bs chunks)
  from split_frames [of "w @ bs" "concat chunks @ q" cmds] Cons.prems(3) obtain "done" rest w1 where
    sp: "cmds = done @ rest" "w @ bs = concat (map frame done) @ w1" "w1 @ concat chunks @ q = concat (map frame rest)" "incomplete rest w1"
    by auto
  obtain left where l: "pending_read c = Some left" "recv_buffer_size c = length w"
    using Cons.prems(1) by (auto simp: listening_def split: option.splits)
  show ?case
  proof (cases "length (w @ bs) = 3")
    case True
    have "done = []"
    proof (rule ccontr)
      assume "done \<noteq> []"
      then obtain cmd ds where "done = cmd # ds" by (cases "done") auto
      with True arg_cong [OF sp(2), of length] show False by simp
    qed
    moreover obtain c' where "receive_data E e ug i bs c s = Some (c', after_close (bound_client c) s)" "\<not> socket_open c'"
      using uds_three_bytes [OF Cons.prems(1) True, of E e ug i s] Cons.prems(6) l by auto
    then have "outcome E e ug i (bs # chunks) c s 1 [] w1"
      using True \<open>done = []\<close> sp(2) l unfolding outcome_def Let_def by auto
    ultimately have "cmds = [] @ rest \<and> w @ concat (take 1 (bs # chunks)) = concat (map frame []) @ w1 \<and> incomplete rest w1
        \<and> outcome E e ug i (bs # chunks) c s 1 [] w1" using sp by simp
    then show ?thesis by blast
  next
    case False
    let ?s = "s\<lparr>actions := actions s @ map (\<lambda>cmd. On_message cmd (bound_client c) ug) done\<rparr>"
    from receive_data_listening [OF Cons.prems(1) _ _ sp(2,4), of E e ug i s] Cons.prems(4-6) sp(1) l False obtain c1 where
      d: "receive_data E e ug i bs c s = Some (c1, ?s)"
      "listening c1 w1" "bound_client c1 = bound_client c" "assigned_client c1 = assigned_client c" by auto
    have "list_all (passed_on E c1) rest" using Cons.prems(5) sp(1) d(4) by (auto simp: passed_on_def list_all_iff)
    moreover have "reads_fit E e ug i chunks (c1, ?s)" using Cons.prems(6) d(1) by simp
    ultimately obtain n done2 rest2 w2 where
      r: "rest = done2 @ rest2" "w1 @ concat (take n chunks) = concat (map frame done2) @ w2" "incomplete rest2 w2"
      "outcome E e ug i chunks c1 ?s n done2 w2"
      using Cons.IH [OF d(2) sp(4) sp(3), of ?s] Cons.prems(4) sp(1) by auto
    have "outcome E e ug i (bs # chunks) c s (Suc n) (done @ done2) w2"
      using outcome_Cons [OF _ d(1,3) r(4)] l by simp
    then have "cmds = (done @ done2) @ rest2 \<and> w @ concat (take (Suc n) (bs # chunks)) = concat (map frame (done @ done2)) @ w2
        \<and> incomplete rest2 w2 \<and> outcome E e ug i (bs # chunks) c s (Suc n) (done @ done2) w2"
      using sp(1) r arg_cong [OF sp(2), of "\<lambda>x. x @ concat (take n chunks)"] by simp
    then show ?thesis by blast
  qed
qed


definition example_env :: env where
  "example_env = \<lparr> is_routing_endpoint = False, is_security_enabled = False, env_configuration = example_configuration,
     max_message_size = 1000, buffer_shrink_threshold = 5, check_credentials = (\<lambda>_ _. True), check_routing_credentials = (\<lambda>_ _. True) \<rparr>"

definition example_server :: server where
  "example_server = \<lparr> connections = [], client_ids = (\<lambda>_. None), sending_blocked = False, actions = [] \<rparr>"

text \<open>Two commands, a registration and a ping, in four reads.\<close>

definition example_commands :: "bytes list" where
  "example_commands = [[0x02, 0, 0, 5, 0, 2, 0, 0, 0, 0x34, 0x12], [0x07, 0, 0, 5, 0, 0, 0, 0, 0]]"

definition example_chunks :: "bytes list" where
  "example_chunks = (let bs = concat (map frame example_commands) in [take 10 bs, take 7 (drop 10 bs), take 2 (drop 17 bs), drop 19 bs])"


section \<open>Where the stream breaks\<close>

text \<open>
  A command beyond the maximum size: the callback returns without closing the connection and without
  another read, so that the connection is stuck.
\<close>

lemma uds_too_large:
  assumes "listening c []" "bs = its_start_tag @ cmd" "9 \<le> length cmd" "length bs \<le> the (pending_read c)"
    and "load LE cmd 5 = Some w" "max_message_size E \<noteq> MESSAGE_SIZE_UNLIMITED" "w > max_message_size E"
  shows "\<exists>c'. receive_data E e ug i bs c s = Some (c', s) \<and> socket_open c' \<and> pending_read c' = None"
proof -
  obtain left where l: "pending_read c = Some left" "left \<le> length (recv_buffer c)"
    using assms(1) by (auto simp: listening_def split: option.splits)
  let ?buf = "its_start_tag @ cmd @ drop (length bs) (recv_buffer c)"
  have m: "mem_write (recv_buffer c) (recv_buffer_size c) bs = Some ?buf"
    using assms l by (simp add: listening_def mem_write_def)
  let ?c = "c\<lparr>recv_buffer := ?buf, pending_read := None, recv_buffer_size := length bs\<rparr>"
  have start: "find_tag its_start_tag ?buf 0 (length bs) = Some 0"
    using assms(2,3) by (intro find_tag_here) (simp_all add: mem_sub_def)
  have "load LE ?buf 9 = Some w" using assms(3,5) by (simp add: load_def mem_sub_def)
  then have size: "read_uint32_le e ?buf 9 = Some w" by (simp add: read_uint32_le_load)
  have "w \<noteq> 0" using assms(7) by auto
  then have "receive_iteration E e ug i 0 ?c s = Some (Aborted, 0, ?c\<lparr>recv_buffer := vec_resize ?buf recv_buffer_size_initial 0\<rparr>, s)"
    using start size assms(2,3,6,7) by (simp add: receive_iteration_def Let_def)
  then have "receive_loop E e ug i 0 ?c s = Some (Aborted, ?c\<lparr>recv_buffer := vec_resize ?buf recv_buffer_size_initial 0\<rparr>, s)"
    by (subst receive_loop.simps) simp
  then show ?thesis
    using m assms(1-3) by (auto simp: receive_data_def receive_cbk_def listening_def)
qed


text \<open>
  The command that asks for a client identifier loses the last character of the application's name on the
  way: an application whose name differs from the owner's only there is given the identifier that is in use.
\<close>

lemma assign_client_name_clash:
  fixes c :: assign_client_command
  assumes "cmd_id c = ASSIGN_CLIENT_ID" "9 + length (asg_name c) \<le> MAX_COMMAND_SIZE" "cmd_client c \<noteq> VSOMEIP_CLIENT_UNSET"
    and "client_ids s (get_network (env_configuration E)) = Some r"
    and "map_of (used_clients r) (cmd_client c) = Some (butlast (asg_name c))"
  shows "\<exists>s'. assign_client E e (cmd_header e (sized (asg_name c) c) @ asg_name c) s = Some (cmd_client c, s')"
proof -
  have "assign_client_deserialize e (cmd_header e (sized (asg_name c) c) @ asg_name c) assign_client_command_new =
      Some ((sized (asg_name c) c)\<lparr>asg_name := butlast (asg_name c)\<rparr>, ERROR_OK)"
    using assms(1,2) by (rule assign_client_deserialize_bytes)
  moreover have "\<exists>ids. request_client_id (env_configuration E) (butlast (asg_name c)) (cmd_client c) (client_ids s) = (cmd_client c, ids)"
    using request_predefined [of "client_ids s" "env_configuration E" r "cmd_client c" "butlast (asg_name c)"] assms(3-5) by auto
  ultimately show ?thesis by (auto simp: assign_client_def sized_def)
qed

end
