(* ===== verification/Local_Message.thy ===== *)
theory Local_Message
  imports Uds_Stream Message
begin

text \<open>
  SOME/IP messages between the applications of a host: \<open>routing_manager_base::send_local\<close> wraps the
  serialized message into a send command for a local endpoint, and the case \<open>SEND_ID\<close> of
  \<open>routing_manager_client::on_message\<close> unwraps it on the other side, up to the security checks that
  follow. Together with the local transport this takes a message from one application to another.
\<close>

text \<open>The buffer that goes to the endpoint, if the command can be serialized.\<close>

definition send_local ::
  "endianess_e \<Rightarrow> u16 \<Rightarrow> u16 \<Rightarrow> bytes \<Rightarrow> u16 \<Rightarrow> bool \<Rightarrow> id_e \<Rightarrow> byte \<Rightarrow> bytes option option" where
  "send_local e me client data inst reliable cmd status = do {
     let its_command = (send_command_new cmd inst reliable status client)\<lparr>cmd_client := me, send_message := data\<rparr>;
     (its_buffer, _, its_error) \<leftarrow> send_serialize e its_command [];
     Some (if its_error = ERROR_OK then Some its_buffer else None)
   }"

text \<open>The members of a fresh send command and the pooled deserializer hold arbitrary values.\<close>

definition on_send_command ::
  "(nat \<Rightarrow> nat option) \<Rightarrow> endianess_e \<Rightarrow> send_command \<Rightarrow> deserializer \<Rightarrow> bytes \<Rightarrow> message_impl option option" where
  "on_send_command reserve e fresh d its_buffer = do {
     (its_send_command, its_error) \<leftarrow> send_deserialize e its_buffer fresh;
     if its_error \<noteq> ERROR_OK then Some None
     else do {
       (m, _) \<leftarrow> deserialize_message reserve (deserializer_set_data (Some (send_message its_send_command)) d);
       Some (map_option (\<lambda>m. m\<lparr>msg_header := (msg_header m)\<lparr>hdr_instance := send_instance its_send_command\<rparr>,
         msg_is_reliable := send_reliable its_send_command, msg_check_result := send_status its_send_command\<rparr>) m)
     }
   }"

text \<open>What an application hands to the transport, and what the other one makes of it.\<close>

definition local_command :: "u16 \<Rightarrow> u16 \<Rightarrow> byte \<Rightarrow> u32 \<Rightarrow> message_impl \<Rightarrow> bytes option" where
  "local_command me client status th m =
     (let (ok, s) = message_serialize m (serializer_new th) in
      if ok then Option.bind (send_local LE me client (ser_data s) (hdr_instance (msg_header m)) (msg_is_reliable m) SEND_ID status) (\<lambda>b. b)
      else None)"

definition received :: "byte \<Rightarrow> message_impl \<Rightarrow> message_impl" where
  "received status m = message_new\<lparr>msg_header := (msg_header m)\<lparr>hdr_length := message_get_length m\<rparr>, msg_payload := msg_payload m,
     msg_is_reliable := msg_is_reliable m, msg_check_result := status\<rparr>"

text \<open>The messages that the local transport takes.\<close>

definition sendable :: "env \<Rightarrow> message_impl \<Rightarrow> bool" where
  "sendable E m \<longleftrightarrow> (case msg_payload m of None \<Rightarrow> False
     | Some p \<Rightarrow> length p + 31 \<le> 4294967287 \<and> (max_message_size E = MESSAGE_SIZE_UNLIMITED \<or> length p + 22 \<le> unat (max_message_size E)))"

text \<open>
  A header without the end tag in its first eight bytes: version zero, and a client identifier
  whose upper byte is neither 0x6D nor 0x07.
\<close>

definition tag_free_client :: "u16 \<Rightarrow> bool" where
  "tag_free_client client \<longleftrightarrow> (ucast (drop_bit 8 client) :: byte) \<noteq> 0x6D \<and> (ucast (drop_bit 8 client) :: byte) \<noteq> 0x07"

lemma header_without_end_tag:
  assumes "cmd_version c = 0" "tag_free_client (cmd_client c)"
  shows "list_all (\<lambda>j. take 4 (drop j (cmd_header LE c @ bs)) \<noteq> its_end_tag) [0..<5]"
  using assms
  by (simp add: cmd_header_def mem_of_def le_bytes_numeral its_end_tag_def tag_free_client_def upt_rec)

definition local_send_command :: "u16 \<Rightarrow> u16 \<Rightarrow> byte \<Rightarrow> message_impl \<Rightarrow> send_command" where
  "local_send_command me client status m =
     (send_command_new SEND_ID (hdr_instance (msg_header m)) (msg_is_reliable m) status client)\<lparr>cmd_client := me, send_message := message_bytes m\<rparr>"

lemma local_send_command_fields [simp]:
  "cmd_id (local_send_command me client status m) = SEND_ID" "cmd_version (local_send_command me client status m) = 0"
  "cmd_client (local_send_command me client status m) = me" "send_message (local_send_command me client status m) = message_bytes m"
  "send_instance (local_send_command me client status m) = hdr_instance (msg_header m)"
  "send_target (local_send_command me client status m) = client"
  "send_reliable (local_send_command me client status m) = msg_is_reliable m" "send_status (local_send_command me client status m) = status"
  by (simp_all add: local_send_command_def send_command_new_def command_new_def)

lemma local_command_eq:
  assumes "sendable E m" "c = local_send_command me client status m" "bs = cmd_header LE (sized (send_pay LE c) c) @ send_pay LE c"
  shows "local_command me client status th m = Some bs" "one_command LE bs" "length bs = 31 + length (the (msg_payload m))"
    "send_deserialize LE bs (send_command_new SEND_ID x1 x2 x3 x4) = Some (sized (send_pay LE c) c, ERROR_OK)"
proof -
  obtain p where p: "msg_payload m = Some p" "length p + 31 \<le> 4294967287"
    using assms(1) by (auto simp: sendable_def split: option.splits)
  have n: "length (send_pay LE c) = 22 + length p" using p(1) by (simp add: send_pay_def assms(2) message_bytes_def)
  have small: "9 + length (send_pay LE c) \<le> MAX_COMMAND_SIZE" and id: "cmd_id c = SEND_ID" using n p(2) assms(2) by simp_all
  have ser: "send_serialize LE c [] = Some (bs, sized (send_pay LE c) c, ERROR_OK)"
    unfolding assms(3) by (rule send.encodes [OF id TrueI small])
  obtain sr where "message_serialize m (serializer_new th) = (True, sr)" "ser_data sr = message_bytes m"
    using message_serialize_bytes by blast
  then show "local_command me client status th m = Some bs"
    using ser by (simp add: local_command_def send_local_def assms(2) local_send_command_def)
  show "one_command LE bs" unfolding assms(3) by (rule one_command_header [OF small])
  show "length bs = 31 + length (the (msg_payload m))" using n p(1) assms(3) by simp
  show "send_deserialize LE bs (send_command_new SEND_ID x1 x2 x3 x4) = Some (sized (send_pay LE c) c, ERROR_OK)"
    unfolding assms(3) by (rule send.decodes [OF id TrueI small])
qed

lemma local_command_bytes:
  assumes "sendable E m" "tag_free_client me" "local_command me client status th m = Some bs"
  shows "acceptable E bs" "bs ! 0 = SEND_ID"
    "\<exists>c. send_deserialize LE bs (send_command_new SEND_ID x1 x2 x3 x4) = Some (c, ERROR_OK) \<and> send_message c = message_bytes m
      \<and> send_instance c = hdr_instance (msg_header m) \<and> send_reliable c = msg_is_reliable m \<and> send_status c = status"
proof -
  let ?c = "local_send_command me client status m"
  let ?pay = "send_pay LE ?c"
  note eq = local_command_eq [OF assms(1) refl refl, where me = me and client = client and status = status]
  have bs: "bs = cmd_header LE (sized ?pay ?c) @ ?pay" using eq(1) [of th] assms(3) by simp
  show "bs ! 0 = SEND_ID" using bs by (simp add: nth_append)
  have "list_all (\<lambda>j. take 4 (drop j bs) \<noteq> its_end_tag) [0..<5]"
    unfolding bs by (rule header_without_end_tag) (use assms(2) in \<open>simp_all add: sized_def\<close>)
  moreover have "one_command LE bs" "length bs = 31 + length (the (msg_payload m))" using eq(2,3) bs by simp_all
  ultimately show "acceptable E bs" using assms(1) unfolding acceptable_def sendable_def by (auto split: option.splits)
  have "send_deserialize LE bs (send_command_new SEND_ID x1 x2 x3 x4) = Some (sized ?pay ?c, ERROR_OK)" using eq(4) bs by simp
  then show "\<exists>c. send_deserialize LE bs (send_command_new SEND_ID x1 x2 x3 x4) = Some (c, ERROR_OK) \<and> send_message c = message_bytes m
      \<and> send_instance c = hdr_instance (msg_header m) \<and> send_reliable c = msg_is_reliable m \<and> send_status c = status"
    by (simp add: sized_def)
qed

lemma on_send_command_received:
  assumes "sendable E m" "tag_free_client me" "local_command me client status th m = Some bs" "\<And>n. reserve n = Some n"
  shows "on_send_command reserve LE (send_command_new SEND_ID a b s t) d bs = Some (Some (received status m))"
proof -
  obtain p where p: "msg_payload m = Some p" "length p < 2 ^ 32 - 8"
    using assms(1) by (auto simp: sendable_def split: option.splits)
  obtain c where c: "send_deserialize LE bs (send_command_new SEND_ID a b s t) = Some (c, ERROR_OK)" "send_message c = message_bytes m"
      "send_instance c = hdr_instance (msg_header m)" "send_reliable c = msg_is_reliable m" "send_status c = status"
    using local_command_bytes(3) [OF assms(1-3)] by blast
  have "des_ok (deserializer_set_data (Some (message_bytes m)) d)" "des_input (deserializer_set_data (Some (message_bytes m)) d) = message_bytes m @ []"
    by (simp_all add: des_ok_def des_input_def deserializer_set_data_def)
  from deserialize_message_bytes [of m p reserve, OF p assms(4) this] show ?thesis
    using c p(1) by (simp add: on_send_command_def received_def header_of_def)
qed

lemma incomplete_end: "incomplete rest w \<Longrightarrow> concat (map frame rest) = w \<Longrightarrow> rest = []"
proof (rule ccontr)
  assume w: "incomplete rest w" "concat (map frame rest) = w" and "rest \<noteq> []"
  then obtain cmd cmds where rest: "rest = cmd # cmds" by (cases rest) auto
  have "length (frame cmd) \<le> length w" using w(2) rest by auto
  moreover have "length w < length (frame cmd)" using w(1) rest by (auto simp: incomplete_def simp del: length_frame)
  ultimately show False by simp
qed


definition example_message :: message_impl where
  "example_message = message_set_payload (Some [1]) (create_request True)"

definition example_local_bytes :: bytes where
  "example_local_bytes = [0x18, 0, 0, 5, 0, 23, 0, 0, 0, 0, 0, 1, 0, 6, 0, 0, 0, 0, 0, 0, 0, 0, 9, 0, 0, 0, 0, 1, 0, 0, 0, 1]"

lemma example_local_bytes: "local_command 5 6 0 0 example_message = Some example_local_bytes"
proof -
  let ?c = "local_send_command 5 6 0 example_message"
  have "sendable example_env example_message"
    by (simp add: sendable_def example_message_def message_set_payload_def example_env_def)
  from local_command_eq(1) [OF this refl refl, of 5 6 0 0] show ?thesis
    by (simp add: cmd_header_def sized_def send_pay_def mem_of_def example_local_bytes_def example_message_def message_set_payload_def
        message_bytes_def header_bytes_def create_request_def message_get_length_def payload_get_length_def
        message_new_def message_header_new_def le_bytes_numeral be_bytes_def)
qed


end
