(* ===== verification/Policy_Manager.thy ===== *)
theory Policy_Manager
  imports Message Policy Ordered
begin

text \<open>
  The policy manager (\<open>security/src/policy_manager_impl.cpp\<close>, behind \<open>security/src/security.cpp\<close>): who may
  request, use and offer which service, with the cache of granted accesses, the updates of
  policies at run time, and the table of the credentials of the clients.

  The lookups in the interval containers of \<open>boost::icl\<close> are the fields of the argument \<open>I\<close>; an interval that
  iteration yields has its \<open>lower()\<close>, its \<open>upper()\<close> and its kind of bounds. Loading policies from
  configuration files is not modelled.
\<close>

section \<open>State\<close>

datatype interval_bounds = Closed | Open | Left_open | Right_open

record ('s, 'm, 'r, 'o, 'c) icl_find =
  find_id :: "u16 \<Rightarrow> 's \<Rightarrow> bool"
  each_id :: "'s \<Rightarrow> (u16 \<times> u16 \<times> interval_bounds) list"
  find_methods :: "u16 \<Rightarrow> 'm \<Rightarrow> 's option"
  each_methods :: "'m \<Rightarrow> ((u16 \<times> u16 \<times> interval_bounds) \<times> 's) list"
  one_interval :: "u16 \<Rightarrow> u16 \<Rightarrow> 's \<Rightarrow> 'm"
  empty_requests :: 'r
  find_request :: "u16 \<Rightarrow> 'r \<Rightarrow> 'm option"
  no_requests :: "'r \<Rightarrow> bool"
  each_request :: "'r \<Rightarrow> ((u16 \<times> u16 \<times> interval_bounds) \<times> 'm) list"
  plus_request :: "u16 \<Rightarrow> u16 \<Rightarrow> 'm \<Rightarrow> 'r \<Rightarrow> 'r"
  empty_offers :: 'o
  find_offer :: "u16 \<Rightarrow> 'o \<Rightarrow> 's option"
  each_offer :: "'o \<Rightarrow> ((u16 \<times> u16 \<times> interval_bounds) \<times> 's) list"
  plus_offer :: "u16 \<Rightarrow> 's \<Rightarrow> 'o \<Rightarrow> 'o"
  find_credentials :: "u32 \<Rightarrow> u32 \<Rightarrow> 'c \<Rightarrow> bool"
  each_credentials :: "'c \<Rightarrow> ((u32 \<times> u32) \<times> (u32 \<times> u32) list) list"

abbreviation (input) ANY_METHOD :: u16 where "ANY_METHOD \<equiv> 0xFFFF"
abbreviation (input) VSOMEIP_SEC_PORT_UNUSED :: u16 where "VSOMEIP_SEC_PORT_UNUSED \<equiv> 0"

type_synonym credentials = "u32 \<times> u32"
type_synonym access_key = "u16 \<times> u16 \<times> u16"

text \<open>
  The map from clients to credentials, its inverse in the order of user and group, and the whitelists: the user
  identifiers as closed ranges, the services by membership.
\<close>

record ('r, 'o, 'c) policy_manager =
  any_client_policies :: "('r, 'o, 'c) policy list"
  is_client_allowed_cache :: "credentials \<Rightarrow> access_key list"
  policy_enabled :: bool
  pm_check_credentials :: bool
  check_whitelist :: bool
  service_interface_whitelist :: "u16 \<Rightarrow> bool"
  uid_whitelist :: "(u32 \<times> u32) list"
  pm_check_routing_credentials :: bool
  is_configured :: bool
  routing_credentials :: credentials
  ids :: "u16 \<Rightarrow> vsomeip_sec_client_t option"
  sec_client_to_clients :: "(credentials \<times> u16 list) list"

definition policy_manager_new :: "('r, 'o, 'c) policy_manager" where
  "policy_manager_new =
     \<lparr>any_client_policies = [], is_client_allowed_cache = (\<lambda>_. []), policy_enabled = False, pm_check_credentials = False,
      check_whitelist = False, service_interface_whitelist = (\<lambda>_. False), uid_whitelist = [],
      pm_check_routing_credentials = False, is_configured = False, routing_credentials = (0, 0),
      ids = Map.empty, sec_client_to_clients = []\<rparr>"

definition is_enabled :: "('r, 'o, 'c) policy_manager \<Rightarrow> bool" where
  "is_enabled pm = policy_enabled pm"

definition is_audit :: "('r, 'o, 'c) policy_manager \<Rightarrow> bool" where
  "is_audit pm = (\<not> pm_check_credentials pm)"

definition sec_compare :: "vsomeip_sec_client_t \<Rightarrow> vsomeip_sec_client_t \<Rightarrow> bool" where
  "sec_compare l r \<longleftrightarrow> sec_port l = sec_port r \<and>
     (if sec_port l = VSOMEIP_SEC_PORT_UNUSED then sec_user l = sec_user r \<and> sec_group l = sec_group r
      else sec_host l = sec_host r \<and> sec_port l = sec_port r)"

definition credentials_of :: "vsomeip_sec_client_t \<Rightarrow> credentials" where
  "credentials_of c = (sec_user c, sec_group c)"

section \<open>Clients and their credentials\<close>

definition store_client_to_sec_client_mapping ::
  "u16 \<Rightarrow> vsomeip_sec_client_t option \<Rightarrow> ('r, 'o, 'c) policy_manager \<Rightarrow> bool \<times> ('r, 'o, 'c) policy_manager" where
  "store_client_to_sec_client_mapping client sec pm =
     (case sec of None \<Rightarrow> (False, pm)
      | Some c \<Rightarrow>
          if sec_port c \<noteq> VSOMEIP_SEC_PORT_UNUSED then (False, pm)
          else (case ids pm client of
              Some old \<Rightarrow> if \<not> sec_compare old c then (True, pm\<lparr>ids := (ids pm)(client \<mapsto> c)\<rparr>) else (True, pm)
            | None \<Rightarrow> (True, pm\<lparr>ids := (ids pm)(client \<mapsto> c)\<rparr>)))"

definition get_client_to_sec_client_mapping :: "u16 \<Rightarrow> ('r, 'o, 'c) policy_manager \<Rightarrow> vsomeip_sec_client_t option" where
  "get_client_to_sec_client_mapping client pm = ids pm client"

definition store_sec_client_to_client_mapping ::
  "vsomeip_sec_client_t option \<Rightarrow> u16 \<Rightarrow> ('r, 'o, 'c) policy_manager \<Rightarrow> ('r, 'o, 'c) policy_manager" where
  "store_sec_client_to_client_mapping sec client pm =
     (case sec of None \<Rightarrow> pm
      | Some c \<Rightarrow>
          if sec_port c \<noteq> VSOMEIP_SEC_PORT_UNUSED then pm
          else let clients = (case map_of (sec_client_to_clients pm) (credentials_of c) of Some cs \<Rightarrow> cs | None \<Rightarrow> [])
            in pm\<lparr>sec_client_to_clients :=
                 map_assign fst (credentials_of c, set_insert id client clients) (sec_client_to_clients pm)\<rparr>)"

definition get_sec_client_to_clients_mapping :: "vsomeip_sec_client_t option \<Rightarrow> ('r, 'o, 'c) policy_manager \<Rightarrow> u16 list option" where
  "get_sec_client_to_clients_mapping sec pm =
     (case sec of None \<Rightarrow> None
      | Some c \<Rightarrow> if sec_port c \<noteq> VSOMEIP_SEC_PORT_UNUSED then None else map_of (sec_client_to_clients pm) (credentials_of c))"

text \<open>Erasing a client from the first set that satisfies \<open>here\<close> and contains it; an empty set is removed.\<close>

fun erase_client :: "(credentials \<Rightarrow> bool) \<Rightarrow> u16 \<Rightarrow> (credentials \<times> u16 list) list \<Rightarrow> bool \<times> (credentials \<times> u16 list) list" where
  "erase_client here client [] = (False, [])"
| "erase_client here client ((c, cs) # rest) =
     (if here c \<and> client \<in> set cs then
        let cs = removeAll client cs in (True, if cs = [] then rest else (c, cs) # rest)
      else let (r, rest) = erase_client here client rest in (r, (c, cs) # rest))"

definition remove_client_to_sec_client_mapping :: "u16 \<Rightarrow> ('r, 'o, 'c) policy_manager \<Rightarrow> bool \<times> ('r, 'o, 'c) policy_manager" where
  "remove_client_to_sec_client_mapping client pm =
     (case ids pm client of
        Some c \<Rightarrow> let (removed, m) = erase_client (\<lambda>k. k = credentials_of c) client (sec_client_to_clients pm)
          in (removed, pm\<lparr>ids := (ids pm)(client := None), sec_client_to_clients := m\<rparr>)
      | None \<Rightarrow> let (removed, m) = erase_client (\<lambda>_. True) client (sec_client_to_clients pm)
          in (False, pm\<lparr>sec_client_to_clients := m\<rparr>))"

definition get_clients :: "u32 \<Rightarrow> u32 \<Rightarrow> ('r, 'o, 'c) policy_manager \<Rightarrow> u16 \<Rightarrow> bool" where
  "get_clients uid gid pm client \<longleftrightarrow>
     (case ids pm client of
        Some c \<Rightarrow> sec_port c = VSOMEIP_SEC_PORT_UNUSED \<and> sec_user c = uid \<and> sec_group c = gid
      | None \<Rightarrow> False)"

section \<open>Checks\<close>

definition policy_applies :: "('s, 'm, 'r, 'o, 'c) icl_find \<Rightarrow> credentials \<Rightarrow> ('r, 'o, 'c) policy \<Rightarrow> bool" where
  "policy_applies I c p \<longleftrightarrow>
     (let has_id = find_credentials I (fst c) (snd c) (pol_credentials p)
      in has_id \<and> pol_allow_who p \<or> \<not> has_id \<and> \<not> pol_allow_who p)"

definition check_credentials ::
  "('s, 'm, 'r, 'o, 'c) icl_find \<Rightarrow> u16 \<Rightarrow> vsomeip_sec_client_t option \<Rightarrow> ('r, 'o, 'c) policy_manager \<Rightarrow> bool \<times> ('r, 'o, 'c) policy_manager" where
  "check_credentials I client sec pm =
     (if \<not> policy_enabled pm then (True, pm)
      else case sec of None \<Rightarrow> (True, pm)
      | Some c \<Rightarrow>
          if sec_port c \<noteq> VSOMEIP_SEC_PORT_UNUSED then (True, pm)
          else if list_ex (policy_applies I (credentials_of c)) (any_client_policies pm) then
            let (stored, pm) = store_client_to_sec_client_mapping client sec pm
            in if \<not> stored then (\<not> pm_check_credentials pm, pm)
               else (True, store_sec_client_to_client_mapping sec client pm)
          else (\<not> pm_check_credentials pm, pm))"

definition check_routing_credentials :: "vsomeip_sec_client_t option \<Rightarrow> ('r, 'o, 'c) policy_manager \<Rightarrow> bool" where
  "check_routing_credentials sec pm =
     (case sec of
        Some c \<Rightarrow> if sec_port c = VSOMEIP_SEC_PORT_UNUSED \<and> routing_credentials pm = credentials_of c then True
                  else \<not> pm_check_routing_credentials pm
      | None \<Rightarrow> \<not> pm_check_routing_credentials pm)"

definition set_routing_credentials :: "u32 \<Rightarrow> u32 \<Rightarrow> ('r, 'o, 'c) policy_manager \<Rightarrow> ('r, 'o, 'c) policy_manager" where
  "set_routing_credentials uid gid pm =
     (if is_configured pm then pm else pm\<lparr>routing_credentials := (uid, gid), is_configured := True\<rparr>)"

definition request_matches ::
  "('s, 'm, 'r, 'o, 'c) icl_find \<Rightarrow> u16 \<Rightarrow> u16 \<Rightarrow> u16 \<Rightarrow> bool \<Rightarrow> ('r, 'o, 'c) policy \<Rightarrow> bool" where
  "request_matches I service inst method is_request_service p =
     (case find_request I service (pol_requests p) of None \<Rightarrow> False
      | Some found_service \<Rightarrow> (case find_methods I inst found_service of None \<Rightarrow> False
         | Some found_instance \<Rightarrow> if \<not> is_request_service then find_id I method found_instance else True))"

text \<open>One round of the loop over the policies: whether this policy grants the access.\<close>

definition policy_grants ::
  "('s, 'm, 'r, 'o, 'c) icl_find \<Rightarrow> credentials \<Rightarrow> u16 \<Rightarrow> u16 \<Rightarrow> u16 \<Rightarrow> bool \<Rightarrow> ('r, 'o, 'c) policy \<Rightarrow> bool" where
  "policy_grants I c service inst method is_request_service p \<longleftrightarrow>
     (let is_matching = request_matches I service inst method is_request_service p in
      policy_applies I c p \<and>
      (if pol_allow_what p then is_matching
       else \<not> is_matching \<and> method \<noteq> ANY_METHOD
          \<or> \<not> is_matching \<and> method = ANY_METHOD \<and> no_requests I (pol_requests p)))"

definition is_client_allowed ::
  "('s, 'm, 'r, 'o, 'c) icl_find \<Rightarrow> vsomeip_sec_client_t option \<Rightarrow> u16 \<Rightarrow> u16 \<Rightarrow> u16 \<Rightarrow> bool \<Rightarrow>
    ('r, 'o, 'c) policy_manager \<Rightarrow> bool \<times> ('r, 'o, 'c) policy_manager" where
  "is_client_allowed I sec service inst method is_request_service pm =
     (if \<not> policy_enabled pm then (True, pm)
      else case sec of None \<Rightarrow> (\<not> pm_check_credentials pm, pm)
      | Some c \<Rightarrow>
          if sec_port c \<noteq> VSOMEIP_SEC_PORT_UNUSED then (True, pm)
          else let its_credentials = credentials_of c; its_key = (service, inst, method) in
            if its_key \<in> set (is_client_allowed_cache pm its_credentials) then (True, pm)
            else if list_ex (policy_grants I its_credentials service inst method is_request_service) (any_client_policies pm) then
              (True, pm\<lparr>is_client_allowed_cache := (is_client_allowed_cache pm)
                 (its_credentials := List.insert its_key (is_client_allowed_cache pm its_credentials))\<rparr>)
            else (\<not> pm_check_credentials pm, pm))"

definition policy_grants_offer :: "('s, 'm, 'r, 'o, 'c) icl_find \<Rightarrow> credentials \<Rightarrow> u16 \<Rightarrow> u16 \<Rightarrow> ('r, 'o, 'c) policy \<Rightarrow> bool" where
  "policy_grants_offer I c service inst p \<longleftrightarrow>
     (let has_offer = (case find_offer I service (pol_offers p) of None \<Rightarrow> False | Some is \<Rightarrow> find_id I inst is)
      in policy_applies I c p \<and> pol_allow_what p = has_offer)"

definition is_offer_allowed ::
  "('s, 'm, 'r, 'o, 'c) icl_find \<Rightarrow> vsomeip_sec_client_t option \<Rightarrow> u16 \<Rightarrow> u16 \<Rightarrow> ('r, 'o, 'c) policy_manager \<Rightarrow> bool" where
  "is_offer_allowed I sec service inst pm =
     (if \<not> policy_enabled pm then True
      else case sec of None \<Rightarrow> \<not> pm_check_credentials pm
      | Some c \<Rightarrow>
          if sec_port c \<noteq> VSOMEIP_SEC_PORT_UNUSED then True
          else if list_ex (policy_grants_offer I (credentials_of c) service inst) (any_client_policies pm) then True
          else \<not> pm_check_credentials pm)"

text \<open>The interface of \<open>security\<close> in its default form: whether the answer is \<open>VSOMEIP_SEC_OK\<close>.\<close>

definition is_client_allowed_to_request ::
  "('s, 'm, 'r, 'o, 'c) icl_find \<Rightarrow> vsomeip_sec_client_t option \<Rightarrow> u16 \<Rightarrow> u16 \<Rightarrow> ('r, 'o, 'c) policy_manager \<Rightarrow> bool \<times> ('r, 'o, 'c) policy_manager" where
  "is_client_allowed_to_request I sec service inst pm =
     (case sec of
        Some c \<Rightarrow> if sec_port c \<noteq> VSOMEIP_SEC_PORT_UNUSED then (True, pm) else is_client_allowed I sec service inst 0 True pm
      | None \<Rightarrow> is_client_allowed I sec service inst 0 True pm)"

definition is_client_allowed_to_access_member ::
  "('s, 'm, 'r, 'o, 'c) icl_find \<Rightarrow> vsomeip_sec_client_t option \<Rightarrow> u16 \<Rightarrow> u16 \<Rightarrow> u16 \<Rightarrow> ('r, 'o, 'c) policy_manager \<Rightarrow> bool \<times> ('r, 'o, 'c) policy_manager" where
  "is_client_allowed_to_access_member I sec service inst member pm =
     (case sec of
        Some c \<Rightarrow> if sec_port c \<noteq> VSOMEIP_SEC_PORT_UNUSED then (True, pm) else is_client_allowed I sec service inst member False pm
      | None \<Rightarrow> is_client_allowed I sec service inst member False pm)"

definition is_client_allowed_to_offer ::
  "('s, 'm, 'r, 'o, 'c) icl_find \<Rightarrow> vsomeip_sec_client_t option \<Rightarrow> u16 \<Rightarrow> u16 \<Rightarrow> ('r, 'o, 'c) policy_manager \<Rightarrow> bool" where
  "is_client_allowed_to_offer I sec service inst pm =
     (case sec of
        Some c \<Rightarrow> if sec_port c \<noteq> VSOMEIP_SEC_PORT_UNUSED then True else is_offer_allowed I sec service inst pm
      | None \<Rightarrow> is_offer_allowed I sec service inst pm)"

definition authenticate_router :: "vsomeip_sec_client_t option \<Rightarrow> ('r, 'o, 'c) policy_manager \<Rightarrow> bool" where
  "authenticate_router sec pm =
     (case sec of
        Some c \<Rightarrow> if sec_port c \<noteq> VSOMEIP_SEC_PORT_UNUSED then True else check_routing_credentials sec pm
      | None \<Rightarrow> check_routing_credentials sec pm)"

section \<open>Changes at run time\<close>

definition get_bounds :: "u16 \<times> u16 \<times> interval_bounds \<Rightarrow> u16 \<times> u16" where
  "get_bounds i =
     (case i of (l, u, b) \<Rightarrow>
        (case b of Open \<Rightarrow> (l + 1, u - 1) | Left_open \<Rightarrow> (l + 1, u) | Right_open \<Rightarrow> (l, u - 1) | Closed \<Rightarrow> (l, u)))"

text \<open>The loops over services count in 16 bits: with an upper bound of \<open>0xFFFF\<close> they do not end.\<close>

partial_function (option) each_service :: "(u16 \<Rightarrow> 'x \<Rightarrow> 'x) \<Rightarrow> u16 \<Rightarrow> u16 \<Rightarrow> 'x \<Rightarrow> 'x option" where
  "each_service f s upper acc = (if s \<le> upper then each_service f (s + 1) upper (f s acc) else Some acc)"

declare each_service.simps [code]

fun add_each :: "(u16 \<Rightarrow> 'v \<Rightarrow> 'x \<Rightarrow> 'x) \<Rightarrow> ((u16 \<times> u16 \<times> interval_bounds) \<times> 'v) list \<Rightarrow> 'x \<Rightarrow> 'x option" where
  "add_each add [] x = Some x"
| "add_each add ((i, v) # es) x = do {
     x \<leftarrow> each_service (\<lambda>s. add s v) (fst (get_bounds i)) (snd (get_bounds i)) x;
     add_each add es x }"

definition is_policy_for :: "('s, 'm, 'r, 'o, 'c) icl_find \<Rightarrow> u32 \<Rightarrow> u32 \<Rightarrow> ('r, 'o, 'c) policy \<Rightarrow> ('r, 'o, 'c) policy \<Rightarrow> bool" where
  "is_policy_for I uid gid new p \<longleftrightarrow>
     (case each_credentials I (pol_credentials p) of
        [(u, [g])] \<Rightarrow> u = (uid, uid) \<and> g = (gid, gid) \<and> pol_allow_who p = pol_allow_who new
      | _ \<Rightarrow> False)"

definition extend_policy :: "('s, 'm, 'r, 'o, 'c) icl_find \<Rightarrow> ('r, 'o, 'c) policy \<Rightarrow> ('r, 'o, 'c) policy \<Rightarrow> ('r, 'o, 'c) policy option" where
  "extend_policy I new p = do {
     rs \<leftarrow> add_each (\<lambda>s. plus_request I s s) (each_request I (pol_requests new)) (pol_requests p);
     os \<leftarrow> add_each (plus_offer I) (each_offer I (pol_offers new)) (pol_offers p);
     Some (p\<lparr>pol_requests := rs, pol_offers := os\<rparr>) }"

fun extend_first :: "('p \<Rightarrow> bool) \<Rightarrow> ('p \<Rightarrow> 'p option) \<Rightarrow> 'p \<Rightarrow> 'p list \<Rightarrow> 'p list option" where
  "extend_first fits ext new [] = Some [new]"
| "extend_first fits ext new (p # ps) =
     (if fits p then map_option (\<lambda>p. p # ps) (ext p) else map_option ((#) p) (extend_first fits ext new ps))"

definition erase_cache :: "credentials \<Rightarrow> ('r, 'o, 'c) policy_manager \<Rightarrow> ('r, 'o, 'c) policy_manager" where
  "erase_cache c pm = pm\<lparr>is_client_allowed_cache := (is_client_allowed_cache pm)(c := [])\<rparr>"

definition update_security_policy ::
  "('s, 'm, 'r, 'o, 'c) icl_find \<Rightarrow> u32 \<Rightarrow> u32 \<Rightarrow> ('r, 'o, 'c) policy \<Rightarrow> ('r, 'o, 'c) policy_manager \<Rightarrow> ('r, 'o, 'c) policy_manager option" where
  "update_security_policy I uid gid new pm = do {
     ps \<leftarrow> extend_first (is_policy_for I uid gid new) (extend_policy I new) new (any_client_policies pm);
     Some (erase_cache (uid, gid) (pm\<lparr>any_client_policies := ps\<rparr>)) }"

definition has_allow_credentials :: "('s, 'm, 'r, 'o, 'c) icl_find \<Rightarrow> u32 \<Rightarrow> u32 \<Rightarrow> ('r, 'o, 'c) policy \<Rightarrow> bool" where
  "has_allow_credentials I uid gid p \<longleftrightarrow> find_credentials I uid gid (pol_credentials p) \<and> pol_allow_who p"

definition remove_security_policy ::
  "('s, 'm, 'r, 'o, 'c) icl_find \<Rightarrow> u32 \<Rightarrow> u32 \<Rightarrow> ('r, 'o, 'c) policy_manager \<Rightarrow> bool \<times> ('r, 'o, 'c) policy_manager" where
  "remove_security_policy I uid gid pm =
     (if any_client_policies pm = [] then (False, pm)
      else (list_ex (has_allow_credentials I uid gid) (any_client_policies pm),
            erase_cache (uid, gid) (pm\<lparr>any_client_policies := filter (\<lambda>p. \<not> has_allow_credentials I uid gid p) (any_client_policies pm)\<rparr>)))"

definition add_security_credentials ::
  "('s, 'm, 'r, 'o, 'c) icl_find \<Rightarrow> u32 \<Rightarrow> u32 \<Rightarrow> ('r, 'o, 'c) policy \<Rightarrow> ('r, 'o, 'c) policy_manager \<Rightarrow> ('r, 'o, 'c) policy_manager" where
  "add_security_credentials I uid gid new pm =
     (if list_ex (has_allow_credentials I uid gid) (any_client_policies pm) then pm
      else pm\<lparr>any_client_policies := any_client_policies pm @ [new]\<rparr>)"

text \<open>The whitelist of updates: for every service range, the first service that is not listed ends the loop.\<close>

partial_function (option) all_whitelisted :: "(u16 \<Rightarrow> bool) \<Rightarrow> bool \<Rightarrow> u16 \<Rightarrow> u16 \<Rightarrow> bool option" where
  "all_whitelisted white has_service s upper =
     (if s \<le> upper then if \<not> white s then Some False else all_whitelisted white True (s + 1) upper
      else Some has_service)"

declare all_whitelisted.simps [code]

fun requests_whitelisted :: "(u16 \<Rightarrow> bool) \<Rightarrow> ((u16 \<times> u16 \<times> interval_bounds) \<times> 'v) list \<Rightarrow> bool option" where
  "requests_whitelisted white [] = Some True"
| "requests_whitelisted white (((l, u, _), _) # es) = do {
     has_service \<leftarrow> all_whitelisted white False l u;
     if has_service then requests_whitelisted white es else Some False }"

definition is_policy_removal_allowed :: "u32 \<Rightarrow> ('r, 'o, 'c) policy_manager \<Rightarrow> bool" where
  "is_policy_removal_allowed uid pm \<longleftrightarrow> list_ex (\<lambda>(l, u). l \<le> uid \<and> uid \<le> u) (uid_whitelist pm) \<or> \<not> check_whitelist pm"

definition is_policy_update_allowed ::
  "('s, 'm, 'r, 'o, 'c) icl_find \<Rightarrow> u32 \<Rightarrow> ('r, 'o, 'c) policy option \<Rightarrow> ('r, 'o, 'c) policy_manager \<Rightarrow> bool option" where
  "is_policy_update_allowed I uid new pm =
     (if list_ex (\<lambda>(l, u). l \<le> uid \<and> uid \<le> u) (uid_whitelist pm) \<and> new \<noteq> None then do {
        ok \<leftarrow> requests_whitelisted (service_interface_whitelist pm) (each_request I (pol_requests (the new)));
        Some (ok \<or> \<not> check_whitelist pm) }
      else Some (\<not> check_whitelist pm))"

text \<open>
  The policies of the requesters of what a policy offers; \<open>at\<close> is the place of that policy in
  \<open>any_client_policies_\<close>, if it is there.
\<close>

definition overlap :: "u16 \<times> u16 \<Rightarrow> u16 \<times> u16 \<Rightarrow> (u16 \<times> u16) option" where
  "overlap a b = (if fst a \<le> snd b \<and> fst b \<le> snd a then Some (max (fst a) (fst b), min (snd a) (snd b)) else None)"

fun add_overlaps ::
  "('s, 'm, 'r, 'o, 'c) icl_find \<Rightarrow> u16 \<times> u16 \<Rightarrow> u16 \<times> u16 \<Rightarrow> 's \<Rightarrow> (u16 \<times> u16 \<times> interval_bounds) list \<Rightarrow> 'r \<Rightarrow> 'r" where
  "add_overlaps I services i methods [] rs = rs"
| "add_overlaps I services i methods (k # ks) rs =
     add_overlaps I services i methods ks
       (case overlap i (get_bounds k) of
          Some (l, u) \<Rightarrow> plus_request I (fst services) (snd services) (one_interval I l u methods) rs
        | None \<Rightarrow> rs)"

definition add_request_overlaps ::
  "('s, 'm, 'r, 'o, 'c) icl_find \<Rightarrow> (u16 \<times> u16 \<times> interval_bounds) \<times> 's \<Rightarrow> (u16 \<times> u16 \<times> interval_bounds) \<times> 'm \<Rightarrow> 'r \<Rightarrow> 'r" where
  "add_request_overlaps I off r rs =
     (case overlap (get_bounds (fst off)) (get_bounds (fst r)) of None \<Rightarrow> rs
      | Some services \<Rightarrow>
          fold (\<lambda>i rs. fold (\<lambda>j rs. add_overlaps I services (get_bounds i) (snd j) (each_id I (snd j)) rs) (each_methods I (snd r)) rs)
            (each_id I (snd off)) rs)"

definition requester_policy ::
  "('s, 'm, 'r, 'o, 'c) icl_find \<Rightarrow> (u16 \<times> u16 \<times> interval_bounds) \<times> 's \<Rightarrow> ('r, 'o, 'c) policy \<Rightarrow> ('r, 'o, 'c) policy" where
  "requester_policy I off p =
     \<lparr>pol_credentials = pol_credentials p, pol_allow_who = False,
      pol_requests = fold (add_request_overlaps I off) (each_request I (pol_requests p)) (empty_requests I),
      pol_offers = empty_offers I, pol_allow_what = False\<rparr>"

text \<open>
  The policies in the order in which they are created. The source collects them in a set of pointers ordered by address;
  here the order is of no consequence.
\<close>

definition get_requester_policies ::
  "('s, 'm, 'r, 'o, 'c) icl_find \<Rightarrow> nat option \<Rightarrow> ('r, 'o, 'c) policy \<Rightarrow> ('r, 'o, 'c) policy_manager \<Rightarrow> ('r, 'o, 'c) policy list" where
  "get_requester_policies I at new pm =
     concat (map (\<lambda>off. filter (\<lambda>p. \<not> no_requests I (pol_requests p))
         (map (\<lambda>(n, p). requester_policy I off p)
            (filter (\<lambda>(n, p). at \<noteq> Some n) (enumerate 0 (any_client_policies pm)))))
       (each_offer I (pol_offers new)))"

section \<open>The table of clients\<close>

text \<open>Every client with stored credentials is among the clients of these credentials.\<close>

definition clients_listed :: "('r, 'o, 'c) policy_manager \<Rightarrow> bool" where
  "clients_listed pm \<longleftrightarrow>
     (\<forall>client c. ids pm client = Some c \<longrightarrow> sec_port c = VSOMEIP_SEC_PORT_UNUSED \<and>
        (\<exists>cs. map_of (sec_client_to_clients pm) (credentials_of c) = Some cs \<and> client \<in> set cs))"

lemma snd_erase_client:
  "snd (erase_client here client ((k, cs) # rest)) =
     (if here k \<and> client \<in> set cs then if removeAll client cs = [] then rest else (k, removeAll client cs) # rest
      else (k, cs) # snd (erase_client here client rest))"
  by (simp add: Let_def split: prod.split)

lemma erase_client_others:
  assumes "map_of al k = Some cs" "x \<in> set cs" "x \<noteq> client"
  shows "\<exists>cs. map_of (snd (erase_client here client al)) k = Some cs \<and> x \<in> set cs"
  using assms
proof (induction al)
  case (Cons a al)
  obtain k' cs' where a: "a = (k', cs')" by (cases a)
  have "removeAll client cs \<noteq> []" using Cons.prems(2,3) by (auto simp: filter_empty_conv removeAll_filter_not_eq)
  then show ?case using Cons by (auto simp: a snd_erase_client simp del: erase_client.simps split: if_splits)
qed simp

lemma store_client_to_sec_client_mapping_True:
  assumes "store_client_to_sec_client_mapping client sec pm = (True, pm')"
  obtains c d where "sec = Some c" "sec_port c = VSOMEIP_SEC_PORT_UNUSED" "pm' = pm\<lparr>ids := (ids pm)(client \<mapsto> d)\<rparr>"
    "sec_port d = VSOMEIP_SEC_PORT_UNUSED" "credentials_of d = credentials_of c"
proof -
  obtain c where c: "sec = Some c" "sec_port c = VSOMEIP_SEC_PORT_UNUSED"
    using assms by (auto simp: store_client_to_sec_client_mapping_def split: option.splits if_splits)
  show ?thesis
  proof (cases "\<exists>d. ids pm client = Some d \<and> sec_compare d c")
    case True
    then obtain d where d: "ids pm client = Some d" "sec_compare d c" by blast
    then have "pm' = pm\<lparr>ids := (ids pm)(client \<mapsto> d)\<rparr>"
      using assms c by (auto simp: store_client_to_sec_client_mapping_def map_upd_triv)
    with d c show ?thesis by (intro that [of c d]) (auto simp: sec_compare_def credentials_of_def split: if_splits)
  next
    case False
    then have "pm' = pm\<lparr>ids := (ids pm)(client \<mapsto> c)\<rparr>"
      using assms c by (auto simp: store_client_to_sec_client_mapping_def split: option.splits)
    with c show ?thesis by (intro that [of c c]) auto
  qed
qed

lemma store_clients_listed:
  assumes "clients_listed pm" "store_client_to_sec_client_mapping client sec pm = (True, pm')"
  shows "clients_listed (store_sec_client_to_client_mapping sec client pm')"
  using assms(2)
proof (rule store_client_to_sec_client_mapping_True)
  fix c d
  assume h: "sec = Some c" "sec_port c = VSOMEIP_SEC_PORT_UNUSED" "pm' = pm\<lparr>ids := (ids pm)(client \<mapsto> d)\<rparr>"
    "sec_port d = VSOMEIP_SEC_PORT_UNUSED" "credentials_of d = credentials_of c"
  have ins: "set (set_insert id client cs) = insert client (set cs)" for cs
    using keys_set_insert [of id client cs] by simp
  show ?thesis
    unfolding clients_listed_def
  proof (intro allI impI)
    fix x e
    assume "ids (store_sec_client_to_client_mapping sec client pm') x = Some e"
    then have "x = client \<and> e = d \<or> x \<noteq> client \<and> ids pm x = Some e"
      using h by (auto simp: store_sec_client_to_client_mapping_def Let_def split: if_splits)
    then show "sec_port e = VSOMEIP_SEC_PORT_UNUSED \<and>
      (\<exists>cs. map_of (sec_client_to_clients (store_sec_client_to_client_mapping sec client pm')) (credentials_of e) = Some cs \<and> x \<in> set cs)"
      using assms(1) h by (fastforce simp: store_sec_client_to_client_mapping_def clients_listed_def Let_def map_of_map_assign ins)
  qed
qed

lemma check_credentials_listed: "clients_listed pm \<Longrightarrow> clients_listed (snd (check_credentials I client sec pm))"
  using store_clients_listed [of pm client sec]
  by (auto simp: check_credentials_def store_client_to_sec_client_mapping_def Let_def split: option.splits prod.splits)

lemma remove_clients_listed:
  assumes "clients_listed pm"
  shows "clients_listed (snd (remove_client_to_sec_client_mapping client pm))"
proof -
  have "\<exists>cs. map_of (snd (erase_client here client (sec_client_to_clients pm))) (credentials_of c) = Some cs \<and> x \<in> set cs"
    if "ids pm x = Some c" "x \<noteq> client" for here x c
    using assms that erase_client_others [of "sec_client_to_clients pm" "credentials_of c" _ x client here]
    by (auto simp: clients_listed_def)
  moreover have "x \<noteq> client" if "ids pm x = Some c" "ids pm client = None" for x c
    using that by auto
  ultimately show ?thesis
    using assms by (fastforce simp: remove_client_to_sec_client_mapping_def clients_listed_def split_beta split: option.splits if_splits)
qed

text \<open>A client of a user is among those that the inverse map gives for the user.\<close>

lemma get_clients_listed:
  assumes "clients_listed pm" "get_clients uid gid pm client" "sec_port c = VSOMEIP_SEC_PORT_UNUSED" "credentials_of c = (uid, gid)"
  shows "\<exists>cs. get_sec_client_to_clients_mapping (Some c) pm = Some cs \<and> client \<in> set cs"
proof -
  obtain d where d: "ids pm client = Some d" "credentials_of d = (uid, gid)"
    using assms(2) by (auto simp: get_clients_def credentials_of_def split: option.splits)
  then have "\<exists>cs. map_of (sec_client_to_clients pm) (credentials_of d) = Some cs \<and> client \<in> set cs"
    using assms(1) unfolding clients_listed_def by blast
  then show ?thesis using d(2) assms(3,4) by (simp add: get_sec_client_to_clients_mapping_def)
qed

text \<open>When the credentials of a client change, it stays listed for the old ones, also after it is removed.\<close>

lemma changed_client_stays_listed:
  "let old = \<lparr>sec_user = 1, sec_group = 1, sec_host = 0, sec_port = 0\<rparr>; new = old\<lparr>sec_user := 2\<rparr>;
       put = (\<lambda>c pm. store_sec_client_to_client_mapping (Some c) 7 (snd (store_client_to_sec_client_mapping 7 (Some c) pm)));
       pm = snd (remove_client_to_sec_client_mapping 7 (put new (put old policy_manager_new)))
   in ids pm 7 = None \<and> get_sec_client_to_clients_mapping (Some old) pm = Some [7]"
  by code_simp

end
