(* ===== verification/Uds_Security.thy ===== *)
theory Uds_Security
  imports Uds_Stream
begin

text \<open>
  Which clients the connections of the routing endpoint let through to the routing manager when security is enabled.
\<close>

section \<open>Clients that the policy admits\<close>

text \<open>
  The state of a connection of the routing endpoint: once a client is assigned, its credentials have been
  checked, and the host has only got commands of clients whose credentials were checked.
\<close>

definition vetted :: "env \<Rightarrow> sec_client \<Rightarrow> connection \<Rightarrow> server \<Rightarrow> bool" where
  "vetted E sec c s \<longleftrightarrow> bound_sec_client c = sec \<and> (assigned_client c \<longrightarrow> check_credentials E (bound_client c) sec)
     \<and> list_all (\<lambda>a. case a of On_message _ b _ \<Rightarrow> check_credentials E b sec | _ \<Rightarrow> True) (actions s)"

lemma vetted_server_send: "vetted E sec c s \<Longrightarrow> server_send e data s = Some (r, s') \<Longrightarrow> vetted E sec c s'"
  by (auto simp: vetted_def server_send_def emit_def split: if_splits option.splits bind_splits)

lemma vetted_cong:
  assumes "bound_sec_client c' = bound_sec_client c" "assigned_client c' = assigned_client c" "bound_client c' = bound_client c" "actions s' = actions s"
  shows "vetted E sec c' s' \<longleftrightarrow> vetted E sec c s"
  using assms by (simp add: vetted_def)

lemma vetted_send_client_identifier:
  assumes "vetted E sec c s" "send_client_identifier e client s = Some s'"
  shows "vetted E sec c s'"
proof -
  let ?c = "(assign_client_ack_command_new client)\<lparr>cmd_client := VSOMEIP_ROUTING_CLIENT\<rparr>"
  obtain bs c' err where "assign_client_ack_serialize e ?c [] = Some (bs, c', err)"
    using assms(2) by (auto simp: send_client_identifier_def split: bind_splits)
  then show ?thesis
    using assms vetted_server_send [OF assms(1), of e bs]
    by (auto simp: send_client_identifier_def split: if_splits)
qed

lemma vetted_register_client:
  assumes "is_security_enabled E" "vetted E sec c s" "register_client E e i bs c s = Some (b, c', s')"
  shows "vetted E sec c' s'"
proof -
  obtain client s1 where a: "assign_client E e bs s = Some (client, s1)"
    using assms(3) by (auto simp: register_client_def split: bind_splits)
  have s1: "actions s1 = actions s"
    using a by (auto simp: assign_client_def split: bind_splits if_splits prod.splits)
  obtain added s2 where b: "add_connection client i s1 = (added, s2)" by fastforce
  have s2: "actions s2 = actions s" using b s1 by (auto simp: add_connection_def split: if_splits)
  let ?s3 = "emit (Add_known_client client (bound_client_host c)) s2"
  have v: "vetted E sec c s2" "vetted E sec (connection_stop c) s2" "vetted E sec (connection_stop c) ?s3" "vetted E sec c ?s3"
    using assms(2) s2 by (simp_all add: vetted_def connection_stop_def emit_def)
  show ?thesis
  proof (cases "added \<and> check_credentials E client (bound_sec_client c)")
    case True
    then obtain s4 where s4: "send_client_identifier e client ?s3 = Some s4"
      "c' = c\<lparr>bound_client := client, assigned_client := True\<rparr>" "s' = s4"
      using assms(1,3) a b by (auto simp: register_client_def split: bind_splits)
    then show ?thesis using vetted_send_client_identifier [OF v(4) s4(1)] True by (simp add: vetted_def)
  next
    case False
    then have "c' = connection_stop c" "actions s' = actions s2 \<or> actions s' = actions ?s3"
      using assms(1,3) a b by (auto simp: register_client_def Let_def remove_connection_def split: if_splits)
    then show ?thesis using v by (auto simp: vetted_def)
  qed
qed

lemma vetted_handle_command:
  assumes "is_security_enabled E" "is_routing_endpoint E" "vetted E sec c s" "handle_command E e ug i b bs c s = Some (st, c', s')"
  shows "vetted E sec c' s'"
  using assms vetted_register_client [OF assms(1,3), of e i bs st c' s']
  by (auto simp: handle_command_def vetted_def emit_def split: if_splits)

lemma vetted_no_command: "no_command b gap c = Some (v, c') \<Longrightarrow> vetted E sec c' s \<longleftrightarrow> vetted E sec c s"
  by (auto simp: no_command_def Let_def vetted_def split: if_splits bind_splits)

lemma vetted_incomplete_command: "incomplete_command gap st w c = (b, g, c') \<Longrightarrow> vetted E sec c' s \<longleftrightarrow> vetted E sec c s"
  by (auto simp: incomplete_command_def Let_def vetted_def split: if_splits)

lemma vetted_take_command:
  assumes "is_security_enabled E" "is_routing_endpoint E" "vetted E sec c s"
    and t: "take_command E e ug i gap st w en c s = Some (v, g, c', s')"
  shows "vetted E sec c' s'"
proof -
  obtain complete where co: "(if recv_buffer_size c + gap < en + 4 then Some False
      else map_option (\<lambda>w. w = its_end_tag) (mem_sub (recv_buffer c) en TAG_SIZE)) = Some complete"
    using t by (auto simp: take_command_def Let_def split: bind_splits)
  obtain b g1 c1 where 1: "(if complete then (False, gap, c) else incomplete_command gap st w c) = (b, g1, c1)"
    by (metis prod_cases3)
  have v1: "vetted E sec c1 s" using assms(3) 1 vetted_incomplete_command by (auto split: if_splits)
  show ?thesis
  proof (cases "\<not> b \<and> en + 3 < recv_buffer_size c1 + g1")
    case True
    obtain h bs stopped c2 s2 where h: "mem_at (recv_buffer c) st = Some h" "mem_range (recv_buffer c) st en = Some bs"
        "handle_command E e ug i h bs c1 s = Some (stopped, c2, s2)"
      using t True unfolding take_command_def Let_def co bind.bind_lunit 1 prod.case by (auto split: bind_splits)
    from vetted_handle_command [OF assms(1,2) v1 h(3)] have v2: "vetted E sec c2 s2" .
    obtain k where "calculate_shrink_count E c2 = c2\<lparr>shrink_count := k\<rparr>" using calculate_shrink_count_other by blast
    then show ?thesis using t True h v2 unfolding take_command_def Let_def co bind.bind_lunit 1 prod.case by (auto simp: vetted_def split: if_splits)
  next
    case False
    then obtain v' c2 where "no_command b g1 c1 = Some (v', c2)" "c' = c2" "s' = s"
      using t unfolding take_command_def Let_def co bind.bind_lunit 1 prod.case by (auto split: bind_splits)
    then show ?thesis using vetted_no_command v1 by metis
  qed
qed

lemma vetted_receive_iteration:
  assumes "is_security_enabled E" "is_routing_endpoint E" "vetted E sec c s"
    and t: "receive_iteration E e ug i gap c s = Some (v, g, c', s')"
  shows "vetted E sec c' s'"
proof -
  obtain st where st: "find_tag its_start_tag (recv_buffer c) gap (recv_buffer_size c + gap) = Some st"
    using t by (auto simp: receive_iteration_def Let_def split: bind_splits)
  show ?thesis
  proof (cases "st + 3 = recv_buffer_size c + gap")
    case True
    then show ?thesis using t st assms(3) vetted_no_command [where E = E and sec = sec]
      by (auto simp: receive_iteration_def Let_def split: bind_splits)
  next
    case False
    then show ?thesis
      using t st assms(3) vetted_take_command [OF assms(1-3)]
      by (auto simp: receive_iteration_def Let_def vetted_def split: bind_splits if_splits)
  qed
qed


lemma vetted_receive_loop:
  assumes "is_security_enabled E" "is_routing_endpoint E" "vetted E sec c s" "receive_loop E e ug i gap c s = Some r"
  shows "vetted E sec (fst (snd r)) (snd (snd r))"
proof -
  let ?P = "\<lambda>E (e :: endianess_e) (ug :: sec_client) (i :: nat) (gap :: nat) c s (r :: verdict \<times> connection \<times> server).
    is_security_enabled E \<longrightarrow> is_routing_endpoint E \<longrightarrow> vetted E sec c s \<longrightarrow> vetted E sec (fst (snd r)) (snd (snd r))"
  have "?P E e ug i gap c s r"
  proof (rule receive_loop.raw_induct [where P = ?P, OF _ assms(4)])
    fix f :: "env \<Rightarrow> endianess_e \<Rightarrow> sec_client \<Rightarrow> nat \<Rightarrow> nat \<Rightarrow> connection \<Rightarrow> server \<Rightarrow> (verdict \<times> connection \<times> server) option"
      and E :: env and e :: endianess_e and ug :: sec_client and i gap :: nat and c :: connection and s :: server and r :: "verdict \<times> connection \<times> server"
    assume IH: "\<And>E e ug i gap c s r. f E e ug i gap c s = Some r \<Longrightarrow> ?P E e ug i gap c s r"
      and step: "(receive_iteration E e ug i gap c s \<bind> (\<lambda>(v, gap, c, s). if v = Found \<and> recv_buffer_size c > 0 then f E e ug i gap c s else Some (v, c, s))) = Some r"
    obtain v g c1 s1 where it: "receive_iteration E e ug i gap c s = Some (v, g, c1, s1)"
      using step by (auto split: bind_splits)
    show "?P E e ug i gap c s r"
    proof (intro impI)
      assume E: "is_security_enabled E" "is_routing_endpoint E" and v: "vetted E sec c s"
      have v1: "vetted E sec c1 s1" using vetted_receive_iteration [OF E v it] .
      show "vetted E sec (fst (snd r)) (snd (snd r))"
      proof (cases "v = Found \<and> recv_buffer_size c1 > 0")
        case True
        then have "f E e ug i g c1 s1 = Some r" using step it by simp
        then show ?thesis using IH E v1 by blast
      next
        case False
        then have "r = (v, c1, s1)" using step it by auto
        then show ?thesis using v1 by simp
      qed
    qed
  qed
  then show ?thesis using assms by simp
qed

lemma vetted_receive_data:
  assumes "is_security_enabled E" "is_routing_endpoint E" "vetted E sec c s" "receive_data E e ug i bs c s = Some (c', s')"
  shows "vetted E sec c' s'"
proof -
  obtain buf where m: "mem_write (recv_buffer c) (recv_buffer_size c) bs = Some buf"
    using assms(4) by (auto simp: receive_data_def split: bind_splits)
  let ?c = "c\<lparr>recv_buffer := buf, pending_read := None, recv_buffer_size := recv_buffer_size c + length bs\<rparr>"
  have start: "vetted E sec (connection_start E x) s" if "vetted E sec x s" for x s
    using that by (auto simp: vetted_def connection_start_def Let_def split_def)
  have stop: "vetted E sec (shutdown_and_close x) (if bound_client x \<noteq> VSOMEIP_CLIENT_UNSET
      then emit (Remove_mapping (bound_client x)) (remove_connection (bound_client x) s) else s)" if "vetted E sec x s" for x s
    using that by (auto simp: vetted_def shutdown_and_close_def emit_def remove_connection_def)
  have v: "vetted E sec ?c s" "vetted E sec (c\<lparr>recv_buffer := buf, pending_read := None\<rparr>) s" using assms(3) by (simp_all add: vetted_def)
  show ?thesis
  proof (cases "bs = []")
    case True
    then show ?thesis using assms(4) m start [OF v(2)] stop [OF v(2)] by (auto simp: receive_data_def receive_cbk_def split: if_splits)
  next
    case False
    then obtain v c1 s1 where l: "receive_loop E e ug i 0 ?c s = Some (v, c1, s1)"
      using assms(4) m by (auto simp: receive_data_def receive_cbk_def split: bind_splits if_splits)
    have "vetted E sec c1 s1" using vetted_receive_loop [OF assms(1,2) v(1) l] by simp
    then show ?thesis
      using assms(4) m l False start [of c1 s1] stop [of c1 s1] by (auto simp: receive_data_def receive_cbk_def split: if_splits)
  qed
qed


lemma vetted_receive_chunks:
  assumes "is_security_enabled E" "is_routing_endpoint E" "vetted E sec c s" "receive_chunks E e ug i chunks (c, s) = Some (c', s')"
  shows "vetted E sec c' s'"
  using assms(3,4)
proof (induction chunks arbitrary: c s)
  case (Cons bs chunks)
  then obtain c1 s1 where "receive_data E e ug i bs c s = Some (c1, s1)" "receive_chunks E e ug i chunks (c1, s1) = Some (c', s')"
    by (auto split: if_splits bind_splits)
  then show ?case using Cons vetted_receive_data [OF assms(1,2), of sec c s e ug i bs c1 s1] by blast
qed simp

text \<open>
  C6. Only admitted clients get through to the routing manager: on a routing endpoint with security enabled,
  whatever a peer sends over an accepted connection and however it is cut into reads, every command that
  the host gets carries a client identifier for which the policy manager has accepted the credentials that the
  kernel reported for that connection.
\<close>

theorem uds_only_vetted_clients:
  assumes "is_security_enabled E" "is_routing_endpoint E" "actions s = []"
    and "c = connection_start E ((connection_new E)\<lparr>bound_sec_client := sec, bound_client_host := host\<rparr>)"
    and "receive_chunks E e ug i chunks (c, s) = Some (c', s')"
  shows "list_all (\<lambda>a. case a of On_message cmd b _ \<Rightarrow> check_credentials E b sec | _ \<Rightarrow> True) (actions s')"
proof -
  have "vetted E sec c s"
    using assms(1,3) by (simp add: assms(4) vetted_def connection_start_def connection_new_def Let_def)
  from vetted_receive_chunks [OF assms(1,2) this assms(5)] show ?thesis by (simp add: vetted_def)
qed

definition secured_env :: env where
  "secured_env = example_env\<lparr>is_routing_endpoint := True, is_security_enabled := True, check_credentials := (\<lambda>b sec. b = 5 \<and> sec = (1000, 100))\<rparr>"

theorem uds_only_vetted_clients_witness:
  "\<exists>c' s'. receive_chunks secured_env LE (1000, 100) 0 [its_start_tag @ [0x00, 0x00]]
      (connection_start secured_env ((connection_new secured_env)\<lparr>bound_sec_client := (1000, 100), bound_client_host := []\<rparr>), example_server) = Some (c', s')
    \<and> list_all (\<lambda>a. case a of On_message cmd b _ \<Rightarrow> check_credentials secured_env b (1000, 100) | _ \<Rightarrow> True) (actions s')"
proof -
  let ?c = "connection_start secured_env ((connection_new secured_env)\<lparr>bound_sec_client := (1000, 100), bound_client_host := []\<rparr>)"
  let ?bs = "its_start_tag @ [0x00, 0x00]" and ?rest = "[[0x00, 0, 0, 5, 0, 0, 0, 0, 0]]"
  have "incomplete ?rest ?bs" by (simp add: incomplete_def frame_def)
  moreover have "acceptable secured_env (hd ?rest)"
    by (simp add: acceptable_def one_command_def secured_env_def example_env_def its_end_tag_def load_def of_mem_def upt_rec)
  moreover have "listening ?c []" "pending_read ?c = Some 21"
    by (simp_all add: listening_def connection_start_def connection_new_def recv_buffer_size_initial_def Let_def)
  ultimately obtain c' where "receive_data secured_env LE (1000, 100) 0 ?bs ?c example_server = Some (c', example_server)"
    using receive_data_listening [of ?c "[]" ?bs "[]" ?bs ?rest secured_env LE "(1000, 100)" 0 example_server] by (auto simp: its_start_tag_def)
  with \<open>pending_read ?c = Some 21\<close>
  have r: "receive_chunks secured_env LE (1000, 100) 0 [?bs] (?c, example_server) = Some (c', example_server)" by simp
  have "is_security_enabled secured_env" "is_routing_endpoint secured_env" "actions example_server = []"
    by (simp_all add: secured_env_def example_server_def)
  from uds_only_vetted_clients [OF this refl r] r show ?thesis by blast
qed

end
