(* ===== verification/Uds_Policy.thy ===== *)
theory Uds_Policy
  imports Policy_Manager Uds_Security
begin

text \<open>
  The local server endpoint with the policy manager behind it: the answers that the endpoint asks for are
  those of \<open>check_credentials\<close> and \<open>check_routing_credentials\<close>, for the credentials of the socket. The configuration
  asks the policy manager about the client that is the routing host only, and accepts the others.
\<close>

definition uds_sec_client :: "sec_client \<Rightarrow> vsomeip_sec_client_t" where
  "uds_sec_client ug = \<lparr>sec_user = fst ug, sec_group = snd ug, sec_host = 0, sec_port = VSOMEIP_SEC_PORT_UNUSED\<rparr>"

definition managed_env ::
    "('s, 'm, 'r, 'o, 'c) icl_find \<Rightarrow> ('r, 'o, 'c) policy_manager \<Rightarrow> u16 \<Rightarrow> env \<Rightarrow> env" where
  "managed_env I pm routing_host E = E\<lparr>is_security_enabled := is_enabled pm,
     env.check_credentials := (\<lambda>client ug. fst (Policy_Manager.check_credentials I client (Some (uds_sec_client ug)) pm)),
     env.check_routing_credentials := (\<lambda>client ug. client \<noteq> routing_host \<or>
       Policy_Manager.check_routing_credentials (Some (uds_sec_client ug)) pm)\<rparr>"

lemma fst_check_credentials:
  "fst (Policy_Manager.check_credentials I client (Some c) pm) \<longleftrightarrow>
     \<not> policy_enabled pm \<or> sec_port c \<noteq> VSOMEIP_SEC_PORT_UNUSED \<or> \<not> pm_check_credentials pm \<or>
     list_ex (policy_applies I (credentials_of c)) (any_client_policies pm)"
  by (auto simp: Policy_Manager.check_credentials_def store_client_to_sec_client_mapping_def Let_def split: option.splits)

text \<open>The answer does not depend on what earlier checks have stored, so it is the same during the life of a connection.\<close>

lemma check_credentials_stable:
  "fst (Policy_Manager.check_credentials I client (Some c) (snd (Policy_Manager.check_credentials I client' sec pm))) =
   fst (Policy_Manager.check_credentials I client (Some c) pm)"
proof -
  let ?pm = "snd (Policy_Manager.check_credentials I client' sec pm)"
  have "policy_enabled ?pm = policy_enabled pm" "pm_check_credentials ?pm = pm_check_credentials pm"
    "any_client_policies ?pm = any_client_policies pm"
    by (auto simp: Policy_Manager.check_credentials_def store_client_to_sec_client_mapping_def
        store_sec_client_to_client_mapping_def Let_def split: option.splits)
  then show ?thesis by (simp add: fst_check_credentials)
qed

text \<open>
  With policies enabled and enforced, a peer to whose credentials no policy applies gets no command through to
  the routing manager, whatever it sends.
\<close>

lemma uds_only_policy_users:
  assumes "policy_enabled pm" "pm_check_credentials pm" "is_routing_endpoint E" "actions s = []"
    and "c = connection_start (managed_env I pm rh E) ((connection_new (managed_env I pm rh E))\<lparr>bound_sec_client := ug, bound_client_host := host\<rparr>)"
    and "receive_chunks (managed_env I pm rh E) e ug' i chunks (c, s) = Some (c', s')"
    and "On_message cmd b x \<in> set (actions s')"
  shows "list_ex (policy_applies I ug) (any_client_policies pm)"
proof -
  let ?E = "managed_env I pm rh E"
  have E: "is_security_enabled ?E" "is_routing_endpoint ?E" using assms(1,3) by (simp_all add: managed_env_def is_enabled_def)
  have "vetted ?E ug c s"
    using assms(4) E(1) by (simp add: assms(5) vetted_def connection_start_def connection_new_def Let_def)
  then have "vetted ?E ug c' s'" using assms(6) by (rule vetted_receive_chunks [OF E])
  then have "fst (Policy_Manager.check_credentials I b (Some (uds_sec_client ug)) pm)"
    using assms(7) by (auto simp: vetted_def list_all_iff managed_env_def)
  then show ?thesis using assms(1,2) by (simp add: fst_check_credentials uds_sec_client_def credentials_of_def)
qed

end
