(* ===== verification/Policy_Cache.thy ===== *)
theory Policy_Cache
  imports Policy_Manager
begin

text \<open>
  The cache of \<open>policy_manager_impl::is_client_allowed\<close> is transparent, an update grants what it lists, and the cases
  where the code departs from this: a request check that grants member 0, a removal that leaves permissions in the cache,
  an update that extends a policy that denies, and requesters found by comparing instances with methods.
\<close>

section \<open>The cache is transparent\<close>

text \<open>The calls that check or change policies, one by one, and a manager that forgets its cache before each call.\<close>

datatype ('r, 'o, 'c) pm_op =
    Pm_request "vsomeip_sec_client_t option" u16 u16
  | Pm_access "vsomeip_sec_client_t option" u16 u16 u16
  | Pm_offer "vsomeip_sec_client_t option" u16 u16
  | Pm_credentials u16 "vsomeip_sec_client_t option"
  | Pm_update u32 u32 "('r, 'o, 'c) policy"
  | Pm_remove u32 u32
  | Pm_add u32 u32 "('r, 'o, 'c) policy"

fun pm_step :: "('s, 'm, 'r, 'o, 'c) icl_find \<Rightarrow> ('r, 'o, 'c) pm_op \<Rightarrow> ('r, 'o, 'c) policy_manager \<Rightarrow> (bool \<times> ('r, 'o, 'c) policy_manager) option" where
  "pm_step I (Pm_request sec s i) pm = Some (is_client_allowed_to_request I sec s i pm)"
| "pm_step I (Pm_access sec s i m) pm = Some (is_client_allowed_to_access_member I sec s i m pm)"
| "pm_step I (Pm_offer sec s i) pm = Some (is_client_allowed_to_offer I sec s i pm, pm)"
| "pm_step I (Pm_credentials client sec) pm = Some (check_credentials I client sec pm)"
| "pm_step I (Pm_update uid gid p) pm = map_option (Pair True) (update_security_policy I uid gid p pm)"
| "pm_step I (Pm_remove uid gid) pm = Some (remove_security_policy I uid gid pm)"
| "pm_step I (Pm_add uid gid p) pm = Some (True, add_security_credentials I uid gid p pm)"

definition without_cache :: "('r, 'o, 'c) policy_manager \<Rightarrow> ('r, 'o, 'c) policy_manager" where
  "without_cache pm = pm\<lparr>is_client_allowed_cache := \<lambda>_. []\<rparr>"

fun pm_run :: "('s, 'm, 'r, 'o, 'c) icl_find \<Rightarrow> (('r, 'o, 'c) policy_manager \<Rightarrow> ('r, 'o, 'c) policy_manager) \<Rightarrow>
    ('r, 'o, 'c) pm_op list \<Rightarrow> ('r, 'o, 'c) policy_manager \<Rightarrow> bool list option" where
  "pm_run I before [] pm = Some []"
| "pm_run I before (x # xs) pm = do {
     (answer, pm) \<leftarrow> pm_step I x (before pm);
     answers \<leftarrow> pm_run I before xs pm;
     Some (answer # answers) }"

definition single_credentials :: "('s, 'm, 'r, 'o, 'c) icl_find \<Rightarrow> u32 \<Rightarrow> u32 \<Rightarrow> ('r, 'o, 'c) policy \<Rightarrow> bool" where
  "single_credentials I uid gid p \<longleftrightarrow> each_credentials I (pol_credentials p) = [((uid, uid), [(gid, gid)])]"

fun regular_op :: "('s, 'm, 'r, 'o, 'c) icl_find \<Rightarrow> ('r, 'o, 'c) pm_op \<Rightarrow> ('r, 'o, 'c) policy_manager \<Rightarrow> bool" where
  "regular_op I (Pm_access sec s i m) pm \<longleftrightarrow> m \<noteq> 0"
| "regular_op I (Pm_update uid gid p) pm \<longleftrightarrow> pol_allow_who p"
| "regular_op I (Pm_remove uid gid) pm \<longleftrightarrow>
     list_all (\<lambda>p. has_allow_credentials I uid gid p \<longrightarrow> single_credentials I uid gid p) (any_client_policies pm)"
| "regular_op I _ pm \<longleftrightarrow> True"

fun regular_ops :: "('s, 'm, 'r, 'o, 'c) icl_find \<Rightarrow> ('r, 'o, 'c) pm_op list \<Rightarrow> ('r, 'o, 'c) policy_manager \<Rightarrow> bool" where
  "regular_ops I [] pm \<longleftrightarrow> True"
| "regular_ops I (x # xs) pm \<longleftrightarrow>
     regular_op I x pm \<and> (case pm_step I x pm of None \<Rightarrow> True | Some (_, pm) \<Rightarrow> regular_ops I xs pm)"

definition finds_in_intervals :: "('s, 'm, 'r, 'o, 'c) icl_find \<Rightarrow> bool" where
  "finds_in_intervals I \<longleftrightarrow>
     (\<forall>u g c. find_credentials I u g c \<longrightarrow>
        (\<exists>((l, h), gs) \<in> set (each_credentials I c). l \<le> u \<and> u \<le> h \<and> (\<exists>(gl, gh) \<in> set gs. gl \<le> g \<and> g \<le> gh)))"

definition cache_sound :: "('s, 'm, 'r, 'o, 'c) icl_find \<Rightarrow> ('r, 'o, 'c) policy_manager \<Rightarrow> bool" where
  "cache_sound I pm \<longleftrightarrow>
     (\<forall>c s i m. (s, i, m) \<in> set (is_client_allowed_cache pm c) \<longrightarrow>
        list_ex (policy_grants I c s i m (m = 0)) (any_client_policies pm))"

lemma single_credentials_applies:
  assumes "finds_in_intervals I" "single_credentials I uid gid p" "pol_allow_who p" "policy_applies I c p"
  shows "c = (uid, gid)"
proof -
  have "find_credentials I (fst c) (snd c) (pol_credentials p)"
    using assms(3,4) by (auto simp: policy_applies_def Let_def)
  then show ?thesis
    using assms(1,2) by (fastforce simp: finds_in_intervals_def single_credentials_def prod_eq_iff)
qed

lemma is_policy_for_single: "is_policy_for I uid gid new p \<longleftrightarrow> single_credentials I uid gid p \<and> pol_allow_who p = pol_allow_who new"
  by (auto simp: is_policy_for_def single_credentials_def split: list.splits)

lemma cache_soundD:
  "cache_sound I pm \<Longrightarrow> (s, i, m) \<in> set (is_client_allowed_cache pm c) \<Longrightarrow>
    list_ex (policy_grants I c s i m (m = 0)) (any_client_policies pm)"
  by (cases c) (simp add: cache_sound_def)

lemma cache_soundI:
  assumes "cache_sound I pm"
    and "\<And>c k. k \<in> set (is_client_allowed_cache pm' c) \<Longrightarrow> k \<in> set (is_client_allowed_cache pm c)"
    and "\<And>c s i m b. (s, i, m) \<in> set (is_client_allowed_cache pm' c) \<Longrightarrow>
           list_ex (policy_grants I c s i m b) (any_client_policies pm) \<Longrightarrow> list_ex (policy_grants I c s i m b) (any_client_policies pm')"
  shows "cache_sound I pm'"
  using assms unfolding cache_sound_def by blast

lemma extend_policy_fields:
  "extend_policy I new p = Some q \<Longrightarrow>
     pol_credentials q = pol_credentials p \<and> pol_allow_who q = pol_allow_who p \<and> pol_allow_what q = pol_allow_what p"
  by (auto simp: extend_policy_def split: bind_splits)

lemma extend_first_ex:
  assumes "extend_first fits ext new ps = Some qs" "list_ex P ps" "\<And>p. fits p \<Longrightarrow> \<not> P p"
  shows "list_ex P qs"
  using assms by (induction ps arbitrary: qs) (auto split: if_splits)

lemma cache_sound_update:
  assumes I: "finds_in_intervals I" and "cache_sound I pm" and who: "pol_allow_who new"
    and upd: "update_security_policy I uid gid new pm = Some pm'"
  shows "cache_sound I pm'"
proof (rule cache_soundI [OF assms(2)])
  obtain ps where ps: "extend_first (is_policy_for I uid gid new) (extend_policy I new) new (any_client_policies pm) = Some ps"
    and pm': "pm' = erase_cache (uid, gid) (pm\<lparr>any_client_policies := ps\<rparr>)"
    using upd by (auto simp: update_security_policy_def split: bind_splits)
  show "k \<in> set (is_client_allowed_cache pm c)" if "k \<in> set (is_client_allowed_cache pm' c)" for c k
    using that by (auto simp: pm' erase_cache_def split: if_splits)
  show "list_ex (policy_grants I c s i m b) (any_client_policies pm')"
    if "(s, i, m) \<in> set (is_client_allowed_cache pm' c)" "list_ex (policy_grants I c s i m b) (any_client_policies pm)" for c s i m b
  proof -
    have "c \<noteq> (uid, gid)" using that(1) by (auto simp: pm' erase_cache_def)
    then have no: "is_policy_for I uid gid new p \<Longrightarrow> \<not> policy_grants I c s i m b p" for p
      using single_credentials_applies [OF I, of uid gid p c] who
      by (auto simp: is_policy_for_single policy_grants_def Let_def)
    show ?thesis using extend_first_ex [OF ps that(2) no] by (simp add: pm' erase_cache_def)
  qed
qed

lemma cache_sound_remove:
  assumes I: "finds_in_intervals I" and "cache_sound I pm" and reg: "regular_op I (Pm_remove uid gid) pm"
  shows "cache_sound I (snd (remove_security_policy I uid gid pm))"
proof (cases "any_client_policies pm = []")
  case False
  show ?thesis
  proof (rule cache_soundI [OF assms(2)])
    let ?pm = "snd (remove_security_policy I uid gid pm)"
    show "k \<in> set (is_client_allowed_cache pm c)" if "k \<in> set (is_client_allowed_cache ?pm c)" for c k
      using that False by (auto simp: remove_security_policy_def erase_cache_def split: if_splits)
    show "list_ex (policy_grants I c s i m b) (any_client_policies ?pm)"
      if h: "(s, i, m) \<in> set (is_client_allowed_cache ?pm c)" "list_ex (policy_grants I c s i m b) (any_client_policies pm)" for c s i m b
    proof -
      have c: "c \<noteq> (uid, gid)" using h(1) False by (auto simp: remove_security_policy_def erase_cache_def)
      obtain p where p: "p \<in> set (any_client_policies pm)" "policy_grants I c s i m b p"
        using h(2) by (auto simp: list_ex_iff)
      have "\<not> has_allow_credentials I uid gid p"
        using p reg c single_credentials_applies [OF I, of uid gid p c]
        by (auto simp: list_all_iff has_allow_credentials_def policy_grants_def Let_def)
      then show ?thesis using p False by (auto simp: remove_security_policy_def erase_cache_def list_ex_iff)
    qed
  qed
qed (use assms(2) in \<open>simp add: remove_security_policy_def\<close>)


lemma cache_sound_add: "cache_sound I pm \<Longrightarrow> cache_sound I (add_security_credentials I uid gid p pm)"
  by (erule cache_soundI) (auto simp: add_security_credentials_def split: if_splits)

lemma cache_sound_same:
  "cache_sound I pm \<Longrightarrow> any_client_policies pm' = any_client_policies pm \<Longrightarrow>
    is_client_allowed_cache pm' = is_client_allowed_cache pm \<Longrightarrow> cache_sound I pm'"
  by (simp add: cache_sound_def)

lemma cache_sound_check_credentials: "cache_sound I pm \<Longrightarrow> cache_sound I (snd (check_credentials I client sec pm))"
  by (erule cache_sound_same)
    (auto simp: check_credentials_def store_client_to_sec_client_mapping_def store_sec_client_to_client_mapping_def
      Let_def split: option.splits)

text \<open>A check with a sound cache answers and leaves the same as one without a cache, the cache itself apart.\<close>

lemma is_client_allowed_sound:
  assumes "cache_sound I pm" "b \<longleftrightarrow> m = 0"
  shows "fst (is_client_allowed I sec s i m b pm) = fst (is_client_allowed I sec s i m b (without_cache pm))"
    "without_cache (snd (is_client_allowed I sec s i m b pm)) = without_cache (snd (is_client_allowed I sec s i m b (without_cache pm)))"
    "cache_sound I (snd (is_client_allowed I sec s i m b pm))"
proof -
  have hit: "list_ex (policy_grants I c s i m b) (any_client_policies pm)" if "(s, i, m) \<in> set (is_client_allowed_cache pm c)" for c
    using cache_soundD [OF assms(1) that] assms(2) by simp
  have store: "cache_sound I (pm\<lparr>is_client_allowed_cache := (is_client_allowed_cache pm)
      (c := List.insert (s, i, m) (is_client_allowed_cache pm c))\<rparr>)"
    if "list_ex (policy_grants I c s i m b) (any_client_policies pm)" for c
    using assms that by (auto simp: cache_sound_def)
  show "fst (is_client_allowed I sec s i m b pm) = fst (is_client_allowed I sec s i m b (without_cache pm))"
    "without_cache (snd (is_client_allowed I sec s i m b pm)) = without_cache (snd (is_client_allowed I sec s i m b (without_cache pm)))"
    by (auto simp: is_client_allowed_def without_cache_def Let_def dest: hit split: option.splits)
  show "cache_sound I (snd (is_client_allowed I sec s i m b pm))"
    using assms(1) by (auto simp: is_client_allowed_def Let_def intro: store simp del: not_in_set_insert split: option.splits)
qed

lemma without_cache_idem [simp]: "without_cache (without_cache pm) = without_cache pm"
  by (simp add: without_cache_def)

lemma pm_step_check_sound:
  assumes "cache_sound I pm" "regular_op I x pm" "pm_step I x pm = Some (a, pm1)"
    and "x = Pm_request sec s i \<or> x = Pm_access sec s i m"
  shows "\<exists>pm2. pm_step I x (without_cache pm) = Some (a, pm2) \<and> without_cache pm2 = without_cache pm1 \<and> cache_sound I pm1"
proof -
  have req: "\<exists>pm2. is_client_allowed I sec s i m b (without_cache pm) = (a, pm2) \<and> without_cache pm2 = without_cache pm1 \<and> cache_sound I pm1"
    if "is_client_allowed I sec s i m b pm = (a, pm1)" "b \<longleftrightarrow> m = 0" for m b
    using is_client_allowed_sound [OF assms(1) that(2), of sec s i] that(1)
    by (cases "is_client_allowed I sec s i m b (without_cache pm)") auto
  from assms(4) show ?thesis
    using assms(1-3) req [of 0 True] req [of m False]
    by (auto simp: is_client_allowed_to_request_def is_client_allowed_to_access_member_def split: option.splits if_splits)
qed

lemma without_cache_fields [simp]:
  "any_client_policies (without_cache pm) = any_client_policies pm" "policy_enabled (without_cache pm) = policy_enabled pm"
  "pm_check_credentials (without_cache pm) = pm_check_credentials pm" "ids (without_cache pm) = ids pm"
  "sec_client_to_clients (without_cache pm) = sec_client_to_clients pm"
  by (simp_all add: without_cache_def)

lemma is_client_allowed_to_offer_without_cache [simp]:
  "is_client_allowed_to_offer I sec s i (without_cache pm) = is_client_allowed_to_offer I sec s i pm"
  by (simp add: is_client_allowed_to_offer_def is_offer_allowed_def split: option.split)

lemma check_credentials_without_cache:
  "check_credentials I client sec (without_cache pm) =
     (fst (check_credentials I client sec pm), without_cache (snd (check_credentials I client sec pm)))"
  by (auto simp: check_credentials_def store_client_to_sec_client_mapping_def store_sec_client_to_client_mapping_def
      without_cache_def Let_def split: option.splits)

lemma pm_step_sound:
  assumes I: "finds_in_intervals I" and pm: "cache_sound I pm" and reg: "regular_op I x pm" and st: "pm_step I x pm = Some (a, pm1)"
  shows "\<exists>pm2. pm_step I x (without_cache pm) = Some (a, pm2) \<and> without_cache pm2 = without_cache pm1 \<and> cache_sound I pm1"
proof (cases x)
  case (Pm_offer sec s i)
  then show ?thesis using st pm by auto
next
  case (Pm_credentials client sec)
  then show ?thesis using st pm cache_sound_check_credentials [OF pm, of client sec]
    by (auto simp: check_credentials_without_cache)
next
  case (Pm_update uid gid p)
  then have up: "update_security_policy I uid gid p pm = Some pm1" "a = True" using st by auto
  have "\<exists>pm2. update_security_policy I uid gid p (without_cache pm) = Some pm2 \<and> without_cache pm2 = without_cache pm1"
    using up by (auto simp: update_security_policy_def erase_cache_def without_cache_def split: bind_splits)
  then show ?thesis using Pm_update up cache_sound_update [OF I pm _ up(1)] reg by auto
next
  case (Pm_remove uid gid)
  then show ?thesis using st cache_sound_remove [OF I pm] reg
    by (auto simp: remove_security_policy_def erase_cache_def without_cache_def split: if_splits)
next
  case (Pm_add uid gid p)
  then show ?thesis using st cache_sound_add [OF pm, of uid gid p]
    by (auto simp: add_security_credentials_def without_cache_def split: if_splits)
qed (use pm_step_check_sound [OF pm reg st] in blast)+

lemma pm_step_without_cache_None: "pm_step I x (without_cache pm) = None \<longleftrightarrow> pm_step I x pm = None"
  by (cases x) (simp_all add: update_security_policy_def split: bind_splits)

lemma pm_run_sound:
  assumes "finds_in_intervals I" "cache_sound I pm" "regular_ops I xs pm" "without_cache pm2 = without_cache pm"
  shows "pm_run I without_cache xs pm2 = pm_run I id xs pm"
  using assms
proof (induction xs arbitrary: pm pm2)
  case (Cons x xs)
  show ?case
  proof (cases "pm_step I x pm")
    case None
    then show ?thesis using Cons.prems(4) pm_step_without_cache_None [of I x pm] by simp
  next
    case (Some r)
    obtain a pm1 where r: "r = (a, pm1)" by (cases r)
    obtain pm3 where pm3: "pm_step I x (without_cache pm) = Some (a, pm3)" "without_cache pm3 = without_cache pm1" "cache_sound I pm1"
      using pm_step_sound [OF Cons.prems(1,2), of x a pm1] Cons.prems(3) Some r by auto
    show ?thesis using Cons.IH [OF Cons.prems(1) pm3(3) _ pm3(2)] Cons.prems(3,4) Some r pm3(1) by auto
  qed
qed simp

text \<open>
  C8. The cache of granted accesses changes no answer. For every sequence of checks of requests, of accesses to
  members, of offers and of credentials, of policy updates, removals and added credentials, a manager that
  starts with an empty cache gives the answers of one that forgets its cache before every call. This holds for
  accesses to members other than 0, for updates with policies that name who is allowed, as those read from
  the wire do, and for removals of policies that apply to one user and group. \<open>finds_in_intervals\<close> is what is used
  of the interval containers: a lookup finds only what lies in an interval that iteration yields.
\<close>

theorem policy_cache_transparent:
  assumes "finds_in_intervals I" "\<forall>c. is_client_allowed_cache pm c = []" "regular_ops I xs pm"
  shows "pm_run I id xs pm = pm_run I without_cache xs pm"
  using pm_run_sound [OF assms(1) _ assms(3) refl] assms(2) by (simp add: cache_sound_def)


section \<open>What an update grants\<close>

text \<open>
  The accesses that a container of requests stands for, and what the documentation of \<open>boost::icl\<close> says of
  adding to it (the values of overlapping intervals are united) and of iterating over it.
\<close>

definition methods_of :: "('s, 'm, 'r, 'o, 'c) icl_find \<Rightarrow> 'm \<Rightarrow> (u16 \<times> u16) set" where
  "methods_of I ms = {(i, m). case find_methods I i ms of None \<Rightarrow> False | Some is \<Rightarrow> find_id I m is}"

definition requests_of :: "('s, 'm, 'r, 'o, 'c) icl_find \<Rightarrow> 'r \<Rightarrow> (u16 \<times> u16 \<times> u16) set" where
  "requests_of I r = {(s, i, m). case find_request I s r of None \<Rightarrow> False | Some ms \<Rightarrow> (i, m) \<in> methods_of I ms}"

definition requests_aggregate :: "('s, 'm, 'r, 'o, 'c) icl_find \<Rightarrow> bool" where
  "requests_aggregate I \<longleftrightarrow>
     (\<forall>l u ms r. requests_of I (plus_request I l u ms r) = requests_of I r \<union> {l..u} \<times> methods_of I ms) \<and>
     (\<forall>r. requests_of I r = (\<Union>(iv, ms) \<in> set (each_request I r). {fst (get_bounds iv)..snd (get_bounds iv)} \<times> methods_of I ms))"

lemma request_matches_member: "request_matches I s i m False p \<longleftrightarrow> (s, i, m) \<in> requests_of I (pol_requests p)"
  by (auto simp: request_matches_def requests_of_def methods_of_def split: option.splits)

lemma each_service_le: "s \<le> upper \<Longrightarrow> each_service f s upper x = each_service f (s + 1) upper (f s x)"
  and each_service_gt: "\<not> s \<le> upper \<Longrightarrow> each_service f s upper x = Some x"
  by (simp_all add: each_service.simps)

lemma succ_interval:
  fixes s upper :: u16
  assumes "s \<le> upper" "upper \<noteq> 0xFFFF"
  shows "{s..upper} = insert s {s + 1..upper}" "s \<notin> {s + 1..upper}"
proof -
  have "unat s < 65535" using assms unat_u16_max [of upper] by (simp add: word_le_nat_alt)
  then have "unat (s + 1) = Suc (unat s)" by (simp add: unat_word_ariths)
  then show "{s..upper} = insert s {s + 1..upper}" "s \<notin> {s + 1..upper}"
    using assms(1) by (auto simp: word_le_nat_alt word_unat_eq_iff)
qed

text \<open>A loop that stays below \<open>0xFFFF\<close> ends, and visits every service of the interval; one up to \<open>0xFFFF\<close> does not end.\<close>

lemma each_service_visits:
  assumes up: "upper \<noteq> 0xFFFF" and f: "\<And>t x. A (f t x) = A x \<union> B t"
  shows "\<exists>y. each_service f s upper x = Some y \<and> A y = A x \<union> (\<Union>t \<in> {s..upper}. B t)"
proof (induction "card {s..upper}" arbitrary: s x rule: less_induct)
  case less
  show ?case
  proof (cases "s \<le> upper")
    case True
    note step = succ_interval [OF True up]
    then have "card {s + 1..upper} < card {s..upper}" by simp
    from less [OF this, of "f s x"] show ?thesis using True by (auto simp: each_service_le f step(1))
  qed (simp add: each_service_gt)
qed

lemma each_service_ends:
  assumes "each_service f s upper acc = Some y"
  shows "upper \<noteq> 0xFFFF"
proof (rule each_service.raw_induct [where P = "\<lambda>f s upper acc y. upper \<noteq> 0xFFFF", OF _ assms])
  fix g :: "(u16 \<Rightarrow> 'x \<Rightarrow> 'x) \<Rightarrow> u16 \<Rightarrow> u16 \<Rightarrow> 'x \<Rightarrow> 'x option" and f and s upper :: u16 and acc y
  assume IH: "\<And>f s upper acc y. g f s upper acc = Some y \<Longrightarrow> upper \<noteq> 0xFFFF"
    and "(if s \<le> upper then g f (s + 1) upper (f s acc) else Some acc) = Some y"
  moreover have "s \<le> 0xFFFF" using unsigned_less [of s, where 'a = nat] by (simp add: word_le_nat_alt)
  ultimately show "upper \<noteq> 0xFFFF" by (auto split: if_splits)
qed

lemma each_service_forever: "each_service f s 0xFFFF acc = None"
  using each_service_ends [of f s "0xFFFF" acc] by (cases "each_service f s 0xFFFF acc") auto

lemma add_each_visits:
  assumes "\<forall>(iv, v) \<in> set es. snd (get_bounds iv) \<noteq> 0xFFFF" and f: "\<And>t v x. A (f t v x) = A x \<union> {t} \<times> B v"
  shows "\<exists>y. add_each f es x = Some y \<and> A y = A x \<union> (\<Union>(iv, v) \<in> set es. {fst (get_bounds iv)..snd (get_bounds iv)} \<times> B v)"
  using assms(1)
proof (induction es arbitrary: x)
  case (Cons e es)
  obtain iv v where e: "e = (iv, v)" by (cases e)
  have up: "snd (get_bounds iv) \<noteq> 0xFFFF" using Cons.prems e by auto
  obtain y where y: "each_service (\<lambda>s. f s v) (fst (get_bounds iv)) (snd (get_bounds iv)) x = Some y"
    "A y = A x \<union> (\<Union>t \<in> {fst (get_bounds iv)..snd (get_bounds iv)}. {t} \<times> B v)"
    using each_service_visits [where A = A and B = "\<lambda>t. {t} \<times> B v" and f = "\<lambda>s. f s v", OF up f] by blast
  show ?case using Cons.IH [of y] Cons.prems y by (auto simp: e)
qed simp

lemma extend_policy_requests:
  assumes law: "requests_aggregate I"
    and "\<forall>(iv, v) \<in> set (each_request I (pol_requests new)). snd (get_bounds iv) \<noteq> 0xFFFF"
    and "\<forall>(iv, v) \<in> set (each_offer I (pol_offers new)). snd (get_bounds iv) \<noteq> 0xFFFF"
  shows "\<exists>q. extend_policy I new p = Some q \<and>
    requests_of I (pol_requests q) = requests_of I (pol_requests p) \<union> requests_of I (pol_requests new) \<and>
    pol_credentials q = pol_credentials p \<and> pol_allow_who q = pol_allow_who p \<and> pol_allow_what q = pol_allow_what p"
proof -
  have plus: "requests_of I (plus_request I t t v x) = requests_of I x \<union> {t} \<times> methods_of I v" for t v x
    using law unfolding requests_aggregate_def atLeastAtMost_singleton [symmetric] by (elim conjE allE)
  have each: "requests_of I (pol_requests new) =
      (\<Union>(iv, ms) \<in> set (each_request I (pol_requests new)). {fst (get_bounds iv)..snd (get_bounds iv)} \<times> methods_of I ms)"
    using law unfolding requests_aggregate_def by (elim conjE allE)
  obtain rs where rs: "add_each (\<lambda>s. plus_request I s s) (each_request I (pol_requests new)) (pol_requests p) = Some rs"
    "requests_of I rs = requests_of I (pol_requests p) \<union> requests_of I (pol_requests new)"
    using add_each_visits [where A = "requests_of I" and B = "methods_of I" and f = "\<lambda>s. plus_request I s s", OF assms(2) plus]
    unfolding each [symmetric] by blast
  obtain os where "add_each (plus_offer I) (each_offer I (pol_offers new)) (pol_offers p) = Some os"
    using add_each_visits [where A = "\<lambda>_. {}" and B = "\<lambda>_. {}" and f = "plus_offer I", OF assms(3)] by auto
  then show ?thesis using rs by (simp add: extend_policy_def)
qed

lemma extend_first_ex_all:
  assumes "\<And>p. p \<in> set ps \<Longrightarrow> fits p \<Longrightarrow> \<exists>q. ext p = Some q \<and> (\<forall>k. P k q \<longleftrightarrow> P k p \<or> k \<in> N)" "\<And>k. P k new \<longleftrightarrow> k \<in> N"
  shows "\<exists>qs. extend_first fits ext new ps = Some qs \<and> (\<forall>k. list_ex (P k) qs \<longleftrightarrow> list_ex (P k) ps \<or> k \<in> N)"
  using assms(1)
proof (induction ps)
  case (Cons p ps)
  show ?case
  proof (cases "fits p")
    case True
    then show ?thesis using Cons.prems [of p] by auto
  next
    case False
    then show ?thesis using Cons by auto
  qed
qed (simp add: assms(2))


lemma access_member_uncached:
  assumes "is_client_allowed_cache pm (credentials_of c) = []"
  shows "fst (is_client_allowed_to_access_member I (Some c) s i m pm) \<longleftrightarrow>
    sec_port c \<noteq> VSOMEIP_SEC_PORT_UNUSED \<or> \<not> policy_enabled pm \<or> \<not> pm_check_credentials pm \<or>
    list_ex (policy_grants I (credentials_of c) s i m False) (any_client_policies pm)"
  using assms by (simp add: is_client_allowed_to_access_member_def is_client_allowed_def Let_def)

text \<open>
  C9. An update of the policy of a user returns, and afterwards the user may access exactly the members it could
  access before and those that the new policy requests; whether the update extends a policy that is there or adds
  one, and whatever was cached. The new policy allows, no service range reaches \<open>0xFFFF\<close>, and no policy that the
  update would extend is one that denies. \<open>requests_aggregate\<close> is what is used of the interval containers:
  adding unites, and iteration yields everything.
\<close>

theorem update_security_policy_grants:
  assumes law: "requests_aggregate I"
    and new: "pol_allow_who new" "pol_allow_what new" "find_credentials I uid gid (pol_credentials new)"
    and "\<forall>(iv, v) \<in> set (each_request I (pol_requests new)). snd (get_bounds iv) \<noteq> 0xFFFF"
    and "\<forall>(iv, v) \<in> set (each_offer I (pol_offers new)). snd (get_bounds iv) \<noteq> 0xFFFF"
    and old: "\<forall>p \<in> set (any_client_policies pm). is_policy_for I uid gid new p \<longrightarrow>
      pol_allow_what p \<and> find_credentials I uid gid (pol_credentials p)"
  shows "\<exists>pm'. update_security_policy I uid gid new pm = Some pm' \<and>
    (\<forall>c s i m. sec_user c = uid \<longrightarrow> sec_group c = gid \<longrightarrow>
       fst (is_client_allowed_to_access_member I (Some c) s i m pm') =
       (fst (is_client_allowed_to_access_member I (Some c) s i m (without_cache pm)) \<or> (s, i, m) \<in> requests_of I (pol_requests new)))"
proof -
  let ?P = "\<lambda>k. policy_grants I (uid, gid) (fst k) (fst (snd k)) (snd (snd k)) False"
  have grants: "?P k p \<longleftrightarrow> k \<in> requests_of I (pol_requests p)"
    if "pol_allow_who p" "pol_allow_what p" "find_credentials I uid gid (pol_credentials p)" for k p
    using that by (auto simp: policy_grants_def policy_applies_def request_matches_member)
  have "\<exists>q. extend_policy I new p = Some q \<and> (\<forall>k. ?P k q \<longleftrightarrow> ?P k p \<or> k \<in> requests_of I (pol_requests new))"
    if "p \<in> set (any_client_policies pm)" "is_policy_for I uid gid new p" for p
  proof -
    have p: "pol_allow_who p" "pol_allow_what p" "find_credentials I uid gid (pol_credentials p)"
      using that old new(1) by (auto simp: is_policy_for_single)
    obtain q where q: "extend_policy I new p = Some q"
        "requests_of I (pol_requests q) = requests_of I (pol_requests p) \<union> requests_of I (pol_requests new)"
        "pol_credentials q = pol_credentials p" "pol_allow_who q = pol_allow_who p" "pol_allow_what q = pol_allow_what p"
      using extend_policy_requests [OF law assms(5,6), of p] by blast
    have "?P k q \<longleftrightarrow> ?P k p \<or> k \<in> requests_of I (pol_requests new)" for k
      using grants [OF p] grants [of q] p q by simp
    then show ?thesis using q(1) by blast
  qed
  then obtain qs where qs: "extend_first (is_policy_for I uid gid new) (extend_policy I new) new (any_client_policies pm) = Some qs"
      "\<forall>k. list_ex (?P k) qs \<longleftrightarrow> list_ex (?P k) (any_client_policies pm) \<or> k \<in> requests_of I (pol_requests new)"
    using extend_first_ex_all [of "any_client_policies pm" "is_policy_for I uid gid new" "extend_policy I new" ?P
        "requests_of I (pol_requests new)" new] grants [OF new] by blast
  define pm' where "pm' = erase_cache (uid, gid) (pm\<lparr>any_client_policies := qs\<rparr>)"
  have "fst (is_client_allowed_to_access_member I (Some c) s i m pm') =
      (fst (is_client_allowed_to_access_member I (Some c) s i m (without_cache pm)) \<or> (s, i, m) \<in> requests_of I (pol_requests new))"
    if "sec_user c = uid" "sec_group c = gid" for c s i m
    using that qs(2) [rule_format, of "(s, i, m)"] access_member_uncached [of pm' c I s i m] access_member_uncached [of "without_cache pm" c I s i m]
    by (auto simp: pm'_def erase_cache_def without_cache_def credentials_of_def)
  then show ?thesis using qs(1) by (auto simp: update_security_policy_def pm'_def)
qed


section \<open>A concrete container\<close>

text \<open>Sets of identifiers, of pairs and of triples as lists: an interval container whose intervals have one element each.\<close>

definition u16_range :: "u16 \<Rightarrow> u16 \<Rightarrow> u16 list" where
  "u16_range l u = map word_of_nat [unat l..<Suc (unat u)]"

fun select :: "'a \<Rightarrow> ('a \<times> 'b) list \<Rightarrow> 'b list" where
  "select a [] = []"
| "select a ((b, y) # xs) = (if a = b then y # select a xs else select a xs)"

definition found :: "'b list \<Rightarrow> 'b list option" where
  "found ys = (if ys = [] then None else Some ys)"

definition points :: "(u16 \<times> 'b) list \<Rightarrow> ((u16 \<times> u16 \<times> interval_bounds) \<times> 'b list) list" where
  "points xs = map (\<lambda>a. ((a, a, Closed), select a xs)) (remdups (map fst xs))"

type_synonym list_icl =
  "(u16 list, (u16 \<times> u16) list, (u16 \<times> u16 \<times> u16) list, (u16 \<times> u16) list, (u32 \<times> u32) list) icl_find"

definition list_icl :: list_icl where
  "list_icl =
     \<lparr>find_id = (\<lambda>m ids. m \<in> set ids),
      each_id = map (\<lambda>m. (m, m, Closed)),
      find_methods = (\<lambda>i ms. found (select i ms)),
      each_methods = points,
      one_interval = (\<lambda>l u ids. List.product (u16_range l u) ids),
      empty_requests = [],
      find_request = (\<lambda>s r. found (select s r)),
      no_requests = (\<lambda>r. r = []),
      each_request = points,
      plus_request = (\<lambda>l u ms r. List.product (u16_range l u) ms @ r),
      empty_offers = [],
      find_offer = (\<lambda>s r. found (select s r)),
      each_offer = points,
      plus_offer = (\<lambda>s ids r. map (Pair s) ids @ r),
      find_credentials = (\<lambda>u g c. (u, g) \<in> set c),
      each_credentials = (\<lambda>c. map (\<lambda>u. ((u, u), map (\<lambda>g. (g, g)) (select u c))) (remdups (map fst c)))\<rparr>"

lemma set_select: "set (select a xs) = {y. (a, y) \<in> set xs}"
  by (induction xs) (auto split: if_splits)

lemma set_u16_range: "set (u16_range l u) = {l..u}"
proof -
  have "x \<in> word_of_nat ` {unat l..<Suc (unat u)}" if "l \<le> x" "x \<le> u" for x
    by (rule image_eqI [of _ _ "unat x"]) (use that in \<open>simp_all add: word_le_nat_alt less_Suc_eq_le\<close>)
  moreover have "l \<le> word_of_nat n \<and> word_of_nat n \<le> u" if "unat l \<le> n" "n \<le> unat u" for n
    using that unsigned_less [of u, where 'a = nat] by (simp add: word_le_nat_alt unat_of_nat)
  ultimately show ?thesis unfolding u16_range_def set_map set_upt by auto
qed

lemma list_icl_simps [simp]:
  "find_id list_icl = (\<lambda>m ids. m \<in> set ids)"
  "find_methods list_icl = (\<lambda>i ms. found (select i ms))"
  "find_request list_icl = (\<lambda>s r. found (select s r))"
  "each_request list_icl = points" "each_offer list_icl = points"
  "plus_request list_icl = (\<lambda>l u ms r. List.product (u16_range l u) ms @ r)"
  "find_credentials list_icl = (\<lambda>u g c. (u, g) \<in> set c)"
  "each_credentials list_icl = (\<lambda>c. map (\<lambda>u. ((u, u), map (\<lambda>g. (g, g)) (select u c))) (remdups (map fst c)))"
  by (simp_all add: list_icl_def)

lemma found_case [simp]: "(case found ys of None \<Rightarrow> False | Some zs \<Rightarrow> P zs) \<longleftrightarrow> ys \<noteq> [] \<and> P ys"
  by (simp add: found_def)

lemma list_icl_methods: "methods_of list_icl ms = set ms"
  by (auto simp: methods_of_def set_select simp flip: set_empty)

lemma list_icl_requests: "requests_of list_icl r = set r"
  by (auto simp: requests_of_def list_icl_methods set_select simp flip: set_empty)

lemma list_icl_points: "(\<Union>(iv, ms) \<in> set (points r). {fst (get_bounds iv)..snd (get_bounds iv)} \<times> set ms) = set r"
  by (force simp: points_def get_bounds_def set_select)

lemma list_icl_aggregate: "requests_aggregate list_icl"
  by (auto simp: requests_aggregate_def list_icl_requests list_icl_methods list_icl_points set_u16_range)

lemma list_icl_finds: "finds_in_intervals list_icl"
  by (force simp: finds_in_intervals_def set_select)

text \<open>A user and a policy that lets it use one method of one service, and a policy for two users.\<close>

definition user_a :: vsomeip_sec_client_t where
  "user_a = \<lparr>sec_user = 1, sec_group = 1, sec_host = 0, sec_port = 0\<rparr>"

definition user_b :: vsomeip_sec_client_t where
  "user_b = \<lparr>sec_user = 2, sec_group = 1, sec_host = 0, sec_port = 0\<rparr>"

type_synonym list_policy = "((u16 \<times> u16 \<times> u16) list, (u16 \<times> u16) list, (u32 \<times> u32) list) policy"

definition policy_a :: list_policy where
  "policy_a = \<lparr>pol_credentials = [(1, 1)], pol_allow_who = True, pol_requests = [(0x10, 1, 5)], pol_offers = [], pol_allow_what = True\<rparr>"

definition policy_ab :: list_policy where
  "policy_ab = policy_a\<lparr>pol_credentials := [(1, 1), (2, 1)]\<rparr>"

definition manager_of :: "list_policy list \<Rightarrow> ((u16 \<times> u16 \<times> u16) list, (u16 \<times> u16) list, (u32 \<times> u32) list) policy_manager" where
  "manager_of ps = policy_manager_new\<lparr>any_client_policies := ps, policy_enabled := True, pm_check_credentials := True\<rparr>"

theorem policy_cache_transparent_witness:
  "let xs = [Pm_request (Some user_a) 0x10 1, Pm_access (Some user_a) 0x10 1 5, Pm_remove 1 1, Pm_access (Some user_a) 0x10 1 5,
       Pm_update 1 1 policy_a, Pm_access (Some user_a) 0x10 1 5, Pm_access (Some user_b) 0x10 1 5]
   in pm_run list_icl id xs (manager_of [policy_a]) = Some [True, True, True, False, True, True, False] \<and>
      pm_run list_icl without_cache xs (manager_of [policy_a]) = Some [True, True, True, False, True, True, False]"
proof -
  let ?xs = "[Pm_request (Some user_a) 0x10 1, Pm_access (Some user_a) 0x10 1 5, Pm_remove 1 1, Pm_access (Some user_a) 0x10 1 5,
       Pm_update 1 1 policy_a, Pm_access (Some user_a) 0x10 1 5, Pm_access (Some user_b) 0x10 1 5]"
  have "regular_ops list_icl ?xs (manager_of [policy_a])" by code_simp
  moreover have "\<forall>c. is_client_allowed_cache (manager_of [policy_a]) c = []" by (simp add: manager_of_def policy_manager_new_def)
  moreover have "pm_run list_icl id ?xs (manager_of [policy_a]) = Some [True, True, True, False, True, True, False]" by code_simp
  ultimately show ?thesis using policy_cache_transparent [OF list_icl_finds, of "manager_of [policy_a]" ?xs] by simp
qed

text \<open>A request check is cached under method 0, and grants that method; a removal forgets the cache of one of the users only.\<close>

lemma request_grants_member_0:
  "pm_run list_icl id [Pm_access (Some user_a) 0x10 1 0, Pm_request (Some user_a) 0x10 1, Pm_access (Some user_a) 0x10 1 0]
     (manager_of [policy_a]) = Some [False, True, True]"
  by code_simp

lemma removed_policy_cached:
  "pm_run list_icl id [Pm_access (Some user_b) 0x10 1 5, Pm_remove 1 1, Pm_access (Some user_a) 0x10 1 5, Pm_access (Some user_b) 0x10 1 5]
     (manager_of [policy_ab]) = Some [True, True, False, True]"
  by code_simp

text \<open>An update that extends a policy that denies takes rights away.\<close>

lemma update_extends_denials:
  "pm_run list_icl id [Pm_access (Some user_a) 0x10 1 5, Pm_update 1 1 policy_a, Pm_access (Some user_a) 0x10 1 5]
     (manager_of [policy_a\<lparr>pol_requests := [], pol_allow_what := False\<rparr>]) = Some [True, True, False]"
  by code_simp

text \<open>The requesters of an offer are found by comparing its instances with the methods they use.\<close>

lemma requesters_by_method:
  "let p = policy_a\<lparr>pol_credentials := [(7, 7)], pol_requests := [], pol_offers := [(0x10, 1)]\<rparr>;
       q = policy_a\<lparr>pol_credentials := [(7, 7)], pol_requests := [], pol_offers := [(0x10, 5)]\<rparr>
   in get_requester_policies list_icl None p (manager_of [policy_a]) = [] \<and>
      map pol_requests (get_requester_policies list_icl None q (manager_of [policy_a])) = [[(0x10, 5, 5)]]"
  by code_simp

theorem update_security_policy_grants_witness:
  "let new = policy_a\<lparr>pol_requests := [(0x10, 1, 6), (0x11, 2, 7)]\<rparr>
   in \<exists>pm'. update_security_policy list_icl 1 1 new (manager_of [policy_a]) = Some pm' \<and>
        map (\<lambda>(s, i, m). fst (is_client_allowed_to_access_member list_icl (Some user_a) s i m pm'))
          [(0x10, 1, 5), (0x10, 1, 6), (0x11, 2, 7), (0x11, 1, 6)] = [True, True, True, False]"
proof -
  let ?new = "policy_a\<lparr>pol_requests := [(0x10, 1, 6), (0x11, 2, 7)]\<rparr>"
  have "\<exists>pm'. update_security_policy list_icl 1 1 ?new (manager_of [policy_a]) = Some pm' \<and>
    (\<forall>c s i m. sec_user c = 1 \<longrightarrow> sec_group c = 1 \<longrightarrow>
       fst (is_client_allowed_to_access_member list_icl (Some c) s i m pm') =
       (fst (is_client_allowed_to_access_member list_icl (Some c) s i m (without_cache (manager_of [policy_a]))) \<or>
         (s, i, m) \<in> requests_of list_icl (pol_requests ?new)))"
    by (rule update_security_policy_grants [OF list_icl_aggregate])
      (simp_all add: policy_a_def manager_of_def points_def get_bounds_def)
  moreover have "map (\<lambda>(s, i, m). fst (is_client_allowed_to_access_member list_icl (Some user_a) s i m (without_cache (manager_of [policy_a]))))
      [(0x10, 1, 5), (0x10, 1, 6), (0x11, 2, 7), (0x11, 1, 6)] = [True, False, False, False]"
    by code_simp
  ultimately show ?thesis by (auto simp: list_icl_requests user_a_def)
qed

end
