(* ===== verification/Tunnel.thy ===== *)
theory Tunnel
  imports Message Ordered
begin

text \<open>
  The tunnel between SOME/IP and a gateway behind iceoryx2
  (\<open>src/vsomeip/examples/tunnel/iceoryx2_bridge.hpp\<close> and \<open>.cpp\<close>): the samples that cross the shared
  memory, the three handlers of \<open>SomeipTunnel\<close> and its table of open requests.

  The calls on the vsomeip application and the published samples are recorded in the order in
  which they are made. A sample from \<open>loan\<close>, a drawn random number, and what \<open>receive\<close> returns are
  arguments. The result is \<^term>\<open>None\<close> where the code leaves an array, and \<^term>\<open>Inl Std_exception\<close> where
  \<open>unordered_map::at\<close> throws. Fixed-size arrays are lists; \<open>tunnel_sample\<close> states their sizes.
\<close>

section \<open>Samples\<close>

text \<open>\<open>TunnelMsgType\<close>, an enumeration over \<open>uint32_t\<close>: the other side may write any value.\<close>

abbreviation (input) OFFER_SERVICE :: u32 where "OFFER_SERVICE \<equiv> 0"
abbreviation (input) FIND_SERVICE :: u32 where "FIND_SERVICE \<equiv> 1"
abbreviation (input) OFFER_SERVICE_ACK :: u32 where "OFFER_SERVICE_ACK \<equiv> 2"
abbreviation (input) FIND_SERVICE_ACK :: u32 where "FIND_SERVICE_ACK \<equiv> 3"
abbreviation (input) MESSAGE :: u32 where "MESSAGE \<equiv> 4"
abbreviation (input) EVENT :: u32 where "EVENT \<equiv> 5"

text \<open>\<open>EventType\<close> of the gateway and \<open>event_type_e\<close> of vsomeip.\<close>

abbreviation (input) EventType_Field :: u32 where "EventType_Field \<equiv> 0"
abbreviation (input) EventType_Event :: u32 where "EventType_Event \<equiv> 1"
abbreviation (input) ET_EVENT :: byte where "ET_EVENT \<equiv> 0"
abbreviation (input) ET_SELECTIVE_EVENT :: byte where "ET_SELECTIVE_EVENT \<equiv> 1"
abbreviation (input) ET_FIELD :: byte where "ET_FIELD \<equiv> 2"

record SomeIPEventDesc =
  evd_event_id :: u16
  evd_event_groups :: "u16 list"
  evd_len :: byte
  evd_typ :: u32

record ServiceDescEntry =
  sde_event_infos :: "SomeIPEventDesc list"
  sde_len :: byte

record SomeipTunnelHeader =
  th_type :: u32
  th_service_id :: u16
  th_instance_id :: u16
  th_method_id :: u16
  th_service_metadata :: ServiceDescEntry
  th_is_active :: bool
  th_id :: u64

record SomeipTunnelPayload =
  tpl_length :: u16
  tpl_payload :: bytes

definition tunnel_sample :: "SomeipTunnelHeader \<Rightarrow> SomeipTunnelPayload \<Rightarrow> bool" where
  "tunnel_sample h p \<longleftrightarrow> length (sde_event_infos (th_service_metadata h)) = 10
     \<and> list_all (\<lambda>d. length (evd_event_groups d) = 4) (sde_event_infos (th_service_metadata h))
     \<and> length (tpl_payload p) = 1500"

text \<open>The output operators, as the values that they read and print.\<close>

definition print_event_desc :: "SomeIPEventDesc \<Rightarrow> (u16 \<times> u16 list \<times> u32) option" where
  "print_event_desc d = do {
     groups \<leftarrow> those (map (mem_at (evd_event_groups d)) [0..<unat (evd_len d)]);
     Some (evd_event_id d, groups, evd_typ d) }"

definition print_service_desc :: "ServiceDescEntry \<Rightarrow> (u16 \<times> u16 list \<times> u32) list option" where
  "print_service_desc e =
     those (map (\<lambda>i. do { d \<leftarrow> mem_at (sde_event_infos e) i; print_event_desc d }) [0..<unat (sde_len e)])"

definition print_header ::
  "SomeipTunnelHeader \<Rightarrow> (u32 \<times> u16 \<times> u16 \<times> u16 \<times> (u16 \<times> u16 list \<times> u32) list \<times> u64) option" where
  "print_header h = do {
     meta \<leftarrow> print_service_desc (th_service_metadata h);
     Some (th_type h, th_service_id h, th_instance_id h, th_method_id h, meta, th_id h) }"

definition print_payload :: "SomeipTunnelPayload \<Rightarrow> (u16 \<times> bytes) option" where
  "print_payload p = do {
     bs \<leftarrow> those (map (mem_at (tpl_payload p)) [0..<unat (tpl_length p)]);
     Some (tpl_length p, bs) }"

section \<open>The tunnel\<close>

text \<open>
  Calls on the application with the arguments that the tunnel passes; the sets of eventgroups are
  listed in iteration order.
\<close>

datatype app_call =
    Offer_event u16 u16 u16 "u16 list" byte
  | Offer_service u16 u16
  | Request_event u16 u16 u16 "u16 list" byte
  | Subscribe u16 u16 u16
  | Request_service u16 u16
  | Send message_impl
  | Notify u16 u16 u16 bytes

record SomeipTunnel =
  mMessagesInProgress :: "u64 \<Rightarrow> message_impl option"
  mApp :: "app_call list"
  mToGateway :: "(SomeipTunnelHeader \<times> SomeipTunnelPayload) list"
  mShallRun :: bool

definition SomeipTunnel_new :: SomeipTunnel where
  "SomeipTunnel_new = \<lparr>mMessagesInProgress = Map.empty, mApp = [], mToGateway = [], mShallRun = True\<rparr>"

definition app_calls :: "app_call list \<Rightarrow> SomeipTunnel \<Rightarrow> SomeipTunnel" where
  "app_calls cs t = t\<lparr>mApp := mApp t @ cs\<rparr>"

definition tunnel_stop :: "SomeipTunnel \<Rightarrow> SomeipTunnel" where
  "tunnel_stop t = t\<lparr>mShallRun := False\<rparr>"

definition serviceStateChanged ::
  "SomeipTunnelHeader \<times> SomeipTunnelPayload \<Rightarrow> u16 \<Rightarrow> u16 \<Rightarrow> bool \<Rightarrow> SomeipTunnel \<Rightarrow> SomeipTunnel" where
  "serviceStateChanged new_sample s i active t =
     (let header = (fst new_sample)\<lparr>th_type := FIND_SERVICE_ACK, th_instance_id := i, th_service_id := s, th_is_active := active\<rparr>
      in t\<lparr>mToGateway := mToGateway t @ [(header, snd new_sample)]\<rparr>)"

text \<open>
  \<open>assert\<close> and \<open>memcpy\<close>: a payload of 15000 bytes or more aborts, and one that does not fit into the array
  is written past its end. \<open>emplace\<close> keeps an entry that is already there. The message is logged before
  it is sent.
\<close>

definition fromSomeip ::
  "SomeipTunnelHeader \<times> SomeipTunnelPayload \<Rightarrow> u64 \<Rightarrow> message_impl \<Rightarrow> SomeipTunnel \<Rightarrow> SomeipTunnel option" where
  "fromSomeip new_sample drawn msg t = do {
     data \<leftarrow> msg_payload msg;
     let header = (fst new_sample)\<lparr>th_type := MESSAGE, th_instance_id := hdr_instance (msg_header msg),
        th_service_id := hdr_service (msg_header msg), th_method_id := hdr_method (msg_header msg), th_id := drawn\<rparr>;
     let l = payload_get_length data;
     _ \<leftarrow> if l < 15000 then Some () else None;
     bytes \<leftarrow> mem_sub data 0 (unat l);
     buffer \<leftarrow> mem_write (tpl_payload (snd new_sample)) 0 bytes;
     let payload = (snd new_sample)\<lparr>tpl_length := ucast l, tpl_payload := buffer\<rparr>;
     let open_requests = (if mMessagesInProgress t drawn = None then (mMessagesInProgress t)(drawn \<mapsto> msg) else mMessagesInProgress t);
     _ \<leftarrow> print_header header;
     _ \<leftarrow> print_payload payload;
     Some (t\<lparr>mMessagesInProgress := open_requests, mToGateway := mToGateway t @ [(header, payload)]\<rparr>) }"

text \<open>\<open>incommingMsg\<close>: the inner loop over the eventgroups of an event runs to the number of events.\<close>

definition its_groups :: "ServiceDescEntry \<Rightarrow> nat \<Rightarrow> u16 list option" where
  "its_groups meta i = do {
     groups \<leftarrow> those (map (\<lambda>j. do { d \<leftarrow> mem_at (sde_event_infos meta) i; mem_at (evd_event_groups d) j }) [0..<unat (sde_len meta)]);
     Some (fold (set_insert id) groups []) }"

definition offer_event_calls :: "SomeipTunnelHeader \<Rightarrow> nat \<Rightarrow> app_call list option" where
  "offer_event_calls h i = do {
     groups \<leftarrow> its_groups (th_service_metadata h) i;
     d \<leftarrow> mem_at (sde_event_infos (th_service_metadata h)) i;
     Some [Offer_event (th_service_id h) (th_instance_id h) (evd_event_id d) groups (ucast (evd_typ d))] }"

definition request_event_calls :: "SomeipTunnelHeader \<Rightarrow> nat \<Rightarrow> app_call list option" where
  "request_event_calls h i = do {
     groups \<leftarrow> its_groups (th_service_metadata h) i;
     d \<leftarrow> mem_at (sde_event_infos (th_service_metadata h)) i;
     begin \<leftarrow> mem_at groups 0;
     Some [Request_event (th_service_id h) (th_instance_id h) (evd_event_id d) groups (ucast (evd_typ d)),
           Subscribe (th_service_id h) (th_instance_id h) begin] }"

definition each_event :: "(SomeipTunnelHeader \<Rightarrow> nat \<Rightarrow> app_call list option) \<Rightarrow> SomeipTunnelHeader \<Rightarrow> app_call list option" where
  "each_event f h = map_option concat (those (map (f h) [0..<unat (sde_len (th_service_metadata h))]))"

definition sample_data :: "SomeipTunnelPayload \<Rightarrow> bytes option" where
  "sample_data p = mem_sub (tpl_payload p) 0 (unat (tpl_length p))"

definition incommingMsg ::
  "SomeipTunnelHeader \<Rightarrow> SomeipTunnelPayload \<Rightarrow> SomeipTunnel \<Rightarrow> (std_exception + SomeipTunnel) option" where
  "incommingMsg h p t = do {
     _ \<leftarrow> print_header h;
     _ \<leftarrow> print_payload p;
     if th_type h = OFFER_SERVICE then do {
       calls \<leftarrow> each_event offer_event_calls h;
       Some (Inr (app_calls (calls @ [Offer_service (th_service_id h) (th_instance_id h)]) t)) }
     else if th_type h = FIND_SERVICE then do {
       calls \<leftarrow> each_event request_event_calls h;
       Some (Inr (app_calls (calls @ [Request_service (th_service_id h) (th_instance_id h)]) t)) }
     else if th_type h = OFFER_SERVICE_ACK \<or> th_type h = FIND_SERVICE_ACK \<or> th_type h = MESSAGE then
       (case mMessagesInProgress t (th_id h) of
          None \<Rightarrow> Some (Inl Std_exception)
        | Some request \<Rightarrow> do {
            pl_data \<leftarrow> sample_data p;
            Some (Inr (app_calls [Send (message_set_payload (Some pl_data) (create_response request))] t)) })
     else if th_type h = EVENT then do {
       pl_data \<leftarrow> sample_data p;
       Some (Inr (app_calls [Notify (th_service_id h) (th_instance_id h) (th_method_id h) pl_data] t)) }
     else Some (Inr t) }"

text \<open>
  \<open>fromGateway\<close> takes samples until \<open>receive\<close> fails or has none; \<open>recvInternal\<close> does so in every cycle of the
  node until the tunnel is stopped. An exception leaves the thread.
\<close>

datatype receive_result = Recv_error | No_sample | Sample SomeipTunnelHeader SomeipTunnelPayload

fun fromGateway :: "receive_result list \<Rightarrow> SomeipTunnel \<Rightarrow> (std_exception + SomeipTunnel) option" where
  "fromGateway (Sample h p # rs) t = do {
     r \<leftarrow> incommingMsg h p t;
     case r of Inl e \<Rightarrow> Some (Inl e) | Inr t' \<Rightarrow> fromGateway rs t' }"
| "fromGateway _ t = Some (Inr t)"

fun recvInternal :: "(bool \<times> receive_result list) list \<Rightarrow> SomeipTunnel \<Rightarrow> (std_exception + SomeipTunnel) option" where
  "recvInternal ((wait_ok, rs) # cycles) t =
     (if wait_ok \<and> mShallRun t then do {
        r \<leftarrow> fromGateway rs t;
        case r of Inl e \<Rightarrow> Some (Inl e) | Inr t' \<Rightarrow> recvInternal cycles t' }
      else Some (Inr t))"
| "recvInternal [] t = Some (Inr t)"

text \<open>
  The handlers in the order in which the threads call them, each as one step. \<open>fromSomeip\<close> holds \<open>mToGatewayMutex\<close>
  and \<open>incommingMsg\<close> does not: it reads \<open>mMessagesInProgress\<close> without a lock, so a concurrent \<open>emplace\<close> is a data
  race, outside of this model.
\<close>

datatype tunnel_input =
    Someip_message "SomeipTunnelHeader \<times> SomeipTunnelPayload" u64 message_impl
  | Someip_state "SomeipTunnelHeader \<times> SomeipTunnelPayload" u16 u16 bool
  | Gateway_sample SomeipTunnelHeader SomeipTunnelPayload

fun tunnel_step :: "tunnel_input \<Rightarrow> SomeipTunnel \<Rightarrow> (std_exception + SomeipTunnel) option" where
  "tunnel_step (Someip_message smp drawn msg) t = map_option Inr (fromSomeip smp drawn msg t)"
| "tunnel_step (Someip_state smp s i active) t = Some (Inr (serviceStateChanged smp s i active t))"
| "tunnel_step (Gateway_sample h p) t = incommingMsg h p t"

fun tunnel_run :: "tunnel_input list \<Rightarrow> SomeipTunnel \<Rightarrow> (std_exception + SomeipTunnel) option" where
  "tunnel_run [] t = Some (Inr t)"
| "tunnel_run (st # sts) t = do {
     r \<leftarrow> tunnel_step st t;
     case r of Inl e \<Rightarrow> Some (Inl e) | Inr t' \<Rightarrow> tunnel_run sts t' }"

section \<open>Reading arrays by index\<close>

lemma those_map_Some: "those (map f xs) = (if list_all (\<lambda>x. f x \<noteq> None) xs then Some (map (the \<circ> f) xs) else None)"
  by (induction xs) (auto split: option.splits)

lemma those_mem_at: "those (map (mem_at xs) [0..<n]) = (if n \<le> length xs then Some (take n xs) else None)"
proof -
  have "map (the \<circ> mem_at xs) [0..<n] = take n xs" if "n \<le> length xs"
    using that by (intro nth_equalityI) (auto simp: mem_at_def)
  moreover have "list_all (\<lambda>i. mem_at xs i \<noteq> None) [0..<n] \<longleftrightarrow> n \<le> length xs"
    by (auto simp: list_all_iff mem_at_def not_le [symmetric])
  ultimately show ?thesis by (simp add: those_map_Some)
qed

lemma those_mem_at_bind:
  "those (map (\<lambda>i. do { d \<leftarrow> mem_at xs i; f d }) [0..<n]) =
     (if n \<le> length xs then those (map f (take n xs)) else None)"
proof (induction n)
  case (Suc n)
  have *: "those (ys @ [y]) = do { zs \<leftarrow> those ys; z \<leftarrow> y; Some (zs @ [z]) }" for ys :: "'c option list" and y
    by (induction ys) (auto split: option.splits simp: Option.bind_eq_None_conv map_option_case; cases "those ys"; cases y; simp)+
  show ?case
    using Suc by (cases "n < length xs") (auto simp: * take_Suc_conv_app_nth mem_at_def)
qed simp

lemma fold_set_insert: "ordered id acc \<Longrightarrow> fold (set_insert id) xs acc = sorted_list_of_set (set acc \<union> set xs)"
proof (induction xs arbitrary: acc)
  case Nil
  then show ?case
    by (simp add: ordered_def sorted_list_of_set.idem_if_sorted_distinct strict_sorted_iff id_def)
next
  case (Cons x xs)
  have "set (set_insert id x acc) = insert x (set acc)"
    using keys_set_insert [of id x acc] by simp
  then have "set (set_insert id x acc) \<union> set xs = set acc \<union> set (x # xs)" by auto
  then show ?case using Cons.IH [OF ordered_set_insert [OF Cons.prems, of x]] by (simp only: fold_simps)
qed

section \<open>Samples that can be read\<close>

text \<open>The lengths that a sample claims stay within its arrays, which the log output relies on.\<close>

definition readable :: "SomeipTunnelHeader \<Rightarrow> bool" where
  "readable h \<longleftrightarrow> unat (sde_len (th_service_metadata h)) \<le> 10 \<and>
     list_all (\<lambda>d. unat (evd_len d) \<le> 4) (take (unat (sde_len (th_service_metadata h))) (sde_event_infos (th_service_metadata h)))"

lemma print_header_readable:
  assumes "tunnel_sample h p"
  shows "print_header h \<noteq> None \<longleftrightarrow> readable h"
proof -
  let ?n = "unat (sde_len (th_service_metadata h))" and ?ds = "sde_event_infos (th_service_metadata h)"
  have "print_event_desc d \<noteq> None \<longleftrightarrow> unat (evd_len d) \<le> 4" if "d \<in> set (take ?n ?ds)" for d
    using assms in_set_takeD [OF that] by (simp add: print_event_desc_def those_mem_at tunnel_sample_def list_all_iff)
  then show ?thesis
    using assms
    by (cases "?n \<le> 10")
      (auto simp: print_header_def print_service_desc_def those_mem_at_bind those_map_Some [of print_event_desc]
        readable_def tunnel_sample_def list_all_iff)
qed

lemma print_payload_iff:
  "tunnel_sample h p \<Longrightarrow> print_payload p \<noteq> None \<longleftrightarrow> unat (tpl_length p) \<le> 1500"
  by (simp add: print_payload_def those_mem_at tunnel_sample_def)

lemma incommingMsg_unreadable:
  assumes "tunnel_sample h p" "\<not> (readable h \<and> unat (tpl_length p) \<le> 1500)"
  shows "incommingMsg h p t = None"
  using assms print_header_readable [OF assms(1)] print_payload_iff [OF assms(1)]
  by (cases "print_header h"; cases "print_payload p") (auto simp: incommingMsg_def)

lemma incommingMsg_readable:
  assumes "tunnel_sample h p" "readable h" "unat (tpl_length p) \<le> 1500"
  obtains a b where "print_header h = Some a" "print_payload p = Some b"
  using assms print_header_readable [OF assms(1)] print_payload_iff [OF assms(1)] by blast

section \<open>Requests and their answers\<close>

lemma fromSomeip_Some:
  assumes "tunnel_sample (fst smp) (snd smp)" "readable (fst smp)" "msg_payload msg = Some data" "length data \<le> 1500"
  shows "\<exists>h p. fromSomeip smp drawn msg t =
     Some (t\<lparr>mMessagesInProgress := (if mMessagesInProgress t drawn = None then (mMessagesInProgress t)(drawn \<mapsto> msg) else mMessagesInProgress t),
       mToGateway := mToGateway t @ [(h, p)]\<rparr>)
     \<and> th_type h = MESSAGE \<and> th_id h = drawn \<and> th_service_id h = hdr_service (msg_header msg)
     \<and> th_instance_id h = hdr_instance (msg_header msg) \<and> th_method_id h = hdr_method (msg_header msg)
     \<and> sample_data p = Some data"
proof -
  obtain h0 p0 where smp: "smp = (h0, p0)" by fastforce
  define h where "h = h0\<lparr>th_type := MESSAGE, th_instance_id := hdr_instance (msg_header msg),
        th_service_id := hdr_service (msg_header msg), th_method_id := hdr_method (msg_header msg), th_id := drawn\<rparr>"
  define p where "p = p0\<lparr>tpl_length := ucast (payload_get_length data), tpl_payload := data @ drop (length data) (tpl_payload p0)\<rparr>"
  have l: "unat (payload_get_length data) = length data" "payload_get_length data < 15000"
    using assms(4) by (simp_all add: payload_get_length_def unat_of_nat word_less_nat_alt)
  then have ul: "unat (ucast (payload_get_length data) :: u16) = length data"
    using assms(4) by (simp add: unsigned_ucast_eq take_bit_nat_eq_self)
  have s: "tunnel_sample h p" "readable h" "unat (tpl_length p) \<le> 1500"
    using assms ul by (auto simp: smp h_def p_def tunnel_sample_def readable_def)
  from incommingMsg_readable [OF s] obtain a b where pr: "print_header h = Some a" "print_payload p = Some b" by blast
  have "fromSomeip smp drawn msg t =
     Some (t\<lparr>mMessagesInProgress := (if mMessagesInProgress t drawn = None then (mMessagesInProgress t)(drawn \<mapsto> msg) else mMessagesInProgress t),
       mToGateway := mToGateway t @ [(h, p)]\<rparr>)"
    using assms l pr by (simp add: fromSomeip_def smp tunnel_sample_def h_def [symmetric] p_def [symmetric])
  moreover have "sample_data p = Some data"
    using ul by (simp add: sample_data_def p_def mem_sub_def)
  ultimately show ?thesis
    by (intro exI [of _ h] exI [of _ p]) (simp add: h_def)
qed

lemma fromSomeip_keeps:
  assumes "fromSomeip smp drawn msg t = Some t'" "mMessagesInProgress t k = Some m"
  shows "mMessagesInProgress t' k = Some m"
  using assms by (auto simp: fromSomeip_def Let_def split: Option.bind_splits if_splits)

lemma incommingMsg_table:
  "incommingMsg h p t = Some (Inr t') \<Longrightarrow> mMessagesInProgress t' = mMessagesInProgress t"
  by (auto simp: incommingMsg_def app_calls_def split: Option.bind_splits if_splits option.splits)

lemma tunnel_step_keeps:
  "tunnel_step st t = Some (Inr t') \<Longrightarrow> mMessagesInProgress t k = Some m \<Longrightarrow> mMessagesInProgress t' k = Some m"
  by (cases st) (auto simp: serviceStateChanged_def Let_def dest: fromSomeip_keeps incommingMsg_table)

lemma tunnel_run_keeps:
  "tunnel_run sts t = Some (Inr t') \<Longrightarrow> mMessagesInProgress t k = Some m \<Longrightarrow> mMessagesInProgress t' k = Some m"
proof (induction sts arbitrary: t)
  case (Cons st sts)
  then show ?case by (auto split: Option.bind_splits sum.splits dest: tunnel_step_keeps)
qed simp

lemma incommingMsg_answer:
  assumes "tunnel_sample h p" "readable h" "unat (tpl_length p) \<le> 1500" "th_type h = MESSAGE" "mMessagesInProgress t (th_id h) = Some msg"
  shows "incommingMsg h p t =
    Some (Inr (app_calls [Send (message_set_payload (Some (take (unat (tpl_length p)) (tpl_payload p))) (create_response msg))] t))"
proof -
  have "sample_data p = Some (take (unat (tpl_length p)) (tpl_payload p))"
    using assms(1,3) by (simp add: sample_data_def mem_sub_def tunnel_sample_def)
  then show ?thesis
    using assms(4,5) by (rule_tac incommingMsg_readable [OF assms(1-3)]) (simp add: incommingMsg_def)
qed

text \<open>
  C2. A request that comes out of SOME/IP is answered to its sender: the gateway gets its identifiers and
  its payload, and whatever the tunnel handles in between, every sample that carries the drawn
  identifier back makes the application send the payload of the sample as the response with the client,
  session, service and method of that request. The payload has at most 1500 bytes and the drawn
  identifier is not in use.
\<close>

theorem tunnel_answers:
  assumes "tunnel_sample (fst smp) (snd smp)" "readable (fst smp)"
    and "msg_payload msg = Some data" "length data \<le> 1500" "mMessagesInProgress t drawn = None"
    and "tunnel_sample h p" "readable h" "unat (tpl_length p) \<le> 1500" "th_type h = MESSAGE" "th_id h = drawn"
  shows "\<exists>t1 h1 p1. fromSomeip smp drawn msg t = Some t1 \<and> mToGateway t1 = mToGateway t @ [(h1, p1)]
    \<and> th_id h1 = drawn \<and> th_service_id h1 = hdr_service (msg_header msg) \<and> th_method_id h1 = hdr_method (msg_header msg)
    \<and> sample_data p1 = Some data
    \<and> (\<forall>steps t2. tunnel_run steps t1 = Some (Inr t2) \<longrightarrow>
         incommingMsg h p t2 = Some (Inr (t2\<lparr>mApp := mApp t2 @
           [Send (message_set_payload (Some (take (unat (tpl_length p)) (tpl_payload p))) (create_response msg))]\<rparr>)))"
proof -
  from fromSomeip_Some [OF assms(1-4), of drawn t] obtain h1 p1 where sent:
    "fromSomeip smp drawn msg t = Some (t\<lparr>mMessagesInProgress := (mMessagesInProgress t)(drawn \<mapsto> msg), mToGateway := mToGateway t @ [(h1, p1)]\<rparr>)"
    "th_id h1 = drawn" "th_service_id h1 = hdr_service (msg_header msg)" "th_method_id h1 = hdr_method (msg_header msg)"
    "sample_data p1 = Some data"
    using assms(5) by auto
  have "incommingMsg h p t2 = Some (Inr (t2\<lparr>mApp := mApp t2 @
           [Send (message_set_payload (Some (take (unat (tpl_length p)) (tpl_payload p))) (create_response msg))]\<rparr>))"
    if "tunnel_run steps (t\<lparr>mMessagesInProgress := (mMessagesInProgress t)(drawn \<mapsto> msg), mToGateway := mToGateway t @ [(h1, p1)]\<rparr>) = Some (Inr t2)"
    for steps t2
    using tunnel_run_keeps [OF that, of drawn msg] incommingMsg_answer [OF assms(6-9), of t2 msg] assms(10)
    by (simp add: app_calls_def)
  with sent show ?thesis by auto
qed

definition empty_sample :: "SomeipTunnelHeader \<times> SomeipTunnelPayload" where
  "empty_sample = (\<lparr>th_type = OFFER_SERVICE, th_service_id = 0, th_instance_id = 0, th_method_id = 0,
     th_service_metadata = \<lparr>sde_event_infos = replicate 10 \<lparr>evd_event_id = 0, evd_event_groups = replicate 4 0, evd_len = 0, evd_typ = 0\<rparr>, sde_len = 0\<rparr>,
     th_is_active = False, th_id = 0\<rparr>, \<lparr>tpl_length = 0, tpl_payload = replicate 1500 0\<rparr>)"

definition answer_sample :: "SomeipTunnelHeader \<times> SomeipTunnelPayload" where
  "answer_sample = ((fst empty_sample)\<lparr>th_type := MESSAGE, th_id := 77\<rparr>, \<lparr>tpl_length = 2, tpl_payload = [5, 6] @ replicate 1498 0\<rparr>)"

lemma sample_examples:
  "tunnel_sample (fst empty_sample) (snd empty_sample)" "readable (fst empty_sample)"
  "tunnel_sample (fst answer_sample) (snd answer_sample)" "readable (fst answer_sample)"
  by (simp_all add: empty_sample_def answer_sample_def tunnel_sample_def readable_def list_all_iff)

theorem tunnel_answers_witness:
  "\<exists>t1 t2. fromSomeip empty_sample 77 (create_request True) SomeipTunnel_new = Some t1
    \<and> tunnel_run [Someip_state empty_sample 0x1234 1 True] t1 = Some (Inr t2)
    \<and> incommingMsg (fst answer_sample) (snd answer_sample) t2 =
        Some (Inr (t2\<lparr>mApp := [Send (message_set_payload (Some [5, 6]) (create_response (create_request True)))]\<rparr>))"
proof -
  have m: "msg_payload (create_request True) = Some []"
    by (simp add: create_request_def message_new_def)
  obtain t1 where t1: "fromSomeip empty_sample 77 (create_request True) SomeipTunnel_new = Some t1"
    and answer: "tunnel_run steps t1 = Some (Inr t2) \<Longrightarrow> incommingMsg (fst answer_sample) (snd answer_sample) t2 =
        Some (Inr (t2\<lparr>mApp := mApp t2 @ [Send (message_set_payload (Some [5, 6]) (create_response (create_request True)))]\<rparr>))" for steps t2
    using tunnel_answers [of empty_sample "create_request True" "[]" SomeipTunnel_new 77 "fst answer_sample" "snd answer_sample"] m
      sample_examples
    by (auto simp: SomeipTunnel_new_def answer_sample_def)
  have "mApp t1 = []"
    using t1 by (auto simp: fromSomeip_def Let_def SomeipTunnel_new_def split: Option.bind_splits if_splits)
  with t1 answer [of "[Someip_state empty_sample 0x1234 1 True]" "serviceStateChanged empty_sample 0x1234 1 True t1"]
  show ?thesis by (simp add: serviceStateChanged_def Let_def)
qed

section \<open>Offers and requests of services\<close>

lemma its_groups_eq:
  assumes "i < length (sde_event_infos meta)" "length (evd_event_groups (sde_event_infos meta ! i)) = 4"
  shows "its_groups meta i = (if unat (sde_len meta) \<le> 4
     then Some (sorted_list_of_set (set (take (unat (sde_len meta)) (evd_event_groups (sde_event_infos meta ! i))))) else None)"
proof -
  have "ordered id ([] :: u16 list)" by (simp add: ordered_def)
  moreover have "(\<lambda>j. do { d \<leftarrow> mem_at (sde_event_infos meta) i; mem_at (evd_event_groups d) j }) = mem_at (evd_event_groups (sde_event_infos meta ! i))"
    using assms(1) by (simp add: mem_at_def fun_eq_iff)
  ultimately show ?thesis using assms(2) by (simp add: its_groups_def those_mem_at fold_set_insert)
qed

lemma each_event_eq:
  assumes "n = unat (sde_len (th_service_metadata h))" "n \<le> length (sde_event_infos (th_service_metadata h))"
    and "\<And>i. i < n \<Longrightarrow> f h i = (if ok then Some (g (sde_event_infos (th_service_metadata h) ! i)) else None)"
  shows "each_event f h = (if ok \<or> n = 0 then Some (concat (map g (take n (sde_event_infos (th_service_metadata h))))) else None)"
proof -
  have "map (the \<circ> f h) [0..<n] = map g (take n (sde_event_infos (th_service_metadata h)))" if ok
    using assms(2,3) that by (intro nth_equalityI) auto
  moreover have "list_all (\<lambda>i. f h i \<noteq> None) [0..<n] \<longleftrightarrow> ok \<or> n = 0"
    using assms(3) by (auto simp: list_all_iff)
  ultimately show ?thesis by (auto simp: each_event_def assms(1) [symmetric] those_map_Some)
qed

text \<open>What the gateway has announced, as the tunnel understands it.\<close>

definition announced :: "SomeipTunnelHeader \<Rightarrow> SomeIPEventDesc list" where
  "announced h = take (unat (sde_len (th_service_metadata h))) (sde_event_infos (th_service_metadata h))"

definition taken_groups :: "SomeipTunnelHeader \<Rightarrow> SomeIPEventDesc \<Rightarrow> u16 list" where
  "taken_groups h d = sorted_list_of_set (set (take (length (announced h)) (evd_event_groups d)))"

definition calls_or_crash :: "SomeipTunnelHeader \<Rightarrow> SomeipTunnelPayload \<Rightarrow> app_call list \<Rightarrow> SomeipTunnel \<Rightarrow> (std_exception + SomeipTunnel) option" where
  "calls_or_crash h p cs t =
     (if readable h \<and> unat (tpl_length p) \<le> 1500 \<and> length (announced h) \<le> 4 then Some (Inr (app_calls cs t)) else None)"

lemma length_announced: "tunnel_sample h p \<Longrightarrow> readable h \<Longrightarrow> length (announced h) = unat (sde_len (th_service_metadata h))"
  by (simp add: announced_def tunnel_sample_def readable_def)

lemma announced_events:
  assumes "tunnel_sample h p" "readable h"
    and "\<And>i. i < unat (sde_len (th_service_metadata h)) \<Longrightarrow> unat (sde_len (th_service_metadata h)) \<le> 4 \<Longrightarrow>
       f h i = Some (g (sde_event_infos (th_service_metadata h) ! i))"
    and "\<And>i. \<not> unat (sde_len (th_service_metadata h)) \<le> 4 \<Longrightarrow> f h i = None"
  shows "each_event f h = (if length (announced h) \<le> 4 then Some (concat (map g (announced h))) else None)"
proof -
  let ?n = "unat (sde_len (th_service_metadata h))"
  have "?n \<le> length (sde_event_infos (th_service_metadata h))"
    using assms(1,2) by (simp add: tunnel_sample_def readable_def)
  from each_event_eq [OF refl this, of f "?n \<le> 4" g] assms(3,4)
  show ?thesis unfolding length_announced [OF assms(1,2)] by (auto simp: announced_def)
qed

lemma its_groups_announced:
  assumes "tunnel_sample h p" "readable h"
  shows "i < unat (sde_len (th_service_metadata h)) \<Longrightarrow> unat (sde_len (th_service_metadata h)) \<le> 4 \<Longrightarrow>
      its_groups (th_service_metadata h) i = Some (taken_groups h (sde_event_infos (th_service_metadata h) ! i))"
    and "\<not> unat (sde_len (th_service_metadata h)) \<le> 4 \<Longrightarrow> its_groups (th_service_metadata h) i = None"
proof -
  have len: "length (evd_event_groups (sde_event_infos (th_service_metadata h) ! i)) = 4" if "i < 10" for i
    using assms(1) that by (simp add: tunnel_sample_def list_all_length)
  show "its_groups (th_service_metadata h) i = Some (taken_groups h (sde_event_infos (th_service_metadata h) ! i))"
    if "i < unat (sde_len (th_service_metadata h))" "unat (sde_len (th_service_metadata h)) \<le> 4"
    using that assms its_groups_eq [of i "th_service_metadata h"] len [of i]
    by (simp add: taken_groups_def length_announced [OF assms] tunnel_sample_def)
  show "its_groups (th_service_metadata h) i = None" if long: "\<not> unat (sde_len (th_service_metadata h)) \<le> 4"
  proof (cases "i < 10")
    case True
    then show ?thesis using long assms its_groups_eq [of i "th_service_metadata h"] len [of i] by (simp add: tunnel_sample_def)
  next
    case False
    then have "(\<lambda>j. do { d \<leftarrow> mem_at (sde_event_infos (th_service_metadata h)) i; mem_at (evd_event_groups d) j }) = (\<lambda>_. None)"
      using assms(1) by (simp add: tunnel_sample_def mem_at_def)
    with long show ?thesis by (auto simp: its_groups_def those_map_Some list_all_iff intro: exI [of _ 0])
  qed
qed

lemma taken_groups_nonempty:
  assumes "tunnel_sample h p" "d \<in> set (announced h)"
  shows "taken_groups h d \<noteq> []"
proof -
  have "d \<in> set (sde_event_infos (th_service_metadata h))"
    using assms(2) by (auto simp: announced_def dest: in_set_takeD)
  with assms have "length (evd_event_groups d) = 4" "length (announced h) \<noteq> 0"
    by (auto simp: tunnel_sample_def list_all_iff)
  then show ?thesis by (auto simp: taken_groups_def)
qed

lemma first_group: "taken_groups h d \<noteq> [] \<Longrightarrow> mem_at (taken_groups h d) 0 = Some (Min (set (taken_groups h d)))"
  by (simp add: taken_groups_def mem_at_def sorted_list_of_set_nonempty)

lemma offer_events:
  assumes "tunnel_sample h p" "readable h"
  shows "each_event offer_event_calls h = (if length (announced h) \<le> 4 then Some (map (\<lambda>d. Offer_event (th_service_id h) (th_instance_id h)
     (evd_event_id d) (taken_groups h d) (ucast (evd_typ d))) (announced h)) else None)"
proof -
  let ?g = "\<lambda>d. [Offer_event (th_service_id h) (th_instance_id h) (evd_event_id d) (taken_groups h d) (ucast (evd_typ d))]"
  have "each_event offer_event_calls h = (if length (announced h) \<le> 4 then Some (concat (map ?g (announced h))) else None)"
    using assms its_groups_announced [OF assms]
    by (intro announced_events [OF assms]) (simp_all add: offer_event_calls_def mem_at_def tunnel_sample_def readable_def)
  moreover have "concat (map ?g ds) = map (hd \<circ> ?g) ds" for ds by (induction ds) auto
  ultimately show ?thesis by (simp add: comp_def)
qed

lemma request_events:
  assumes "tunnel_sample h p" "readable h"
  shows "each_event request_event_calls h = (if length (announced h) \<le> 4 then Some (concat (map (\<lambda>d.
     [Request_event (th_service_id h) (th_instance_id h) (evd_event_id d) (taken_groups h d) (ucast (evd_typ d)),
      Subscribe (th_service_id h) (th_instance_id h) (Min (set (taken_groups h d)))]) (announced h))) else None)"
proof (rule announced_events [OF assms])
  fix i assume i: "i < unat (sde_len (th_service_metadata h))" "unat (sde_len (th_service_metadata h)) \<le> 4"
  let ?d = "sde_event_infos (th_service_metadata h) ! i"
  have "i < length (sde_event_infos (th_service_metadata h))"
    using i assms(1) by (simp add: tunnel_sample_def)
  moreover from this i have "?d \<in> set (announced h)"
    by (auto simp: announced_def in_set_conv_nth)
  then have "mem_at (taken_groups h ?d) 0 = Some (Min (set (taken_groups h ?d)))"
    using taken_groups_nonempty [OF assms(1)] first_group by blast
  ultimately show "request_event_calls h i = Some
     [Request_event (th_service_id h) (th_instance_id h) (evd_event_id ?d) (taken_groups h ?d) (ucast (evd_typ ?d)),
      Subscribe (th_service_id h) (th_instance_id h) (Min (set (taken_groups h ?d)))]"
    using its_groups_announced(1) [OF assms i] by (simp add: request_event_calls_def mem_at_def)
next
  show "request_event_calls h i = None" if "\<not> unat (sde_len (th_service_metadata h)) \<le> 4" for i
    using its_groups_announced(2) [OF assms that] by (simp add: request_event_calls_def)
qed

text \<open>
  C13. What the gateway offers or looks for reaches the application: on a sample with at most four events the tunnel
  offers (requests) the announced events in order and then the service, and subscribes to the
  smallest eventgroup of every requested event. With more than four events, and with lengths that exceed the
  arrays of the sample, the handler reads outside of them. The eventgroups of an event are
  the first \<open>n\<close> elements of its array, where \<open>n\<close> is the number of events, not the number of groups.
\<close>

theorem tunnel_announcement:
  assumes "tunnel_sample h p"
  shows "(th_type h = OFFER_SERVICE \<longrightarrow> incommingMsg h p t = calls_or_crash h p
      (map (\<lambda>d. Offer_event (th_service_id h) (th_instance_id h) (evd_event_id d) (taken_groups h d) (ucast (evd_typ d))) (announced h)
       @ [Offer_service (th_service_id h) (th_instance_id h)]) t)
    \<and> (th_type h = FIND_SERVICE \<longrightarrow> incommingMsg h p t = calls_or_crash h p
      (concat (map (\<lambda>d. [Request_event (th_service_id h) (th_instance_id h) (evd_event_id d) (taken_groups h d) (ucast (evd_typ d)),
                         Subscribe (th_service_id h) (th_instance_id h) (Min (set (taken_groups h d)))]) (announced h))
       @ [Request_service (th_service_id h) (th_instance_id h)]) t)"
proof (cases "readable h \<and> unat (tpl_length p) \<le> 1500")
  case True
  then obtain a b where "print_header h = Some a" "print_payload p = Some b"
    using incommingMsg_readable [OF assms] by blast
  then show ?thesis
    using True offer_events [OF assms] request_events [OF assms] by (simp add: incommingMsg_def calls_or_crash_def)
next
  case False
  then show ?thesis using incommingMsg_unreadable [OF assms False] by (auto simp: calls_or_crash_def)
qed

text \<open>A field with two eventgroups is announced with one group only, and as an event.\<close>

definition field_sample :: "u32 \<Rightarrow> SomeipTunnelHeader \<times> SomeipTunnelPayload" where
  "field_sample ty = ((fst empty_sample)\<lparr>th_type := ty, th_service_id := 0x1234, th_instance_id := 1,
     th_service_metadata := \<lparr>sde_event_infos = \<lparr>evd_event_id = 0x8001, evd_event_groups = [7, 3, 0, 0], evd_len = 2, evd_typ = EventType_Field\<rparr>
       # replicate 9 \<lparr>evd_event_id = 0, evd_event_groups = replicate 4 0, evd_len = 0, evd_typ = 0\<rparr>, sde_len = 1\<rparr>\<rparr>, snd empty_sample)"

lemma field_sample_ok:
  "tunnel_sample (fst (field_sample ty)) (snd (field_sample ty))" "readable (fst (field_sample ty))" "tpl_length (snd (field_sample ty)) = 0"
  by (simp_all add: field_sample_def empty_sample_def tunnel_sample_def readable_def list_all_iff)

theorem tunnel_announcement_witness:
  "incommingMsg (fst (field_sample OFFER_SERVICE)) (snd (field_sample OFFER_SERVICE)) SomeipTunnel_new =
     Some (Inr (app_calls [Offer_event 0x1234 1 0x8001 [7] ET_EVENT, Offer_service 0x1234 1] SomeipTunnel_new))
   \<and> incommingMsg (fst (field_sample FIND_SERVICE)) (snd (field_sample FIND_SERVICE)) SomeipTunnel_new =
     Some (Inr (app_calls [Request_event 0x1234 1 0x8001 [7] ET_EVENT, Subscribe 0x1234 1 7, Request_service 0x1234 1] SomeipTunnel_new))"
proof -
  note s = field_sample_ok [of OFFER_SERVICE] field_sample_ok [of FIND_SERVICE]
  have a: "announced (fst (field_sample ty)) = [\<lparr>evd_event_id = 0x8001, evd_event_groups = [7, 3, 0, 0], evd_len = 2, evd_typ = 0\<rparr>]" for ty
    by (simp add: announced_def field_sample_def)
  then have g: "taken_groups (fst (field_sample ty)) \<lparr>evd_event_id = 0x8001, evd_event_groups = [7, 3, 0, 0], evd_len = 2, evd_typ = 0\<rparr> = [7]" for ty
    by (simp add: taken_groups_def)
  have h: "th_type (fst (field_sample ty)) = ty" "th_service_id (fst (field_sample ty)) = 0x1234" "th_instance_id (fst (field_sample ty)) = 1" for ty
    by (simp_all add: field_sample_def)
  show ?thesis
    using tunnel_announcement [OF s(1), of SomeipTunnel_new] tunnel_announcement [OF s(4), of SomeipTunnel_new] s
    by (simp add: calls_or_crash_def a g h)
qed

text \<open>
  A sample that carries an identifier the tunnel never drew ends the receiving thread with the
  exception of \<open>unordered_map::at\<close>; the acknowledgements take the same branch.
\<close>

lemma tunnel_unknown_answer:
  assumes "tunnel_sample h p" "readable h" "unat (tpl_length p) \<le> 1500"
    and "th_type h \<in> {OFFER_SERVICE_ACK, FIND_SERVICE_ACK, MESSAGE}" "mMessagesInProgress t (th_id h) = None"
  shows "fromGateway (Sample h p # rs) t = Some (Inl Std_exception)"
  using assms(4,5) by (rule_tac incommingMsg_readable [OF assms(1-3)]) (auto simp: incommingMsg_def)

text \<open>A SOME/IP payload of more than 1500 bytes is written past the array of the sample; the assertion admits up to 14999 bytes.\<close>

lemma tunnel_payload_overflow:
  assumes "tunnel_sample (fst smp) (snd smp)" "msg_payload msg = Some data" "1500 < length data" "length data < 2 ^ 32"
  shows "fromSomeip smp drawn msg t = None"
  using assms
  by (auto simp: fromSomeip_def Let_def tunnel_sample_def mem_write_def payload_get_length_def unat_of_nat mem_sub_def split: Option.bind_splits)

end
