(* ===== verification/Spec2Isabelle.thy ===== *)
theory Spec2Isabelle
  imports Tp_Reassembler E2e_Stream Sd_Assembly Sd_Session Sd_Offers Protocol Local_Message Uds_Policy Policy_Cache Tunnel
begin

text \<open>
  A verification of the SOME/IP tunnel (\<open>src/vsomeip/examples/tunnel\<close>) and of the parts of the vsomeip stack
  (\<open>src/vsomeip/implementation\<close>) that carry its data. All paths below are relative to
  \<open>src/vsomeip/implementation\<close> unless they start with \<open>src\<close>.

  \<^bold>\<open>The program.\<close> Applications on a host exchange SOME/IP messages through a routing manager. A message
  object is serialized (\<open>message\<close>), wrapped into a command (\<open>protocol\<close>), and framed and sent over a stream
  socket (\<open>endpoints\<close>); the receiver undoes these steps. Between hosts, messages travel by UDP or
  TCP; long ones are segmented and reassembled (SOME/IP-TP), some are protected by end-to-end checksums
  and counters (\<open>e2e_protection\<close>). Services are announced by service discovery messages
  (\<open>service_discovery\<close>). Client identifiers are handed out by \<open>utility\<close>; \<open>security\<close> holds the policies that say
  which process may use them. The tunnel is an application that passes messages to a gateway in shared
  memory and the answers back.

  \<^bold>\<open>Conventions.\<close> A record models a class, its operations are functions that return the new record.
  An access outside a C++ object, a failed assertion, and a loop that does not end are \<^term>\<open>None\<close> of
  the outer option; a C++ \<open>false\<close> is an inner option or a boolean; error codes are values; exceptions are on the
  left of a sum. Machine integers are words, byte counts that are bounded by memory are natural
  numbers. Where the sources copy words in host order the byte order is an argument. Mutexes are
  not modelled where one critical section spans the operation; the reassembler, whose operation has two, is
  modelled by its interleavings, and the handlers of the tunnel, one of which takes no lock, are single steps. Third-party code is a parameter: the addresses of \<open>boost::asio\<close>, the containers of
  \<open>boost::icl\<close>, the growth of \<open>std::vector\<close>, the addresses of new objects, and the answers of the operating system.

  \<^bold>\<open>Shared vocabulary.\<close> \<open>Prelude\<close>: words, bytes and bounds-checked memory. \<open>Bithelper\<close>
  (\<open>utility/include/bithelper.hpp\<close>): byte order accessors, and the locale \<open>fixed_codec\<close>. \<open>Serializer\<close>
  (\<open>message/src/serializer.cpp\<close>, \<open>deserializer.cpp\<close>): both classes, the rules by which writing and reading
  are composed (\<open>emits\<close>, \<open>parses\<close>, \<open>des_safe\<close>, \<open>consumes\<close>), and the locale \<open>reader\<close>. \<open>Ordered\<close>: \<open>std::set\<close>
  and \<open>std::map\<close> as lists in iteration order. \<open>Alists\<close>: nested maps as association lists whose entries satisfy a predicate.

  \<^bold>\<open>Messages.\<close> \<open>Message\<close> (\<open>message\<close>, \<open>runtime/src/runtime_impl.cpp\<close>): round trip, exact domain and memory safety
  of \<open>deserialize_message\<close>.

  \<^bold>\<open>Segmentation.\<close> \<open>Tp\<close> (\<open>endpoints/src/tp.cpp\<close>) shows which segments are made and that the loop ends for a positive
  segment length and for no other. \<open>Tp_Message\<close> (\<open>tp_message.cpp\<close>) models \<open>add_segment\<close>; \<open>Tp_Reassembly\<close>
  shows that the segments in any order with duplicates give the message back. \<open>Tp_Reassembler\<close> (\<open>tp_reassembler.cpp\<close>)
  refines the nested maps to one map (locale \<open>message_table\<close>), shows that messages of different senders or message ids do not
  disturb each other, what cleanup removes, and what the timer does in every interleaving.

  \<^bold>\<open>End-to-end protection.\<close> \<open>Crc\<close> (\<open>crc.cpp\<close>): the tables implement bitwise division by the documented polynomials
  and every checksum detects a changed byte (locale \<open>crc_engine\<close>). \<open>E2e\<close>: profiles custom and 01. \<open>E2e_Counter\<close> and
  \<open>E2e_Stream\<close>: profiles 04, 05 and 07, what a receiver accepts of a stream of protected messages, and what it would accept if it did as
  documented (locales \<open>crc_frame\<close>, \<open>message_counter\<close>, \<open>e2e_stream\<close>).

  \<^bold>\<open>Service discovery.\<close> \<open>Sd_Option\<close>, \<open>Sd_Entry\<close>, \<open>Sd_Message\<close> model options, entries and messages with round trip,
  and show when exactly the parser leaves its buffer, and by how much; \<open>Sd_Assembly\<close> shows that messages built with \<open>add_entry_data\<close> stay within the size
  limit, are read back, and refer to the options they were given. Of the state machine
  (\<open>service_discovery_impl.cpp\<close>), \<open>Sd_Session\<close> models session numbers and the detection of reboots, and \<open>Sd_Offers\<close> the
  tables of remote offers, their well-formedness and what is registered under which address.

  \<^bold>\<open>Commands.\<close> \<open>Command\<close> holds the header and the locales \<open>wire_codec\<close> and \<open>wire_command\<close>, which every command class
  interprets: \<open>Command_Fixed\<close> (fixed size), \<open>Command_List\<close> (lists, send), \<open>Command_Events\<close>, \<open>Command_Config\<close>,
  \<open>Command_Subscribe\<close>, \<open>Command_Routing\<close>, \<open>Command_Security\<close> with \<open>Policy\<close> (\<open>security/src/policy.cpp\<close>).
  \<open>Protocol\<close> states transfer and memory safety for the classes that have them.

  \<^bold>\<open>Local transport.\<close> \<open>Client_Id\<close> (\<open>utility/src/utility.cpp\<close>): allocation of identifiers. \<open>Uds_Server\<close>
  (\<open>endpoints/src/local_uds_server_endpoint_impl.cpp\<close>) models acceptance, the receive buffer and the loop that cuts
  commands out of the byte stream. \<open>Uds_Stream\<close> proves what is delivered for every way of cutting the stream, up to the reads at which the endpoint
  closes the connection;
  \<open>Uds_Security\<close> that only admitted clients get through; \<open>Local_Message\<close> composes messages, commands and
  transport (\<open>routing/src/routing_manager_base.cpp\<close>, \<open>routing_manager_client.cpp\<close>) from sender to receiver.

  \<^bold>\<open>Policies.\<close> \<open>Policy_Manager\<close> (\<open>security/src/policy_manager_impl.cpp\<close>, \<open>security.cpp\<close>) models who may request, use and
  offer what, the cache of granted accesses, updates at run time and the table of client credentials.
  \<open>Policy_Cache\<close> shows that the cache changes no answer and what an update grants, and where the code departs from this;
  \<open>Uds_Policy\<close> puts the manager behind the local server endpoint.

  \<^bold>\<open>Tunnel.\<close> \<open>Tunnel\<close> (\<open>src/vsomeip/examples/tunnel/iceoryx2_bridge.cpp\<close>): the handlers in both directions, that a
  request is answered to its sender, and what an announcement does.

  \<^bold>\<open>Bounds.\<close> There is no fuel. Loops that end by their structure are total functions; loops that may not end are
  partial functions into the option type, and the theorems state that they return. Sizes
  are bounded only where the format bounds them: 32 bit length fields, the command size, the
  1380 bytes of a service discovery message, the 1500 bytes of a tunnel sample.

  \<^bold>\<open>Not modelled.\<close> The routing manager apart from the two functions above, the phases and timers of the service
  discovery state machine, the application object, the TCP and UDP endpoints and the endpoint managers: asynchronous
  code whose every step is a call into \<open>boost::asio\<close>, threads or timers. The configuration, and the loading of
  policies from it, which reads JSON through \<open>boost::property_tree\<close>: its values are arguments. Logging (apart from the reads that
  logging a tunnel sample does), tracing, plugins, the compatibility layer, examples, tools and
  tests; the installed headers of iceoryx.
\<close>

end
